(* ===== verification/Prelude.thy ===== *)
theory Prelude
  imports Main "HOL-Library.Word" "HOL-Library.Monad_Syntax" "HOL-Library.Signed_Division"
begin

text \<open>
  Shared vocabulary of the development: the widths of the C integer types that the sources use,
  32-bit signed arithmetic with overflow made visible, byte order, and the list and option lemmas
  that every component needs.

  A C \<^verbatim>\<open>int\<close> is an \<^typ>\<open>int\<close>. Where the code could leave the 32-bit range the
  operation is written with \<open>chk32\<close>, which gives \<^term>\<open>None\<close> on signed overflow; where a
  value is stored in an unsigned field its type is a word of that width, so that the store wraps.
  An operation of type \<open>'s \<Rightarrow> ('a \<times> 's) option\<close> threads the state \<open>'s\<close>;
  \<^term>\<open>None\<close> is a run that ends the process.
\<close>

unbundle bit_operations_syntax

section \<open>Integer types\<close>

type_synonym byte = "8 word"
type_synonym u16 = "16 word"
type_synonym u32 = "32 word"

named_theorems word_pack \<open>bytes packed into a 16-bit request field, and unpacked again\<close>
named_theorems state_frame \<open>what an operation leaves unchanged\<close>

definition int32_ok :: "int \<Rightarrow> bool" where
  "int32_ok x \<longleftrightarrow> - 2147483648 \<le> x \<and> x \<le> 2147483647"

definition chk32 :: "int \<Rightarrow> int option" where
  "chk32 x = (if int32_ok x then Some x else None)"

lemma chk32_Some [simp]: "chk32 x = Some y \<longleftrightarrow> int32_ok x \<and> y = x"
  by (auto simp: chk32_def)

lemma chk32_ok: "int32_ok x \<Longrightarrow> chk32 x = Some x"
  by (simp add: chk32_def)

text \<open>C's arithmetic on \<^verbatim>\<open>int\<close>: an operation whose result does not fit is undefined, as is a
  division by zero (and \<^verbatim>\<open>INT_MIN / -1\<close>, whose quotient does not fit). Division rounds towards
  zero.\<close>

definition cdiv :: "int \<Rightarrow> int \<Rightarrow> int option" where
  "cdiv a b = (if b = 0 then None else Some (a sdiv b))"

definition cmod :: "int \<Rightarrow> int \<Rightarrow> int option" where
  "cmod a b = (if b = 0 then None else Some (a smod b))"

definition c_add :: "int \<Rightarrow> int \<Rightarrow> int option" where "c_add a b = chk32 (a + b)"
definition c_sub :: "int \<Rightarrow> int \<Rightarrow> int option" where "c_sub a b = chk32 (a - b)"
definition c_mul :: "int \<Rightarrow> int \<Rightarrow> int option" where "c_mul a b = chk32 (a * b)"
definition c_div :: "int \<Rightarrow> int \<Rightarrow> int option" where
  "c_div a b = (if b = 0 then None else chk32 (a sdiv b))"

lemma smod_nonneg_pos: "0 \<le> a \<Longrightarrow> 0 < b \<Longrightarrow> (a::int) smod b = a mod b"
  by (simp add: signed_modulo_int_def signed_divide_int_def minus_div_mult_eq_mod sgn_if)

lemma cmod_nonneg: "0 \<le> a \<Longrightarrow> 0 < b \<Longrightarrow> cmod a b = Some (a mod b)"
  by (simp add: cmod_def smod_nonneg_pos)

lemma sdiv_pos: "0 \<le> a \<Longrightarrow> 0 < b \<Longrightarrow> (a::int) sdiv b = a div b"
  by (simp add: signed_divide_int_def sgn_if)

lemma div_bounds: "0 < d \<Longrightarrow> (a::int) div d * d \<le> a \<and> a < (a div d + 1) * d"
  using minus_mod_eq_div_mult [of a d] pos_mod_bound [of d a] pos_mod_sign [of d a]
  unfolding distrib_right by linarith

text \<open>C's \<^verbatim>\<open>x << n\<close> and \<^verbatim>\<open>x >> n\<close> on an \<^verbatim>\<open>int\<close>; the right shift of a negative value is
  arithmetic, as gcc defines it.\<close>

lemma drop_bit_int_mono: "(a::int) \<le> b \<Longrightarrow> drop_bit n a \<le> drop_bit n b"
  by (simp add: drop_bit_eq_div zdiv_mono1)

section \<open>Bytes in 16-bit fields\<close>

text \<open>\<^verbatim>\<open>lo | (((int)hi) << 8)\<close>, the way every driver here packs two bytes into one field of a USB
  control request.\<close>

definition pack16 :: "byte \<Rightarrow> byte \<Rightarrow> int" where
  "pack16 lo hi = uint lo OR push_bit 8 (uint hi)"

definition lo8 :: "int \<Rightarrow> byte" where
  "lo8 w = word_of_int w"

definition hi8 :: "int \<Rightarrow> byte" where
  "hi8 w = word_of_int (drop_bit 8 w)"

lemma uint8_lt [simp]: "uint (b :: byte) < 256"
  using uint_lt2p [of b] by simp

lemma uint8_ge [simp]: "0 \<le> uint (b :: byte)"
  by simp

lemma pack16_eq [word_pack]: "pack16 lo hi = uint lo + 256 * uint hi"
proof -
  have z: "uint lo AND push_bit 8 (uint hi) = 0"
  proof (rule bit_eqI)
    fix n
    show "bit (uint lo AND push_bit 8 (uint hi)) n = bit (0::int) n"
      by (auto simp: bit_and_iff bit_push_bit_iff bit_uint_iff)
  qed
  have "uint lo OR push_bit 8 (uint hi) = uint lo + push_bit 8 (uint hi)"
    using z by (simp add: disjunctive_add_eq_or)
  then show ?thesis
    by (simp add: pack16_def push_bit_eq_mult)
qed

lemma lo8_pack16 [simp, word_pack]: "lo8 (pack16 lo hi) = lo"
  by (rule bit_word_eqI) (simp add: lo8_def pack16_def bit_word_of_int_iff bit_or_iff bit_push_bit_iff
      bit_uint_iff)

lemma hi8_pack16 [simp, word_pack]: "hi8 (pack16 lo hi) = hi"
  by (rule bit_word_eqI) (simp add: hi8_def pack16_def bit_word_of_int_iff bit_or_iff bit_push_bit_iff
      bit_uint_iff bit_drop_bit_eq)

lemma lo8_uint [simp]: "lo8 (uint b) = b"
  by (simp add: lo8_def)

lemma pack16_range: "0 \<le> pack16 lo hi \<and> pack16 lo hi < 65536"
proof -
  have "uint lo < 256" "uint hi < 256" "0 \<le> uint lo" "0 \<le> uint hi"
    by simp_all
  then show ?thesis
    unfolding pack16_eq by linarith
qed

section \<open>Bounded copies\<close>

text \<open>A read past the end of a C array returns whatever is stored there: \<open>junk\<close>.\<close>

definition byte_at :: "byte \<Rightarrow> byte list \<Rightarrow> nat \<Rightarrow> byte" where
  "byte_at junk xs i = (if i < length xs then xs ! i else junk)"

lemma byte_at_nth [simp]: "i < length xs \<Longrightarrow> byte_at junk xs i = xs ! i"
  by (simp add: byte_at_def)

text \<open>A device that answers with \<open>d\<close> into a buffer that held \<open>buf\<close>: at most the buffer is written, and
  a short answer leaves its tail as it was.\<close>

definition overlay :: "'a list \<Rightarrow> 'a list \<Rightarrow> 'a list" where
  "overlay d buf = take (length buf) d @ drop (length d) buf"

lemma length_overlay [simp]: "length (overlay d buf) = length buf"
  by (simp add: overlay_def)

lemma overlay_full [simp]: "length d = length buf \<Longrightarrow> overlay d buf = d"
  by (simp add: overlay_def)

lemma overlay_Nil [simp]: "overlay [] buf = buf"
  by (simp add: overlay_def)

section \<open>Lists\<close>

lemma take_drop_split: "m \<le> n \<Longrightarrow> take n xs = take m xs @ take (n - m) (drop m xs)"
  by (metis add_diff_inverse_nat not_less take_add)

lemma length_4E: "length d = 4 \<Longrightarrow> \<exists>a b c e. d = [a, b, c, e]"
  by (auto simp: numeral_eq_Suc length_Suc_conv)

lemma nth_take_drop: "i < n \<Longrightarrow> a + i < length xs \<Longrightarrow> take n (drop a xs) ! i = xs ! (a + i)"
  by simp

end
