(* ===== verification/Rcpod_Command.thy ===== *)
theory Rcpod_Command
  imports Prelude
begin

text \<open>
  librcpod, the host library of the Remote Controlled PIC of Doom: the device structure of
  \<^verbatim>\<open>rcpod/include/rcpod_private.h\<close>, the pin descriptor macros of \<^verbatim>\<open>rcpod.h\<close> and the low-level
  and medium-level commands of \<^verbatim>\<open>rcpod/src/command.c\<close> (memory, GPIO and analog; the serial port
  is in \<open>Rcpod_Serial\<close>).

  The library talks to the hardware with libusb's \<^verbatim>\<open>usb_control_msg\<close>, which is not part of the
  repository: it is the argument \<open>usb\<close> of every operation, a function of the request and of
  the state of the hardware that gives the return value, the bytes received and the next state.
  An input array with its length is the list of its elements; an output array is the list of its old
  contents. Every operation gives \<^term>\<open>None\<close> when the process ended, which the default error
  handler and a division by zero make it do.
\<close>

section \<open>The device structure\<close>

record usb_ctrl =
  bRequestType :: nat
  bRequest :: nat
  wValue :: int
  wIndex :: int
  wLength :: nat

type_synonym 's usb = "usb_ctrl \<Rightarrow> 's \<Rightarrow> (int \<times> byte list) \<times> 's"

abbreviation (input) USB_TYPE_VENDOR :: nat where "USB_TYPE_VENDOR \<equiv> 0x40"
abbreviation (input) USB_ENDPOINT_IN :: nat where "USB_ENDPOINT_IN \<equiv> 0x80"

abbreviation (input) RCPOD_CTRL_POKE :: nat where "RCPOD_CTRL_POKE \<equiv> 0x01"
abbreviation (input) RCPOD_CTRL_PEEK :: nat where "RCPOD_CTRL_PEEK \<equiv> 0x02"
abbreviation (input) RCPOD_CTRL_POKE4 :: nat where "RCPOD_CTRL_POKE4 \<equiv> 0x03"
abbreviation (input) RCPOD_CTRL_PEEK8 :: nat where "RCPOD_CTRL_PEEK8 \<equiv> 0x04"
abbreviation (input) RCPOD_CTRL_ANALOG_ALL :: nat where "RCPOD_CTRL_ANALOG_ALL \<equiv> 0x10"
abbreviation (input) RCPOD_CTRL_USART_TXRX :: nat where "RCPOD_CTRL_USART_TXRX \<equiv> 0x20"
abbreviation (input) RCPOD_CTRL_USART_TXE :: nat where "RCPOD_CTRL_USART_TXE \<equiv> 0x21"
abbreviation (input) RCPOD_CTRL_USART_RX_PROGRESS :: nat where "RCPOD_CTRL_USART_RX_PROGRESS \<equiv> 0x22"
abbreviation (input) RCPOD_CTRL_I2C_SET :: nat where "RCPOD_CTRL_I2C_SET \<equiv> 0x30"
abbreviation (input) RCPOD_CTRL_I2C_WRITE0 :: nat where "RCPOD_CTRL_I2C_WRITE0 \<equiv> 0x31"
abbreviation (input) RCPOD_CTRL_I2C_WRITE1 :: nat where "RCPOD_CTRL_I2C_WRITE1 \<equiv> 0x32"
abbreviation (input) RCPOD_CTRL_I2C_WRITE2 :: nat where "RCPOD_CTRL_I2C_WRITE2 \<equiv> 0x33"
abbreviation (input) RCPOD_CTRL_I2C_WRITE3 :: nat where "RCPOD_CTRL_I2C_WRITE3 \<equiv> 0x34"
abbreviation (input) RCPOD_CTRL_I2C_WRITE4 :: nat where "RCPOD_CTRL_I2C_WRITE4 \<equiv> 0x35"
abbreviation (input) RCPOD_CTRL_I2C_READ8 :: nat where "RCPOD_CTRL_I2C_READ8 \<equiv> 0x36"
abbreviation (input) RCPOD_CTRL_I2C_W1READ8 :: nat where "RCPOD_CTRL_I2C_W1READ8 \<equiv> 0x37"
abbreviation (input) RCPOD_CTRL_I2C_TXRX :: nat where "RCPOD_CTRL_I2C_TXRX \<equiv> 0x38"
abbreviation (input) RCPOD_CTRL_GPIO_ASSERT :: nat where "RCPOD_CTRL_GPIO_ASSERT \<equiv> 0x40"
abbreviation (input) RCPOD_CTRL_GPIO_READ :: nat where "RCPOD_CTRL_GPIO_READ \<equiv> 0x41"

abbreviation (input) RCPOD_REG_SCRATCHPAD :: int where "RCPOD_REG_SCRATCHPAD \<equiv> 0x20"
abbreviation (input) RCPOD_SCRATCHPAD_SIZE :: int where "RCPOD_SCRATCHPAD_SIZE \<equiv> 0x5D"

type_synonym rcpod_pin = byte

record rcpod_i2c_dev =
  i2c_speed :: int
  i2c_clock :: rcpod_pin
  i2c_data :: rcpod_pin
  i2c_address :: byte
  i2c_padding :: byte

text \<open>What the library reports to the error handler: a failed USB transfer, an argument it refuses, an
  overrun of the receive buffer, or a device it cannot use; each with the function's name.\<close>

datatype pod_error = ErrUsb string | ErrInval string | ErrIO string | ErrDevice string

datatype error_handler = DefaultErrorHandler | UserErrorHandler nat

text \<open>\<^verbatim>\<open>struct tag_rcpod_dev\<close> with the state \<open>hw\<close> of the hardware behind \<^verbatim>\<open>usbdevh\<close>, the
  global error handler and what it has been told so far. \<open>stack_junk\<close> is what an uninitialised
  local variable holds.\<close>

record 's pod =
  hw :: 's
  bcdDevice :: nat
  rx_size :: int
  rx_address :: int
  rx_last_count8 :: int
  rx_count :: int
  rx_unread :: int
  rx_tail_index :: int
  last_i2c_dev :: rcpod_i2c_dev
  last_i2c_dev_valid :: bool
  pod_handler :: error_handler
  pod_reports :: "pod_error list"
  stack_junk :: byte

definition rcpod_HandleError :: "pod_error \<Rightarrow> 's pod \<Rightarrow> 's pod option" where
  "rcpod_HandleError e p =
     (case pod_handler p of
        DefaultErrorHandler \<Rightarrow> None
      | UserErrorHandler _ \<Rightarrow> Some (p\<lparr>pod_reports := pod_reports p @ [e]\<rparr>))"

definition usb_control_msg :: "'s usb \<Rightarrow> usb_ctrl \<Rightarrow> 's pod \<Rightarrow> int \<times> byte list \<times> 's pod" where
  "usb_control_msg usb c p = (case usb c (hw p) of ((r, d), s) \<Rightarrow> (r, d, p\<lparr>hw := s\<rparr>))"

section \<open>Pin descriptors\<close>

abbreviation (input) RCPOD_PIN_TRIS :: byte where "RCPOD_PIN_TRIS \<equiv> 0x40"
abbreviation (input) RCPOD_PIN_HIGH :: byte where "RCPOD_PIN_HIGH \<equiv> 0x80"

definition RCPOD_OUTPUT :: "rcpod_pin \<Rightarrow> rcpod_pin" where
  "RCPOD_OUTPUT pin = (pin OR RCPOD_PIN_TRIS) AND NOT RCPOD_PIN_HIGH"

definition RCPOD_INPUT :: "rcpod_pin \<Rightarrow> rcpod_pin" where
  "RCPOD_INPUT pin = pin OR RCPOD_PIN_TRIS OR RCPOD_PIN_HIGH"

definition RCPOD_NEGATE :: "rcpod_pin \<Rightarrow> rcpod_pin" where
  "RCPOD_NEGATE pin = pin XOR RCPOD_PIN_HIGH"

section \<open>Low-level commands\<close>

text \<open>Requests that send nothing but their header end the same way: a negative return value goes to the
  error handler.\<close>

definition vendor_out :: "'s usb \<Rightarrow> string \<Rightarrow> nat \<Rightarrow> int \<Rightarrow> int \<Rightarrow> 's pod \<Rightarrow> 's pod option" where
  "vendor_out usb fn req v i p =
     (case usb_control_msg usb \<lparr>bRequestType = USB_TYPE_VENDOR, bRequest = req, wValue = v,
        wIndex = i, wLength = 0\<rparr> p of
        (r, _, p) \<Rightarrow> if r < 0 then rcpod_HandleError (ErrUsb fn) p else Some p)"

definition vendor_in :: "'s usb \<Rightarrow> nat \<Rightarrow> int \<Rightarrow> int \<Rightarrow> nat \<Rightarrow> 's pod \<Rightarrow> int \<times> byte list \<times> 's pod" where
  "vendor_in usb req v i n p =
     usb_control_msg usb \<lparr>bRequestType = USB_TYPE_VENDOR + USB_ENDPOINT_IN, bRequest = req,
       wValue = v, wIndex = i, wLength = n\<rparr> p"

text \<open>A request for one byte: \<^verbatim>\<open>0\<close> after a reported failure, and what the local variable held when the
  device answered with an empty packet.\<close>

definition vendor_in1 :: "'s usb \<Rightarrow> string \<Rightarrow> nat \<Rightarrow> int \<Rightarrow> int \<Rightarrow> 's pod \<Rightarrow> (byte \<times> 's pod) option" where
  "vendor_in1 usb fn req v i p =
     (case vendor_in usb req v i 1 p of
        (r, d, p) \<Rightarrow>
          if r < 0 then do { p \<leftarrow> rcpod_HandleError (ErrUsb fn) p; Some (0, p) }
          else Some (byte_at (stack_junk p) d 0, p))"

text \<open>A request for a fixed number of bytes into the caller's array.\<close>

definition vendor_in_buf :: "'s usb \<Rightarrow> string \<Rightarrow> nat \<Rightarrow> int \<Rightarrow> int \<Rightarrow> byte list \<Rightarrow> 's pod
    \<Rightarrow> (byte list \<times> 's pod) option" where
  "vendor_in_buf usb fn req v i buf p =
     (case vendor_in usb req v i (length buf) p of
        (r, d, p) \<Rightarrow>
          if r < 0 then do { p \<leftarrow> rcpod_HandleError (ErrUsb fn) p; Some (overlay d buf, p) }
          else Some (overlay d buf, p))"

definition rcpod_Poke :: "'s usb \<Rightarrow> int \<Rightarrow> byte \<Rightarrow> 's pod \<Rightarrow> 's pod option" where
  "rcpod_Poke usb addr b p = vendor_out usb ''rcpod_Poke'' RCPOD_CTRL_POKE (uint b) addr p"

definition rcpod_Peek :: "'s usb \<Rightarrow> int \<Rightarrow> 's pod \<Rightarrow> (byte \<times> 's pod) option" where
  "rcpod_Peek usb addr p = vendor_in1 usb ''rcpod_Peek'' RCPOD_CTRL_PEEK 0 addr p"

definition rcpod_Poke4 :: "'s usb \<Rightarrow> byte list \<Rightarrow> 's pod \<Rightarrow> 's pod option" where
  "rcpod_Poke4 usb d p =
     vendor_out usb ''rcpod_Poke4'' RCPOD_CTRL_POKE4 (pack16 (d ! 0) (d ! 1)) (pack16 (d ! 2) (d ! 3)) p"

definition rcpod_Peek8 :: "'s usb \<Rightarrow> int \<Rightarrow> byte list \<Rightarrow> 's pod \<Rightarrow> (byte list \<times> 's pod) option" where
  "rcpod_Peek8 usb addr buf p = vendor_in_buf usb ''rcpod_Peek8'' RCPOD_CTRL_PEEK8 0 addr buf p"

definition rcpod_AnalogReadAll :: "'s usb \<Rightarrow> byte list \<Rightarrow> 's pod \<Rightarrow> (byte list \<times> 's pod) option" where
  "rcpod_AnalogReadAll usb buf p =
     vendor_in_buf usb ''rcpod_AnalogReadAll'' RCPOD_CTRL_ANALOG_ALL 0 0 buf p"

text \<open>Starting a transfer always forgets the receive in progress, whether or not the request got
  through.\<close>

definition rcpod_UsartTxRx :: "'s usb \<Rightarrow> int \<Rightarrow> int \<Rightarrow> int \<Rightarrow> 's pod \<Rightarrow> 's pod option" where
  "rcpod_UsartTxRx usb addr txBytes rxBytes p = do {
     p \<leftarrow> vendor_out usb ''rcpod_UsartTxRx'' RCPOD_CTRL_USART_TXRX
           (txBytes OR push_bit 8 rxBytes) addr p;
     let p = p\<lparr>rx_size := 0, rx_address := 0, rx_last_count8 := 0, rx_count := 0,
               rx_unread := 0, rx_tail_index := 0\<rparr>;
     Some (if rxBytes \<noteq> 0 then p\<lparr>rx_address := addr, rx_size := rxBytes\<rparr> else p)
   }"

definition rcpod_UsartRxProgress :: "'s usb \<Rightarrow> 's pod \<Rightarrow> (int \<times> 's pod) option" where
  "rcpod_UsartRxProgress usb p = do {
     (b, p) \<leftarrow> vendor_in1 usb ''rcpod_UsartRxProgress'' RCPOD_CTRL_USART_RX_PROGRESS 0 0 p;
     Some (uint b, p)
   }"

definition rcpod_UsartTxe :: "'s usb \<Rightarrow> rcpod_pin \<Rightarrow> 's pod \<Rightarrow> 's pod option" where
  "rcpod_UsartTxe usb txe p = vendor_out usb ''rcpod_UsartTxe'' RCPOD_CTRL_USART_TXE (uint txe) 0 p"

definition rcpod_GpioAssert4 :: "'s usb \<Rightarrow> rcpod_pin list \<Rightarrow> 's pod \<Rightarrow> 's pod option" where
  "rcpod_GpioAssert4 usb pins p =
     vendor_out usb ''rcpod_GpioAssert4'' RCPOD_CTRL_GPIO_ASSERT
       (pack16 (pins ! 0) (pins ! 1)) (pack16 (pins ! 2) (pins ! 3)) p"

definition rcpod_GpioTest :: "'s usb \<Rightarrow> rcpod_pin \<Rightarrow> 's pod \<Rightarrow> (int \<times> 's pod) option" where
  "rcpod_GpioTest usb pin p = do {
     (b, p) \<leftarrow> vendor_in1 usb ''rcpod_GpioTest'' RCPOD_CTRL_GPIO_READ 0 (uint pin) p;
     Some (uint b, p)
   }"

section \<open>Medium-level commands\<close>

function rcpod_PeekBuffer :: "'s usb \<Rightarrow> int \<Rightarrow> byte list \<Rightarrow> 's pod \<Rightarrow> (byte list \<times> 's pod) option" where
  "rcpod_PeekBuffer usb addr buffer p =
     (if 0 < length buffer then
        if 8 \<le> length buffer then do {
          (b8, p) \<leftarrow> rcpod_Peek8 usb addr (take 8 buffer) p;
          (rest, p) \<leftarrow> rcpod_PeekBuffer usb (addr + 8) (drop 8 buffer) p;
          Some (b8 @ rest, p)
        } else do {
          (b, p) \<leftarrow> rcpod_Peek usb addr p;
          (rest, p) \<leftarrow> rcpod_PeekBuffer usb (addr + 1) (drop 1 buffer) p;
          Some (b # rest, p)
        }
      else Some ([], p))"
  by pat_completeness auto
termination
  by (relation "measure (\<lambda>(_, _, buffer, _). length buffer)") auto

function rcpod_PokeBuffer_loop :: "'s usb \<Rightarrow> int \<Rightarrow> byte list \<Rightarrow> 's pod \<Rightarrow> 's pod option" where
  "rcpod_PokeBuffer_loop usb addr buffer p =
     (if 0 < length buffer then
        if 4 \<le> length buffer then do {
          p \<leftarrow> rcpod_Poke4 usb (take 4 buffer) p;
          rcpod_PokeBuffer_loop usb (addr + 4) (drop 4 buffer) p
        } else do {
          p \<leftarrow> rcpod_Poke usb addr (buffer ! 0) p;
          rcpod_PokeBuffer_loop usb (addr + 1) (drop 1 buffer) p
        }
      else Some p)"
  by pat_completeness auto
termination
  by (relation "measure (\<lambda>(_, _, buffer, _). length buffer)") auto

definition rcpod_PokeBuffer :: "'s usb \<Rightarrow> int \<Rightarrow> byte list \<Rightarrow> 's pod \<Rightarrow> 's pod option" where
  "rcpod_PokeBuffer usb addr buffer p =
     (if 0 < length buffer then do {
        p \<leftarrow> rcpod_Poke usb addr (buffer ! 0) p;
        rcpod_PokeBuffer_loop usb (addr + 1) (drop 1 buffer) p
      } else Some p)"

definition rcpod_GpioAssert :: "'s usb \<Rightarrow> rcpod_pin \<Rightarrow> 's pod \<Rightarrow> 's pod option" where
  "rcpod_GpioAssert usb pin p = rcpod_GpioAssert4 usb [pin, 0, 0, 0] p"

function rcpod_GpioAssertBuffer :: "'s usb \<Rightarrow> rcpod_pin list \<Rightarrow> 's pod \<Rightarrow> 's pod option" where
  "rcpod_GpioAssertBuffer usb pins p =
     (if 4 \<le> length pins then do {
        p \<leftarrow> rcpod_GpioAssert4 usb (take 4 pins) p;
        rcpod_GpioAssertBuffer usb (drop 4 pins) p
      } else if 0 < length pins then rcpod_GpioAssert4 usb (overlay pins [0, 0, 0, 0]) p
      else Some p)"
  by pat_completeness auto
termination
  by (relation "measure (\<lambda>(_, pins, _). length pins)") auto

definition rcpod_GpioDeassert :: "'s usb \<Rightarrow> rcpod_pin \<Rightarrow> 's pod \<Rightarrow> 's pod option" where
  "rcpod_GpioDeassert usb pin p = rcpod_GpioAssert usb (RCPOD_NEGATE pin) p"

function rcpod_GpioDeassertBuffer :: "'s usb \<Rightarrow> rcpod_pin list \<Rightarrow> 's pod \<Rightarrow> 's pod option" where
  "rcpod_GpioDeassertBuffer usb pins p =
     (if 0 < length pins then
        let blockSize = (if 4 < length pins then 4 else length pins) in
        do {
          p \<leftarrow> rcpod_GpioAssertBuffer usb (map RCPOD_NEGATE (take blockSize pins)) p;
          rcpod_GpioDeassertBuffer usb (drop blockSize pins) p
        }
      else Some p)"
  by pat_completeness auto
termination
  by (relation "measure (\<lambda>(_, pins, _). length pins)") (auto split: if_splits)

abbreviation (input) RCPOD_REG_ADRES :: int where "RCPOD_REG_ADRES \<equiv> 0x1E"
abbreviation (input) RCPOD_REG_ADCON0 :: int where "RCPOD_REG_ADCON0 \<equiv> 0x1F"

definition rcpod_AnalogReadChannel :: "'s usb \<Rightarrow> int \<Rightarrow> 's pod \<Rightarrow> (byte \<times> 's pod) option" where
  "rcpod_AnalogReadChannel usb channel p = do {
     p \<leftarrow> rcpod_Poke usb RCPOD_REG_ADCON0 (word_of_int (0x81 OR push_bit 3 channel)) p;
     p \<leftarrow> rcpod_Poke usb RCPOD_REG_ADCON0 (word_of_int (0x85 OR push_bit 3 channel)) p;
     rcpod_Peek usb RCPOD_REG_ADRES p
   }"

declare rcpod_PeekBuffer.simps [simp del] rcpod_PokeBuffer_loop.simps [simp del]
  rcpod_GpioAssertBuffer.simps [simp del] rcpod_GpioDeassertBuffer.simps [simp del]

end
