(* ===== verification/Rcpod_Protocol.thy ===== *)
theory Rcpod_Protocol
  imports Rcpod_Command
begin

text \<open>
  The device side of the rcpod protocol, as \<^verbatim>\<open>rcpod/include/rcpod_protocol.h\<close> documents each
  request: 512 bytes of memory behind a 9-bit address, the address of the last poke, the pin
  descriptors and the USART's transmit and receive buffers. \<open>pic_usb\<close> is an instance of the parameter
  \<open>usb\<close> of \<open>Rcpod_Command\<close>. The locale \<open>pod_memory\<close> is what the library's block transfers need of
  a device, and \<open>pic_usb\<close> provides it.
\<close>

section \<open>The state of the device\<close>

record pic =
  ram :: "nat \<Rightarrow> byte"
  last_poke :: nat
  txe_pin :: byte
  tx_log :: "byte list"
  rx_base :: nat
  rx_len :: nat
  rx_total :: nat
  pin_level :: "nat \<Rightarrow> nat \<Rightarrow> bool"

abbreviation (input) RCPOD_MEM_SIZE :: nat where "RCPOD_MEM_SIZE \<equiv> 0x200"

definition mem_addr :: "int \<Rightarrow> nat" where
  "mem_addr i = nat (i mod 512)"

lemma mem_addr_less [simp]: "mem_addr i < 512"
  by (simp add: mem_addr_def nat_less_iff)

lemma mem_addr_of_nat [simp]: "a < 512 \<Longrightarrow> mem_addr (int a) = a"
  by (simp add: mem_addr_def)

definition poke_next :: "byte \<Rightarrow> pic \<Rightarrow> pic" where
  "poke_next b s = (let a = (last_poke s + 1) mod 512 in s\<lparr>ram := (ram s)(a := b), last_poke := a\<rparr>)"

section \<open>Pin descriptors on the device\<close>

definition pin_bit :: "byte \<Rightarrow> nat" where "pin_bit p = unat (p AND 7)"
definition pin_port :: "byte \<Rightarrow> nat" where "pin_port p = unat (drop_bit 3 p AND 7)"
definition pin_tris :: "byte \<Rightarrow> bool" where "pin_tris p = bit p 6"
definition pin_high :: "byte \<Rightarrow> bool" where "pin_high p = bit p 7"

definition pin_real :: "byte \<Rightarrow> bool" where
  "pin_real p \<longleftrightarrow> 1 \<le> pin_port p \<and> pin_port p \<le> 5"

text \<open>PORTA to PORTE are the registers 5 to 9, TRISA to TRISE 0x85 to 0x89.\<close>

definition pin_reg :: "byte \<Rightarrow> nat" where
  "pin_reg p = (if pin_tris p then 0x84 else 0x04) + pin_port p"

definition pin_assert :: "byte \<Rightarrow> pic \<Rightarrow> pic" where
  "pin_assert p s =
     (if pin_real p then
        s\<lparr>ram := (ram s)(pin_reg p :=
           (if pin_high p then set_bit (pin_bit p) (ram s (pin_reg p))
            else unset_bit (pin_bit p) (ram s (pin_reg p))))\<rparr>
      else s)"

definition pin_read :: "byte \<Rightarrow> pic \<Rightarrow> byte" where
  "pin_read p s =
     (let v = (if pin_tris p then bit (ram s (pin_reg p)) (pin_bit p)
               else pin_level s (pin_port p) (pin_bit p))
      in of_bool (v = pin_high p))"

section \<open>The request table\<close>

definition pic_peek :: "int \<Rightarrow> nat \<Rightarrow> pic \<Rightarrow> byte list" where
  "pic_peek i n s = map (\<lambda>k. ram s (mem_addr (i + int k))) [0..<n]"

definition pic_usb :: "pic usb" where
  "pic_usb c s =
     (if bRequest c = RCPOD_CTRL_POKE then
        ((0, []), s\<lparr>ram := (ram s)(mem_addr (wIndex c) := lo8 (wValue c)), last_poke := mem_addr (wIndex c)\<rparr>)
      else if bRequest c = RCPOD_CTRL_PEEK then ((1, pic_peek (wIndex c) 1 s), s)
      else if bRequest c = RCPOD_CTRL_POKE4 then
        ((0, []), fold poke_next [lo8 (wValue c), hi8 (wValue c), lo8 (wIndex c), hi8 (wIndex c)] s)
      else if bRequest c = RCPOD_CTRL_PEEK8 then ((8, pic_peek (wIndex c) 8 s), s)
      else if bRequest c = RCPOD_CTRL_GPIO_ASSERT then
        ((0, []), fold pin_assert [lo8 (wValue c), hi8 (wValue c), lo8 (wIndex c), hi8 (wIndex c)] s)
      else if bRequest c = RCPOD_CTRL_GPIO_READ then ((1, [pin_read (lo8 (wIndex c)) s]), s)
      else if bRequest c = RCPOD_CTRL_USART_TXE then ((0, []), s\<lparr>txe_pin := lo8 (wValue c)\<rparr>)
      else if bRequest c = RCPOD_CTRL_USART_TXRX then
        ((0, []), s\<lparr>tx_log := tx_log s @ pic_peek (wIndex c) (unat (lo8 (wValue c))) s,
                    rx_base := mem_addr (wIndex c), rx_len := unat (hi8 (wValue c)), rx_total := 0\<rparr>)
      else if bRequest c = RCPOD_CTRL_USART_RX_PROGRESS then ((1, [of_nat (rx_total s)]), s)
      else ((- 32, []), s))"

text \<open>A byte arrives on the serial line while a receive runs: it is stored at the next place of the
  ring, which wraps after \<open>rx_len\<close> bytes.\<close>

definition pic_receive :: "byte \<Rightarrow> pic \<Rightarrow> pic" where
  "pic_receive b s =
     (if rx_len s = 0 then s
      else s\<lparr>ram := (ram s)((rx_base s + rx_total s mod rx_len s) mod 512 := b),
             rx_total := rx_total s + 1\<rparr>)"

section \<open>What the block transfers need of a device\<close>

text \<open>
  The device's requests for memory, as laws over an abstract memory \<open>mem\<close> and an abstract position
  \<open>pos\<close> of the last poke.
\<close>

locale pod_memory =
  fixes usb :: "'s usb"
    and mem :: "'s \<Rightarrow> nat \<Rightarrow> byte"
    and pos :: "'s \<Rightarrow> nat"
  assumes poke_ok: "fst (usb \<lparr>bRequestType = USB_TYPE_VENDOR, bRequest = RCPOD_CTRL_POKE,
        wValue = uint b, wIndex = i, wLength = 0\<rparr> s) = (0, [])"
    and poke_mem: "mem (snd (usb \<lparr>bRequestType = USB_TYPE_VENDOR, bRequest = RCPOD_CTRL_POKE,
        wValue = uint b, wIndex = i, wLength = 0\<rparr> s)) = (mem s)(mem_addr i := b)"
    and poke_pos: "pos (snd (usb \<lparr>bRequestType = USB_TYPE_VENDOR, bRequest = RCPOD_CTRL_POKE,
        wValue = uint b, wIndex = i, wLength = 0\<rparr> s)) = mem_addr i"
    and poke4_ok: "fst (usb \<lparr>bRequestType = USB_TYPE_VENDOR, bRequest = RCPOD_CTRL_POKE4,
        wValue = pack16 a b, wIndex = pack16 c d, wLength = 0\<rparr> s) = (0, [])"
    and poke4_mem: "mem (snd (usb \<lparr>bRequestType = USB_TYPE_VENDOR, bRequest = RCPOD_CTRL_POKE4,
        wValue = pack16 a b, wIndex = pack16 c d, wLength = 0\<rparr> s)) =
          (mem s)((pos s + 1) mod 512 := a, (pos s + 2) mod 512 := b,
                  (pos s + 3) mod 512 := c, (pos s + 4) mod 512 := d)"
    and poke4_pos: "pos (snd (usb \<lparr>bRequestType = USB_TYPE_VENDOR, bRequest = RCPOD_CTRL_POKE4,
        wValue = pack16 a b, wIndex = pack16 c d, wLength = 0\<rparr> s)) = (pos s + 4) mod 512"
    and peek_ok: "usb \<lparr>bRequestType = USB_TYPE_VENDOR + USB_ENDPOINT_IN, bRequest = RCPOD_CTRL_PEEK,
        wValue = 0, wIndex = i, wLength = 1\<rparr> s = ((1, [mem s (mem_addr i)]), s)"
    and peek8_ok: "usb \<lparr>bRequestType = USB_TYPE_VENDOR + USB_ENDPOINT_IN, bRequest = RCPOD_CTRL_PEEK8,
        wValue = 0, wIndex = i, wLength = 8\<rparr> s =
          ((8, map (\<lambda>k. mem s (mem_addr (i + int k))) [0..<8]), s)"

text \<open>The effect of writing a block, the wrap at the end of the memory included.\<close>

fun put_bytes :: "int \<Rightarrow> byte list \<Rightarrow> (nat \<Rightarrow> byte) \<Rightarrow> nat \<Rightarrow> byte" where
  "put_bytes i [] m = m"
| "put_bytes i (b # bs) m = put_bytes (i + 1) bs (m(mem_addr i := b))"

definition get_bytes :: "int \<Rightarrow> nat \<Rightarrow> (nat \<Rightarrow> byte) \<Rightarrow> byte list" where
  "get_bytes i n m = map (\<lambda>k. m (mem_addr (i + int k))) [0..<n]"

lemma length_get_bytes [simp]: "length (get_bytes i n m) = n"
  by (simp add: get_bytes_def)

lemma get_bytes_add: "get_bytes i (j + k) m = get_bytes i j m @ get_bytes (i + int j) k m"
  by (rule nth_equalityI) (auto simp: get_bytes_def nth_append)

lemma int_mem_addr: "int (mem_addr i) = i mod 512"
  by (simp add: mem_addr_def)

lemma mem_addr_shift: "mem_addr (i + int k) = (mem_addr i + k) mod 512"
proof -
  have "int (mem_addr (i + int k)) = int ((mem_addr i + k) mod 512)"
    by (simp add: int_mem_addr zmod_int mod_add_left_eq)
  then show ?thesis by (simp only: of_nat_eq_iff)
qed

lemma mem_addr_shift_inj:
  assumes "j < 512" "k < 512" "mem_addr (i + int j) = mem_addr (i + int k)"
  shows "j = k"
proof -
  have "(i + int j) mod 512 = (i + int k) mod 512"
    using assms(3) by (simp flip: int_mem_addr)
  then have "int j mod 512 = int k mod 512"
    by (metis add_diff_cancel_left' mod_diff_left_eq)
  with assms(1,2) show ?thesis by simp
qed

lemma put_bytes_other:
  assumes "\<And>k. k < length bs \<Longrightarrow> a \<noteq> mem_addr (i + int k)"
  shows "put_bytes i bs m a = m a"
  using assms
proof (induction bs arbitrary: i m)
  case Nil
  then show ?case by simp
next
  case (Cons b bs)
  have "a \<noteq> mem_addr i" using Cons.prems [of 0] by simp
  moreover have "put_bytes (i + 1) bs (m(mem_addr i := b)) a = (m(mem_addr i := b)) a"
  proof (rule Cons.IH)
    fix k assume "k < length bs"
    then show "a \<noteq> mem_addr (i + 1 + int k)"
      using Cons.prems [of "Suc k"] by (simp add: add.assoc)
  qed
  ultimately show ?case by simp
qed

lemma put_bytes_nth:
  assumes "k < length bs" "length bs \<le> 512"
  shows "put_bytes i bs m (mem_addr (i + int k)) = bs ! k"
  using assms
proof (induction bs arbitrary: i m k)
  case Nil
  then show ?case by simp
next
  case (Cons b bs)
  show ?case
  proof (cases k)
    case 0
    have "put_bytes (i + 1) bs (m(mem_addr i := b)) (mem_addr i) = (m(mem_addr i := b)) (mem_addr i)"
    proof (rule put_bytes_other)
      fix j assume "j < length bs"
      then show "mem_addr i \<noteq> mem_addr (i + 1 + int j)"
        using Cons.prems mem_addr_shift_inj [of 0 "Suc j" i] by (auto simp: add.assoc)
    qed
    with 0 show ?thesis by simp
  next
    case (Suc j)
    with Cons.prems have "put_bytes (i + 1) bs (m(mem_addr i := b)) (mem_addr (i + 1 + int j)) = bs ! j"
      by (intro Cons.IH) auto
    with Suc show ?thesis by (simp add: add.assoc)
  qed
qed

lemma get_put_bytes: "length bs \<le> 512 \<Longrightarrow> get_bytes i (length bs) (put_bytes i bs m) = bs"
  by (rule nth_equalityI) (auto simp: get_bytes_def put_bytes_nth)

lemma put_bytes_append: "put_bytes i (xs @ ys) m = put_bytes (i + int (length xs)) ys (put_bytes i xs m)"
  by (induction xs arbitrary: i m) (auto simp: algebra_simps)

section \<open>Block transfers on any such device\<close>

context pod_memory begin

lemma Poke_step:
  "\<exists>s'. rcpod_Poke usb i b p = Some (p\<lparr>hw := s'\<rparr>) \<and> mem s' = (mem (hw p))(mem_addr i := b)
        \<and> pos s' = mem_addr i"
  using poke_ok [of b i "hw p"] poke_mem [of b i "hw p"] poke_pos [of b i "hw p"]
  by (auto simp: rcpod_Poke_def vendor_out_def usb_control_msg_def split: prod.splits)

lemma Poke4_step:
  assumes "length d = 4" "pos (hw p) = mem_addr (i - 1)"
  shows "\<exists>s'. rcpod_Poke4 usb d p = Some (p\<lparr>hw := s'\<rparr>) \<and> mem s' = put_bytes i d (mem (hw p))
        \<and> pos s' = mem_addr (i + 3)"
proof -
  obtain a b c e where d: "d = [a, b, c, e]"
    using assms(1) by (metis length_4E)
  have w: "(pos (hw p) + k) mod 512 = mem_addr (i - 1 + int k)" for k
    by (simp only: assms(2) mem_addr_shift)
  show ?thesis
    using poke4_ok [of a b c e "hw p"] poke4_mem [of a b c e "hw p"] poke4_pos [of a b c e "hw p"]
      w [of 1] w [of 2] w [of 3] w [of 4]
    by (auto simp: d rcpod_Poke4_def vendor_out_def usb_control_msg_def algebra_simps
        split: prod.splits)
qed

lemma Peek_step: "rcpod_Peek usb i p = Some (mem (hw p) (mem_addr i), p)"
  by (simp add: rcpod_Peek_def vendor_in1_def vendor_in_def usb_control_msg_def peek_ok [simplified])

lemma Peek8_step: "length buf = 8 \<Longrightarrow> rcpod_Peek8 usb i buf p = Some (get_bytes i 8 (mem (hw p)), p)"
  by (simp add: rcpod_Peek8_def vendor_in_buf_def vendor_in_def usb_control_msg_def
      peek8_ok [simplified] get_bytes_def)

lemma PeekBuffer_reads:
  "rcpod_PeekBuffer usb i buf p = Some (get_bytes i (length buf) (mem (hw p)), p)"
proof (induction "length buf" arbitrary: i buf rule: less_induct)
  case less
  show ?case
  proof (cases "8 \<le> length buf")
    case True
    then have ne: "buf \<noteq> []" by auto
    from True have "rcpod_PeekBuffer usb (i + 8) (drop 8 buf) p
        = Some (get_bytes (i + 8) (length buf - 8) (mem (hw p)), p)"
      using less [of "drop 8 buf" "i + 8"] by simp
    moreover have "get_bytes i (length buf) (mem (hw p))
        = get_bytes i 8 (mem (hw p)) @ get_bytes (i + 8) (length buf - 8) (mem (hw p))"
      using get_bytes_add [of i 8 "length buf - 8"] True by simp
    ultimately show ?thesis
      using True ne by (simp add: rcpod_PeekBuffer.simps [of usb i buf p] Peek8_step)
  next
    case False
    show ?thesis
    proof (cases "buf = []")
      case True
      then show ?thesis by (simp add: rcpod_PeekBuffer.simps get_bytes_def)
    next
      case nonempty: False
      then have "rcpod_PeekBuffer usb (i + 1) (drop 1 buf) p
          = Some (get_bytes (i + 1) (length buf - 1) (mem (hw p)), p)"
        using less [of "drop 1 buf" "i + 1"] by simp
      moreover have "get_bytes i (length buf) (mem (hw p))
          = mem (hw p) (mem_addr i) # get_bytes (i + 1) (length buf - 1) (mem (hw p))"
        using get_bytes_add [of i 1 "length buf - 1"] nonempty
        by (simp add: get_bytes_def Suc_le_eq)
      ultimately show ?thesis
        using False nonempty by (simp add: rcpod_PeekBuffer.simps [of usb i buf p] Peek_step)
    qed
  qed
qed

lemma PokeBuffer_loop_writes:
  "pos (hw p) = mem_addr (i - 1) \<Longrightarrow>
   \<exists>s'. rcpod_PokeBuffer_loop usb i bs p = Some (p\<lparr>hw := s'\<rparr>) \<and> mem s' = put_bytes i bs (mem (hw p))"
proof (induction "length bs" arbitrary: i bs p rule: less_induct)
  case less
  show ?case
  proof (cases "4 \<le> length bs")
    case True
    then have "0 < length bs" by linarith
    then have lt: "length (drop 4 bs) < length bs" by simp
    from True obtain s' where s': "rcpod_Poke4 usb (take 4 bs) p = Some (p\<lparr>hw := s'\<rparr>)"
      "mem s' = put_bytes i (take 4 bs) (mem (hw p))" "pos s' = mem_addr (i + 3)"
      using Poke4_step [of "take 4 bs" p i] less.prems by auto
    have "pos (hw (p\<lparr>hw := s'\<rparr>)) = mem_addr (i + 4 - 1)"
      using s'(3) by (simp add: add.commute)
    from less.hyps [OF lt this] obtain s'' where
      s'': "rcpod_PokeBuffer_loop usb (i + 4) (drop 4 bs) (p\<lparr>hw := s'\<rparr>) = Some (p\<lparr>hw := s''\<rparr>)"
      "mem s'' = put_bytes (i + 4) (drop 4 bs) (mem s')" by auto
    have "length (take 4 bs) = 4" using True by simp
    then have "mem s'' = put_bytes i bs (mem (hw p))"
      using put_bytes_append [of i "take 4 bs" "drop 4 bs" "mem (hw p)"]
      by (simp only: append_take_drop_id s'(2) s''(2) of_nat_numeral)
    moreover have "rcpod_PokeBuffer_loop usb i bs p = Some (p\<lparr>hw := s''\<rparr>)"
      using True \<open>0 < length bs\<close> s'(1) s''(1) by (simp add: rcpod_PokeBuffer_loop.simps [of usb i bs p])
    ultimately show ?thesis by blast
  next
    case False
    show ?thesis
    proof (cases bs)
      case Nil
      then show ?thesis
        by (intro exI [of _ "hw p"]) (simp add: rcpod_PokeBuffer_loop.simps)
    next
      case (Cons b cs)
      obtain s' where s': "rcpod_Poke usb i b p = Some (p\<lparr>hw := s'\<rparr>)"
        "mem s' = (mem (hw p))(mem_addr i := b)" "pos s' = mem_addr i"
        using Poke_step [of i b p] by auto
      then show ?thesis
        using less.hyps [of cs "p\<lparr>hw := s'\<rparr>" "i + 1"] Cons False
        by (auto simp: rcpod_PokeBuffer_loop.simps [of usb i "b # cs" p])
    qed
  qed
qed

lemma PokeBuffer_writes:
  "\<exists>s'. rcpod_PokeBuffer usb i bs p = Some (p\<lparr>hw := s'\<rparr>) \<and> mem s' = put_bytes i bs (mem (hw p))"
proof (cases bs)
  case Nil
  then show ?thesis by (intro exI [of _ "hw p"]) (simp add: rcpod_PokeBuffer_def)
next
  case (Cons b cs)
  obtain s' where s': "rcpod_Poke usb i b p = Some (p\<lparr>hw := s'\<rparr>)"
    "mem s' = (mem (hw p))(mem_addr i := b)" "pos s' = mem_addr i"
    using Poke_step [of i b p] by auto
  then show ?thesis
    using PokeBuffer_loop_writes [of "p\<lparr>hw := s'\<rparr>" "i + 1" cs] Cons
    by (auto simp: rcpod_PokeBuffer_def)
qed

lemma Poke_Peek_buffer:
  assumes "length bs \<le> 512" "length buf = length bs"
  shows "Option.bind (rcpod_PokeBuffer usb i bs p) (\<lambda>q. map_option fst (rcpod_PeekBuffer usb i buf q)) = Some bs"
  using PokeBuffer_writes [of i bs p] get_put_bytes [OF assms(1), of i "mem (hw p)"] assms(2)
  by (auto simp: PeekBuffer_reads)

end

section \<open>The device provides it\<close>

lemma pic_poke:
  "pic_usb \<lparr>bRequestType = t, bRequest = RCPOD_CTRL_POKE, wValue = v, wIndex = i, wLength = n\<rparr> s
     = ((0, []), s\<lparr>ram := (ram s)(mem_addr i := lo8 v), last_poke := mem_addr i\<rparr>)"
  by (simp add: pic_usb_def)

lemma pic_poke4:
  "pic_usb \<lparr>bRequestType = t, bRequest = RCPOD_CTRL_POKE4, wValue = pack16 a b, wIndex = pack16 c d,
       wLength = n\<rparr> s = ((0, []), poke_next d (poke_next c (poke_next b (poke_next a s))))"
  by (simp add: pic_usb_def)

lemma pic_peek_req:
  "pic_usb \<lparr>bRequestType = t, bRequest = RCPOD_CTRL_PEEK, wValue = v, wIndex = i, wLength = n\<rparr> s
     = ((1, [ram s (mem_addr i)]), s)"
  by (simp add: pic_usb_def pic_peek_def)

lemma pic_peek8_req:
  "pic_usb \<lparr>bRequestType = t, bRequest = RCPOD_CTRL_PEEK8, wValue = v, wIndex = i, wLength = n\<rparr> s
     = ((8, map (\<lambda>k. ram s (mem_addr (i + int k))) [0..<8]), s)"
  by (simp add: pic_usb_def pic_peek_def)

lemma poke_next_sel [simp]:
  "ram (poke_next b s) = (ram s)((last_poke s + 1) mod 512 := b)"
  "last_poke (poke_next b s) = (last_poke s + 1) mod 512"
  by (simp_all add: poke_next_def Let_def)

interpretation pic_mem: pod_memory pic_usb ram last_poke
  by unfold_locales
    (simp_all only: pic_poke pic_poke4 pic_peek_req pic_peek8_req fst_conv snd_conv, simp_all add: mod_simps add.commute)

section \<open>Pins in blocks\<close>

text \<open>The requests for a list of pins, four at a time, the last block padded with the no-op descriptor.\<close>

lemma GpioDeassertBuffer_eq:
  "rcpod_GpioDeassertBuffer usb pins p = rcpod_GpioAssertBuffer usb (map RCPOD_NEGATE pins) p"
proof (induction "length pins" arbitrary: pins p rule: less_induct)
  case less
  show ?case
  proof (cases "4 \<le> length pins")
    case False
    have none: "rcpod_GpioDeassertBuffer usb [] q = Some q" for q
      by (simp add: rcpod_GpioDeassertBuffer.simps [of usb "[]" q])
    show ?thesis
    proof (cases "0 < length pins")
      case pos: True
      have "(if 4 < length pins then 4 else length pins) = length pins" using False by simp
      then have "rcpod_GpioDeassertBuffer usb pins p =
          Option.bind (rcpod_GpioAssertBuffer usb (map RCPOD_NEGATE pins) p) (rcpod_GpioDeassertBuffer usb [])"
        using pos by (simp add: rcpod_GpioDeassertBuffer.simps [of usb pins p])
      then show ?thesis
        by (cases "rcpod_GpioAssertBuffer usb (map RCPOD_NEGATE pins) p") (simp_all add: none)
    qed (simp add: none rcpod_GpioAssertBuffer.simps [of usb "[]" p])
  next
    case True
    then have blk: "(if 4 < length pins then 4 else length pins) = 4" and pos: "0 < length pins"
      by auto
    then have lt: "length (drop 4 pins) < length pins" by simp
    have ih: "rcpod_GpioDeassertBuffer usb (drop 4 pins)
        = rcpod_GpioAssertBuffer usb (map RCPOD_NEGATE (drop 4 pins))"
      by (rule ext, rule less [OF lt])
    have four: "rcpod_GpioAssertBuffer usb (map RCPOD_NEGATE (take 4 pins)) p
        = rcpod_GpioAssert4 usb (map RCPOD_NEGATE (take 4 pins)) p"
      using True
      by (cases "rcpod_GpioAssert4 usb (map RCPOD_NEGATE (take 4 pins)) p")
        (simp_all add: rcpod_GpioAssertBuffer.simps [of usb "map RCPOD_NEGATE (take 4 pins)" p]
          rcpod_GpioAssertBuffer.simps [of usb "[]"])
    have "rcpod_GpioDeassertBuffer usb pins p =
        Option.bind (rcpod_GpioAssert4 usb (map RCPOD_NEGATE (take 4 pins)) p)
          (rcpod_GpioDeassertBuffer usb (drop 4 pins))"
      using pos by (simp add: rcpod_GpioDeassertBuffer.simps [of usb pins p] blk four)
    also have "\<dots> = rcpod_GpioAssertBuffer usb (map RCPOD_NEGATE pins) p"
      using True ih
      by (simp add: rcpod_GpioAssertBuffer.simps [of usb "map RCPOD_NEGATE pins" p] take_map drop_map)
    finally show ?thesis .
  qed
qed

lemma pin_assert_none [simp]: "pin_assert 0 s = s"
  by (simp add: pin_assert_def pin_real_def pin_port_def)

lemma overlay_short:
  assumes "\<not> 4 \<le> length pins"
  shows "overlay pins [0, 0, 0, 0 :: 'a::zero] = pins @ replicate (4 - length pins) 0"
proof -
  from assms consider "pins = []" | a where "pins = [a]" | a b where "pins = [a, b]"
    | a b c where "pins = [a, b, c]"
    by (cases pins; cases "tl pins"; cases "tl (tl pins)"; cases "tl (tl (tl pins))") auto
  then show ?thesis by cases (simp_all add: overlay_def numeral_eq_Suc)
qed

section \<open>What the pin operations need of a device\<close>

text \<open>
  A device whose requests for four pins act on them one after the other, the no-op descriptor doing
  nothing, and whose test of a pin answers one byte, 0 or 1, and changes nothing.
\<close>

locale gpio_port =
  fixes usb :: "'s usb"
    and pin_set :: "byte \<Rightarrow> 's \<Rightarrow> 's"
    and pin_get :: "byte \<Rightarrow> 's \<Rightarrow> bool"
  assumes set4: "usb \<lparr>bRequestType = USB_TYPE_VENDOR, bRequest = RCPOD_CTRL_GPIO_ASSERT,
        wValue = pack16 a b, wIndex = pack16 c d, wLength = 0\<rparr> s = ((0, []), fold pin_set [a, b, c, d] s)"
    and set_none: "pin_set 0 s = s"
    and get: "usb \<lparr>bRequestType = USB_TYPE_VENDOR + USB_ENDPOINT_IN, bRequest = RCPOD_CTRL_GPIO_READ,
        wValue = 0, wIndex = uint a, wLength = 1\<rparr> s = ((1, [of_bool (pin_get a s)]), s)"
begin

lemma GpioAssert4_step:
  "length pins = 4 \<Longrightarrow> rcpod_GpioAssert4 usb pins p = Some (p\<lparr>hw := fold pin_set pins (hw p)\<rparr>)"
  using length_4E [of pins]
  by (auto simp: rcpod_GpioAssert4_def vendor_out_def usb_control_msg_def set4 [simplified])

lemma GpioAssert_step:
  "rcpod_GpioAssert usb pin p = Some (p\<lparr>hw := pin_set pin (hw p)\<rparr>)"
  by (simp add: rcpod_GpioAssert_def GpioAssert4_step set_none)

lemma GpioTest_step:
  "rcpod_GpioTest usb pin p = Some (of_bool (pin_get pin (hw p)), p)"
  by (simp add: rcpod_GpioTest_def vendor_in1_def vendor_in_def usb_control_msg_def get [simplified])

lemma fold_none: "fold pin_set (replicate n 0) s = s"
  by (induction n) (simp_all add: set_none)

lemma GpioAssertBuffer_fold:
  "rcpod_GpioAssertBuffer usb pins p = Some (p\<lparr>hw := fold pin_set pins (hw p)\<rparr>)"
proof (induction "length pins" arbitrary: pins p rule: less_induct)
  case less
  show ?case
  proof (cases "4 \<le> length pins")
    case True
    then have "0 < length pins" by linarith
    then have lt: "length (drop 4 pins) < length pins" by simp
    have "fold pin_set pins (hw p) = fold pin_set (drop 4 pins) (fold pin_set (take 4 pins) (hw p))"
      using fold_append [of pin_set "take 4 pins" "drop 4 pins"] by (simp add: o_def)
    with True less.hyps [OF lt] show ?thesis
      by (simp add: rcpod_GpioAssertBuffer.simps [of usb pins p] GpioAssert4_step)
  next
    case False
    have pad: "fold pin_set (overlay pins [0, 0, 0, 0]) s = fold pin_set pins s" for s
      by (simp only: overlay_short [OF False] fold_append o_apply fold_none)
    show ?thesis
    proof (cases "0 < length pins")
      case True
      then show ?thesis
        using False by (simp add: rcpod_GpioAssertBuffer.simps [of usb pins p] GpioAssert4_step pad)
    qed (simp add: rcpod_GpioAssertBuffer.simps [of usb "[]" p])
  qed
qed

end

interpretation pic_gpio: gpio_port pic_usb pin_assert "\<lambda>pin s. pin_read pin s = 1"
  by unfold_locales (simp_all add: pic_usb_def pin_read_def Let_def)

section \<open>Properties\<close>



text \<open>\<open>rcpod_PokeBuffer\<close> changes the bytes of its block and no other byte of the device's memory.\<close>

lemma poke_buffer_frame:
  assumes "rcpod_PokeBuffer pic_usb i bs p = Some q" "\<And>k. k < length bs \<Longrightarrow> a \<noteq> mem_addr (i + int k)"
  shows "ram (hw q) a = ram (hw p) a"
  using pic_mem.PokeBuffer_writes [of i bs p] put_bytes_other [of bs a i "ram (hw p)"] assms by auto

lemma poke_buffer_frame_witness:
  "\<forall>p. \<exists>q. rcpod_PokeBuffer pic_usb 32 [7, 8] p = Some q \<and> ram (hw q) 34 = ram (hw p) 34"
proof
  fix p
  obtain q where q: "rcpod_PokeBuffer pic_usb 32 [7, 8] p = Some q"
    using pic_mem.PokeBuffer_writes [of 32 "[7, 8]" p] by blast
  have "(34::nat) \<noteq> mem_addr (32 + int k)" if "k < length [7, 8 :: byte]" for k
    using that by (auto simp: mem_addr_def less_Suc_eq numeral_eq_Suc)
  from poke_buffer_frame [OF q this] q
  show "\<exists>q. rcpod_PokeBuffer pic_usb 32 [7, 8] p = Some q \<and> ram (hw q) 34 = ram (hw p) 34" by blast
qed

text \<open>Deasserting a list of pins sends, on any device and through any failure, exactly the requests that
  asserting the negated descriptors sends.\<close>

lemma gpio_deassert_is_assert_negated:
  "rcpod_GpioDeassertBuffer usb pins p = rcpod_GpioAssertBuffer usb (map RCPOD_NEGATE pins) p"
  by (rule GpioDeassertBuffer_eq)

text \<open>On the device, asserting a buffer of pins asserts each descriptor once and in order: cutting the list
  into blocks of four and padding the last one has no effect of its own.\<close>

lemma gpio_assert_buffer_in_order:
  "rcpod_GpioAssertBuffer pic_usb pins p = Some (p\<lparr>hw := fold pin_assert pins (hw p)\<rparr>)"
  by (rule pic_gpio.GpioAssertBuffer_fold)

end
