(* ===== verification/Rcpod_Serial.thy ===== *)
theory Rcpod_Serial
  imports Rcpod_Protocol
begin

text \<open>
  The serial port of librcpod (the last section of \<^verbatim>\<open>rcpod/src/command.c\<close>): setting the baud rate,
  starting and stopping transfers through the scratchpad, and the host's tracking of the device's
  receive ring, whose 8-bit counter rolls over. \<open>rx_run\<close> is every interleaving of bytes that arrive on
  the line with calls of \<open>rcpod_SerialRxProgress\<close> and \<open>rcpod_SerialRxRead\<close>, on the device of
  \<open>Rcpod_Protocol\<close>; the last section shows what the library has read against what arrived.
\<close>

section \<open>Operations\<close>

abbreviation (input) RCPOD_REG_RCSTA :: int where "RCPOD_REG_RCSTA \<equiv> 0x18"
abbreviation (input) RCPOD_REG_TXSTA :: int where "RCPOD_REG_TXSTA \<equiv> 0x98"
abbreviation (input) RCPOD_REG_SPBRG :: int where "RCPOD_REG_SPBRG \<equiv> 0x99"

definition rcpod_spbrg :: "int \<Rightarrow> (int \<times> byte) option" where
  "rcpod_spbrg baudRate = do {
     d \<leftarrow> chk32 (baudRate * 16);
     q \<leftarrow> cdiv 24000000 d;
     if q - 1 > 255 then do {
       d \<leftarrow> chk32 (baudRate * 64);
       q \<leftarrow> cdiv 24000000 d;
       Some (q - 1, 0x00)
     } else Some (q - 1, 0x04)
   }"

definition rcpod_SerialInit :: "'s usb \<Rightarrow> int \<Rightarrow> 's pod \<Rightarrow> 's pod option" where
  "rcpod_SerialInit usb baudRate p = do {
     (spbrg, brgh) \<leftarrow> rcpod_spbrg baudRate;
     p \<leftarrow> rcpod_Poke usb RCPOD_REG_SPBRG (word_of_int spbrg) p;
     p \<leftarrow> rcpod_Poke usb RCPOD_REG_RCSTA 0x90 p;
     rcpod_Poke usb RCPOD_REG_TXSTA (0x22 OR brgh) p
   }"

definition rcpod_SerialTxRxStart :: "'s usb \<Rightarrow> byte list \<Rightarrow> int \<Rightarrow> 's pod \<Rightarrow> 's pod option" where
  "rcpod_SerialTxRxStart usb buffer count p =
     (if count > RCPOD_SCRATCHPAD_SIZE then rcpod_HandleError (ErrInval ''rcpod_SerialTxRxStart'') p
      else do {
        p \<leftarrow> (if count > 0 then rcpod_PokeBuffer usb RCPOD_REG_SCRATCHPAD (take (nat count) buffer) p
             else Some p);
        rcpod_UsartTxRx usb RCPOD_REG_SCRATCHPAD count RCPOD_SCRATCHPAD_SIZE p
      })"

definition rcpod_SerialTx :: "'s usb \<Rightarrow> byte list \<Rightarrow> int \<Rightarrow> 's pod \<Rightarrow> 's pod option" where
  "rcpod_SerialTx usb buffer count p =
     (if count > RCPOD_SCRATCHPAD_SIZE then rcpod_HandleError (ErrInval ''rcpod_SerialTx'') p
      else do {
        p \<leftarrow> (if count > 0 then rcpod_PokeBuffer usb RCPOD_REG_SCRATCHPAD (take (nat count) buffer) p
             else Some p);
        rcpod_UsartTxRx usb RCPOD_REG_SCRATCHPAD count 0 p
      })"

definition rcpod_SerialRxStart :: "'s usb \<Rightarrow> 's pod \<Rightarrow> 's pod option" where
  "rcpod_SerialRxStart usb p = rcpod_UsartTxRx usb RCPOD_REG_SCRATCHPAD 0 RCPOD_SCRATCHPAD_SIZE p"

definition rcpod_SerialRxFinish :: "'s usb \<Rightarrow> 's pod \<Rightarrow> 's pod option" where
  "rcpod_SerialRxFinish usb p = rcpod_UsartTxRx usb RCPOD_REG_SCRATCHPAD 0 0 p"

definition rcpod_SerialRxProgress :: "'s usb \<Rightarrow> 's pod \<Rightarrow> (int \<times> 's pod) option" where
  "rcpod_SerialRxProgress usb p = do {
     (count8, p) \<leftarrow> rcpod_UsartRxProgress usb p;
     let newBytes = count8 - rx_last_count8 p;
     let newBytes = (if newBytes < 0 then newBytes + 256 else newBytes);
     let p = p\<lparr>rx_last_count8 := count8, rx_count := rx_count p + newBytes,
               rx_unread := rx_unread p + newBytes\<rparr>;
     if rx_unread p > rx_size p then do {
       p \<leftarrow> rcpod_HandleError (ErrIO ''rcpod_SerialRxProgress'') p;
       Some (-1, p)
     } else Some (rx_count p, p)
   }"

text \<open>
  The loop of \<open>rcpod_SerialRxRead\<close>. As in the source, neither \<^verbatim>\<open>count\<close> nor \<^verbatim>\<open>buffer\<close> moves: every
  block is read to the start of the caller's buffer.
\<close>

partial_function (option) rx_read_loop ::
    "'s usb \<Rightarrow> int \<Rightarrow> byte list \<Rightarrow> int \<Rightarrow> 's pod \<Rightarrow> (int \<times> byte list \<times> 's pod) option" where
  "rx_read_loop usb count buffer retval p =
     (if count > 0 \<and> rx_unread p > 0 then
        let blockSize = count;
            blockSize = (if blockSize > rx_unread p then rx_unread p else blockSize);
            blockSize = (if blockSize + rx_tail_index p > rx_size p
                         then rx_size p - rx_tail_index p else blockSize)
        in Option.bind (rcpod_PeekBuffer usb (rx_address p + rx_tail_index p)
                          (take (nat blockSize) buffer) p)
             (\<lambda>(block, q). Option.bind (cmod (rx_tail_index q + blockSize) (rx_size q))
                (\<lambda>tail. rx_read_loop usb count (overlay block buffer) (retval + blockSize)
                   (q\<lparr>rx_unread := rx_unread q - blockSize, rx_tail_index := tail\<rparr>)))
      else Some (retval, buffer, p))"

definition rcpod_SerialRxRead :: "'s usb \<Rightarrow> byte list \<Rightarrow> int \<Rightarrow> 's pod
    \<Rightarrow> (int \<times> byte list \<times> 's pod) option" where
  "rcpod_SerialRxRead usb buffer count p = do {
     (_, p) \<leftarrow> rcpod_SerialRxProgress usb p;
     rx_read_loop usb count buffer 0 p
   }"

text \<open>The source declares an \<^verbatim>\<open>int\<close> result and returns none.\<close>

definition rcpod_SerialSetTxEnable :: "'s usb \<Rightarrow> rcpod_pin \<Rightarrow> 's pod \<Rightarrow> 's pod option" where
  "rcpod_SerialSetTxEnable usb pin p = rcpod_UsartTxe usb pin p"

section \<open>Reading drains the ring\<close>

definition rx_ring_ok :: "'s pod \<Rightarrow> bool" where
  "rx_ring_ok p \<longleftrightarrow> 0 < rx_size p \<and> 0 \<le> rx_tail_index p \<and> rx_tail_index p < rx_size p"

lemma rx_read_loop_done:
  "\<not> (count > 0 \<and> rx_unread p > 0) \<Longrightarrow> rx_read_loop usb count buffer retval p = Some (retval, buffer, p)"
  by (subst rx_read_loop.simps) auto

context pod_memory begin

lemma rx_read_loop_block:
  fixes p :: "'s pod" and count :: int
  defines "b \<equiv> min count (min (rx_unread p) (rx_size p - rx_tail_index p))"
  assumes "0 < count" "0 < rx_unread p" "rx_ring_ok p" "nat count \<le> length buffer"
  shows "rx_read_loop usb count buffer retval p =
     rx_read_loop usb count
       (overlay (get_bytes (rx_address p + rx_tail_index p) (nat b) (mem (hw p))) buffer)
       (retval + b)
       (p\<lparr>rx_unread := rx_unread p - b, rx_tail_index := (rx_tail_index p + b) mod rx_size p\<rparr>)"
proof -
  have bs: "(if (if count > rx_unread p then rx_unread p else count) + rx_tail_index p > rx_size p
      then rx_size p - rx_tail_index p
      else (if count > rx_unread p then rx_unread p else count)) = b"
    by (auto simp: b_def)
  have b: "0 < b" "nat b \<le> length buffer" "0 < rx_size p" "0 \<le> rx_tail_index p"
    using assms by (auto simp: rx_ring_ok_def)
  show ?thesis
    using assms(2,3) b
    by (subst rx_read_loop.simps)
      (simp add: Let_def bs PeekBuffer_reads cmod_nonneg min_absorb2)
qed

lemma rx_read_loop_drains:
  fixes p :: "'s pod"
  assumes "0 < count" "0 \<le> rx_unread p" "rx_ring_ok p" "nat count \<le> length buffer"
  shows "\<exists>buffer'. length buffer' = length buffer \<and>
     rx_read_loop usb count buffer retval p = Some (retval + rx_unread p, buffer',
       p\<lparr>rx_unread := 0, rx_tail_index := (rx_tail_index p + rx_unread p) mod rx_size p\<rparr>)"
  using assms
proof (induction "nat (rx_unread p)" arbitrary: p buffer retval rule: less_induct)
  case less
  show ?case
  proof (cases "rx_unread p = 0")
    case True
    with less.prems show ?thesis
      by (simp add: rx_read_loop_done rx_ring_ok_def mod_pos_pos_trivial)
  next
    case False
    define b where "b = min count (min (rx_unread p) (rx_size p - rx_tail_index p))"
    define q where "q = p\<lparr>rx_unread := rx_unread p - b,
      rx_tail_index := (rx_tail_index p + b) mod rx_size p\<rparr>"
    define bf where "bf = overlay (get_bytes (rx_address p + rx_tail_index p) (nat b) (mem (hw p))) buffer"
    have b: "0 < b" "b \<le> rx_unread p"
      using less.prems False by (auto simp: b_def rx_ring_ok_def)
    have q: "rx_ring_ok q" "0 \<le> rx_unread q" "nat (rx_unread q) < nat (rx_unread p)"
      using less.prems b by (auto simp: q_def rx_ring_ok_def)
    have bf: "length bf = length buffer" by (simp add: bf_def)
    have "rx_read_loop usb count buffer retval p = rx_read_loop usb count bf (retval + b) q"
      using rx_read_loop_block [of count p buffer retval] less.prems False
      by (simp add: b_def q_def bf_def)
    moreover obtain buffer' where "length buffer' = length bf"
      "rx_read_loop usb count bf (retval + b) q = Some (retval + b + rx_unread q, buffer',
         q\<lparr>rx_unread := 0, rx_tail_index := (rx_tail_index q + rx_unread q) mod rx_size q\<rparr>)"
      using less.hyps [OF q(3) less.prems(1) q(2) q(1)] less.prems(4) bf by metis
    moreover have "q\<lparr>rx_unread := 0, rx_tail_index := (rx_tail_index q + rx_unread q) mod rx_size q\<rparr>
      = p\<lparr>rx_unread := 0, rx_tail_index := (rx_tail_index p + rx_unread p) mod rx_size p\<rparr>"
      by (simp add: q_def mod_simps)
    ultimately show ?thesis
      using bf by (simp add: q_def)
  qed
qed

end

section \<open>The receive ring: what arrived against what is read\<close>

text \<open>
  \<open>rx_run h c p\<close>: the bytes \<open>h\<close> have arrived since the receive was started, the first \<open>c\<close> of them have
  been taken out of the ring by reads, and the library is in the state \<open>p\<close>. A byte arrives only while
  the ring has room; \<open>progress_overrun\<close> is what happens otherwise.
\<close>

inductive rx_run :: "byte list \<Rightarrow> nat \<Rightarrow> pic pod \<Rightarrow> bool" where
  start: "rcpod_SerialRxStart pic_usb p0 = Some p \<Longrightarrow> rx_run [] 0 p"
| recv: "rx_run h c p \<Longrightarrow> length h - c < 93 \<Longrightarrow>
     rx_run (h @ [b]) c (p\<lparr>hw := pic_receive b (hw p)\<rparr>)"
| progress: "rx_run h c p \<Longrightarrow> rcpod_SerialRxProgress pic_usb p = Some (r, q) \<Longrightarrow> rx_run h c q"
| read: "rx_run h c p \<Longrightarrow> 0 < count \<Longrightarrow> nat count \<le> length buffer \<Longrightarrow>
     rcpod_SerialRxRead pic_usb buffer count p = Some (r, out, q) \<Longrightarrow> rx_run h (length h) q"

definition rx_inv :: "byte list \<Rightarrow> nat \<Rightarrow> pic pod \<Rightarrow> bool" where
  "rx_inv h c p \<longleftrightarrow>
     rx_size p = 93 \<and> rx_address p = 32 \<and> rx_base (hw p) = 32 \<and> rx_len (hw p) = 93
     \<and> rx_total (hw p) = length h
     \<and> (\<exists>n. c \<le> n \<and> n \<le> length h \<and> rx_count p = int n \<and> rx_last_count8 p = int (n mod 256)
            \<and> rx_unread p = int (n - c))
     \<and> rx_tail_index p = int (c mod 93) \<and> length h \<le> c + 93
     \<and> (\<forall>i. c \<le> i \<longrightarrow> i < length h \<longrightarrow> ram (hw p) (32 + i mod 93) = h ! i)"

lemma pic_rx_progress:
  "pic_usb \<lparr>bRequestType = t, bRequest = RCPOD_CTRL_USART_RX_PROGRESS, wValue = v, wIndex = i,
      wLength = n\<rparr> s = ((1, [of_nat (rx_total s)]), s)"
  by (simp add: pic_usb_def)

lemma UsartRxProgress_pic:
  "rcpod_UsartRxProgress pic_usb p = Some (int (rx_total (hw p) mod 256), p)"
  by (simp add: rcpod_UsartRxProgress_def vendor_in1_def vendor_in_def usb_control_msg_def
      pic_rx_progress unsigned_of_nat take_bit_eq_mod zmod_int)

lemma count8_advance:
  fixes n k :: nat
  assumes "k < 256"
  shows "(let d = int ((n + k) mod 256) - int (n mod 256) in if d < 0 then d + 256 else d) = int k"
proof -
  have "(n + k) mod 256 = (n mod 256 + k) mod 256" by (simp add: mod_add_left_eq)
  moreover have "(n mod 256 + k) mod 256 = (if n mod 256 + k < 256 then n mod 256 + k else n mod 256 + k - 256)"
    using assms by (simp add: mod_if [of "n mod 256 + k"])
  ultimately show ?thesis
    using assms mod_less_divisor [of 256 n] by (cases "n mod 256 + k < 256") (simp_all add: Let_def of_nat_diff)
qed

lemma SerialRxProgress_tracks:
  fixes k :: nat
  assumes "rx_total (hw p) = n + k" "k < 256" "rx_last_count8 p = int (n mod 256)"
    "rx_unread p + int k \<le> rx_size p"
  shows "rcpod_SerialRxProgress pic_usb p = Some (rx_count p + int k,
     p\<lparr>rx_last_count8 := int ((n + k) mod 256), rx_count := rx_count p + int k,
       rx_unread := rx_unread p + int k\<rparr>)"
  using count8_advance [OF assms(2), of n] assms
  by (simp add: rcpod_SerialRxProgress_def UsartRxProgress_pic Let_def split: if_splits)

lemma SerialRxProgress_inv:
  assumes "rx_inv h c p"
  shows "\<exists>q. rcpod_SerialRxProgress pic_usb p = Some (int (length h), q) \<and> rx_inv h c q
     \<and> rx_unread q = int (length h - c) \<and> hw q = hw p"
proof -
  obtain n where n: "c \<le> n" "n \<le> length h" "rx_count p = int n" "rx_last_count8 p = int (n mod 256)"
    "rx_unread p = int (n - c)"
    using assms by (auto simp: rx_inv_def)
  have "rcpod_SerialRxProgress pic_usb p = Some (rx_count p + int (length h - n),
     p\<lparr>rx_last_count8 := int ((n + (length h - n)) mod 256), rx_count := rx_count p + int (length h - n),
       rx_unread := rx_unread p + int (length h - n)\<rparr>)"
    using assms n by (intro SerialRxProgress_tracks) (auto simp: rx_inv_def)
  then show ?thesis
    using assms n by (auto simp: rx_inv_def intro!: exI [of _ "length h"])
qed

lemma SerialRxRead_inv:
  assumes "rx_inv h c p" "0 < count" "nat count \<le> length buffer"
  shows "\<exists>out q. rcpod_SerialRxRead pic_usb buffer count p = Some (int (length h - c), out, q)
     \<and> rx_inv h (length h) q"
proof -
  obtain q where q: "rcpod_SerialRxProgress pic_usb p = Some (int (length h), q)" "rx_inv h c q"
    "rx_unread q = int (length h - c)"
    using SerialRxProgress_inv [OF assms(1)] by blast
  have ring: "rx_ring_ok q" "0 \<le> rx_unread q"
    using q by (auto simp: rx_inv_def rx_ring_ok_def)
  obtain out where out: "rx_read_loop pic_usb count buffer 0 q = Some (rx_unread q, out,
      q\<lparr>rx_unread := 0, rx_tail_index := (rx_tail_index q + rx_unread q) mod rx_size q\<rparr>)"
    using pic_mem.rx_read_loop_drains [OF assms(2) ring(2,1) assms(3), of 0] by auto
  have "c \<le> length h" using assms(1) by (auto simp: rx_inv_def)
  then have "(int (c mod 93) + int (length h - c)) mod 93 = int (length h mod 93)"
    by (simp add: zmod_int mod_add_left_eq of_nat_diff)
  moreover obtain n where "n \<le> length h" "rx_count q = int n" "rx_last_count8 q = int (n mod 256)"
    "rx_unread q = int (n - c)" "c \<le> n"
    using q(2) by (auto simp: rx_inv_def)
  ultimately have "rx_inv h (length h) (q\<lparr>rx_unread := 0,
      rx_tail_index := (rx_tail_index q + rx_unread q) mod rx_size q\<rparr>)"
    using q \<open>c \<le> length h\<close> by (auto simp: rx_inv_def)
  then show ?thesis
    using q out by (simp add: rcpod_SerialRxRead_def)
qed

lemma recv_inv:
  assumes "rx_inv h c p" "length h - c < 93"
  shows "rx_inv (h @ [b]) c (p\<lparr>hw := pic_receive b (hw p)\<rparr>)"
proof -
  have c: "c \<le> length h" "length h < c + 93" using assms by (auto simp: rx_inv_def)
  have new: "ram (pic_receive b (hw p)) = (ram (hw p))(32 + length h mod 93 := b)"
    using assms by (simp add: pic_receive_def rx_inv_def)
  have old: "i mod 93 \<noteq> length h mod 93" if "c \<le> i" "i < length h" for i
  proof
    assume "i mod 93 = length h mod 93"
    then have "(length h - i) mod 93 = 0"
      using that mod_eq_dvd_iff_nat [of i "length h" 93] by (simp add: dvd_eq_mod_eq_0)
    moreover have "0 < length h - i" "length h - i < 93" using that c by auto
    ultimately show False by simp
  qed
  have "\<forall>i. c \<le> i \<longrightarrow> i < length (h @ [b]) \<longrightarrow>
      ram (pic_receive b (hw p)) (32 + i mod 93) = (h @ [b]) ! i"
    using assms(1) old by (auto simp: new nth_append rx_inv_def less_Suc_eq)
  then show ?thesis
    using assms c by (auto simp: rx_inv_def pic_receive_def)
qed

lemma SerialRxStart_inv: "rcpod_SerialRxStart pic_usb p0 = Some p \<Longrightarrow> rx_inv [] 0 p"
  by (auto simp: rcpod_SerialRxStart_def rcpod_UsartTxRx_def vendor_out_def usb_control_msg_def
      pic_usb_def rx_inv_def lo8_def hi8_def Let_def push_bit_eq_mult drop_bit_eq_div mem_addr_def)

lemma rx_run_inv: "rx_run h c p \<Longrightarrow> rx_inv h c p"
proof (induction rule: rx_run.induct)
  case (start p0 p)
  then show ?case by (rule SerialRxStart_inv)
next
  case (recv h c p b)
  then show ?case by (intro recv_inv)
next
  case (progress h c p r q)
  then show ?case using SerialRxProgress_inv by fastforce
next
  case (read h c p count buffer r out q)
  then show ?case using SerialRxRead_inv [of h c p count buffer] by auto
qed

section \<open>Properties\<close>

lemma get_bytes_ring:
  assumes "rx_inv h c p" "c \<le> a" "a + k \<le> length h" "a mod 93 + k \<le> 93"
  shows "get_bytes (32 + int (a mod 93)) k (ram (hw p)) = take k (drop a h)"
proof (rule nth_equalityI)
  show "length (get_bytes (32 + int (a mod 93)) k (ram (hw p))) = length (take k (drop a h))"
    using assms(3) by simp
next
  fix j assume "j < length (get_bytes (32 + int (a mod 93)) k (ram (hw p)))"
  then have j: "j < k" by simp
  have "(a + j) mod 93 = (a mod 93 + j) mod 93" by (simp add: mod_add_left_eq)
  also have "\<dots> = a mod 93 + j" using assms(4) j by (intro mod_less) linarith
  finally have "(a + j) mod 93 = a mod 93 + j" .
  then have "mem_addr (32 + int (a mod 93) + int j) = 32 + (a + j) mod 93"
    using assms(4) j by (simp add: mem_addr_def nat_add_distrib)
  moreover have "ram (hw p) (32 + (a + j) mod 93) = h ! (a + j)"
    using assms j by (auto simp: rx_inv_def)
  ultimately show "get_bytes (32 + int (a mod 93)) k (ram (hw p)) ! j = take k (drop a h) ! j"
    using j assms(3) by (simp add: get_bytes_def)
qed

text \<open>One block of a read, on the ring.\<close>

lemma rx_read_loop_ring:
  assumes "rx_inv h c p" "rx_unread p = int (length h - c)" "c < length h"
    "k = min (length h - c) (93 - c mod 93)" "int k \<le> count" "nat count \<le> length buffer"
  shows "rx_read_loop pic_usb count buffer r p =
     rx_read_loop pic_usb count (overlay (take k (drop c h)) buffer) (r + int k)
       (p\<lparr>rx_unread := int (length h - (c + k)), rx_tail_index := int ((c + k) mod 93)\<rparr>)"
proof -
  have lt: "c mod 93 < 93" by simp
  have k: "0 < k" "k \<le> length h - c" "c mod 93 + k \<le> 93" using assms(3,4) lt by linarith+
  have fields: "rx_size p = 93" "rx_address p = 32" "rx_tail_index p = int (c mod 93)"
    using assms(1) by (simp_all add: rx_inv_def)
  have ring: "rx_ring_ok p" using lt by (simp add: rx_ring_ok_def fields)
  have pos: "0 < count" "0 < rx_unread p" using assms(2,3,5) k by linarith+
  have b: "min count (min (rx_unread p) (rx_size p - rx_tail_index p)) = int k"
    using assms(5) unfolding fields assms(2) assms(4) by (simp add: of_nat_min of_nat_diff less_imp_le)
  have "get_bytes (rx_address p + rx_tail_index p) k (ram (hw p)) = take k (drop c h)"
    using get_bytes_ring [OF assms(1), of c k] k by (simp add: fields)
  moreover have "rx_unread p - int k = int (length h - (c + k))"
    using assms(2) k by linarith
  moreover have "(rx_tail_index p + int k) mod rx_size p = int ((c + k) mod 93)"
    by (simp add: fields zmod_int mod_add_left_eq)
  ultimately show ?thesis
    using pic_mem.rx_read_loop_block [OF pos ring assms(6), of r] by (simp add: b)
qed

lemma rx_inv_block:
  assumes "rx_inv h c p" "rx_unread p = int (length h - c)" "c + k \<le> length h"
  shows "rx_inv h (c + k)
     (p\<lparr>rx_unread := int (length h - (c + k)), rx_tail_index := int ((c + k) mod 93)\<rparr>)"
proof -
  obtain n where n: "c \<le> n" "n \<le> length h" "rx_count p = int n" "rx_last_count8 p = int (n mod 256)"
    "rx_unread p = int (n - c)"
    using assms(1) by (auto simp: rx_inv_def)
  then have "n = length h" using assms(2,3) by linarith
  with n assms(1,3) show ?thesis
    unfolding rx_inv_def by (intro conjI exI [of _ "length h"]) simp_all
qed


definition pod0 :: "'s \<Rightarrow> 's pod" where
  "pod0 s = \<lparr>hw = s, bcdDevice = 0x0121, rx_size = 0, rx_address = 0, rx_last_count8 = 0, rx_count = 0,
     rx_unread = 0, rx_tail_index = 0,
     last_i2c_dev = \<lparr>i2c_speed = 0, i2c_clock = 0, i2c_data = 0, i2c_address = 0, i2c_padding = 0\<rparr>,
     last_i2c_dev_valid = False, pod_handler = UserErrorHandler 0, pod_reports = [], stack_junk = 0\<rparr>"

definition pic0 :: pic where
  "pic0 = \<lparr>ram = (\<lambda>_. 0), last_poke = 0, txe_pin = 0, tx_log = [], rx_base = 0, rx_len = 0,
     rx_total = 0, pin_level = (\<lambda>_ _. True)\<rparr>"

lemma SerialRxStart_pic: "\<exists>p. rcpod_SerialRxStart pic_usb p0 = Some p"
  by (simp add: rcpod_SerialRxStart_def rcpod_UsartTxRx_def vendor_out_def usb_control_msg_def
      pic_usb_def lo8_def hi8_def push_bit_eq_mult drop_bit_eq_div Let_def)

lemma rx_run_two: "\<exists>p. rx_run [7, 9] 0 p"
proof -
  obtain p where "rx_run [] 0 p"
    using SerialRxStart_pic [of "pod0 pic0"] rx_run.start by blast
  then show ?thesis
    using rx_run.recv [OF rx_run.recv [of "[]" 0 p 7], of 9] by auto
qed


text \<open>A read whose array has room for every unread byte, while the unread bytes do not wrap around the end
  of the scratchpad, gives exactly those bytes in the order of arrival, returns their number and leaves the rest of the
  array alone.\<close>

lemma serial_read_in_order:
  assumes "rx_run h c p" "0 < count" "nat count \<le> length buffer"
    and "int (length h - c) \<le> count" "c mod 93 + (length h - c) \<le> 93"
  shows "\<exists>q. rcpod_SerialRxRead pic_usb buffer count p
           = Some (int (length h - c), drop c h @ drop (length h - c) buffer, q)
         \<and> rx_run h (length h) q"
proof -
  have inv: "rx_inv h c p" using assms(1) by (rule rx_run_inv)
  obtain p' where p': "rcpod_SerialRxProgress pic_usb p = Some (int (length h), p')" "rx_inv h c p'"
    "rx_unread p' = int (length h - c)"
    using SerialRxProgress_inv [OF inv] by blast
  have "\<exists>q. rx_read_loop pic_usb count buffer 0 p'
      = Some (int (length h - c), drop c h @ drop (length h - c) buffer, q)"
  proof (cases "c < length h")
    case False
    with p'(3) show ?thesis by (auto simp: rx_read_loop_done)
  next
    case True
    then have "min (length h - c) (93 - c mod 93) = length h - c" using assms(5) by linarith
    with rx_read_loop_ring [OF p'(2,3) True refl, of count buffer 0] assms True
    show ?thesis by (auto simp: rx_read_loop_done overlay_def)
  qed
  then obtain q where "rcpod_SerialRxRead pic_usb buffer count p
      = Some (int (length h - c), drop c h @ drop (length h - c) buffer, q)"
    using p'(1) by (auto simp: rcpod_SerialRxRead_def)
  with rx_run.read [OF assms(1-3)] show ?thesis by blast
qed

lemma serial_read_in_order_witness:
  "\<exists>p q. rx_run [7, 9] 0 p \<and> rcpod_SerialRxRead pic_usb [0, 0, 5] 3 p = Some (2, [7, 9, 5], q)"
proof -
  obtain p where p: "rx_run [7, 9] 0 p" using rx_run_two by blast
  from serial_read_in_order [OF p, of 3 "[0, 0, 5]"] p show ?thesis by auto
qed

text \<open>A read always empties the ring and returns the number of unread bytes, whatever \<^verbatim>\<open>count\<close> was:
  with a smaller \<^verbatim>\<open>count\<close> it returns more than the array can hold, and the bytes beyond it are lost, where
  \<^verbatim>\<open>rcpod.h\<close> promises to read up to \<^verbatim>\<open>count\<close> bytes.\<close>

lemma serial_read_ignores_count:
  assumes "rx_run h c p" "0 < count" "nat count \<le> length buffer"
  shows "\<exists>out q. rcpod_SerialRxRead pic_usb buffer count p = Some (int (length h - c), out, q)
     \<and> rx_run h (length h) q"
  using SerialRxRead_inv [OF rx_run_inv [OF assms(1)] assms(2,3)] rx_run.read [OF assms] by blast

lemma serial_read_ignores_count_witness:
  "\<exists>p out q. rx_run [7, 9] 0 p \<and> rcpod_SerialRxRead pic_usb [0] 1 p = Some (2, out, q)"
proof -
  obtain p where p: "rx_run [7, 9] 0 p" using rx_run_two by blast
  from serial_read_ignores_count [OF p, of 1 "[0]"] p show ?thesis by auto
qed

text \<open>When the unread bytes wrap around the end of the scratchpad, the block after the wrap is read over the
  start of the array: the oldest bytes are overwritten although the array has room for all of them.\<close>

lemma serial_read_wrap_overwrites:
  assumes "rx_run h c p" "nat count \<le> length buffer" "int (length h - c) \<le> count"
    and "k = 93 - c mod 93" "k < length h - c"
  shows "\<exists>q. rcpod_SerialRxRead pic_usb buffer count p
     = Some (int (length h - c), overlay (drop (c + k) h) (overlay (take k (drop c h)) buffer), q)"
proof -
  have inv: "rx_inv h c p" using assms(1) by (rule rx_run_inv)
  obtain p' where p': "rcpod_SerialRxProgress pic_usb p = Some (int (length h), p')" "rx_inv h c p'"
    "rx_unread p' = int (length h - c)"
    using SerialRxProgress_inv [OF inv] by blast
  define q where "q = p'\<lparr>rx_unread := int (length h - (c + k)), rx_tail_index := int ((c + k) mod 93)\<rparr>"
  have lim: "length h \<le> c + 93" using inv by (simp add: rx_inv_def)
  have ck: "(c + k) mod 93 = 0"
  proof -
    have "(c + k) mod 93 = (c mod 93 + k) mod 93" by (simp add: mod_add_left_eq)
    then show ?thesis using assms(4) by simp
  qed
  define m where "m = length h - (c + k)"
  have m: "c + k < length h" "m \<le> 93" "int m \<le> count" "m = min (length h - (c + k)) (93 - (c + k) mod 93)"
    using assms(3,5) lim ck by (auto simp: m_def)
  have kmin: "k = min (length h - c) (93 - c mod 93)" and kc: "int k \<le> count" and ch: "c < length h"
    using assms(3,4,5) by linarith+
  have inv2: "rx_inv h (c + k) q" and un2: "rx_unread q = int (length h - (c + k))"
    unfolding q_def using assms(5) rx_inv_block [OF p'(2,3), of k] by simp_all
  have len: "nat count \<le> length (overlay (take k (drop c h)) buffer)"
    using assms(2) by simp
  have two: "rx_read_loop pic_usb count buffer 0 p' =
      rx_read_loop pic_usb count (overlay (take m (drop (c + k) h)) (overlay (take k (drop c h)) buffer))
       (0 + int k + int m) (q\<lparr>rx_unread := int (length h - (c + k + m)),
          rx_tail_index := int ((c + k + m) mod 93)\<rparr>)"
    using rx_read_loop_ring [OF p'(2,3) ch kmin kc assms(2), of 0]
      rx_read_loop_ring [OF inv2 un2 m(1,4,3) len, of "0 + int k"]
    unfolding q_def by (rule trans)
  have fin: "length h - (c + k + m) = 0" "0 + int k + int m = int (length h - c)"
    "take m (drop (c + k) h) = drop (c + k) h"
    using m(1) by (simp_all add: m_def)
  have "rx_read_loop pic_usb count buffer 0 p' = Some (int (length h - c),
      overlay (drop (c + k) h) (overlay (take k (drop c h)) buffer),
      q\<lparr>rx_unread := 0, rx_tail_index := int ((c + k + m) mod 93)\<rparr>)"
    unfolding two fin by (rule trans [OF rx_read_loop_done]) simp_all
  then show ?thesis
    unfolding rcpod_SerialRxRead_def p'(1) by simp
qed

lemma rx_run_recv_many:
  "rx_run h c p \<Longrightarrow> length h + length bs \<le> c + 93 \<Longrightarrow> \<exists>q. rx_run (h @ bs) c q"
proof (induction bs arbitrary: h p)
  case Nil
  then show ?case by auto
next
  case (Cons b bs)
  from Cons.prems have "rx_run (h @ [b]) c (p\<lparr>hw := pic_receive b (hw p)\<rparr>)"
    by (intro rx_run.recv) auto
  from Cons.IH [OF this] Cons.prems(2) show ?case by simp
qed

lemma rx_run_wrapped: "\<exists>p. rx_run (replicate 90 1 @ [2, 3, 4, 5, 6]) 90 p"
proof -
  obtain p0 where "rx_run [] 0 p0"
    using SerialRxStart_pic [of "pod0 pic0"] rx_run.start by blast
  then obtain p1 where p1: "rx_run (replicate 90 1) 0 p1"
    using rx_run_recv_many [of "[]" 0 p0 "replicate 90 1"] by auto
  obtain out q where "rcpod_SerialRxRead pic_usb (replicate 90 0) 90 p1 = Some (int (90 - 0), out, q)"
    using SerialRxRead_inv [OF rx_run_inv [OF p1], of 90 "replicate 90 0"] by auto
  then have "rx_run (replicate 90 1) (length (replicate 90 (1::byte))) q"
    using rx_run.read [OF p1, of 90 "replicate 90 0"] by auto
  then show ?thesis
    using rx_run_recv_many [of "replicate 90 1" 90 q "[2, 3, 4, 5, 6]"] by auto
qed

lemma serial_read_wrap_overwrites_witness:
  "\<exists>p q. rx_run (replicate 90 1 @ [2, 3, 4, 5, 6]) 90 p
     \<and> rcpod_SerialRxRead pic_usb [0, 0, 0, 0, 0, 0] 6 p = Some (5, [5, 6, 4, 0, 0, 0], q)"
proof -
  obtain p where p: "rx_run (replicate 90 1 @ [2, 3, 4, 5, 6]) 90 p" using rx_run_wrapped by blast
  have pieces: "drop (90 + 3) (replicate 90 1 @ [2, 3, 4, 5, 6]) = [5, 6 :: byte]"
    "take 3 (drop 90 (replicate 90 1 @ [2, 3, 4, 5, 6])) = [2, 3, 4 :: byte]"
    "overlay [5, 6] (overlay [2, 3, 4] [0, 0, 0, 0, 0, 0]) = [5, 6, 4, 0, 0, 0 :: byte]"
    "int (length (replicate 90 1 @ [2, 3, 4, 5, 6 :: byte]) - 90) = 5"
    by (simp_all add: overlay_def)
  have "nat 6 \<le> length [0, 0, 0, 0, 0, 0 :: byte]" "(5::int) \<le> 6" "(3::nat) = 93 - 90 mod 93"
    "3 < length (replicate 90 1 @ [2, 3, 4, 5, 6 :: byte]) - 90" by simp_all
  from serial_read_wrap_overwrites [OF p, unfolded pieces(4), OF this]
  have "\<exists>q. rcpod_SerialRxRead pic_usb [0, 0, 0, 0, 0, 0] 6 p = Some (5, [5, 6, 4, 0, 0, 0], q)"
    unfolding pieces .
  with p show ?thesis by blast
qed

text \<open>A receive that outruns the ring is reported: when more bytes are unread than the ring holds (and fewer
  than 256 arrived since the last look), \<open>rcpod_SerialRxProgress\<close> calls the error handler, which ends the
  process or, if it is the application's own and returns, makes the result \<^verbatim>\<open>-1\<close>.\<close>

lemma serial_overrun_is_reported:
  fixes k n :: nat
  assumes "rx_total (hw p) = n + k" "k < 256" "rx_last_count8 p = int (n mod 256)"
    and "rx_size p < rx_unread p + int k"
  shows "(pod_handler p = DefaultErrorHandler \<longrightarrow> rcpod_SerialRxProgress pic_usb p = None) \<and>
     (pod_handler p \<noteq> DefaultErrorHandler \<longrightarrow>
       (\<exists>q. rcpod_SerialRxProgress pic_usb p = Some (-1, q)
          \<and> pod_reports q = pod_reports p @ [ErrIO ''rcpod_SerialRxProgress'']))"
proof -
  have "rcpod_SerialRxProgress pic_usb p = Option.bind (rcpod_HandleError (ErrIO ''rcpod_SerialRxProgress'')
      (p\<lparr>rx_last_count8 := int ((n + k) mod 256), rx_count := rx_count p + int k,
         rx_unread := rx_unread p + int k\<rparr>)) (\<lambda>p. Some (-1, p))"
    using count8_advance [OF assms(2), of n] assms
    by (simp add: rcpod_SerialRxProgress_def UsartRxProgress_pic Let_def split: if_splits)
  then show ?thesis
    by (cases "pod_handler p") (auto simp: rcpod_HandleError_def)
qed

lemma serial_overrun_is_reported_witness:
  "rcpod_SerialRxProgress pic_usb ((pod0 (pic0\<lparr>rx_total := 94\<rparr>))\<lparr>rx_size := 93, pod_handler := DefaultErrorHandler\<rparr>) = None"
  using serial_overrun_is_reported
    [of "(pod0 (pic0\<lparr>rx_total := 94\<rparr>))\<lparr>rx_size := 93, pod_handler := DefaultErrorHandler\<rparr>" 0 94]
  by (simp add: pod0_def pic0_def)

text \<open>For every baud rate from 1460 to 1500000 the register value that \<open>rcpod_SerialInit\<close> computes fits
  in the 8-bit SPBRG register and is the rounding of the rate documented in the source: with BRGH set the
  clock divides by 16, otherwise by 64, and the next larger divisor would be too slow.\<close>

lemma spbrg_fits_and_is_nearest_below:
  assumes "1460 \<le> baud" "baud \<le> 1500000"
  shows "\<exists>q g. rcpod_spbrg baud = Some (q, g) \<and> 0 \<le> q \<and> q \<le> 255 \<and> (g = 0x04 \<or> g = 0x00) \<and>
     (let m = (if g = 0x04 then 16 else 64) * baud in (q + 1) * m \<le> 24000000 \<and> 24000000 < (q + 2) * m)"
proof (cases "24000000 div (baud * 16) - 1 > 255")
  case False
  have "24000000 div (baud * 16) \<ge> 1"
    using assms zdiv_mono2 [of 24000000 "baud * 16" 24000000] by simp
  moreover have "rcpod_spbrg baud = Some (24000000 div (baud * 16) - 1, 0x04)"
    using assms False by (simp add: rcpod_spbrg_def cdiv_def chk32_def int32_ok_def sdiv_pos)
  ultimately show ?thesis
    using assms False div_bounds [of "baud * 16" 24000000] by (simp add: Let_def mult.commute add.commute)
next
  case True
  have le: "24000000 div (baud * 64) \<le> 24000000 div (1460 * 64)"
    using assms by (intro zdiv_mono2) auto
  have small: "baud * 64 \<le> 24000000"
  proof (rule ccontr)
    assume "\<not> baud * 64 \<le> 24000000"
    then have "24000000 div (baud * 16) \<le> 24000000 div (375000 * 16)"
      by (intro zdiv_mono2) auto
    with True show False by simp
  qed
  then have "24000000 div (baud * 64) \<ge> 1"
    using assms zdiv_mono2 [of 24000000 "baud * 64" 24000000] by simp
  moreover have "rcpod_spbrg baud = Some (24000000 div (baud * 64) - 1, 0x00)"
    using assms True by (simp add: rcpod_spbrg_def cdiv_def chk32_def int32_ok_def sdiv_pos)
  moreover have "(0::byte) \<noteq> 4" by simp
  ultimately show ?thesis
    using assms le div_bounds [of "baud * 64" 24000000] by (simp add: Let_def mult.commute add.commute)
qed

lemma spbrg_fits_and_is_nearest_below_witness:
  "rcpod_spbrg 9600 = Some (155, 0x04) \<and> (\<exists>q g. rcpod_spbrg 9600 = Some (q, g) \<and> 0 \<le> q \<and> q \<le> 255)"
  using spbrg_fits_and_is_nearest_below [of 9600]
  by (auto simp: rcpod_spbrg_def cdiv_def chk32_def int32_ok_def sdiv_pos)

text \<open>For a slower rate, down to 1 baud, neither divider can reach it and nothing reports it: the value computed
  is over 255, and the poke keeps its low byte only, so the port runs at another rate (1200 baud sets
  55, which is 6696 baud).\<close>

lemma spbrg_truncates_slow_rates:
  assumes "1 \<le> baud" "baud < 1460"
  shows "\<exists>q. rcpod_spbrg baud = Some (q, 0x00) \<and> 255 < q \<and> uint (word_of_int q :: byte) \<noteq> q"
proof -
  have "24000000 div (baud * 64) \<ge> 24000000 div (1459 * 64)" "24000000 div (baud * 16) \<ge> 24000000 div (1459 * 16)"
    using assms by (intro zdiv_mono2; simp)+
  then have q: "255 < 24000000 div (baud * 64) - 1" "255 < 24000000 div (baud * 16) - 1" by simp_all
  then have "rcpod_spbrg baud = Some (24000000 div (baud * 64) - 1, 0x00)"
    using assms by (simp add: rcpod_spbrg_def cdiv_def chk32_def int32_ok_def sdiv_pos)
  moreover have "uint (word_of_int r :: byte) \<noteq> r" if "255 < r" for r
    using uint8_lt [of "word_of_int r"] that by linarith
  ultimately show ?thesis using q(1) by blast
qed

lemma spbrg_truncates_slow_rates_witness:
  "rcpod_spbrg 1200 = Some (311, 0x00) \<and> (word_of_int 311 :: byte) = 55
   \<and> (\<exists>q. rcpod_spbrg 1200 = Some (q, 0x00) \<and> uint (word_of_int q :: byte) \<noteq> q)"
  using spbrg_truncates_slow_rates [of 1200]
  by (auto simp: rcpod_spbrg_def cdiv_def chk32_def int32_ok_def sdiv_pos)

end
