(* ===== verification/Rcpod_I2C.thy ===== *)
theory Rcpod_I2C
  imports Rcpod_Protocol
begin

text \<open>
  The I2C bus master of librcpod, \<^verbatim>\<open>rcpod/src/i2c.c\<close>: the bus driven bit by bit through GPIO requests for
  old firmware (\<open>softi2c_\<dots>\<close>), the requests of newer firmware (\<open>i2c_\<dots>\<close>) and the public entry
  points that choose between them. The locale \<open>gpio_port\<close> is what the bit-banged bus needs of the
  device; it is interpreted on the device of \<open>Rcpod_Protocol\<close> and on \<open>wire_usb\<close>, two pins that are the
  wires of a bus with a slave on it, whose levels are logged and decoded.

  A \<^verbatim>\<open>write_buffer\<close> is the memory from its address on, since \<open>i2c_write4\<close> reads four bytes of it
  whatever \<^verbatim>\<open>write_count\<close> is; a \<^verbatim>\<open>read_buffer\<close> of \<^verbatim>\<open>read_count\<close> bytes is the list of its old
  contents.
\<close>

section \<open>The bus driven through GPIO\<close>

definition softi2c_set_data :: "'s usb \<Rightarrow> rcpod_i2c_dev \<Rightarrow> bool \<Rightarrow> 's pod \<Rightarrow> 's pod option" where
  "softi2c_set_data usb idev value p =
     (if value then rcpod_GpioAssert usb (RCPOD_INPUT (i2c_data idev)) p
      else rcpod_GpioAssertBuffer usb [RCPOD_NEGATE (i2c_data idev), RCPOD_OUTPUT (i2c_data idev)] p)"

definition softi2c_test_data :: "'s usb \<Rightarrow> rcpod_i2c_dev \<Rightarrow> 's pod \<Rightarrow> (int \<times> 's pod) option" where
  "softi2c_test_data usb idev p = rcpod_GpioTest usb (i2c_data idev) p"

definition softi2c_set_clock :: "'s usb \<Rightarrow> rcpod_i2c_dev \<Rightarrow> bool \<Rightarrow> 's pod \<Rightarrow> 's pod option" where
  "softi2c_set_clock usb idev value p =
     (if value then rcpod_GpioAssert usb (i2c_clock idev) p
      else rcpod_GpioAssert usb (RCPOD_NEGATE (i2c_clock idev)) p)"

definition softi2c_start :: "'s usb \<Rightarrow> rcpod_i2c_dev \<Rightarrow> 's pod \<Rightarrow> 's pod option" where
  "softi2c_start usb idev p = do {
     p \<leftarrow> rcpod_GpioAssert usb (RCPOD_OUTPUT (i2c_clock idev)) p;
     p \<leftarrow> softi2c_set_clock usb idev True p;
     p \<leftarrow> softi2c_set_data usb idev True p;
     p \<leftarrow> softi2c_set_data usb idev False p;
     softi2c_set_clock usb idev False p
   }"

definition softi2c_stop :: "'s usb \<Rightarrow> rcpod_i2c_dev \<Rightarrow> 's pod \<Rightarrow> 's pod option" where
  "softi2c_stop usb idev p = do {
     p \<leftarrow> softi2c_set_data usb idev False p;
     p \<leftarrow> softi2c_set_clock usb idev True p;
     softi2c_set_data usb idev True p
   }"

text \<open>The loops over the eight bits of a byte, counted down.\<close>

fun softi2c_read_bits :: "'s usb \<Rightarrow> rcpod_i2c_dev \<Rightarrow> nat \<Rightarrow> byte \<Rightarrow> 's pod \<Rightarrow> (byte \<times> 's pod) option" where
  "softi2c_read_bits usb idev 0 b p = Some (b, p)"
| "softi2c_read_bits usb idev (Suc n) b p = do {
     let b = push_bit 1 b;
     p \<leftarrow> softi2c_set_clock usb idev True p;
     (level, p) \<leftarrow> softi2c_test_data usb idev p;
     let b = (if level \<noteq> 0 then b OR 1 else b);
     p \<leftarrow> softi2c_set_clock usb idev False p;
     softi2c_read_bits usb idev n b p
   }"

definition softi2c_read_byte :: "'s usb \<Rightarrow> rcpod_i2c_dev \<Rightarrow> bool \<Rightarrow> 's pod \<Rightarrow> (byte \<times> 's pod) option" where
  "softi2c_read_byte usb idev ack p = do {
     p \<leftarrow> softi2c_set_data usb idev True p;
     (b, p) \<leftarrow> softi2c_read_bits usb idev 8 0 p;
     p \<leftarrow> softi2c_set_data usb idev (\<not> ack) p;
     p \<leftarrow> softi2c_set_clock usb idev True p;
     p \<leftarrow> softi2c_set_clock usb idev False p;
     Some (b, p)
   }"

fun softi2c_write_bits :: "'s usb \<Rightarrow> rcpod_i2c_dev \<Rightarrow> nat \<Rightarrow> byte \<Rightarrow> 's pod \<Rightarrow> 's pod option" where
  "softi2c_write_bits usb idev 0 b p = Some p"
| "softi2c_write_bits usb idev (Suc n) b p = do {
     p \<leftarrow> softi2c_set_data usb idev (b AND 0x80 \<noteq> 0) p;
     let b = push_bit 1 b;
     p \<leftarrow> softi2c_set_clock usb idev True p;
     p \<leftarrow> softi2c_set_clock usb idev False p;
     softi2c_write_bits usb idev n b p
   }"

definition softi2c_write_byte :: "'s usb \<Rightarrow> rcpod_i2c_dev \<Rightarrow> byte \<Rightarrow> 's pod \<Rightarrow> (bool \<times> 's pod) option" where
  "softi2c_write_byte usb idev b p = do {
     p \<leftarrow> softi2c_write_bits usb idev 8 b p;
     p \<leftarrow> softi2c_set_clock usb idev True p;
     p \<leftarrow> softi2c_set_data usb idev True p;
     (level, p) \<leftarrow> softi2c_test_data usb idev p;
     p \<leftarrow> softi2c_set_clock usb idev False p;
     Some (level = 0, p)
   }"

text \<open>The loop of \<open>softi2c_write\<close> from index \<open>i\<close>: the value returned.\<close>

function softi2c_write_loop :: "'s usb \<Rightarrow> rcpod_i2c_dev \<Rightarrow> (nat \<Rightarrow> byte) \<Rightarrow> int \<Rightarrow> int \<Rightarrow> 's pod
    \<Rightarrow> (int \<times> 's pod) option" where
  "softi2c_write_loop usb idev write_buffer write_count i p =
     (if i < write_count then do {
        (ack, p) \<leftarrow> softi2c_write_byte usb idev (write_buffer (nat i)) p;
        if \<not> ack then do { p \<leftarrow> softi2c_stop usb idev p; Some (i + 1, p) }
        else softi2c_write_loop usb idev write_buffer write_count (i + 1) p
      } else do { p \<leftarrow> softi2c_stop usb idev p; Some (write_count + 1, p) })"
  by pat_completeness auto
termination
  by (relation "measure (\<lambda>(_, _, _, n, i, _). nat (n - i))") auto

definition softi2c_write :: "'s usb \<Rightarrow> rcpod_i2c_dev \<Rightarrow> (nat \<Rightarrow> byte) \<Rightarrow> int \<Rightarrow> 's pod
    \<Rightarrow> (int \<times> 's pod) option" where
  "softi2c_write usb idev write_buffer write_count p = do {
     p \<leftarrow> softi2c_start usb idev p;
     (ack, p) \<leftarrow> softi2c_write_byte usb idev (push_bit 1 (i2c_address idev)) p;
     if \<not> ack then do { p \<leftarrow> softi2c_stop usb idev p; Some (0, p) }
     else softi2c_write_loop usb idev write_buffer write_count 0 p
   }"

text \<open>The bytes \<open>i, \<dots>, read_count - 1\<close> of \<^verbatim>\<open>read_buffer\<close>; every one but the last is acknowledged.\<close>

fun softi2c_read_loop :: "'s usb \<Rightarrow> rcpod_i2c_dev \<Rightarrow> byte list \<Rightarrow> 's pod \<Rightarrow> (byte list \<times> 's pod) option" where
  "softi2c_read_loop usb idev [] p = Some ([], p)"
| "softi2c_read_loop usb idev (_ # rest) p = do {
     (b, p) \<leftarrow> softi2c_read_byte usb idev (rest \<noteq> []) p;
     (bs, p) \<leftarrow> softi2c_read_loop usb idev rest p;
     Some (b # bs, p)
   }"

definition softi2c_read :: "'s usb \<Rightarrow> rcpod_i2c_dev \<Rightarrow> byte list \<Rightarrow> 's pod
    \<Rightarrow> (int \<times> byte list \<times> 's pod) option" where
  "softi2c_read usb idev read_buffer p = do {
     p \<leftarrow> softi2c_start usb idev p;
     (ack, p) \<leftarrow> softi2c_write_byte usb idev (push_bit 1 (i2c_address idev) OR 1) p;
     if \<not> ack then do { p \<leftarrow> softi2c_stop usb idev p; Some (0, read_buffer, p) }
     else do {
       (bs, p) \<leftarrow> softi2c_read_loop usb idev read_buffer p;
       p \<leftarrow> softi2c_stop usb idev p;
       Some (1, bs, p)
     }
   }"

definition softi2c_write_read :: "'s usb \<Rightarrow> rcpod_i2c_dev \<Rightarrow> (nat \<Rightarrow> byte) \<Rightarrow> int \<Rightarrow> byte list \<Rightarrow> 's pod
    \<Rightarrow> (int \<times> byte list \<times> 's pod) option" where
  "softi2c_write_read usb idev write_buffer write_count read_buffer p = do {
     (ack_total, p) \<leftarrow> softi2c_write usb idev write_buffer write_count p;
     if ack_total = write_count + 1 then do {
       (n, bs, p) \<leftarrow> softi2c_read usb idev read_buffer p;
       Some (ack_total + n, bs, p)
     } else Some (ack_total, read_buffer, p)
   }"

section \<open>Requests of newer firmware\<close>

text \<open>The comparison of the devices is a \<^verbatim>\<open>memcmp\<close>, which sees the padding byte as well.\<close>

definition i2c_set_dev :: "'s usb \<Rightarrow> rcpod_i2c_dev \<Rightarrow> 's pod \<Rightarrow> (int \<times> 's pod) option" where
  "i2c_set_dev usb idev p =
     (if last_i2c_dev_valid p \<and> last_i2c_dev p = idev then Some (0, p)
      else
        let converted_speed = 0 in
        case usb_control_msg usb \<lparr>bRequestType = USB_TYPE_VENDOR, bRequest = RCPOD_CTRL_I2C_SET,
               wValue = push_bit 8 (uint (i2c_clock idev)) OR uint (i2c_data idev),
               wIndex = push_bit 8 converted_speed OR uint (i2c_address idev), wLength = 0\<rparr> p of
          (r, _, p) \<Rightarrow>
            if r < 0 then do { p \<leftarrow> rcpod_HandleError (ErrUsb ''i2c_set_dev'') p; Some (r, p) }
            else Some (r, p\<lparr>last_i2c_dev := idev, last_i2c_dev_valid := True\<rparr>))"

definition i2c_write_read :: "'s usb \<Rightarrow> (nat \<Rightarrow> byte) \<Rightarrow> int \<Rightarrow> byte list \<Rightarrow> 's pod
    \<Rightarrow> (int \<times> byte list \<times> 's pod) option" where
  "i2c_write_read usb write_buffer write_count read_buffer p =
     (let read_count = int (length read_buffer) in
      if write_count > RCPOD_SCRATCHPAD_SIZE then do {
        p \<leftarrow> rcpod_HandleError (ErrInval ''i2c_write_read'') p; Some (0, read_buffer, p) }
      else if read_count > RCPOD_SCRATCHPAD_SIZE then do {
        p \<leftarrow> rcpod_HandleError (ErrInval ''i2c_write_read'') p; Some (0, read_buffer, p) }
      else do {
        p \<leftarrow> (if write_count > 0 then
                rcpod_PokeBuffer usb RCPOD_REG_SCRATCHPAD (map write_buffer [0..<nat write_count]) p
              else Some p);
        case vendor_in usb RCPOD_CTRL_I2C_TXRX (push_bit 8 read_count OR write_count)
               RCPOD_REG_SCRATCHPAD 1 p of
          (r, d, p) \<Rightarrow>
            if r < 0 then do {
              p \<leftarrow> rcpod_HandleError (ErrUsb ''i2c_write_read'') p; Some (0, read_buffer, p) }
            else do {
              (bs, p) \<leftarrow> (if read_count > 0 then rcpod_PeekBuffer usb RCPOD_REG_SCRATCHPAD read_buffer p
                           else Some (read_buffer, p));
              Some (uint (byte_at (stack_junk p) d 0), bs, p)
            }
      })"

definition i2c_write1_read8 :: "'s usb \<Rightarrow> byte \<Rightarrow> byte list \<Rightarrow> 's pod
    \<Rightarrow> (int \<times> byte list \<times> 's pod) option" where
  "i2c_write1_read8 usb write_byte read_buffer p =
     (let read_count = length read_buffer in
      case vendor_in usb RCPOD_CTRL_I2C_W1READ8 (uint write_byte) (int read_count) read_count p of
        (r, d, p) \<Rightarrow>
          let read_buffer = overlay d read_buffer in
          if r < 0 then do {
            p \<leftarrow> rcpod_HandleError (ErrUsb ''i2c_write1_read8'') p; Some (0, read_buffer, p) }
          else if r = 0 then Some (0, read_buffer, p)
          else Some (3, read_buffer, p))"

definition i2c_read8 :: "'s usb \<Rightarrow> byte list \<Rightarrow> 's pod \<Rightarrow> (int \<times> byte list \<times> 's pod) option" where
  "i2c_read8 usb read_buffer p =
     (let read_count = length read_buffer in
      case vendor_in usb RCPOD_CTRL_I2C_READ8 (int read_count) 0 read_count p of
        (r, d, p) \<Rightarrow>
          let read_buffer = overlay d read_buffer in
          if r < 0 then do {
            p \<leftarrow> rcpod_HandleError (ErrUsb ''i2c_read8'') p; Some (0, read_buffer, p) }
          else if r = 0 then Some (0, read_buffer, p)
          else Some (1, read_buffer, p))"

definition i2c_write4 :: "'s usb \<Rightarrow> (nat \<Rightarrow> byte) \<Rightarrow> int \<Rightarrow> 's pod \<Rightarrow> (int \<times> 's pod) option" where
  "i2c_write4 usb write_buffer write_count p =
     (let write_count = (if write_count < 0 then 0 else write_count);
          write_count = (if write_count > 4 then 4 else write_count);
          cmd = (if write_count = 0 then RCPOD_CTRL_I2C_WRITE0
                 else if write_count = 1 then RCPOD_CTRL_I2C_WRITE1
                 else if write_count = 2 then RCPOD_CTRL_I2C_WRITE2
                 else if write_count = 3 then RCPOD_CTRL_I2C_WRITE3
                 else RCPOD_CTRL_I2C_WRITE4)
      in case vendor_in usb cmd (pack16 (write_buffer 0) (write_buffer 1))
                (pack16 (write_buffer 2) (write_buffer 3)) 1 p of
        (r, d, p) \<Rightarrow>
          if r < 0 then do { p \<leftarrow> rcpod_HandleError (ErrUsb ''i2c_write4'') p; Some (0, p) }
          else Some (uint (byte_at (stack_junk p) d 0), p))"

section \<open>Public entry points\<close>

definition rcpod_HasAcceleratedI2C :: "'s pod \<Rightarrow> bool" where
  "rcpod_HasAcceleratedI2C p \<longleftrightarrow> bcdDevice p \<ge> 0x0120"

definition rcpod_I2CWriteRead :: "'s usb \<Rightarrow> rcpod_i2c_dev \<Rightarrow> (nat \<Rightarrow> byte) \<Rightarrow> int \<Rightarrow> byte list \<Rightarrow> 's pod
    \<Rightarrow> (int \<times> byte list \<times> 's pod) option" where
  "rcpod_I2CWriteRead usb idev write_buffer write_count read_buffer p =
     (let read_count = length read_buffer in
      if \<not> rcpod_HasAcceleratedI2C p then softi2c_write_read usb idev write_buffer write_count read_buffer p
      else do {
        (r, p) \<leftarrow> i2c_set_dev usb idev p;
        if r < 0 then Some (0, read_buffer, p)
        else if write_count = 1 \<and> read_count \<le> 8 \<and> read_count > 0 then
          i2c_write1_read8 usb (write_buffer 0) read_buffer p
        else i2c_write_read usb write_buffer write_count read_buffer p
      })"

definition rcpod_I2CWrite :: "'s usb \<Rightarrow> rcpod_i2c_dev \<Rightarrow> (nat \<Rightarrow> byte) \<Rightarrow> int \<Rightarrow> 's pod
    \<Rightarrow> (int \<times> 's pod) option" where
  "rcpod_I2CWrite usb idev write_buffer write_count p =
     (if \<not> rcpod_HasAcceleratedI2C p then softi2c_write usb idev write_buffer write_count p
      else do {
        (r, p) \<leftarrow> i2c_set_dev usb idev p;
        if r < 0 then Some (0, p)
        else if write_count \<le> 4 then i2c_write4 usb write_buffer write_count p
        else do {
          (n, _, p) \<leftarrow> i2c_write_read usb write_buffer write_count [] p;
          Some (n, p)
        }
      })"

definition rcpod_I2CRead :: "'s usb \<Rightarrow> rcpod_i2c_dev \<Rightarrow> byte list \<Rightarrow> 's pod
    \<Rightarrow> (int \<times> byte list \<times> 's pod) option" where
  "rcpod_I2CRead usb idev read_buffer p =
     (let read_count = length read_buffer in
      if \<not> rcpod_HasAcceleratedI2C p then softi2c_read usb idev read_buffer p
      else do {
        (r, p) \<leftarrow> i2c_set_dev usb idev p;
        if r < 0 then Some (0, read_buffer, p)
        else if read_count \<le> 8 \<and> read_count > 0 then i2c_read8 usb read_buffer p
        else i2c_write_read usb (\<lambda>_. 0) 0 read_buffer p
      })"

declare softi2c_write_loop.simps [simp del]

end
