(* ===== verification/Rcpod_Bus.thy ===== *)
theory Rcpod_Bus
  imports Rcpod_I2C
begin

text \<open>
  The wires of an I2C bus behind two pins of the device, for the correctness of the bit-banged master of
  \<open>Rcpod_I2C\<close>. A wire is high unless somebody pulls it low. The slave on the data wire is a function of the
  number of falling clock edges since the last start condition, so bit \<open>i\<close> (most significant first) of byte
  \<open>j\<close> of a transaction is slave bit \<open>9 * j + i + 1\<close> and its acknowledge is \<open>9 * j + 9\<close>. Every change is logged
  and \<open>bus_events\<close> decodes the log as a receiver would.
\<close>

section \<open>Two wires and a slave\<close>

record wire =
  scl_pin :: byte
  sda_pin :: byte
  scl_latch :: bool
  scl_in :: bool
  sda_latch :: bool
  sda_in :: bool
  slave :: "nat \<Rightarrow> bool"
  clocks :: nat
  trace :: "(bool \<times> bool) list"

definition scl :: "wire \<Rightarrow> bool" where
  "scl w \<longleftrightarrow> scl_in w \<or> scl_latch w"

definition sda :: "wire \<Rightarrow> bool" where
  "sda w \<longleftrightarrow> (sda_in w \<or> sda_latch w) \<and> slave w (clocks w)"

text \<open>After the pins changed from those of \<open>w\<close> to those of \<open>w'\<close>: the slave sees a start condition or a
  falling clock edge, and the levels are logged.\<close>

definition wire_tick :: "wire \<Rightarrow> wire \<Rightarrow> wire" where
  "wire_tick w w' =
     (let w' = (if scl w \<and> scl w' \<and> sda w \<and> \<not> sda w' then w'\<lparr>clocks := 0\<rparr>
                else if scl w \<and> \<not> scl w' then w'\<lparr>clocks := clocks w' + 1\<rparr> else w')
      in w'\<lparr>trace := trace w' @ [(scl w', sda w')]\<rparr>)"

definition wire_assert :: "byte \<Rightarrow> wire \<Rightarrow> wire" where
  "wire_assert pin w =
     (if pin AND 0x38 = 0 then w
      else if pin AND 0x3F = scl_pin w then
        wire_tick w (if bit pin 6 then w\<lparr>scl_in := bit pin 7\<rparr> else w\<lparr>scl_latch := bit pin 7\<rparr>)
      else if pin AND 0x3F = sda_pin w then
        wire_tick w (if bit pin 6 then w\<lparr>sda_in := bit pin 7\<rparr> else w\<lparr>sda_latch := bit pin 7\<rparr>)
      else w)"

definition wire_get :: "byte \<Rightarrow> wire \<Rightarrow> bool" where
  "wire_get pin w \<longleftrightarrow>
     (if pin AND 0x3F = scl_pin w then scl w
      else if pin AND 0x3F = sda_pin w then sda w else False) = bit pin 7"

definition wire_usb :: "wire usb" where
  "wire_usb c w =
     (if bRequest c = RCPOD_CTRL_GPIO_ASSERT then
        ((0, []), fold wire_assert [lo8 (wValue c), hi8 (wValue c), lo8 (wIndex c), hi8 (wIndex c)] w)
      else if bRequest c = RCPOD_CTRL_GPIO_READ then ((1, [of_bool (wire_get (lo8 (wIndex c)) w)]), w)
      else ((- 32, []), w))"

section \<open>Decoding the wires\<close>

datatype bus_event = Start | Stop | Bit bool

text \<open>A bit is sampled on the rising clock edge; the data wire may change while the clock is high only to
  start or to stop.\<close>

fun edge :: "bool \<times> bool \<Rightarrow> bool \<times> bool \<Rightarrow> bus_event list" where
  "edge (c, d) (c', d') =
     (if \<not> c \<and> c' then [Bit d']
      else if c \<and> c' \<and> d \<and> \<not> d' then [Start]
      else if c \<and> c' \<and> \<not> d \<and> d' then [Stop]
      else [])"

fun bus_events :: "(bool \<times> bool) list \<Rightarrow> bus_event list" where
  "bus_events (a # b # r) = edge a b @ bus_events (b # r)"
| "bus_events _ = []"

definition since_start :: "bus_event list \<Rightarrow> bus_event list" where
  "since_start evs = rev (takeWhile (\<lambda>e. e \<noteq> Start) (rev evs))"

definition byte_bits :: "byte \<Rightarrow> bus_event list" where
  "byte_bits b = map (\<lambda>i. Bit (bit b (7 - i))) [0..<8]"

lemma bus_events_snoc: "xs \<noteq> [] \<Longrightarrow> bus_events (xs @ [b]) = bus_events xs @ edge (last xs) b"
  by (induction xs rule: bus_events.induct) auto

lemma since_start_Start [simp]: "since_start (evs @ [Start]) = []"
  by (simp add: since_start_def)

lemma since_start_append: "Start \<notin> set es \<Longrightarrow> since_start (evs @ es) = since_start evs @ es"
  unfolding since_start_def rev_append by (subst takeWhile_append2) auto

section \<open>The pins of a bus\<close>

definition wired :: "rcpod_i2c_dev \<Rightarrow> wire \<Rightarrow> bool" where
  "wired idev w \<longleftrightarrow>
     i2c_clock idev AND 0xC0 = 0x80 \<and> i2c_data idev AND 0xC0 = 0x80 \<and>
     i2c_clock idev AND 0x38 \<noteq> 0 \<and> i2c_data idev AND 0x38 \<noteq> 0 \<and>
     scl_pin w = i2c_clock idev AND 0x3F \<and> sda_pin w = i2c_data idev AND 0x3F \<and>
     i2c_clock idev AND 0x3F \<noteq> i2c_data idev AND 0x3F \<and> trace w \<noteq> [] \<and> last (trace w) = (scl w, sda w)"

interpretation wire_gpio: gpio_port wire_usb wire_assert wire_get
  by unfold_locales (simp_all add: wire_usb_def wire_assert_def)

lemma pin_flags:
  assumes "(p :: byte) AND 0xC0 = 0x80"
  shows "bit p 7" "\<not> bit p 6"
proof -
  have "bit (p AND 0xC0) 7 = bit (0x80 :: byte) 7" "bit (p AND 0xC0) 6 = bit (0x80 :: byte) 6"
    by (simp_all only: assms)
  then show "bit p 7" "\<not> bit p 6" by (simp_all add: bit_and_iff)
qed

lemma pin_parts:
  "RCPOD_INPUT p AND 0x38 = p AND 0x38" "RCPOD_INPUT p AND 0x3F = p AND 0x3F"
  "RCPOD_OUTPUT p AND 0x38 = p AND 0x38" "RCPOD_OUTPUT p AND 0x3F = p AND 0x3F"
  "RCPOD_NEGATE p AND 0x38 = p AND 0x38" "RCPOD_NEGATE p AND 0x3F = p AND 0x3F"
  by (simp_all add: RCPOD_INPUT_def RCPOD_OUTPUT_def RCPOD_NEGATE_def bit.conj_disj_distrib2
      bit.conj_xor_distrib2 and.assoc)

lemma pin_bits:
  "bit (RCPOD_INPUT p) 6" "bit (RCPOD_INPUT p) 7" "bit (RCPOD_OUTPUT p) 6" "\<not> bit (RCPOD_OUTPUT p) 7"
  "bit (RCPOD_NEGATE p) 6 = bit p 6" "bit (RCPOD_NEGATE p) 7 \<longleftrightarrow> \<not> bit p 7"
  by (simp_all add: RCPOD_INPUT_def RCPOD_OUTPUT_def RCPOD_NEGATE_def bit_or_iff bit_and_iff bit_xor_iff
      bit_not_iff)


section \<open>One change of a pin\<close>

lemma assert_clock:
  assumes "wired idev w"
  shows "wire_assert (i2c_clock idev) w = wire_tick w (w\<lparr>scl_latch := True\<rparr>)"
    "wire_assert (RCPOD_NEGATE (i2c_clock idev)) w = wire_tick w (w\<lparr>scl_latch := False\<rparr>)"
    "wire_assert (RCPOD_OUTPUT (i2c_clock idev)) w = wire_tick w (w\<lparr>scl_in := False\<rparr>)"
  using assms pin_flags [of "i2c_clock idev"]
  by (simp_all add: wired_def wire_assert_def pin_parts pin_bits)

lemma assert_data:
  assumes "wired idev w"
  shows "wire_assert (RCPOD_INPUT (i2c_data idev)) w = wire_tick w (w\<lparr>sda_in := True\<rparr>)"
    "wire_assert (RCPOD_NEGATE (i2c_data idev)) w = wire_tick w (w\<lparr>sda_latch := False\<rparr>)"
    "wire_assert (RCPOD_OUTPUT (i2c_data idev)) w = wire_tick w (w\<lparr>sda_in := False\<rparr>)"
  using assms pin_flags [of "i2c_data idev"]
  by (auto simp: wired_def wire_assert_def pin_parts pin_bits)

lemma get_data: "wired idev w \<Longrightarrow> wire_get (i2c_data idev) w = sda w"
  using pin_flags [of "i2c_data idev"] by (auto simp: wired_def wire_get_def)

lemma tick_pins [simp]:
  "scl_pin (wire_tick w w') = scl_pin w'" "sda_pin (wire_tick w w') = sda_pin w'"
  "scl_latch (wire_tick w w') = scl_latch w'" "scl_in (wire_tick w w') = scl_in w'"
  "sda_latch (wire_tick w w') = sda_latch w'" "sda_in (wire_tick w w') = sda_in w'"
  "slave (wire_tick w w') = slave w'" "scl (wire_tick w w') = scl w'"
  by (simp_all add: wire_tick_def Let_def scl_def)

lemma tick_clocks:
  "clocks (wire_tick w w') =
     (if scl w \<and> scl w' \<and> sda w \<and> \<not> sda w' then 0
      else if scl w \<and> \<not> scl w' then clocks w' + 1 else clocks w')"
  by (simp add: wire_tick_def Let_def)

lemma tick_sda: "sda (wire_tick w w') \<longleftrightarrow> (sda_in w' \<or> sda_latch w') \<and> slave w' (clocks (wire_tick w w'))"
  by (simp add: sda_def)

lemma tick_trace: "trace (wire_tick w w') = trace w' @ [(scl w', sda (wire_tick w w'))]"
  by (simp add: wire_tick_def Let_def scl_def sda_def)

lemma wired_tick:
  "wired idev w \<Longrightarrow> scl_pin w' = scl_pin w \<Longrightarrow> sda_pin w' = sda_pin w \<Longrightarrow> wired idev (wire_tick w w')"
  by (simp add: wired_def tick_trace)

lemma events_tick:
  "wired idev w \<Longrightarrow> trace w' = trace w \<Longrightarrow>
   bus_events (trace (wire_tick w w')) =
     bus_events (trace w) @ edge (scl w, sda w) (scl w', sda (wire_tick w w'))"
  by (simp add: wired_def tick_trace bus_events_snoc)

lemmas tick_facts = assert_clock assert_data wired_tick events_tick tick_clocks tick_sda

section \<open>The operations of the master on the wires\<close>

lemma set_data_wire:
  "softi2c_set_data wire_usb idev v p =
     Some (p\<lparr>hw := (if v then wire_assert (RCPOD_INPUT (i2c_data idev)) (hw p)
       else wire_assert (RCPOD_OUTPUT (i2c_data idev)) (wire_assert (RCPOD_NEGATE (i2c_data idev)) (hw p)))\<rparr>)"
  by (simp add: softi2c_set_data_def wire_gpio.GpioAssert_step wire_gpio.GpioAssertBuffer_fold)

lemma set_clock_wire:
  "softi2c_set_clock wire_usb idev v p =
     Some (p\<lparr>hw := wire_assert (if v then i2c_clock idev else RCPOD_NEGATE (i2c_clock idev)) (hw p)\<rparr>)"
  by (simp add: softi2c_set_clock_def wire_gpio.GpioAssert_step)

lemma test_data_wire:
  "wired idev (hw p) \<Longrightarrow> softi2c_test_data wire_usb idev p = Some (of_bool (sda (hw p)), p)"
  by (simp add: softi2c_test_data_def wire_gpio.GpioTest_step get_data)

text \<open>Between two bits: the clock is an output and low.\<close>

definition bus_low :: "rcpod_i2c_dev \<Rightarrow> wire \<Rightarrow> bool" where
  "bus_low idev w \<longleftrightarrow> wired idev w \<and> \<not> scl_in w \<and> \<not> scl_latch w"

definition bus_after :: "rcpod_i2c_dev \<Rightarrow> wire \<Rightarrow> wire \<Rightarrow> nat \<Rightarrow> bus_event list \<Rightarrow> bool" where
  "bus_after idev w w' n evs \<longleftrightarrow>
     bus_low idev w' \<and> slave w' = slave w \<and> clocks w' = clocks w + n \<and>
     bus_events (trace w') = bus_events (trace w) @ evs"

lemma bus_after_trans:
  "bus_after idev w w' n evs \<Longrightarrow> bus_after idev w' w'' m evs' \<Longrightarrow> bus_after idev w w'' (n + m) (evs @ evs')"
  by (simp add: bus_after_def)

text \<open>What \<open>set_data\<close>, then the clock up and down, do to the wires.\<close>

definition data_wire :: "rcpod_i2c_dev \<Rightarrow> bool \<Rightarrow> wire \<Rightarrow> wire" where
  "data_wire idev v w =
     (if v then wire_tick w (w\<lparr>sda_in := True\<rparr>)
      else let w1 = wire_tick w (w\<lparr>sda_latch := False\<rparr>) in wire_tick w1 (w1\<lparr>sda_in := False\<rparr>))"

lemma data_wire_low:
  assumes "bus_low idev w"
  shows "bus_after idev w (data_wire idev v w) 0 []" "sda_in (data_wire idev v w) = v"
    "\<not> v \<Longrightarrow> \<not> sda_latch (data_wire idev v w)"
    "sda (data_wire idev v w) \<longleftrightarrow> v \<and> slave w (clocks w)"
proof -
  have low: "\<not> scl w" "\<not> scl (w\<lparr>sda_in := b\<rparr>)" "\<not> scl (w\<lparr>sda_latch := b\<rparr>)" for b
    using assms by (simp_all add: bus_low_def scl_def)
  let ?w1 = "wire_tick w (w\<lparr>sda_latch := False\<rparr>)"
  have low1: "\<not> scl ?w1" "\<not> scl (?w1\<lparr>sda_in := b\<rparr>)" for b
    using low assms by (simp_all add: scl_def bus_low_def)
  have w1: "wired idev ?w1" using assms by (simp add: bus_low_def wired_tick)
  show "bus_after idev w (data_wire idev v w) 0 []" "sda_in (data_wire idev v w) = v"
    "\<not> v \<Longrightarrow> \<not> sda_latch (data_wire idev v w)"
    "sda (data_wire idev v w) \<longleftrightarrow> v \<and> slave w (clocks w)"
    using assms low low1 w1
    by (auto simp: data_wire_def Let_def bus_after_def bus_low_def tick_facts events_tick [OF w1]
        events_tick [of idev w])
qed

lemma set_data_low:
  "bus_low idev (hw p) \<Longrightarrow> softi2c_set_data wire_usb idev v p = Some (p\<lparr>hw := data_wire idev v (hw p)\<rparr>)"
  by (simp add: set_data_wire data_wire_def Let_def bus_low_def assert_data wired_tick)

definition driven :: "bool \<Rightarrow> wire \<Rightarrow> bool" where
  "driven v w \<longleftrightarrow> sda_in w = v \<and> (\<not> v \<longrightarrow> \<not> sda_latch w)"

lemma driven_sda: "driven v w \<Longrightarrow> sda w \<longleftrightarrow> v \<and> slave w (clocks w)"
  by (auto simp: driven_def sda_def)

lemma data_wire_driven: "bus_low idev w \<Longrightarrow> driven v (data_wire idev v w)"
  using data_wire_low [of idev w v] by (simp add: driven_def)

definition clock_up :: "wire \<Rightarrow> wire" where
  "clock_up w = wire_tick w (w\<lparr>scl_latch := True\<rparr>)"

definition clock_down :: "wire \<Rightarrow> wire" where
  "clock_down w = wire_tick w (w\<lparr>scl_latch := False\<rparr>)"

lemma set_clock_step:
  "wired idev (hw p) \<Longrightarrow> softi2c_set_clock wire_usb idev True p = Some (p\<lparr>hw := clock_up (hw p)\<rparr>)"
  "wired idev (hw p) \<Longrightarrow> softi2c_set_clock wire_usb idev False p = Some (p\<lparr>hw := clock_down (hw p)\<rparr>)"
  by (simp_all add: set_clock_wire clock_up_def clock_down_def assert_clock)

lemma clock_up_low:
  assumes "bus_low idev w"
  shows "wired idev (clock_up w)" "scl (clock_up w)" "\<not> scl_in (clock_up w)"
    "slave (clock_up w) = slave w" "clocks (clock_up w) = clocks w" "sda (clock_up w) = sda w"
    "driven v (clock_up w) = driven v w"
    "bus_events (trace (clock_up w)) = bus_events (trace w) @ [Bit (sda w)]"
  using assms events_tick [of idev w "w\<lparr>scl_latch := True\<rparr>"]
  by (auto simp: clock_up_def bus_low_def driven_def scl_def wired_tick tick_clocks tick_sda sda_def)

lemma clock_down_high:
  assumes "wired idev w" "scl w" "\<not> scl_in w"
  shows "bus_low idev (clock_down w)" "slave (clock_down w) = slave w"
    "clocks (clock_down w) = clocks w + 1" "driven v (clock_down w) = driven v w"
    "bus_events (trace (clock_down w)) = bus_events (trace w)"
  using assms events_tick [of idev w "w\<lparr>scl_latch := False\<rparr>"]
  by (auto simp: clock_down_def bus_low_def driven_def scl_def wired_tick tick_clocks)

lemma pulse_low:
  assumes "bus_low idev w"
  shows "bus_after idev w (clock_down (clock_up w)) 1 [Bit (sda w)]"
    "driven v (clock_down (clock_up w)) = driven v w"
  using clock_up_low [OF assms] clock_down_high [OF clock_up_low(1-3) [OF assms]]
  by (simp_all add: bus_after_def)

lemma bus_after_low: "bus_after idev w w' n evs \<Longrightarrow> bus_low idev w'"
  by (simp add: bus_after_def)

section \<open>Bytes on the wires\<close>

lemma write_bits_wire:
  assumes "bus_low idev (hw p)" "n \<le> 8"
  shows "\<exists>w'. softi2c_write_bits wire_usb idev n b p = Some (p\<lparr>hw := w'\<rparr>) \<and>
     bus_after idev (hw p) w' n
       (map (\<lambda>i. Bit (bit b (7 - i) \<and> slave (hw p) (clocks (hw p) + i))) [0..<n]) \<and>
     (0 < n \<longrightarrow> driven (bit b (8 - n)) w')"
  using assms
proof (induction n arbitrary: b p)
  case 0
  then show ?case by (auto simp: bus_after_def intro!: exI [of _ "hw p"])
next
  case (Suc n)
  let ?w1 = "data_wire idev (bit b 7) (hw p)"
  let ?w2 = "clock_down (clock_up ?w1)"
  have top: "(b AND 0x80 \<noteq> 0) = bit b 7"
    using bit_iff_and_push_bit_not_eq_0 [of b 7] by simp
  note d = data_wire_low [OF Suc.prems(1), of "bit b 7"]
  have low1: "bus_low idev ?w1" by (rule bus_after_low [OF d(1)])
  have after: "bus_after idev (hw p) ?w2 1 [Bit (bit b 7 \<and> slave (hw p) (clocks (hw p)))]"
    using bus_after_trans [OF d(1) pulse_low(1) [OF low1]] d(4) by simp
  have low2: "bus_low idev ?w2" by (rule bus_after_low [OF after])
  have run: "softi2c_write_bits wire_usb idev (Suc n) b p
      = softi2c_write_bits wire_usb idev n (push_bit 1 b) (p\<lparr>hw := ?w2\<rparr>)"
    using Suc.prems(1) low1 clock_up_low(1) [OF low1]
    by (simp add: top set_data_low set_clock_step bus_low_def [of idev ?w1])
  obtain w' where w': "softi2c_write_bits wire_usb idev n (push_bit 1 b) (p\<lparr>hw := ?w2\<rparr>) = Some (p\<lparr>hw := w'\<rparr>)"
    "bus_after idev ?w2 w' n
       (map (\<lambda>i. Bit (bit (push_bit 1 b) (7 - i) \<and> slave ?w2 (clocks ?w2 + i))) [0..<n])"
    "0 < n \<longrightarrow> driven (bit (push_bit 1 b) (8 - n)) w'"
    using Suc.IH [of "p\<lparr>hw := ?w2\<rparr>" "push_bit 1 b"] low2 Suc.prems(2) by auto
  have shift: "bit (push_bit 1 b) (7 - i) = bit b (6 - i)" if "i < 7" for i
    unfolding bit_push_bit_iff using that by auto
  note shift2 = shift [simplified]
  have "map (\<lambda>i. Bit (bit b (7 - i) \<and> slave (hw p) (clocks (hw p) + i))) [0..<Suc n]
     = [Bit (bit b 7 \<and> slave (hw p) (clocks (hw p)))]
       @ map (\<lambda>i. Bit (bit (push_bit 1 b) (7 - i) \<and> slave ?w2 (clocks ?w2 + i))) [0..<n]"
    using after Suc.prems(2) by (simp add: map_upt_Suc bus_after_def shift2 del: upt_Suc)
  with bus_after_trans [OF after w'(2)] have "bus_after idev (hw p) w' (Suc n)
     (map (\<lambda>i. Bit (bit b (7 - i) \<and> slave (hw p) (clocks (hw p) + i))) [0..<Suc n])"
    by simp
  moreover have "driven (bit b (8 - Suc n)) w'"
  proof (cases "n = 0")
    case True
    with w'(1) have "p\<lparr>hw := w'\<rparr> = p\<lparr>hw := ?w2\<rparr>" by simp
    from arg_cong [OF this, of hw] have "w' = ?w2" by simp
    then show ?thesis
      using True pulse_low(2) [OF low1] data_wire_driven [OF Suc.prems(1)] by simp
  next
    case False
    have "bit (push_bit 1 b) (8 - n) = bit b (7 - n)"
      using shift [of "n - 1"] False Suc.prems(2) by (auto simp: Suc_diff_le)
    with False w'(3) show ?thesis by simp
  qed
  ultimately show ?case using run w'(1) by auto
qed

text \<open>Releasing the data wire while the clock is high: a stop condition when the wire was held low by the
  master alone.\<close>

lemma release_high:
  assumes "wired idev w" "scl w" "\<not> scl_in w"
  shows "softi2c_set_data wire_usb idev True (p\<lparr>hw := w\<rparr>) = Some (p\<lparr>hw := data_wire idev True w\<rparr>)"
    "wired idev (data_wire idev True w)" "scl (data_wire idev True w)" "\<not> scl_in (data_wire idev True w)"
    "slave (data_wire idev True w) = slave w" "clocks (data_wire idev True w) = clocks w"
    "driven True (data_wire idev True w)"
    "bus_events (trace (data_wire idev True w)) =
       bus_events (trace w) @ (if \<not> sda w \<and> slave w (clocks w) then [Stop] else [])"
proof -
  have keep: "sda w \<Longrightarrow> slave w (clocks w)" by (simp add: sda_def)
  show "softi2c_set_data wire_usb idev True (p\<lparr>hw := w\<rparr>) = Some (p\<lparr>hw := data_wire idev True w\<rparr>)"
    using assms by (simp add: set_data_wire data_wire_def assert_data)
  show "wired idev (data_wire idev True w)" "scl (data_wire idev True w)" "\<not> scl_in (data_wire idev True w)"
    "slave (data_wire idev True w) = slave w" "clocks (data_wire idev True w) = clocks w"
    "driven True (data_wire idev True w)"
    "bus_events (trace (data_wire idev True w)) =
       bus_events (trace w) @ (if \<not> sda w \<and> slave w (clocks w) then [Stop] else [])"
    using assms keep events_tick [OF assms(1), of "w\<lparr>sda_in := True\<rparr>"]
    by (auto simp: data_wire_def driven_def wired_tick tick_clocks tick_sda sda_def scl_def)
qed

text \<open>The ninth clock of a byte, after a last bit \<open>v\<close>.\<close>

lemma ack_wire:
  assumes "bus_low idev w" "driven v w"
  shows "bus_after idev w (clock_down (data_wire idev True (clock_up w))) 1
      (Bit (v \<and> slave w (clocks w)) # (if \<not> v \<and> slave w (clocks w) then [Stop] else []))"
    "sda (data_wire idev True (clock_up w)) = slave w (clocks w)"
    "driven True (clock_down (data_wire idev True (clock_up w)))"
proof -
  note up = clock_up_low [OF assms(1)]
  note rel = release_high [OF up(1-3)]
  note down = clock_down_high [OF rel(2-4)]
  show "bus_after idev w (clock_down (data_wire idev True (clock_up w))) 1
      (Bit (v \<and> slave w (clocks w)) # (if \<not> v \<and> slave w (clocks w) then [Stop] else []))"
    using up rel down driven_sda [OF assms(2)] by (simp add: bus_after_def)
  show "sda (data_wire idev True (clock_up w)) = slave w (clocks w)"
    using driven_sda [OF rel(7)] rel(5,6) up(4,5) by simp
  show "driven True (clock_down (data_wire idev True (clock_up w)))"
    using down(4) rel(7) by simp
qed

definition write_frame :: "byte \<Rightarrow> (nat \<Rightarrow> bool) \<Rightarrow> nat \<Rightarrow> bus_event list" where
  "write_frame b sl c =
     map (\<lambda>i. Bit (bit b (7 - i) \<and> sl (c + i))) [0..<8] @
     Bit (bit b 0 \<and> sl (c + 8)) # (if \<not> bit b 0 \<and> sl (c + 8) then [Stop] else [])"

lemma write_byte_wire:
  assumes "bus_low idev (hw p)"
  shows "\<exists>w'. softi2c_write_byte wire_usb idev b p
       = Some (\<not> slave (hw p) (clocks (hw p) + 8), p\<lparr>hw := w'\<rparr>) \<and>
     bus_after idev (hw p) w' 9 (write_frame b (slave (hw p)) (clocks (hw p))) \<and> driven True w'"
proof -
  obtain w where w: "softi2c_write_bits wire_usb idev 8 b p = Some (p\<lparr>hw := w\<rparr>)"
    "bus_after idev (hw p) w 8
       (map (\<lambda>i. Bit (bit b (7 - i) \<and> slave (hw p) (clocks (hw p) + i))) [0..<8])"
    "driven (bit b 0) w"
    using write_bits_wire [OF assms, of 8 b] by auto
  note low = bus_after_low [OF w(2)]
  note up = clock_up_low [OF low]
  note rel = release_high [OF up(1-3)]
  let ?w' = "clock_down (data_wire idev True (clock_up w))"
  have same: "slave w = slave (hw p)" "clocks w = clocks (hw p) + 8" "wired idev w"
    using w(2) by (simp_all add: bus_after_def bus_low_def)
  have "softi2c_write_byte wire_usb idev b p = Some (\<not> slave (hw p) (clocks (hw p) + 8), p\<lparr>hw := ?w'\<rparr>)"
    by (simp add: softi2c_write_byte_def w(1) set_clock_step [of idev] same(3) rel(1) rel(2)
        test_data_wire [of idev] ack_wire(2) [OF low w(3)] same(1,2))
  moreover have "bus_after idev (hw p) ?w' 9 (write_frame b (slave (hw p)) (clocks (hw p)))"
    using bus_after_trans [OF w(2) ack_wire(1) [OF low w(3)]] same by (simp add: write_frame_def)
  ultimately show ?thesis using ack_wire(3) [OF low w(3)] by blast
qed

section \<open>Starting and stopping\<close>

lemma stop_wire:
  assumes "bus_low idev (hw p)" "slave (hw p) (clocks (hw p))"
  shows "\<exists>w'. softi2c_stop wire_usb idev p = Some (p\<lparr>hw := w'\<rparr>) \<and> wired idev w' \<and>
     slave w' = slave (hw p) \<and> bus_events (trace w') = bus_events (trace (hw p)) @ [Bit False, Stop]"
proof -
  let ?w1 = "data_wire idev False (hw p)"
  note d = data_wire_low [OF assms(1), of False]
  note low = bus_after_low [OF d(1)]
  note up = clock_up_low [OF low]
  note rel = release_high [OF up(1-3)]
  have keep: "slave ?w1 = slave (hw p)" "clocks ?w1 = clocks (hw p)" "wired idev ?w1"
    "bus_events (trace ?w1) = bus_events (trace (hw p))"
    using d(1) by (simp_all add: bus_after_def bus_low_def)
  have "softi2c_stop wire_usb idev p = Some (p\<lparr>hw := data_wire idev True (clock_up ?w1)\<rparr>)"
    by (simp add: softi2c_stop_def set_data_low [OF assms(1)] set_clock_step [of idev] keep(3) rel(1))
  then show ?thesis
    using rel up keep d(4) assms(2) by auto
qed

text \<open>The slave leaves the data wire alone while the master starts a transaction.\<close>

definition slave_idle :: "wire \<Rightarrow> bool" where
  "slave_idle w \<longleftrightarrow> slave w (clocks w) \<and> slave w (clocks w + 1)"

lemma start_high:
  assumes "wired idev w" "scl w" "\<not> scl_in w" "sda w" "sda_in w"
  shows "wired idev (data_wire idev False w)" "scl (data_wire idev False w)"
    "\<not> scl_in (data_wire idev False w)" "slave (data_wire idev False w) = slave w"
    "clocks (data_wire idev False w) = 0" "driven False (data_wire idev False w)"
    "bus_events (trace (data_wire idev False w)) = bus_events (trace w) @ [Start]"
proof -
  let ?w1 = "wire_tick w (w\<lparr>sda_latch := False\<rparr>)"
  have w1: "wired idev ?w1" "scl ?w1" "sda ?w1" "clocks ?w1 = clocks w" "slave ?w1 = slave w"
    "bus_events (trace ?w1) = bus_events (trace w)"
    using assms events_tick [OF assms(1), of "w\<lparr>sda_latch := False\<rparr>"]
    by (auto simp: wired_tick tick_clocks tick_sda sda_def scl_def)
  have sc: "scl (?w1\<lparr>sda_in := False\<rparr>)" "\<not> sda (?w1\<lparr>sda_in := False\<rparr>)"
    using w1(2) by (simp_all add: scl_def sda_def)
  show "wired idev (data_wire idev False w)" "scl (data_wire idev False w)"
    "\<not> scl_in (data_wire idev False w)" "slave (data_wire idev False w) = slave w"
    "clocks (data_wire idev False w) = 0" "driven False (data_wire idev False w)"
    "bus_events (trace (data_wire idev False w)) = bus_events (trace w) @ [Start]"
    using assms w1 sc events_tick [OF w1(1), of "?w1\<lparr>sda_in := False\<rparr>"]
    by (auto simp: data_wire_def Let_def driven_def wired_tick tick_clocks tick_sda)
qed

lemma start_wire:
  assumes "wired idev (hw p)" "slave_idle (hw p)"
  shows "\<exists>w'. softi2c_start wire_usb idev p = Some (p\<lparr>hw := w'\<rparr>) \<and> bus_low idev w' \<and>
     slave w' = slave (hw p) \<and> clocks w' = 1 \<and> (\<exists>pre. bus_events (trace w') = pre @ [Start])"
proof -
  let ?w0 = "wire_tick (hw p) (hw p\<lparr>scl_in := False\<rparr>)"
  let ?w1 = "clock_up ?w0"
  let ?w2 = "data_wire idev True ?w1"
  let ?w3 = "data_wire idev False ?w2"
  have w0: "wired idev ?w0" "\<not> scl_in ?w0" "slave ?w0 = slave (hw p)"
    "clocks ?w0 = clocks (hw p) \<or> clocks ?w0 = clocks (hw p) + 1"
    using assms by (auto simp: wired_tick tick_clocks sda_def)
  have w1: "wired idev ?w1" "scl ?w1" "\<not> scl_in ?w1" "slave ?w1 = slave (hw p)" "clocks ?w1 = clocks ?w0"
    using w0(1-3) by (auto simp: clock_up_def wired_tick tick_clocks scl_def sda_def)
  note w2 = release_high [OF w1(1-3)]
  have sda: "sda ?w2" "sda_in ?w2"
    using w2(5-7) w1(4,5) w0(4) assms(2) by (auto simp: driven_def sda_def slave_idle_def)
  note w3 = start_high [OF w2(2-4) sda]
  note w4 = clock_down_high [OF w3(1-3)]
  have "wire_assert (RCPOD_OUTPUT (i2c_data idev)) (wire_assert (RCPOD_NEGATE (i2c_data idev)) ?w2) = ?w3"
    using w2(2) by (simp add: data_wire_def Let_def assert_data wired_tick)
  then have "softi2c_start wire_usb idev p = Some (p\<lparr>hw := clock_down ?w3\<rparr>)"
    by (simp add: softi2c_start_def wire_gpio.GpioAssert_step assert_clock(3) [OF assms(1)]
        set_clock_step [of idev] w0(1) w2(1) set_data_wire [of idev False] w3(1))
  then show ?thesis using w4 w3 w2(5) w1(4) by auto
qed

section \<open>A whole write\<close>

text \<open>A slave that acknowledges \<open>n\<close> bytes and otherwise leaves the data wire alone.\<close>

definition slave_acks :: "(nat \<Rightarrow> bool) \<Rightarrow> nat \<Rightarrow> bool" where
  "slave_acks sl n \<longleftrightarrow> (\<forall>k. 1 \<le> k \<and> k \<le> 9 * n + 1 \<longrightarrow> sl k = (k mod 9 \<noteq> 0))"

definition data_frame :: "byte \<Rightarrow> bus_event list" where
  "data_frame b = byte_bits b @ [Bit False]"

lemma write_frame_acked:
  assumes "slave_acks sl n" "j < n"
  shows "write_frame b sl (9 * j + 1) = data_frame b" "\<not> sl (9 * j + 9)"
proof -
  have r: "sl (9 * j + 1 + i) \<longleftrightarrow> i \<noteq> 8" if "i \<le> 8" for i
  proof -
    have "9 * j + 1 + i \<le> 9 * n + 1" using assms(2) that by linarith
    then have "sl (9 * j + 1 + i) \<longleftrightarrow> (9 * j + (1 + i)) mod 9 \<noteq> 0"
      using assms(1) by (auto simp: slave_acks_def add.assoc)
    also have "\<dots> \<longleftrightarrow> (1 + i) mod 9 \<noteq> 0" by (simp only: mod_mult_self4)
    also have "\<dots> \<longleftrightarrow> i \<noteq> 8"
    proof (cases "i = 8")
      case False
      with that have "1 + i < 9" by linarith
      with False show ?thesis by simp
    qed simp
    finally show ?thesis .
  qed
  from r [of 8] show "\<not> sl (9 * j + 9)" by (simp add: add.commute)
  have "map (\<lambda>i. Bit (bit b (7 - i) \<and> sl (9 * j + 1 + i))) [0..<8] = byte_bits b"
    unfolding byte_bits_def by (rule map_cong [OF refl]) (simp add: r [simplified])
  then show "write_frame b sl (9 * j + 1) = data_frame b"
    using r [of 8] by (simp add: write_frame_def data_frame_def)
qed

lemma data_frame_no_start: "Start \<notin> set (data_frame b)"
  by (auto simp: data_frame_def byte_bits_def)

lemma write_loop_wire:
  assumes "bus_low idev (hw p)" "slave_acks (slave (hw p)) (n + 1)" "clocks (hw p) = 9 * (i + 1) + 1" "i \<le> n"
  shows "\<exists>w'. softi2c_write_loop wire_usb idev buf (int n) (int i) p = Some (int n + 1, p\<lparr>hw := w'\<rparr>) \<and>
     bus_events (trace w') = bus_events (trace (hw p)) @ concat (map (data_frame \<circ> buf) [i..<n]) @ [Bit False, Stop]"
  using assms
proof (induction "n - i" arbitrary: i p)
  case 0
  then have [simp]: "i = n" by simp
  have "(9 * (n + 1) + 1) mod 9 = (1 :: nat)" by (simp only: mod_mult_self4) simp
  then have "slave (hw p) (clocks (hw p))"
    using 0(3) by (auto simp: slave_acks_def 0(4))
  from stop_wire [OF 0(2) this] show ?case
    by (auto simp: softi2c_write_loop.simps [of wire_usb idev buf "int n" "int n" p])
next
  case (Suc d)
  then have less: "i < n" by simp
  obtain w where w: "softi2c_write_byte wire_usb idev (buf i) p
       = Some (\<not> slave (hw p) (9 * (i + 1) + 9), p\<lparr>hw := w\<rparr>)"
    "bus_after idev (hw p) w 9 (write_frame (buf i) (slave (hw p)) (9 * (i + 1) + 1))"
    using write_byte_wire [OF Suc.prems(1), of "buf i"] Suc.prems(3) by auto
  note fr = write_frame_acked [OF Suc.prems(2), of "i + 1", simplified]
  have "\<exists>w'. softi2c_write_loop wire_usb idev buf (int n) (int (i + 1)) (p\<lparr>hw := w\<rparr>)
        = Some (int n + 1, p\<lparr>hw := w\<rparr>\<lparr>hw := w'\<rparr>) \<and>
     bus_events (trace w') = bus_events (trace (hw (p\<lparr>hw := w\<rparr>))) @
        concat (map (data_frame \<circ> buf) [i + 1..<n]) @ [Bit False, Stop]"
    by (rule Suc.hyps(1)) (use Suc w(2) less in \<open>simp_all add: bus_after_def\<close>)
  moreover have "[i..<n] = i # [i + 1..<n]" using less by (simp add: upt_conv_Cons)
  ultimately show ?case
    using w fr less
    by (auto simp: softi2c_write_loop.simps [of wire_usb idev buf "int n" "int i" p] bus_after_def
        add.commute [of 1 "int i"])
qed

lemma since_start_frames:
  "evs = pre @ [Start] @ es \<Longrightarrow> Start \<notin> set es \<Longrightarrow> since_start evs = es"
  using since_start_append [of es "pre @ [Start]"] by simp

section \<open>Reading\<close>

lemma read_bits_wire:
  assumes "bus_low idev (hw p)" "driven True (hw p)" "n \<le> 8"
  shows "\<exists>x w'. softi2c_read_bits wire_usb idev n b p = Some (x, p\<lparr>hw := w'\<rparr>) \<and>
     bus_after idev (hw p) w' n (map (\<lambda>i. Bit (slave (hw p) (clocks (hw p) + i))) [0..<n]) \<and>
     (\<forall>k < 8. bit x k = (if k < n then slave (hw p) (clocks (hw p) + (n - 1 - k)) else bit b (k - n)))"
  using assms
proof (induction n arbitrary: b p)
  case 0
  then show ?case by (auto simp: bus_after_def intro!: exI [of _ "hw p"])
next
  case (Suc n)
  let ?w2 = "clock_down (clock_up (hw p))"
  let ?s = "slave (hw p) (clocks (hw p))"
  let ?b = "if ?s then push_bit 1 b OR 1 else push_bit 1 b"
  note up = clock_up_low [OF Suc.prems(1)]
  note pulse = pulse_low [OF Suc.prems(1)]
  have sda: "sda (hw p) = ?s" using driven_sda [OF Suc.prems(2)] by simp
  have after: "bus_after idev (hw p) ?w2 1 [Bit ?s]" using pulse(1) sda by simp
  have same: "slave ?w2 = slave (hw p)" "clocks ?w2 = Suc (clocks (hw p))" using after by (simp_all add: bus_after_def)
  have run: "softi2c_read_bits wire_usb idev (Suc n) b p = softi2c_read_bits wire_usb idev n ?b (p\<lparr>hw := ?w2\<rparr>)"
    using Suc.prems(1) up(1)
    by (simp add: set_clock_step [of idev] bus_low_def test_data_wire [of idev] up(6) sda
        del: push_bit_Suc push_bit_numeral)
  have shift: "bit (push_bit 1 b) (Suc m) = bit b m" if "m < 7" for m
    unfolding bit_push_bit_iff using that by auto
  have bits: "bit ?b k = (if k = 0 then ?s else bit b (k - 1))" if "k < 8" for k
  proof (cases k)
    case 0
    then show ?thesis by (simp add: bit_or_iff bit_push_bit_iff del: push_bit_Suc)
  next
    case (Suc m)
    then show ?thesis using that
      by (simp only: bit_or_iff bit_1_iff shift if_split_asm split: if_split) simp
  qed
  obtain x w' where IH: "softi2c_read_bits wire_usb idev n ?b (p\<lparr>hw := ?w2\<rparr>) = Some (x, p\<lparr>hw := w'\<rparr>)"
    "bus_after idev ?w2 w' n (map (\<lambda>i. Bit (slave (hw p) (Suc (clocks (hw p)) + i))) [0..<n])"
    "\<And>k. k < 8 \<Longrightarrow> bit x k = (if k < n then slave (hw p) (Suc (clocks (hw p)) + (n - 1 - k)) else bit ?b (k - n))"
    using Suc.IH [of "p\<lparr>hw := ?w2\<rparr>" ?b] bus_after_low [OF after] pulse(2) Suc.prems(2,3) same by auto
  have "map (\<lambda>i. Bit (slave (hw p) (clocks (hw p) + i))) [0..<Suc n]
      = [Bit ?s] @ map (\<lambda>i. Bit (slave (hw p) (Suc (clocks (hw p)) + i))) [0..<n]"
    by (simp add: map_upt_Suc del: upt_Suc)
  with bus_after_trans [OF after IH(2)]
  have "bus_after idev (hw p) w' (Suc n) (map (\<lambda>i. Bit (slave (hw p) (clocks (hw p) + i))) [0..<Suc n])" by simp
  moreover have "bit x k = (if k < Suc n then slave (hw p) (clocks (hw p) + (Suc n - 1 - k)) else bit b (k - Suc n))"
    if "k < 8" for k
  proof -
    consider "k < n" | "k = n" | "n < k" by linarith
    then show ?thesis
    proof cases
      case 1
      then have "Suc (clocks (hw p)) + (n - 1 - k) = clocks (hw p) + (Suc n - 1 - k)" by simp
      then show ?thesis using 1 IH(3) [OF that] by simp
    next
      case 2
      then show ?thesis using IH(3) [OF that] bits [of 0] by simp
    next
      case 3
      then show ?thesis using IH(3) [OF that] bits [of "k - n"] that by simp
    qed
  qed
  ultimately show ?case using run IH(1) by auto
qed

text \<open>One byte: eight bits of the slave and the master's acknowledge.\<close>

lemma read_byte_wire:
  assumes "bus_low idev (hw p)" "\<And>i. i < 8 \<Longrightarrow> slave (hw p) (clocks (hw p) + i) = bit b (7 - i)"
    "slave (hw p) (clocks (hw p) + 8)"
  shows "\<exists>w'. softi2c_read_byte wire_usb idev ack p = Some (b, p\<lparr>hw := w'\<rparr>) \<and>
     bus_after idev (hw p) w' 9 (byte_bits b @ [Bit (\<not> ack)])"
proof -
  let ?w1 = "data_wire idev True (hw p)"
  note d = data_wire_low [OF assms(1), of True]
  note low1 = bus_after_low [OF d(1)]
  have same: "slave ?w1 = slave (hw p)" "clocks ?w1 = clocks (hw p)" using d(1) by (simp_all add: bus_after_def)
  obtain x w where w: "softi2c_read_bits wire_usb idev 8 0 (p\<lparr>hw := ?w1\<rparr>) = Some (x, p\<lparr>hw := w\<rparr>)"
    "bus_after idev ?w1 w 8 (map (\<lambda>i. Bit (slave (hw p) (clocks (hw p) + i))) [0..<8])"
    "\<And>k. k < 8 \<Longrightarrow> bit x k = slave (hw p) (clocks (hw p) + (7 - k))"
    using read_bits_wire [of idev "p\<lparr>hw := ?w1\<rparr>" 8 0] low1 data_wire_driven [OF assms(1)] same by auto
  have x: "x = b"
  proof (rule bit_word_eqI)
    fix k assume "k < LENGTH(8)"
    then have k: "k < 8" by simp
    then show "bit x k = bit b k" using w(3) assms(2) [of "7 - k"] by auto
  qed
  have bb: "map (\<lambda>i. Bit (slave (hw p) (clocks (hw p) + i))) [0..<8] = byte_bits b"
    unfolding byte_bits_def by (rule map_cong [OF refl]) (simp add: assms(2))
  have aw: "bus_after idev (hw p) w 8 (byte_bits b)"
    using bus_after_trans [OF d(1) w(2)] bb by simp
  note low = bus_after_low [OF aw]
  let ?w2 = "data_wire idev (\<not> ack) w"
  note d2 = data_wire_low [OF low, of "\<not> ack"]
  note low2 = bus_after_low [OF d2(1)]
  have "slave w (clocks w)" using aw assms(3) by (simp add: bus_after_def)
  with bus_after_trans [OF bus_after_trans [OF aw d2(1)] pulse_low(1) [OF low2]] d2(4)
  have "bus_after idev (hw p) (clock_down (clock_up ?w2)) 9 (byte_bits b @ [Bit (\<not> ack)])" by simp
  moreover have "softi2c_read_byte wire_usb idev ack p = Some (b, p\<lparr>hw := clock_down (clock_up ?w2)\<rparr>)"
    using low2 clock_up_low(1) [OF low2]
    by (simp add: softi2c_read_byte_def set_data_low assms(1) w(1) x low set_clock_step [of idev]
        bus_low_def [of idev ?w2])
  ultimately show ?thesis by blast
qed

text \<open>A slave that sends the bytes \<open>bs\<close> from clock \<open>c\<close> on, leaving the wire alone for each acknowledge
  and at the end.\<close>

fun sends_from :: "(nat \<Rightarrow> bool) \<Rightarrow> nat \<Rightarrow> byte list \<Rightarrow> bool" where
  "sends_from sl c [] = sl c"
| "sends_from sl c (b # bs) \<longleftrightarrow>
     (\<forall>i \<in> set [0..<8]. sl (c + i) = bit b (7 - i)) \<and> sl (c + 8) \<and> sends_from sl (c + 9) bs"

definition slave_sends :: "(nat \<Rightarrow> bool) \<Rightarrow> byte list \<Rightarrow> bool" where
  "slave_sends sl bs \<longleftrightarrow> slave_acks sl 1 \<and> sends_from sl 10 bs"

fun read_frames :: "byte list \<Rightarrow> bus_event list" where
  "read_frames [] = []"
| "read_frames (b # bs) = byte_bits b @ [Bit (bs = [])] @ read_frames bs"

lemma read_frames_no_start: "Start \<notin> set (read_frames bs)"
  by (induction bs) (auto simp: byte_bits_def)

lemma read_loop_wire:
  assumes "bus_low idev (hw p)" "sends_from (slave (hw p)) (clocks (hw p)) bs" "length buf = length bs"
  shows "\<exists>w' n. softi2c_read_loop wire_usb idev buf p = Some (bs, p\<lparr>hw := w'\<rparr>) \<and>
     bus_after idev (hw p) w' n (read_frames bs) \<and> slave w' (clocks w')"
  using assms
proof (induction bs arbitrary: buf p)
  case Nil
  then show ?case by (auto simp: bus_after_def intro!: exI [of _ "hw p"] exI [of _ 0])
next
  case (Cons b bs)
  then obtain x xs where buf: "buf = x # xs" "length xs = length bs" by (cases buf) auto
  obtain w where w: "softi2c_read_byte wire_usb idev (xs \<noteq> []) p = Some (b, p\<lparr>hw := w\<rparr>)"
    "bus_after idev (hw p) w 9 (byte_bits b @ [Bit (\<not> xs \<noteq> [])])"
    using read_byte_wire [OF Cons.prems(1), of b "xs \<noteq> []"] Cons.prems(2) by auto
  have "\<exists>w' n. softi2c_read_loop wire_usb idev xs (p\<lparr>hw := w\<rparr>) = Some (bs, p\<lparr>hw := w\<rparr>\<lparr>hw := w'\<rparr>) \<and>
     bus_after idev (hw (p\<lparr>hw := w\<rparr>)) w' n (read_frames bs) \<and> slave w' (clocks w')"
    by (rule Cons.IH) (use Cons.prems(2) w(2) buf(2) in \<open>simp_all add: bus_after_def\<close>)
  then obtain w' n where w': "softi2c_read_loop wire_usb idev xs (p\<lparr>hw := w\<rparr>) = Some (bs, p\<lparr>hw := w'\<rparr>)"
    "bus_after idev w w' n (read_frames bs)" "slave w' (clocks w')"
    by auto
  have "(xs = []) = (bs = [])" using buf(2) by auto
  with bus_after_trans [OF w(2) w'(2)]
  have "bus_after idev (hw p) w' (9 + n) (read_frames (b # bs))" by simp
  with w(1) w' buf show ?case by auto
qed

lemma byte_bits_no_start: "Start \<notin> set (byte_bits b)"
  by (auto simp: byte_bits_def)

section \<open>A wire to try things on\<close>

definition wire0 :: "(nat \<Rightarrow> bool) \<Rightarrow> wire" where
  "wire0 sl = \<lparr>scl_pin = 0x08, sda_pin = 0x09, scl_latch = False, scl_in = True, sda_latch = False,
     sda_in = True, slave = sl, clocks = 100, trace = [(True, sl 100)]\<rparr>"

definition idev0 :: rcpod_i2c_dev where
  "idev0 = \<lparr>i2c_speed = 0, i2c_clock = 0x88, i2c_data = 0x89, i2c_address = 0x50, i2c_padding = 0\<rparr>"

definition pod_i2c :: "nat \<Rightarrow> 's \<Rightarrow> 's pod" where
  "pod_i2c version s = \<lparr>hw = s, bcdDevice = version, rx_size = 0, rx_address = 0, rx_last_count8 = 0, rx_count = 0,
     rx_unread = 0, rx_tail_index = 0, last_i2c_dev = idev0, last_i2c_dev_valid = False,
     pod_handler = UserErrorHandler 0, pod_reports = [], stack_junk = 0\<rparr>"

lemma wired0: "wired idev0 (wire0 sl)"
  by (simp add: wired_def idev0_def wire0_def scl_def sda_def)

section \<open>Counts of acknowledged bytes\<close>

lemma write_loop_range:
  "softi2c_write_loop usb idev buf n i p = Some (r, q) \<Longrightarrow> 0 \<le> i \<Longrightarrow> i \<le> n \<Longrightarrow> 1 \<le> r \<and> r \<le> n + 1"
proof (induction usb idev buf n i p rule: softi2c_write_loop.induct)
  case (1 usb idev buf n i p)
  show ?case
  proof (cases "i < n")
    case True
    then obtain ack p1 where b: "softi2c_write_byte usb idev (buf (nat i)) p = Some (ack, p1)"
      using 1(2) by (auto simp: softi2c_write_loop.simps [of usb idev buf n i p] bind_eq_Some_conv)
    show ?thesis
    proof (cases ack)
      case True
      then show ?thesis
        using 1(1) [OF \<open>i < n\<close> b refl] 1(2-4) \<open>i < n\<close> b
        by (simp add: softi2c_write_loop.simps [of usb idev buf n i p])
    next
      case False
      then show ?thesis
        using 1(2-4) \<open>i < n\<close> b
        by (auto simp: softi2c_write_loop.simps [of usb idev buf n i p] bind_eq_Some_conv)
    qed
  next
    case False
    then show ?thesis
      using 1(2-4) unfolding softi2c_write_loop.simps [of usb idev buf n i p]
      by (auto simp: bind_eq_Some_conv)
  qed
qed

lemma soft_write_range:
  assumes "softi2c_write usb idev buf n p = Some (r, q)" "0 \<le> n"
  shows "0 \<le> r \<and> r \<le> n + 1"
  using assms by (auto simp: softi2c_write_def bind_eq_Some_conv split: if_splits dest!: write_loop_range)

lemma soft_read_range:
  "softi2c_read usb idev rb p = Some (r, bs, q) \<Longrightarrow> r = 1 \<or> r = 0 \<and> bs = rb"
  by (auto simp: softi2c_read_def bind_eq_Some_conv split: if_splits)

section \<open>Properties\<close>



text \<open>With firmware older than 1.20, \<open>rcpod_I2CRead\<close> from a slave that acknowledges its address returns 1 and
  fills the buffer with the bytes the slave sends, acknowledging every byte but the last.\<close>

lemma soft_read_from_the_bus:
  assumes "bcdDevice p < 0x0120" "wired idev (hw p)" "slave_idle (hw p)"
    "slave_sends (slave (hw p)) bs" "length buf = length bs"
  shows "\<exists>w'. rcpod_I2CRead wire_usb idev buf p = Some (1, bs, p\<lparr>hw := w'\<rparr>) \<and>
     since_start (bus_events (trace w')) =
       data_frame (push_bit 1 (i2c_address idev) OR 1) @ read_frames bs @ [Bit False, Stop]"
proof -
  let ?a = "push_bit 1 (i2c_address idev) OR 1"
  have sl: "slave_acks (slave (hw p)) 1" "sends_from (slave (hw p)) 10 bs"
    using assms(4) by (simp_all add: slave_sends_def)
  obtain w1 pre where w1: "softi2c_start wire_usb idev p = Some (p\<lparr>hw := w1\<rparr>)" "bus_low idev w1"
    "slave w1 = slave (hw p)" "clocks w1 = 1" "bus_events (trace w1) = pre @ [Start]"
    using start_wire [OF assms(2,3)] by blast
  obtain w2 where w2: "softi2c_write_byte wire_usb idev ?a (p\<lparr>hw := w1\<rparr>) = Some (\<not> slave (hw p) 9, p\<lparr>hw := w2\<rparr>)"
    "bus_after idev w1 w2 9 (write_frame ?a (slave (hw p)) 1)"
    using write_byte_wire [of idev "p\<lparr>hw := w1\<rparr>" ?a] w1 by auto
  have f0: "write_frame ?a (slave (hw p)) 1 = data_frame ?a" "\<not> slave (hw p) 9"
    using write_frame_acked [OF sl(1), of 0] by simp_all
  have s2: "bus_low idev w2" "slave w2 = slave (hw p)" "clocks w2 = 10"
    "bus_events (trace w2) = pre @ [Start] @ data_frame ?a"
    using w2(2) w1 f0 by (simp_all add: bus_after_def)
  obtain w3 n where w3: "softi2c_read_loop wire_usb idev buf (p\<lparr>hw := w2\<rparr>) = Some (bs, p\<lparr>hw := w3\<rparr>)"
    "bus_after idev w2 w3 n (read_frames bs)" "slave w3 (clocks w3)"
    using read_loop_wire [of idev "p\<lparr>hw := w2\<rparr>" bs buf] s2 sl(2) assms(5) by auto
  obtain w' where w': "softi2c_stop wire_usb idev (p\<lparr>hw := w3\<rparr>) = Some (p\<lparr>hw := w'\<rparr>)"
    "bus_events (trace w') = bus_events (trace w3) @ [Bit False, Stop]"
    using stop_wire [of idev "p\<lparr>hw := w3\<rparr>"] bus_after_low [OF w3(2)] w3(3) by auto
  have "rcpod_I2CRead wire_usb idev buf p = Some (1, bs, p\<lparr>hw := w'\<rparr>)"
    using assms(1) w1(1) w2(1) f0(2) w3(1) w'(1)
    by (simp add: rcpod_I2CRead_def rcpod_HasAcceleratedI2C_def softi2c_read_def)
  moreover have ev: "bus_events (trace w') = pre @ [Start] @ (data_frame ?a @ read_frames bs @ [Bit False, Stop])"
    using w'(2) w3(2) s2(4) by (simp add: bus_after_def)
  moreover have "Start \<notin> set (data_frame ?a @ read_frames bs @ [Bit False, Stop])"
    using data_frame_no_start read_frames_no_start by simp
  ultimately show ?thesis using since_start_frames [OF ev] by blast
qed

lemma soft_read_from_the_bus_witness:
  "\<exists>w'. rcpod_I2CRead wire_usb idev0 [0, 0] (pod_i2c 0x0110 (wire0 (\<lambda>k. k \<noteq> 9)))
       = Some (1, [0xFF, 0xFF], (pod_i2c 0x0110 (wire0 (\<lambda>k. k \<noteq> 9)))\<lparr>hw := w'\<rparr>) \<and>
     since_start (bus_events (trace w')) = data_frame 0xA1 @ read_frames [0xFF, 0xFF] @ [Bit False, Stop]"
proof -
  let ?p = "pod_i2c 0x0110 (wire0 (\<lambda>k. k \<noteq> 9))"
  have all: "bit (0xFF :: byte) (7 - i)" if "i < 8" for i
    using that by (auto simp: less_Suc_eq numeral_eq_Suc)
  have acks: "slave_acks (\<lambda>k. k \<noteq> 9) 1"
    unfolding slave_acks_def
  proof (intro allI impI)
    fix k :: nat assume k: "1 \<le> k \<and> k \<le> 9 * 1 + 1"
    show "(k \<noteq> 9) = (k mod 9 \<noteq> 0)"
    proof (cases "k < 9")
      case True then show ?thesis using k by simp
    next
      case False
      then have "k = 9 \<or> k = 10" using k by auto
      then show ?thesis by auto
    qed
  qed
  let ?w = "wire0 (\<lambda>k. k \<noteq> 9)"
  have hw: "bcdDevice ?p = 0x0110" "hw ?p = ?w" by (simp_all add: pod_i2c_def)
  have "sends_from (\<lambda>k. k \<noteq> 9) 10 [0xFF, 0xFF]" using all by simp
  with acks have idle: "slave_idle ?w" "slave_sends (slave ?w) [0xFF, 0xFF]"
    by (simp_all only: slave_sends_def wire0_def wire.simps slave_idle_def) simp_all
  have a: "bcdDevice ?p < 0x0120" "wired idev0 (hw ?p)" "slave_idle (hw ?p)"
    "slave_sends (slave (hw ?p)) [0xFF, 0xFF]" "length [0, 0 :: byte] = length [0xFF, 0xFF :: byte]"
    using idle wired0 unfolding hw by simp_all
  from soft_read_from_the_bus [OF a] show ?thesis by (simp add: idev0_def)
qed

text \<open>A byte whose last bit is 0 and that no slave acknowledges is followed by a stop condition in the middle
  of the acknowledge: the clock is raised while the master still drives the last bit, so a receiver samples an
  acknowledge, and the data wire then rises with the clock high. The master itself does see the missing
  acknowledge.\<close>

lemma soft_nack_makes_a_stop:
  assumes "bus_low idev (hw p)" "\<And>i. i \<le> 8 \<Longrightarrow> slave (hw p) (clocks (hw p) + i)" "\<not> bit b 0"
  shows "\<exists>w'. softi2c_write_byte wire_usb idev b p = Some (False, p\<lparr>hw := w'\<rparr>) \<and>
     bus_events (trace w') = bus_events (trace (hw p)) @ byte_bits b @ [Bit False, Stop]"
proof -
  have "map (\<lambda>i. Bit (bit b (7 - i) \<and> slave (hw p) (clocks (hw p) + i))) [0..<8] = byte_bits b"
    unfolding byte_bits_def by (rule map_cong [OF refl]) (simp add: assms(2))
  then have "write_frame b (slave (hw p)) (clocks (hw p)) = byte_bits b @ [Bit False, Stop]"
    using assms(2) [of 8] assms(3) by (simp add: write_frame_def)
  with write_byte_wire [OF assms(1), of b] assms(2) [of 8] show ?thesis
    by (auto simp: bus_after_def)
qed

lemma soft_nack_makes_a_stop_witness:
  "\<exists>w'. softi2c_write_byte wire_usb idev0 0xA0 (pod_i2c 0x0110 ((wire0 (\<lambda>_. True))\<lparr>scl_in := False, trace := [(False, True)]\<rparr>))
     = Some (False, pod_i2c 0x0110 w') \<and>
     bus_events (trace w') = byte_bits 0xA0 @ [Bit False, Stop]"
proof -
  let ?w = "(wire0 (\<lambda>_. True))\<lparr>scl_in := False, trace := [(False, True)]\<rparr>"
  let ?p = "pod_i2c 0x0110 ?w"
  have low: "bus_low idev0 (hw ?p)"
    by (simp add: pod_i2c_def bus_low_def wired_def idev0_def wire0_def scl_def sda_def)
  have rel: "slave (hw ?p) (clocks (hw ?p) + i)" for i
    by (simp add: pod_i2c_def wire0_def)
  from soft_nack_makes_a_stop [OF low rel, of "0xA0"]
  show ?thesis by (simp add: pod_i2c_def wire0_def)
qed

text \<open>Whatever the hardware does, \<open>rcpod_I2CWriteRead\<close> on old firmware returns the documented count, at most
  \<^verbatim>\<open>write_count + 2\<close>, and leaves the read buffer as it was unless that count is reached.\<close>

lemma soft_write_read_count:
  assumes "bcdDevice p < 0x0120" "0 \<le> n" "rcpod_I2CWriteRead usb idev buf n rb p = Some (r, bs, q)"
  shows "0 \<le> r \<and> r \<le> n + 2 \<and> (r = n + 2 \<or> bs = rb)"
proof -
  obtain a q1 where w: "softi2c_write usb idev buf n p = Some (a, q1)"
    and rest: "if a = n + 1 then \<exists>k. softi2c_read usb idev rb q1 = Some (k, bs, q) \<and> r = a + k
       else r = a \<and> bs = rb"
    using assms by (auto simp: rcpod_I2CWriteRead_def rcpod_HasAcceleratedI2C_def softi2c_write_read_def
        bind_eq_Some_conv split: if_splits)
  have a: "0 \<le> a \<and> a \<le> n + 1" by (rule soft_write_range [OF w assms(2)])
  show ?thesis
  proof (cases "a = n + 1")
    case True
    with rest obtain k where "softi2c_read usb idev rb q1 = Some (k, bs, q)" "r = a + k" by auto
    with True soft_read_range [of usb idev rb q1 k bs q] assms(2) show ?thesis by auto
  qed (use rest a in auto)
qed

lemma soft_write_read_count_witness:
  "rcpod_I2CWriteRead (\<lambda>_ s. ((0, []), s)) idev0 (\<lambda>_. 7) 0 [5] (pod_i2c 0x0110 ()) = Some (2, [0], pod_i2c 0x0110 ()) \<and>
   (2::int) \<le> 0 + 2"
proof -
  let ?p = "pod_i2c 0x0110 ()"
  let ?u = "\<lambda>_ s. ((0, []), s) :: (int \<times> byte list) \<times> unit"
  have gpio: "rcpod_GpioAssert ?u pin ?p = Some ?p" "rcpod_GpioAssertBuffer ?u [pin, pin'] ?p = Some ?p"
    "rcpod_GpioTest ?u pin ?p = Some (0, ?p)" for pin pin'
    by (simp_all add: rcpod_GpioAssert_def rcpod_GpioAssertBuffer.simps [of ?u "[pin, pin']"] rcpod_GpioAssert4_def
        vendor_out_def usb_control_msg_def rcpod_GpioTest_def vendor_in1_def vendor_in_def byte_at_def pod_i2c_def)
  have line: "softi2c_set_data ?u idev0 v ?p = Some ?p" "softi2c_set_clock ?u idev0 v ?p = Some ?p"
    "softi2c_test_data ?u idev0 ?p = Some (0, ?p)" for v
    by (simp_all add: softi2c_set_data_def softi2c_set_clock_def softi2c_test_data_def gpio)
  have bits: "softi2c_write_bits ?u idev0 k b ?p = Some ?p" "softi2c_read_bits ?u idev0 k 0 ?p = Some (0, ?p)" for k b
    by (induction k arbitrary: b) (simp_all add: line)
  have run: "rcpod_I2CWriteRead ?u idev0 (\<lambda>_. 7) 0 [5] ?p = Some (2, [0], ?p)"
    by (simp add: rcpod_I2CWriteRead_def rcpod_HasAcceleratedI2C_def softi2c_write_read_def softi2c_write_def
        softi2c_start_def softi2c_stop_def softi2c_write_byte_def softi2c_read_byte_def softi2c_read_def line bits gpio
        softi2c_write_loop.simps [of ?u idev0 "\<lambda>_. 7" 0 0]) (simp add: pod_i2c_def)
  have "bcdDevice ?p < 0x0120" by (simp add: pod_i2c_def)
  from soft_write_read_count [OF this _ run] run show ?thesis by simp
qed

text \<open>Once a device has been selected, selecting it again sends nothing and succeeds, and a failed selection
  leaves the remembered device as it was.\<close>

lemma i2c_set_dev_cached:
  assumes "i2c_set_dev usb idev p = Some (r, q)"
  shows "(0 \<le> r \<and> i2c_set_dev usb idev q = Some (0, q)) \<or>
     (r < 0 \<and> last_i2c_dev q = last_i2c_dev p \<and> last_i2c_dev_valid q = last_i2c_dev_valid p)"
proof -
  have err: "rcpod_HandleError e s = Some s' \<Longrightarrow>
      last_i2c_dev s' = last_i2c_dev s \<and> last_i2c_dev_valid s' = last_i2c_dev_valid s" for e s s'
    by (auto simp: rcpod_HandleError_def split: error_handler.splits)
  show ?thesis
    using assms
    by (auto simp: i2c_set_dev_def usb_control_msg_def Let_def bind_eq_Some_conv split: if_splits prod.splits
        dest!: err)
qed

lemma i2c_set_dev_cached_witness:
  "\<exists>q. i2c_set_dev (\<lambda>_ s. ((0, []), s)) idev0 (pod_i2c 0x0120 ()) = Some (0, q) \<and>
     i2c_set_dev (\<lambda>_ s. ((0, []), s)) idev0 q = Some (0, q)"
proof -
  have "\<exists>q. i2c_set_dev (\<lambda>_ s. ((0, []), s)) idev0 (pod_i2c 0x0120 ()) = Some (0, q)"
    by (simp add: i2c_set_dev_def usb_control_msg_def pod_i2c_def)
  with i2c_set_dev_cached [of "\<lambda>_ s. ((0, []), s)" idev0 "pod_i2c 0x0120 ()" 0] show ?thesis by fastforce
qed

end
