(* ===== verification/Rcpod_Device.thy ===== *)
theory Rcpod_Device
  imports Rcpod_Protocol
begin

text \<open>
  Finding, opening, resetting and closing devices: \<^verbatim>\<open>rcpod/src/device.c\<close>. The USB device tree that libusb has
  scanned, the environment variable and the outcome of each \<^verbatim>\<open>malloc\<close> and \<^verbatim>\<open>usb_open\<close> are inputs.
  \<open>live\<close> counts the allocated blocks and \<open>handles\<close> the open USB handles, for the leak properties.
\<close>

section \<open>The state of the library\<close>

record usb_device =
  idVendor :: nat
  idProduct :: nat
  dev_bcd :: nat
  dev_path :: nat

record rcpod_lib =
  handler :: error_handler
  reports :: "pod_error list"
  deviceList :: "usb_device list"
  live :: nat
  handles :: nat
  mallocs :: "bool list"

definition lib_HandleError :: "pod_error \<Rightarrow> rcpod_lib \<Rightarrow> rcpod_lib option" where
  "lib_HandleError e l =
     (case handler l of
        DefaultErrorHandler \<Rightarrow> None
      | UserErrorHandler _ \<Rightarrow> Some (l\<lparr>reports := reports l @ [e]\<rparr>))"

text \<open>The next \<^verbatim>\<open>malloc\<close>: whether it gives a block; it always does once the list of outcomes is used up.\<close>

definition malloc :: "rcpod_lib \<Rightarrow> bool \<times> rcpod_lib" where
  "malloc l =
     (let ok = (mallocs l = [] \<or> hd (mallocs l))
      in (ok, l\<lparr>mallocs := tl (mallocs l), live := live l + of_bool ok\<rparr>))"

definition rcpod_SetErrorHandler :: "error_handler option \<Rightarrow> rcpod_lib \<Rightarrow> error_handler \<times> rcpod_lib" where
  "rcpod_SetErrorHandler h l =
     (let oldHandler = handler l;
          h = (case h of None \<Rightarrow> DefaultErrorHandler | Some h \<Rightarrow> h)
      in (oldHandler, l\<lparr>handler := h\<rparr>))"

section \<open>Finding devices\<close>

abbreviation (input) RCPOD_VENDOR_ID :: nat where "RCPOD_VENDOR_ID \<equiv> 0xE461"
abbreviation (input) RCPOD_PRODUCT_ID :: nat where "RCPOD_PRODUCT_ID \<equiv> 0x0002"

definition is_rcpod :: "usb_device \<Rightarrow> bool" where
  "is_rcpod d \<longleftrightarrow> idVendor d = RCPOD_VENDOR_ID \<and> idProduct d = RCPOD_PRODUCT_ID"

text \<open>C's \<^verbatim>\<open>atoi\<close>: white space, a sign, digits; the rest is ignored.\<close>

definition digit_of :: "char \<Rightarrow> int option" where
  "digit_of c = (if 48 \<le> (of_char c :: int) \<and> (of_char c :: int) \<le> 57 then Some (of_char c - 48) else None)"

fun atoi_digits :: "int \<Rightarrow> string \<Rightarrow> int" where
  "atoi_digits n [] = n"
| "atoi_digits n (c # s) = (case digit_of c of None \<Rightarrow> n | Some d \<Rightarrow> atoi_digits (10 * n + d) s)"

definition isspace :: "char \<Rightarrow> bool" where
  "isspace c \<longleftrightarrow> of_char c \<in> {32, 9, 10, 11, 12, 13 :: nat}"

definition atoi :: "string \<Rightarrow> int" where
  "atoi s =
     (case dropWhile isspace s of
        [] \<Rightarrow> 0
      | c # r \<Rightarrow> if of_char c = (45 :: nat) then - atoi_digits 0 r
          else if of_char c = (43 :: nat) then atoi_digits 0 r
          else atoi_digits 0 (c # r))"

text \<open>The loops over the devices of every bus, from device number \<open>devNumber\<close>; a failed allocation ends
  both.\<close>

fun find_loop :: "string option \<Rightarrow> int \<Rightarrow> usb_device list \<Rightarrow> rcpod_lib \<Rightarrow> rcpod_lib option" where
  "find_loop arg devNumber [] l = Some l"
| "find_loop arg devNumber (dev # devs) l =
     (if is_rcpod dev then
        let ignoreDevice = (case arg of None \<Rightarrow> False | Some s \<Rightarrow> atoi s \<noteq> devNumber) in
        if \<not> ignoreDevice then
          case malloc l of
            (ok, l) \<Rightarrow>
              if \<not> ok then lib_HandleError (ErrDevice ''rcpod_FindDevices'') l
              else find_loop arg (devNumber + 1) devs (l\<lparr>deviceList := deviceList l @ [dev]\<rparr>)
        else find_loop arg (devNumber + 1) devs l
      else find_loop arg devNumber devs l)"

definition rcpod_FindDevices :: "usb_device list list \<Rightarrow> string option \<Rightarrow> rcpod_lib \<Rightarrow> rcpod_lib option" where
  "rcpod_FindDevices busses force_dev l =
     find_loop force_dev 0 (concat busses)
       (l\<lparr>deviceList := [], live := live l - length (deviceList l)\<rparr>)"

definition rcpod_GetDevices :: "rcpod_lib \<Rightarrow> usb_device list" where
  "rcpod_GetDevices l = deviceList l"

section \<open>Opening and closing\<close>

text \<open>\<open>usb_open\<close> gives the state of the hardware behind the handle, or nothing; \<open>junk\<close> is the
  \<open>stack_junk\<close> of later operations.\<close>

definition rcpod_Open :: "(usb_device \<Rightarrow> 's option) \<Rightarrow> byte \<Rightarrow> usb_device \<Rightarrow> rcpod_lib
    \<Rightarrow> ('s pod option \<times> rcpod_lib) option" where
  "rcpod_Open usb_open junk usbdev l =
     (if dev_bcd usbdev < 0x0110 then do {
        l \<leftarrow> lib_HandleError (ErrDevice ''rcpod_Open'') l; Some (None, l) }
      else case malloc l of
        (ok, l) \<Rightarrow>
          if \<not> ok then do { l \<leftarrow> lib_HandleError (ErrDevice ''rcpod_GetDevices'') l; Some (None, l) }
          else case usb_open usbdev of
            None \<Rightarrow> do { l \<leftarrow> lib_HandleError (ErrDevice ''usb_open'') l; Some (None, l) }
          | Some s \<Rightarrow>
              Some (Some \<lparr>hw = s, bcdDevice = dev_bcd usbdev, rx_size = 0, rx_address = 0, rx_last_count8 = 0,
                  rx_count = 0, rx_unread = 0, rx_tail_index = 0,
                  last_i2c_dev = \<lparr>i2c_speed = 0, i2c_clock = 0, i2c_data = 0, i2c_address = 0, i2c_padding = 0\<rparr>,
                  last_i2c_dev_valid = False, pod_handler = handler l, pod_reports = [], stack_junk = junk\<rparr>,
                l\<lparr>handles := handles l + 1\<rparr>))"

definition rcpod_Close :: "'s pod \<Rightarrow> rcpod_lib \<Rightarrow> rcpod_lib" where
  "rcpod_Close p l = l\<lparr>handles := handles l - 1, live := live l - 1\<rparr>"

section \<open>Reset\<close>

fun poke_all :: "'s usb \<Rightarrow> (int \<times> byte) list \<Rightarrow> 's pod \<Rightarrow> 's pod option" where
  "poke_all usb [] p = Some p"
| "poke_all usb ((a, b) # r) p = do { p \<leftarrow> rcpod_Poke usb a b p; poke_all usb r p }"

text \<open>The ports, their directions, the timers, the capture/compare modules, the analog inputs and the USART.\<close>

definition reset_registers :: "(int \<times> byte) list" where
  "reset_registers =
     [(0x05, 0), (0x06, 0), (0x07, 0), (0x08, 0), (0x09, 0),
      (0x85, 0xFF), (0x86, 0xFF), (0x87, 0xFF), (0x88, 0xFF), (0x89, 0x07),
      (0x10, 0), (0x12, 0),
      (0x17, 0), (0x1D, 0),
      (0x1F, 0), (0x9F, 0),
      (0x18, 0), (0x98, 2)]"

definition rcpod_Reset :: "'s usb \<Rightarrow> 's pod \<Rightarrow> 's pod option" where
  "rcpod_Reset usb p = do {
     p \<leftarrow> rcpod_UsartTxRx usb 0 0 0 p;
     let p = p\<lparr>last_i2c_dev_valid := False\<rparr>;
     poke_all usb reset_registers p
   }"

definition rcpod_InitSimpleWithoutReset :: "(usb_device \<Rightarrow> 's option) \<Rightarrow> byte \<Rightarrow> usb_device list list \<Rightarrow>
    string option \<Rightarrow> rcpod_lib \<Rightarrow> ('s pod option \<times> rcpod_lib) option" where
  "rcpod_InitSimpleWithoutReset usb_open junk busses force_dev l = do {
     l \<leftarrow> rcpod_FindDevices busses force_dev l;
     case deviceList l of
       [] \<Rightarrow> do { l \<leftarrow> lib_HandleError (ErrDevice ''rcpod_InitSimple'') l; Some (None, l) }
     | dev # _ \<Rightarrow> rcpod_Open usb_open junk dev l
   }"

definition rcpod_InitSimple :: "'s usb \<Rightarrow> (usb_device \<Rightarrow> 's option) \<Rightarrow> byte \<Rightarrow> usb_device list list \<Rightarrow>
    string option \<Rightarrow> rcpod_lib \<Rightarrow> ('s pod option \<times> rcpod_lib) option" where
  "rcpod_InitSimple usb usb_open junk busses force_dev l = do {
     (pod, l) \<leftarrow> rcpod_InitSimpleWithoutReset usb_open junk busses force_dev l;
     case pod of
       None \<Rightarrow> Some (None, l)
     | Some p \<Rightarrow> do { p \<leftarrow> rcpod_Reset usb p; Some (Some p, l) }
   }"

section \<open>Lemmas\<close>

text \<open>The devices that a scan keeps.\<close>

definition chosen :: "string option \<Rightarrow> int \<Rightarrow> usb_device list \<Rightarrow> usb_device list" where
  "chosen arg n devs =
     (case arg of None \<Rightarrow> devs
      | Some s \<Rightarrow> if n \<le> atoi s \<and> atoi s < n + int (length devs) then [devs ! nat (atoi s - n)] else [])"

lemma chosen_Cons:
  "chosen arg n (d # ds) =
     (if (case arg of None \<Rightarrow> False | Some s \<Rightarrow> atoi s \<noteq> n) then chosen arg (n + 1) ds
      else d # chosen arg (n + 1) ds)"
proof -
  have pred: "nat (a - n) - Suc 0 = nat (a - (n + 1))" for a by linarith
  show ?thesis by (auto simp: chosen_def nth_Cons' pred split: option.split)
qed

lemma find_loop_ok:
  assumes "mallocs l = []"
  shows "\<exists>l'. find_loop arg n devs l = Some l' \<and>
     deviceList l' = deviceList l @ chosen arg n (filter is_rcpod devs) \<and>
     live l' = live l + length (chosen arg n (filter is_rcpod devs)) \<and> handles l' = handles l"
  using assms
proof (induction devs arbitrary: n l)
  case Nil
  then show ?case by (auto simp: chosen_def split: option.split)
next
  case (Cons d ds)
  show ?case
  proof (cases "is_rcpod d \<and> \<not> (case arg of None \<Rightarrow> False | Some s \<Rightarrow> atoi s \<noteq> n)")
    case True
    let ?l = "l\<lparr>live := live l + 1, deviceList := deviceList l @ [d]\<rparr>"
    have m: "malloc l = (True, l\<lparr>live := live l + 1\<rparr>)" using Cons.prems by (simp add: malloc_def)
    from Cons.IH [of ?l "n + 1"] Cons.prems obtain l' where
      "find_loop arg (n + 1) ds ?l = Some l'"
      "deviceList l' = deviceList ?l @ chosen arg (n + 1) (filter is_rcpod ds)"
      "live l' = live ?l + length (chosen arg (n + 1) (filter is_rcpod ds))" "handles l' = handles ?l"
      by auto
    with True m show ?thesis by (simp add: chosen_Cons)
  next
    case False
    with Cons.IH [of l "n + 1"] Cons.IH [of l n] Cons.prems show ?thesis
      by (cases "is_rcpod d") (auto simp: chosen_Cons)
  qed
qed

context pod_memory begin

lemma poke_all_writes:
  "\<exists>s'. poke_all usb rs p = Some (p\<lparr>hw := s'\<rparr>) \<and>
     mem s' = fold (\<lambda>(a, b) m. m(mem_addr a := b)) rs (mem (hw p))"
proof (induction rs arbitrary: p)
  case Nil
  then show ?case by (auto intro!: exI [of _ "hw p"])
next
  case (Cons r rs)
  obtain a b where r: "r = (a, b)" by (cases r)
  obtain s' where s': "rcpod_Poke usb a b p = Some (p\<lparr>hw := s'\<rparr>)" "mem s' = (mem (hw p))(mem_addr a := b)"
    using Poke_step [of a b p] by auto
  obtain s'' where s'': "poke_all usb rs (p\<lparr>hw := s'\<rparr>) = Some (p\<lparr>hw := s'\<rparr>\<lparr>hw := s''\<rparr>)"
    "mem s'' = fold (\<lambda>(a, b) m. m(mem_addr a := b)) rs (mem (hw (p\<lparr>hw := s'\<rparr>)))"
    using Cons.IH [of "p\<lparr>hw := s'\<rparr>"] by blast
  have "mem s'' = fold (\<lambda>(a, b) m. m(mem_addr a := b)) (r # rs) (mem (hw p))"
    unfolding s''(2) r using s'(2) by simp
  moreover have "poke_all usb (r # rs) p = Some (p\<lparr>hw := s''\<rparr>)"
    using s'(1) s''(1) by (simp add: r)
  ultimately show ?case by blast
qed

end

lemma pic_txrx:
  "rcpod_UsartTxRx pic_usb 0 0 0 p = Some (p\<lparr>hw := (hw p)\<lparr>rx_base := 0, rx_len := 0, rx_total := 0\<rparr>,
     rx_size := 0, rx_address := 0, rx_last_count8 := 0, rx_count := 0, rx_unread := 0, rx_tail_index := 0\<rparr>)"
  by (simp add: rcpod_UsartTxRx_def vendor_out_def usb_control_msg_def pic_usb_def pic_peek_def lo8_def hi8_def
      mem_addr_def)

definition lib0 :: rcpod_lib where
  "lib0 = \<lparr>handler = UserErrorHandler 0, reports = [], deviceList = [], live = 0, handles = 0, mallocs = []\<rparr>"

definition dev0 :: "nat \<Rightarrow> usb_device" where
  "dev0 n = \<lparr>idVendor = 0xE461, idProduct = 2, dev_bcd = 0x0121, dev_path = n\<rparr>"

section \<open>Properties\<close>

text \<open>When memory does not run out, a scan lists exactly the attached rcpods in order, or, with
  \<^verbatim>\<open>RCPOD_FORCE_DEV\<close> set, the one at that position in the list; a rescan frees what the scan before it
  allocated.\<close>

lemma find_devices_lists_rcpods:
  assumes "mallocs l = []" "length (deviceList l) \<le> live l"
  shows "\<exists>l'. rcpod_FindDevices busses force_dev l = Some l' \<and>
     rcpod_GetDevices l' = chosen force_dev 0 (filter is_rcpod (concat busses)) \<and>
     live l' - length (deviceList l') = live l - length (deviceList l)"
  using find_loop_ok [of "l\<lparr>deviceList := [], live := live l - length (deviceList l)\<rparr>" force_dev 0 "concat busses"] assms
  by (auto simp: rcpod_FindDevices_def rcpod_GetDevices_def)

lemma find_devices_lists_rcpods_witness:
  "\<exists>l'. rcpod_FindDevices [[dev0 1], [dev0 2]] (Some ''1'') lib0 = Some l' \<and> rcpod_GetDevices l' = [dev0 2]"
proof -
  have "chosen (Some ''1'') 0 (filter is_rcpod (concat [[dev0 1], [dev0 2]])) = [dev0 2]"
    by (simp add: chosen_def is_rcpod_def dev0_def atoi_def isspace_def digit_of_def)
  with find_devices_lists_rcpods [of lib0 "[[dev0 1], [dev0 2]]" "Some ''1''"] show ?thesis
    by (auto simp: lib0_def)
qed

text \<open>After \<open>rcpod_Reset\<close> every listed register of the device holds its power-on default, no other byte of
  its memory has changed, no serial receive is in progress on either side and the remembered I2C device is
  forgotten.\<close>

lemma reset_restores_defaults:
  "\<exists>q. rcpod_Reset pic_usb p = Some q \<and>
     (\<forall>(a, b) \<in> set reset_registers. ram (hw q) (mem_addr a) = b) \<and>
     (\<forall>k. k \<notin> set (map (mem_addr \<circ> fst) reset_registers) \<longrightarrow> ram (hw q) k = ram (hw p) k) \<and>
     rx_size q = 0 \<and> \<not> last_i2c_dev_valid q"
proof -
  obtain p1 where p1: "rcpod_UsartTxRx pic_usb 0 0 0 p = Some p1" "ram (hw p1) = ram (hw p)" "rx_size p1 = 0"
    using pic_txrx [of p] by auto
  obtain s' where s': "poke_all pic_usb reset_registers (p1\<lparr>last_i2c_dev_valid := False\<rparr>)
        = Some (p1\<lparr>last_i2c_dev_valid := False, hw := s'\<rparr>)"
    "ram s' = fold (\<lambda>(a, b) m. m(mem_addr a := b)) reset_registers (ram (hw p))"
    using pic_mem.poke_all_writes [of reset_registers "p1\<lparr>last_i2c_dev_valid := False\<rparr>"] p1(2) by auto
  have "rcpod_Reset pic_usb p = Some (p1\<lparr>last_i2c_dev_valid := False, hw := s'\<rparr>)"
    using p1(1) s'(1) by (simp add: rcpod_Reset_def)
  moreover have "\<forall>(a, b) \<in> set reset_registers. ram s' (mem_addr a) = b"
    unfolding s'(2) by (simp add: reset_registers_def mem_addr_def)
  moreover have "\<forall>k. k \<notin> set (map (mem_addr \<circ> fst) reset_registers) \<longrightarrow> ram s' k = ram (hw p) k"
    unfolding s'(2) by (simp add: reset_registers_def)
  ultimately show ?thesis using p1(3) by auto
qed

lemma reset_restores_defaults_witness:
  "\<forall>p. \<exists>q. rcpod_Reset pic_usb p = Some q \<and> ram (hw q) 0x20 = ram (hw p) 0x20"
proof
  fix p
  have "0x20 \<notin> set (map (mem_addr \<circ> fst) reset_registers)"
    by (simp add: reset_registers_def mem_addr_def)
  then show "\<exists>q. rcpod_Reset pic_usb p = Some q \<and> ram (hw q) 0x20 = ram (hw p) 0x20"
    using reset_restores_defaults [of p] by blast
qed

text \<open>Opening a device either gives a device whose record is in its initial state, with one block and one
  handle that \<open>rcpod_Close\<close> gives back, or reports an error and gives no device; when \<^verbatim>\<open>usb_open\<close> fails,
  the block stays allocated although nobody can free it.\<close>

lemma open_close_balance:
  assumes "rcpod_Open usb_open junk d l = Some (r, l')"
  shows "case r of
      Some p \<Rightarrow> 0x0110 \<le> dev_bcd d \<and> usb_open d = Some (hw p) \<and> rx_size p = 0 \<and> \<not> last_i2c_dev_valid p \<and>
        reports l' = reports l \<and> live (rcpod_Close p l') = live l \<and> handles (rcpod_Close p l') = handles l
    | None \<Rightarrow> length (reports l') = length (reports l) + 1 \<and> handles l' = handles l \<and>
        live l' = live l + of_bool (0x0110 \<le> dev_bcd d \<and> fst (malloc l))"
  using assms
  by (auto simp: rcpod_Open_def malloc_def Let_def lib_HandleError_def rcpod_Close_def bind_eq_Some_conv
      split: if_splits option.splits error_handler.splits)

lemma open_close_balance_witness:
  "\<exists>l'. rcpod_Open (\<lambda>_. None :: unit option) 0 (dev0 1) lib0 = Some (None, l') \<and> live l' = 1 \<and> handles l' = 0"
proof -
  have "\<exists>l'. rcpod_Open (\<lambda>_. None :: unit option) 0 (dev0 1) lib0 = Some (None, l')"
    by (simp add: rcpod_Open_def malloc_def lib_HandleError_def dev0_def lib0_def)
  then obtain l' where l': "rcpod_Open (\<lambda>_. None :: unit option) 0 (dev0 1) lib0 = Some (None, l')" by blast
  from open_close_balance [OF l'] l' show ?thesis by (auto simp: dev0_def lib0_def malloc_def)
qed

end
