(* ===== verification/Rwand_Filter.thy ===== *)
theory Rwand_Filter
  imports Prelude
begin

text \<open>
  The averaging filter of the Raster Wand driver and its bit reversal: \<^verbatim>\<open>struct filter\<close>,
  \<^verbatim>\<open>filter_push\<close>, \<^verbatim>\<open>filter_reset\<close> and \<^verbatim>\<open>reverse_bits\<close> of \<^verbatim>\<open>rasterwand/kernel/rwand.c\<close>. The
  lemmas give the filter's state after any sequence of values, against the values themselves.
\<close>

section \<open>Definitions\<close>

abbreviation (input) FILTER_SIZE :: int where "FILTER_SIZE \<equiv> 256"

record period_filter =
  f_buffer :: "int list"
  f_total :: int
  f_n_values :: int
  f_pointer :: int

definition filter_push :: "period_filter \<Rightarrow> int \<Rightarrow> (int \<times> period_filter) option" where
  "filter_push f new_value = do {
     f \<leftarrow> (if f_n_values f > FILTER_SIZE then do {
             t \<leftarrow> c_sub (f_total f) (f_buffer f ! nat (f_pointer f));
             Some (f\<lparr>f_total := t\<rparr>)
           } else Some (f\<lparr>f_n_values := f_n_values f + 1\<rparr>));
     let f = f\<lparr>f_buffer := (f_buffer f)[nat (f_pointer f) := new_value]\<rparr>;
     t \<leftarrow> c_add (f_total f) new_value;
     let f = f\<lparr>f_total := t\<rparr>;
     let f = f\<lparr>f_pointer := (f_pointer f + 1) AND (FILTER_SIZE - 1)\<rparr>;
     r \<leftarrow> c_div (f_total f) (f_n_values f);
     Some (r, f)
   }"

definition filter_reset :: "period_filter \<Rightarrow> period_filter" where
  "filter_reset f = f\<lparr>f_total := 0, f_n_values := 0, f_pointer := 0\<rparr>"

text \<open>\<^verbatim>\<open>unsigned long\<close> is 32 bits wide on the machines the driver was written for.\<close>

definition reverse_bits :: "byte \<Rightarrow> byte" where
  "reverse_bits b =
     ucast (drop_bit 16 ((((ucast b * 0x0802) AND 0x22110) OR ((ucast b * 0x8020) AND 0x88440)) * (0x10101 :: u32)))"

section \<open>The state after a sequence of values\<close>

text \<open>The values pushed one after the other: the last result and the state.\<close>

fun filter_pushes :: "period_filter \<Rightarrow> int list \<Rightarrow> period_filter option" where
  "filter_pushes f [] = Some f"
| "filter_pushes f (v # vs) = do { (_, f) \<leftarrow> filter_push f v; filter_pushes f vs }"

definition filter_total :: "int list \<Rightarrow> int" where
  "filter_total xs =
     (if length xs \<le> 256 then sum_list xs else xs ! 0 + sum_list (drop (length xs - 256) xs))"

definition filter_inv :: "int list \<Rightarrow> period_filter \<Rightarrow> bool" where
  "filter_inv xs f \<longleftrightarrow>
     length (f_buffer f) = 256 \<and> f_pointer f = int (length xs mod 256) \<and>
     f_n_values f = int (min (length xs) 257) \<and> f_total f = filter_total xs \<and>
     (\<forall>j < length xs. length xs \<le> j + 256 \<longrightarrow> f_buffer f ! (j mod 256) = xs ! j)"

definition period_ok :: "int \<Rightarrow> bool" where
  "period_ok v \<longleftrightarrow> 0 \<le> v \<and> v \<le> 65535"

lemma sum_list_bounds:
  "\<forall>x \<in> set xs. period_ok x \<Longrightarrow> 0 \<le> sum_list xs \<and> sum_list xs \<le> 65535 * int (length xs)"
  by (induction xs) (auto simp: period_ok_def algebra_simps)

lemma filter_total_bounds:
  assumes "\<forall>x \<in> set xs. period_ok x"
  shows "0 \<le> filter_total xs \<and> filter_total xs \<le> 65535 * int (min (length xs) 257)"
proof (cases "length xs \<le> 256")
  case True
  then show ?thesis using sum_list_bounds [OF assms] by (simp add: filter_total_def)
next
  case False
  let ?d = "drop (length xs - 256) xs"
  have "\<forall>x \<in> set ?d. period_ok x" using assms set_drop_subset [of "length xs - 256" xs] by blast
  from sum_list_bounds [OF this] False have "0 \<le> sum_list ?d \<and> sum_list ?d \<le> 65535 * 256" by simp
  moreover have "period_ok (xs ! 0)" using assms False nth_mem [of 0 xs] by (cases xs) auto
  ultimately show ?thesis using False by (simp add: filter_total_def period_ok_def)
qed

lemma filter_reset_inv: "length (f_buffer f) = 256 \<Longrightarrow> filter_inv [] (filter_reset f)"
  by (simp add: filter_inv_def filter_reset_def filter_total_def)

lemma next_pointer: "(int (k mod 256) + 1) AND 255 = int (Suc k mod 256)"
proof -
  have "(int (k mod 256) + 1) AND 255 = (int (k mod 256) + 1) mod 256"
    using take_bit_eq_mask [of 8 "int (k mod 256) + 1"] by (simp add: take_bit_eq_mod mask_eq_exp_minus_1)
  then show ?thesis by (simp add: zmod_int mod_simps add.commute)
qed

lemma filter_total_snoc:
  "filter_total (xs @ [v]) =
     (if length xs \<le> 256 then filter_total xs + v
      else filter_total xs - xs ! (length xs - 256) + v)"
proof -
  let ?k = "length xs"
  consider "?k < 256" | "?k = 256" | "256 < ?k" by linarith
  then show ?thesis
  proof cases
    case 1
    then show ?thesis by (simp add: filter_total_def)
  next
    case 2
    then obtain x ys where "xs = x # ys" by (cases xs) auto
    with 2 show ?thesis by (simp add: filter_total_def)
  next
    case 3
    then have "drop (?k - 256) xs = xs ! (?k - 256) # drop (Suc (?k - 256)) xs"
      by (simp add: Cons_nth_drop_Suc)
    moreover have "Suc (?k - 256) = Suc ?k - 256" using 3 by simp
    moreover have "(xs @ [v]) ! 0 = xs ! 0" using 3 by (cases xs) auto
    ultimately show ?thesis using 3 by (simp add: filter_total_def)
  qed
qed

lemma filter_push_inv:
  assumes "filter_inv xs f" "\<forall>x \<in> set xs. period_ok x" "period_ok v"
  shows "\<exists>f'. filter_push f v =
       Some (filter_total (xs @ [v]) div int (min (Suc (length xs)) 257), f') \<and> filter_inv (xs @ [v]) f'"
proof -
  let ?k = "length xs"
  have all: "\<forall>x \<in> set (xs @ [v]). period_ok x" using assms by auto
  note b = filter_total_bounds [OF all]
  let ?n = "int (min (Suc ?k) 257)"
  have tot: "int32_ok (filter_total (xs @ [v]))"
    using b by (simp add: int32_ok_def min_def split: if_splits)
  let ?f' = "f\<lparr>f_buffer := (f_buffer f)[?k mod 256 := v], f_total := filter_total (xs @ [v]),
      f_n_values := ?n, f_pointer := int (Suc ?k mod 256)\<rparr>"
  have quot: "c_div (filter_total (xs @ [v])) ?n = Some (filter_total (xs @ [v]) div ?n)"
  proof -
    have nn: "0 < ?n" "0 \<le> filter_total (xs @ [v])" using b by auto
    then have "filter_total (xs @ [v]) sdiv ?n = filter_total (xs @ [v]) div ?n"
      by (simp add: sdiv_pos)
    moreover have "int32_ok (filter_total (xs @ [v]) div ?n)"
    proof -
      have "filter_total (xs @ [v]) div ?n \<le> filter_total (xs @ [v])"
        using nn zdiv_mono2 [of "filter_total (xs @ [v])" 1 ?n] by simp
      moreover have "0 \<le> filter_total (xs @ [v]) div ?n"
        using nn by (simp add: pos_imp_zdiv_nonneg_iff)
      ultimately show ?thesis using tot nn by (simp add: int32_ok_def)
    qed
    ultimately show ?thesis using nn by (simp add: c_div_def chk32_ok)
  qed
  have push: "filter_push f v = Some (filter_total (xs @ [v]) div ?n, ?f')"
  proof (cases "?k \<le> 256")
    case True
    then have n: "f_n_values f + 1 = ?n" "\<not> f_n_values f > 256"
      using assms(1) by (auto simp: filter_inv_def)
    have t: "c_add (f_total f) v = Some (filter_total (xs @ [v]))"
      using True assms(1) tot by (simp add: c_add_def chk32_ok filter_inv_def filter_total_snoc)
    show ?thesis
      using assms(1) n t quot by (simp add: filter_push_def filter_inv_def next_pointer add.commute
          next_pointer [unfolded add.commute [of _ 1]])
  next
    case False
    then have n: "f_n_values f = ?n" "f_n_values f > 256"
      using assms(1) by (auto simp: filter_inv_def)
    have "?k - 256 < ?k" "?k \<le> (?k - 256) + 256" using False by auto
    then have old: "f_buffer f ! ((?k - 256) mod 256) = xs ! (?k - 256)"
      using assms(1) by (auto simp: filter_inv_def)
    have "(?k - 256) mod 256 = ?k mod 256" using False by (simp add: le_mod_geq)
    with old have old: "f_buffer f ! (?k mod 256) = xs ! (?k - 256)" by simp
    have ok: "int32_ok (filter_total xs - xs ! (?k - 256))"
    proof -
      have "period_ok (xs ! (?k - 256))" using assms(2) False by simp
      then show ?thesis
        using filter_total_bounds [OF assms(2)] by (simp add: int32_ok_def period_ok_def min_def split: if_splits)
    qed
    then have s: "c_sub (f_total f) (f_buffer f ! nat (f_pointer f)) = Some (filter_total xs - xs ! (?k - 256))"
      using assms(1) old by (simp add: c_sub_def chk32_ok filter_inv_def)
    have t: "c_add (filter_total xs - xs ! (?k - 256)) v = Some (filter_total (xs @ [v]))"
      using False tot by (simp add: c_add_def chk32_ok filter_total_snoc)
    show ?thesis
      using assms(1) n s t quot by (simp add: filter_push_def filter_inv_def next_pointer)
  qed
  have "filter_inv (xs @ [v]) ?f'"
    unfolding filter_inv_def
  proof (intro conjI allI impI)
    fix j assume j: "j < length (xs @ [v])" "length (xs @ [v]) \<le> j + 256"
    show "f_buffer ?f' ! (j mod 256) = (xs @ [v]) ! j"
    proof (cases "j = ?k")
      case True
      then show ?thesis using assms(1) by (simp add: filter_inv_def)
    next
      case False
      with j have lt: "j < ?k" "?k < j + 256" by auto
      then have "j mod 256 \<noteq> ?k mod 256"
        using mod_eq_dvd_iff_nat [of j ?k 256] by (auto dest: dvd_imp_le)
      then show ?thesis using lt assms(1) by (simp add: filter_inv_def nth_append)
    qed
  qed (use assms(1) in \<open>auto simp: filter_inv_def\<close>)
  with push show ?thesis by blast
qed

lemma filter_pushes_inv:
  "filter_inv ys f \<Longrightarrow> \<forall>x \<in> set (ys @ xs). period_ok x \<Longrightarrow>
   \<exists>f'. filter_pushes f xs = Some f' \<and> filter_inv (ys @ xs) f'"
proof (induction xs arbitrary: ys f)
  case (Cons x xs)
  obtain r f1 where "filter_push f x = Some (r, f1)" "filter_inv (ys @ [x]) f1"
    using filter_push_inv [OF Cons.prems(1), of x] Cons.prems(2) by auto
  with Cons.IH [of "ys @ [x]" f1] Cons.prems(2) show ?case by auto
qed simp


definition filter0 :: period_filter where
  "filter0 = \<lparr>f_buffer = replicate 256 0, f_total = 0, f_n_values = 0, f_pointer = 0\<rparr>"

lemma filter_push_after:
  assumes "length (f_buffer f) = 256" "\<forall>x \<in> set xs. period_ok x" "period_ok v"
  shows "\<exists>f'. Option.bind (filter_pushes (filter_reset f) xs) (\<lambda>g. filter_push g v) =
     Some (filter_total (xs @ [v]) div int (min (length xs + 1) 257), f')"
proof -
  obtain g where "filter_pushes (filter_reset f) xs = Some g" "filter_inv xs g"
    using filter_pushes_inv [OF filter_reset_inv [OF assms(1)], of xs] assms(2) by auto
  with filter_push_inv [of xs g v] assms(2,3) show ?thesis by auto
qed

section \<open>Reversing the bits of a byte\<close>

text \<open>Multiplications by the masks are disjoint sums of shifted copies.\<close>

lemma masked_add:
  fixes x y :: u32
  assumes "x = x AND p" "y = y AND q" "p AND q = 0"
  shows "x + y = x OR y"
proof -
  have "x AND y = (x AND p) AND (y AND q)" using assms(1,2) by simp
  also have "\<dots> = (x AND y) AND (p AND q)" by (simp only: and.left_commute and.assoc and.commute)
  finally have "x AND y = 0" using assms(3) by simp
  then show ?thesis by (rule disjunctive_add_eq_or)
qed

lemma masked_push: "(x :: u32) = x AND p \<Longrightarrow> push_bit n x = push_bit n x AND push_bit n p"
  by (metis push_bit_and)

lemma reverse_bits_or:
  fixes b :: byte
  defines "B \<equiv> ucast b :: u32"
  defines "m \<equiv> ((push_bit 1 B OR push_bit 11 B) AND 0x22110) OR ((push_bit 5 B OR push_bit 15 B) AND 0x88440)"
  shows "reverse_bits b = ucast (drop_bit 16 (m OR push_bit 8 m OR push_bit 16 m))"
proof -
  have B: "B = B AND 0xFF"
  proof -
    have "B = B AND mask 8"
      by (rule bit_word_eqI) (auto simp: B_def bit_simps dest: bit_imp_le_length)
    then show ?thesis by (simp add: mask_eq_exp_minus_1)
  qed
  have sh: "push_bit i B = push_bit i B AND push_bit i 0xFF" for i by (rule masked_push [OF B])
  have "B * 0x0802 = push_bit 1 B + push_bit 11 B" "B * 0x8020 = push_bit 5 B + push_bit 15 B"
    by (simp_all add: push_bit_eq_mult algebra_simps)
  moreover have "push_bit 1 B + push_bit 11 B = push_bit 1 B OR push_bit 11 B"
    by (rule masked_add [OF sh sh]) simp
  moreover have "push_bit 5 B + push_bit 15 B = push_bit 5 B OR push_bit 15 B"
    by (rule masked_add [OF sh sh]) simp
  ultimately have e: "B * 0x0802 = push_bit 1 B OR push_bit 11 B" "B * 0x8020 = push_bit 5 B OR push_bit 15 B"
    by (simp_all only:)
  have "m * 0x10101 = m OR push_bit 8 m OR push_bit 16 m"
  proof -
    have mm: "m = m AND 0xAA550"
      by (simp add: m_def bit.conj_disj_distrib2 and.assoc)
    have sm: "push_bit i m = push_bit i m AND push_bit i 0xAA550" for i by (rule masked_push [OF mm])
    have o: "m + push_bit 8 m = m OR push_bit 8 m"
      by (rule masked_add [OF mm sm]) simp
    have "m OR push_bit 8 m = (m OR push_bit 8 m) AND (0xAA550 OR push_bit 8 0xAA550)"
    proof -
      have "(m OR push_bit 8 m) AND (0xAA550 OR push_bit 8 0xAA550)
        = ((m AND 0xAA550) OR (push_bit 8 m AND push_bit 8 0xAA550)) OR ((m AND push_bit 8 0xAA550) OR (push_bit 8 m AND 0xAA550))"
        by (simp only: bit.conj_disj_distrib bit.conj_disj_distrib2 or.assoc or.left_commute or.commute)
      also have "\<dots> = (m OR push_bit 8 m) OR ((m AND push_bit 8 0xAA550) OR (push_bit 8 m AND 0xAA550))"
        using mm sm [of 8] by simp
      also have "\<dots> = m OR push_bit 8 m"
        by (rule bit_word_eqI) (auto simp: bit_or_iff bit_and_iff)
      finally show ?thesis ..
    qed
    from masked_add [OF this sm [of 16]] o
    have "m + push_bit 8 m + push_bit 16 m = m OR push_bit 8 m OR push_bit 16 m" by (simp add: or.assoc)
    moreover have "m * 0x10101 = m + push_bit 8 m + push_bit 16 m"
      by (simp add: push_bit_eq_mult algebra_simps)
    ultimately show ?thesis by simp
  qed
  then show ?thesis by (simp only: reverse_bits_def B_def [symmetric] e m_def [symmetric])
qed

lemma reverse_bits_nth:
  assumes "i \<in> {0, 1, 2, 3, 4, 5, 6, 7 :: nat}"
  shows "bit (reverse_bits b) i = bit b (7 - i)"
proof -
  have "\<not> bit b 16" "\<not> bit b 14" "\<not> bit b 12" "\<not> bit b 10"
    by (auto dest: bit_imp_le_length)
  with assms show ?thesis
  unfolding reverse_bits_or bit_ucast_iff bit_drop_bit_eq o_apply bit_or_iff bit_and_iff bit_push_bit_iff
  by (elim insertE emptyE) simp_all
qed

lemma eight: "[0..<8] = [0, 1, 2, 3, 4, 5, 6, 7]"
  by (simp add: upt_rec)

section \<open>Properties\<close>

text \<open>From a reset, for the first 257 periods and whatever the buffer held before, the filter returns their
  exact mean, without overflow.\<close>

lemma filter_exact_mean:
  assumes "length (f_buffer f) = 256" "\<forall>x \<in> set (xs @ [v]). period_ok x" "length xs \<le> 256"
  shows "\<exists>f'. Option.bind (filter_pushes (filter_reset f) xs) (\<lambda>g. filter_push g v) =
     Some (sum_list (xs @ [v]) div int (length (xs @ [v])), f')"
proof -
  have "filter_total (xs @ [v]) = sum_list (xs @ [v])"
    using assms(3) filter_total_snoc [of xs v] by (simp add: filter_total_def)
  moreover have "min (length xs + 1) 257 = length (xs @ [v])" using assms(3) by simp
  ultimately show ?thesis using filter_push_after [OF assms(1), of xs v] assms(2) by auto
qed

lemma filter_exact_mean_witness:
  "\<exists>f'. Option.bind (filter_pushes (filter_reset filter0) [100, 200]) (\<lambda>g. filter_push g 301) = Some (200, f')"
proof -
  have a: "length (f_buffer filter0) = 256" "\<forall>x \<in> set ([100, 200] @ [301]). period_ok x"
    "length [100, 200 :: int] \<le> 256"
    by (simp_all add: filter0_def period_ok_def)
  from filter_exact_mean [OF a] show ?thesis by simp
qed

text \<open>From the 258th period on the filter never forgets the first one: it returns the sum of the last 256
  periods and of the first one since the reset, divided by 257, because the test for a full filter lets the
  count pass the size of the buffer.\<close>

lemma filter_keeps_first_value:
  assumes "length (f_buffer f) = 256" "\<forall>x \<in> set (xs @ [v]). period_ok x" "257 \<le> length xs"
  shows "\<exists>f'. Option.bind (filter_pushes (filter_reset f) xs) (\<lambda>g. filter_push g v) =
     Some ((hd xs + sum_list (drop (length xs - 255) xs) + v) div 257, f')"
proof -
  let ?k = "length xs"
  have d: "drop (length (xs @ [v]) - 256) (xs @ [v]) = drop (?k - 255) xs @ [v]"
    using assms(3) by simp
  have "(xs @ [v]) ! 0 = hd xs" using assms(3) by (cases xs) auto
  then have "filter_total (xs @ [v]) = hd xs + sum_list (drop (?k - 255) xs) + v"
    using assms(3) d by (simp add: filter_total_def)
  moreover have "int (min (?k + 1) 257) = 257" using assms(3) by simp
  ultimately show ?thesis using filter_push_after [OF assms(1), of xs v] assms(2) by auto
qed

lemma filter_keeps_first_value_witness:
  "\<exists>f'. Option.bind (filter_pushes (filter_reset filter0) (51400 # replicate 1000 25700))
      (\<lambda>g. filter_push g 25700) = Some (25800, f')"
proof -
  have a: "length (f_buffer filter0) = 256" "\<forall>x \<in> set ((51400 # replicate 1000 25700) @ [25700]). period_ok x"
    "257 \<le> length (51400 # replicate 1000 (25700 :: int))"
    by (simp_all add: filter0_def period_ok_def)
  have s: "sum_list (drop (length (51400 # replicate 1000 (25700 :: int)) - 255) (51400 # replicate 1000 (25700 :: int)))
      = 255 * 25700"
    by (simp add: drop_Cons' sum_list_replicate)
  from filter_keeps_first_value [OF a] show ?thesis unfolding s by simp
qed

text \<open>\<open>reverse_bits\<close> reverses the bits of every byte.\<close>

lemma reverse_bits_reverses:
  "map (bit (reverse_bits b)) [0..<8] = rev (map (bit b) [0..<8])"
  unfolding eight by (simp add: reverse_bits_nth)

end
