(* ===== verification/Rwand_Timing.thy ===== *)
theory Rwand_Timing
  imports Prelude
begin

text \<open>
  The settings of the Raster Wand, its table of hardware models and \<^verbatim>\<open>rwand_calc_timings\<close>
  (\<^verbatim>\<open>rasterwand/include/rwand_dev.h\<close>, \<^verbatim>\<open>rasterwand/kernel/rwand.c\<close>): the 16.16 fixed point
  computation of what the hardware is told, in \<^verbatim>\<open>int\<close> arithmetic whose overflow is \<^term>\<open>None\<close>.
\<close>

section \<open>Settings and models\<close>

record rwand_startup =
  min_period :: int
  max_period :: int
  climb_rate :: int

record rwand_settings =
  display_center :: int
  display_width :: int
  coil_center :: int
  coil_width :: int
  duty_cycle :: int
  fine_adjust :: int
  power_mode :: int
  num_columns :: int

record rwand_timings =
  column_width :: int
  gap_width :: int
  fwd_phase :: int
  rev_phase :: int
  coil_begin :: int
  coil_end :: int

record model_intrinsics =
  mi_model :: int
  mi_coil_center :: int
  mi_coil_width :: int
  mi_fine_adjust :: int
  mi_starting_edges :: int
  mi_startup :: rwand_startup

definition model_table :: "model_intrinsics list" where
  "model_table =
     [\<lparr>mi_model = 1, mi_coil_center = 0x4000, mi_coil_width = 0x7000, mi_fine_adjust = - 185,
       mi_starting_edges = 20,
       mi_startup = \<lparr>min_period = 45000, max_period = 50000, climb_rate = 700\<rparr>\<rparr>,
      \<lparr>mi_model = 2, mi_coil_center = 0x4000, mi_coil_width = 0x7000, mi_fine_adjust = - 80,
       mi_starting_edges = 100,
       mi_startup = \<lparr>min_period = 42316, max_period = 42818, climb_rate = 4662\<rparr>\<rparr>]"

abbreviation (input) RWAND_POWER_SWITCH :: int where "RWAND_POWER_SWITCH \<equiv> 0"
abbreviation (input) RWAND_POWER_OFF :: int where "RWAND_POWER_OFF \<equiv> 1"
abbreviation (input) RWAND_POWER_ON :: int where "RWAND_POWER_ON \<equiv> 2"
abbreviation (input) RWAND_POWER_AUTO :: int where "RWAND_POWER_AUTO \<equiv> 3"

section \<open>The computation\<close>

definition rwand_calc_timings :: "rwand_settings \<Rightarrow> int \<Rightarrow> rwand_timings option" where
  "rwand_calc_timings s period = do {
     half \<leftarrow> c_div (coil_width s) 2;
     lo \<leftarrow> c_sub (coil_center s) half;
     lo \<leftarrow> c_mul period lo;
     hi \<leftarrow> c_add (coil_center s) half;
     hi \<leftarrow> c_mul period hi;
     let cb = drop_bit 16 lo;
     let ce = drop_bit 16 hi;
     if num_columns s > 0 then do {
       per_col \<leftarrow> c_div period (num_columns s);
       w \<leftarrow> c_mul per_col (display_width s);
       let col_and_gap_width = drop_bit 17 w;
       c \<leftarrow> c_mul col_and_gap_width (duty_cycle s);
       let cw = drop_bit 16 c;
       gw \<leftarrow> c_sub col_and_gap_width cw;
       a \<leftarrow> c_mul (num_columns s) cw;
       gaps \<leftarrow> c_sub (num_columns s) 1;
       b \<leftarrow> c_mul gaps gw;
       total_width \<leftarrow> c_add a b;
       mid \<leftarrow> c_mul period (display_center s);
       half_total \<leftarrow> c_div total_width 2;
       fwd \<leftarrow> c_sub (drop_bit 17 mid) half_total;
       r \<leftarrow> c_sub period fwd;
       r \<leftarrow> c_sub r total_width;
       rev \<leftarrow> c_add r (fine_adjust s);
       Some \<lparr>column_width = cw, gap_width = gw, fwd_phase = fwd, rev_phase = rev, coil_begin = cb, coil_end = ce\<rparr>
     } else
       Some \<lparr>column_width = 1, gap_width = 1, fwd_phase = 0xFFFF, rev_phase = 0xFFFF, coil_begin = cb, coil_end = ce\<rparr>
   }"

text \<open>\<^verbatim>\<open>rwand_reset_settings\<close> leaves the number of columns alone.\<close>

definition default_settings :: "model_intrinsics \<Rightarrow> int \<Rightarrow> rwand_settings" where
  "default_settings m n =
     \<lparr>display_center = 0x8000, display_width = 0x6000, coil_center = mi_coil_center m,
      coil_width = mi_coil_width m, duty_cycle = 0xA000, fine_adjust = mi_fine_adjust m,
      power_mode = RWAND_POWER_SWITCH, num_columns = n\<rparr>"

definition total_width :: "rwand_settings \<Rightarrow> rwand_timings \<Rightarrow> int" where
  "total_width s t = num_columns s * column_width t + (num_columns s - 1) * gap_width t"

section \<open>The defaults\<close>

lemma sdiv_two: "0 \<le> (x::int) \<Longrightarrow> x sdiv 2 = x div 2"
  by (simp add: sdiv_pos)

lemma share_bound: "16 * (a + b) \<le> 3 * p \<Longrightarrow> 0 \<le> a \<Longrightarrow> 0 \<le> b \<Longrightarrow> p \<le> 65535 \<Longrightarrow> a \<le> 12288" for a b p :: int
  by presburger

text \<open>The widths computed from the number of columns, for the default display width and duty cycle.\<close>

lemma default_columns:
  fixes p n :: int
  assumes "0 \<le> p" "p \<le> 65535" "0 < n" "n \<le> 80"
  defines "cg \<equiv> p div n * 24576 div 131072" and "cw \<equiv> p div n * 24576 div 131072 * 40960 div 65536"
  shows "0 \<le> p div n" "p div n \<le> 65535" "0 \<le> cg" "cg \<le> 12288" "0 \<le> cw" "cw \<le> cg"
    "0 \<le> n * cw + (n - 1) * (cg - cw)" "16 * (n * cw + (n - 1) * (cg - cw)) \<le> 3 * p"
    "n * cw \<le> 12288" "(n - 1) * (cg - cw) \<le> 12288" "0 \<le> n * cw" "0 \<le> (n - 1) * (cg - cw)"
proof -
  show q: "0 \<le> p div n" using assms by (simp add: pos_imp_zdiv_nonneg_iff)
  show q2: "p div n \<le> 65535"
    using zdiv_mono2 [of p 1 n] assms by simp
  show cg: "0 \<le> cg" "cg \<le> 12288" using q q2 unfolding cg_def by linarith+
  show cw: "0 \<le> cw" "cw \<le> cg" using cg(1) unfolding cw_def cg_def by linarith+
  have "16 * cg \<le> 3 * (p div n)" unfolding cg_def by linarith
  then have "n * (16 * cg) \<le> n * (3 * (p div n))" using assms(3) by (intro mult_left_mono) auto
  moreover have "n * (p div n) \<le> p" using div_bounds [OF assms(3), of p] by (simp add: mult.commute)
  ultimately have ncg: "16 * (n * cg) \<le> 3 * p" by (simp add: algebra_simps)
  have t: "n * cw + (n - 1) * (cg - cw) = n * cg - (cg - cw)" by (simp add: algebra_simps)
  show "0 \<le> n * cw" using assms(3) cw by simp
  show "0 \<le> (n - 1) * (cg - cw)" using assms(3) cw by simp
  then show "0 \<le> n * cw + (n - 1) * (cg - cw)" using \<open>0 \<le> n * cw\<close> by simp
  have "16 * (n * cg - (cg - cw)) = 16 * (n * cg) - 16 * cg + 16 * cw" by (simp add: algebra_simps)
  with ncg cw show sum: "16 * (n * cw + (n - 1) * (cg - cw)) \<le> 3 * p" unfolding t by linarith
  show "n * cw \<le> 12288" "(n - 1) * (cg - cw) \<le> 12288"
    using share_bound [OF sum \<open>0 \<le> n * cw\<close> \<open>0 \<le> (n - 1) * (cg - cw)\<close> assms(2)]
      share_bound [OF sum [unfolded add.commute [of "n * cw"]] \<open>0 \<le> (n - 1) * (cg - cw)\<close> \<open>0 \<le> n * cw\<close> assms(2)]
    by simp_all
qed

lemma calc_timings_default:
  assumes "m \<in> set model_table" "0 \<le> p" "p \<le> 65535" "0 < n" "n \<le> 80"
  defines "cg \<equiv> p div n * 24576 div 131072" and "cw \<equiv> p div n * 24576 div 131072 * 40960 div 65536"
  defines "tw \<equiv> n * cw + (n - 1) * (cg - cw)"
  shows "rwand_calc_timings (default_settings m n) p =
     Some \<lparr>column_width = cw, gap_width = cg - cw, fwd_phase = p div 4 - tw div 2,
       rev_phase = p - (p div 4 - tw div 2) - tw + mi_fine_adjust m,
       coil_begin = p * 2048 div 65536, coil_end = p * 30720 div 65536\<rparr>"
proof -
  note b = default_columns [OF assms(2-5), folded cg_def cw_def, folded tw_def]
  have m: "mi_coil_center m = 16384" "mi_coil_width m = 28672" "- 185 \<le> mi_fine_adjust m" "mi_fine_adjust m \<le> 0"
    using assms(1) by (auto simp: model_table_def)
  have dv: "c_div p n = Some (p div n)"
    using b(1,2) assms by (simp add: c_div_def sdiv_pos chk32_ok int32_ok_def)
  have tw: "0 \<le> tw" "16 * tw \<le> 3 * p" using b(7,8) by simp_all
  have "int32_ok (tw div 2)" unfolding int32_ok_def using tw assms(3) by linarith
  then have dt: "c_div tw 2 = Some (tw div 2)"
    using tw(1) by (simp add: c_div_def sdiv_pos chk32_ok)
  have mul: "c_mul (p div n) 24576 = Some (p div n * 24576)" "c_mul cg 40960 = Some (cg * 40960)"
    "c_mul n cw = Some (n * cw)" "c_mul (n - 1) (cg - cw) = Some ((n - 1) * (cg - cw))"
    "c_sub n 1 = Some (n - 1)" "c_sub cg cw = Some (cg - cw)" "c_add (n * cw) ((n - 1) * (cg - cw)) = Some tw"
    "c_mul p 32768 = Some (p * 32768)" "c_mul p 2048 = Some (p * 2048)" "c_mul p 30720 = Some (p * 30720)"
    unfolding c_mul_def c_sub_def c_add_def tw_def
    by (rule chk32_ok, unfold int32_ok_def, use b(1-7,9-12) assms(2-5) in linarith)+
  have half: "c_div 28672 2 = Some 14336" "c_sub 16384 14336 = Some 2048" "c_add 16384 14336 = Some 30720"
    by (simp_all add: c_div_def c_sub_def c_add_def sdiv_pos chk32_ok int32_ok_def)
  have quarter: "p * 32768 div 131072 = p div 4" by linarith
  have fin: "c_sub (p div 4) (tw div 2) = Some (p div 4 - tw div 2)"
    "c_sub p (p div 4 - tw div 2) = Some (p - (p div 4 - tw div 2))"
    "c_sub (p - (p div 4 - tw div 2)) tw = Some (p - (p div 4 - tw div 2) - tw)"
    "c_add (p - (p div 4 - tw div 2) - tw) (mi_fine_adjust m) = Some (p - (p div 4 - tw div 2) - tw + mi_fine_adjust m)"
    unfolding c_sub_def c_add_def
    by (rule chk32_ok, unfold int32_ok_def, use assms(2,3) tw m(3,4) in linarith)+
  have db: "drop_bit 17 (p div n * 24576) = cg" "drop_bit 16 (cg * 40960) = cw" "drop_bit 17 (p * 32768) = p div 4"
    "drop_bit 16 (p * 2048) = p * 2048 div 65536" "drop_bit 16 (p * 30720) = p * 30720 div 65536"
    by (simp_all only: drop_bit_eq_div cw_def cg_def quarter [symmetric]) simp_all
  show ?thesis
    using assms(4)
    by (simp add: rwand_calc_timings_def default_settings_def m(1,2) half mul dv db dt fin)
qed

section \<open>Properties\<close>



text \<open>A display of no columns is never divided by: its timings are the ones that blank the display.\<close>

lemma timings_zero_columns_blank:
  assumes "m \<in> set model_table" "0 \<le> p" "p \<le> 65535" "n \<le> 0"
  shows "map_option (\<lambda>t. (column_width t, gap_width t, fwd_phase t, rev_phase t))
     (rwand_calc_timings (default_settings m n) p) = Some (1, 1, 0xFFFF, 0xFFFF)"
proof -
  have m: "mi_coil_center m = 16384" "mi_coil_width m = 28672"
    using assms(1) by (auto simp: model_table_def)
  show ?thesis
    using assms(2-4)
    by (simp add: rwand_calc_timings_def default_settings_def m c_div_def c_sub_def c_add_def c_mul_def sdiv_pos
        chk32_def int32_ok_def Let_def)
qed

lemma timings_zero_columns_blank_witness:
  "map_option (\<lambda>t. (column_width t, gap_width t, fwd_phase t, rev_phase t))
     (rwand_calc_timings (default_settings (hd model_table) 0) 47000) = Some (1, 1, 0xFFFF, 0xFFFF)"
proof -
  have a: "hd model_table \<in> set model_table" by (simp add: model_table_def)
  from timings_zero_columns_blank [OF a, of 47000 0] show ?thesis by simp
qed

text \<open>Settings inside the documented range overflow: a display center right of the middle, which
  \<^verbatim>\<open>rwand_dev.h\<close> allows up to \<^verbatim>\<open>0xFFFF\<close>, leaves the range of an \<^verbatim>\<open>int\<close> for every period of the
  hardware's startup range.\<close>

lemma timings_overflow_right_of_center:
  assumes "m \<in> set model_table" "42316 \<le> p" "p \<le> 65535" "0 < n" "n \<le> 80" "0xC650 \<le> c" "c \<le> 0xFFFF"
  shows "rwand_calc_timings ((default_settings m n)\<lparr>display_center := c\<rparr>) p = None"
proof -
  define cg where "cg = p div n * 24576 div 131072"
  define cw where "cw = p div n * 24576 div 131072 * 40960 div 65536"
  define tw where "tw = n * cw + (n - 1) * (cg - cw)"
  have p: "0 \<le> p" using assms(2) by simp
  note b = default_columns [OF p assms(3-5), folded cg_def cw_def, folded tw_def]
  have m: "mi_coil_center m = 16384" "mi_coil_width m = 28672"
    using assms(1) by (auto simp: model_table_def)
  have "42316 * 50768 \<le> p * c" by (rule mult_mono) (use assms in auto)
  then have "c_mul p c = None" by (simp add: c_mul_def chk32_def int32_ok_def)
  then have z: "Option.bind (c_mul p c) f = None" for f :: "int \<Rightarrow> rwand_timings option" by simp
  show ?thesis
    using assms(4)
    by (simp add: rwand_calc_timings_def default_settings_def Let_def z Option.bind_eq_None_conv)
qed

lemma timings_overflow_right_of_center_witness:
  "rwand_calc_timings ((default_settings (hd model_table) 80)\<lparr>display_center := 0xFFFF\<rparr>) 47000 = None"
  by (rule timings_overflow_right_of_center) (simp_all add: model_table_def)

end
