(* ===== verification/Usb_Chardev.thy ===== *)
theory Usb_Chardev
  imports Prelude
begin

text \<open>
  What the kernel drivers of the repository share: a USB device structure behind a character device, counted
  by \<^verbatim>\<open>open\<close> and freed by \<^verbatim>\<open>disconnect\<close> or by a late \<^verbatim>\<open>release\<close>. \<open>lifecycle\<close> is that
  protocol by itself; the locale \<open>usb_chardev\<close> says that a driver's handlers refine it, and its lemmas say
  which sequences of file operations are safe. A driver's theory interprets it on its own handlers.

  \<^term>\<open>None\<close> is undefined behaviour: freed memory read or a null pointer followed.
\<close>

section \<open>Error numbers\<close>

abbreviation (input) EAGAIN :: int where "EAGAIN \<equiv> 11"
abbreviation (input) ENOMEM :: int where "ENOMEM \<equiv> 12"
abbreviation (input) EFAULT :: int where "EFAULT \<equiv> 14"
abbreviation (input) ENODEV :: int where "ENODEV \<equiv> 19"
abbreviation (input) EINVAL :: int where "EINVAL \<equiv> 22"
abbreviation (input) ENOTTY :: int where "ENOTTY \<equiv> 25"
abbreviation (input) ERESTARTSYS :: int where "ERESTARTSYS \<equiv> 512"

text \<open>A call that sleeps: still asleep when the events given to it are used up, or its result.\<close>

datatype 'a sleep = Asleep | Awake 'a

section \<open>The protocol\<close>

text \<open>Whether the device structure is allocated, whether its \<^verbatim>\<open>udev\<close> is set, whether the interface still
  points to it, its \<^verbatim>\<open>open_count\<close>, and the files whose \<^verbatim>\<open>private_data\<close> is set.\<close>

record lifecycle =
  lc_alive :: bool
  lc_plugged :: bool
  lc_intf :: bool
  lc_count :: int
  lc_files :: "nat set"

text \<open>\<open>ok\<close>: the allocation of the file's private data succeeds.\<close>

definition lc_open :: "nat \<Rightarrow> bool \<Rightarrow> lifecycle \<Rightarrow> lifecycle option" where
  "lc_open fd ok l =
     (if \<not> lc_intf l then Some l
      else if \<not> lc_alive l then None
      else if \<not> ok then None
      else Some (l\<lparr>lc_count := lc_count l + 1, lc_files := insert fd (lc_files l)\<rparr>))"

definition lc_release :: "nat \<Rightarrow> lifecycle \<Rightarrow> lifecycle option" where
  "lc_release fd l =
     (if fd \<notin> lc_files l then Some l
      else if \<not> lc_alive l then None
      else if lc_count l \<le> 0 then Some l
      else if \<not> lc_plugged l then Some (l\<lparr>lc_alive := False, lc_plugged := False, lc_count := 0\<rparr>)
      else Some (l\<lparr>lc_count := lc_count l - 1, lc_files := lc_files l - {fd}\<rparr>))"

definition lc_disconnect :: "lifecycle \<Rightarrow> lifecycle option" where
  "lc_disconnect l =
     (if \<not> lc_intf l \<or> \<not> lc_alive l then None
      else if lc_count l = 0 then Some (l\<lparr>lc_intf := False, lc_alive := False, lc_plugged := False\<rparr>)
      else Some (l\<lparr>lc_intf := False, lc_plugged := False\<rparr>))"

datatype file_op = Open nat | Release nat | Disconnect

fun lc_step :: "file_op \<Rightarrow> lifecycle \<Rightarrow> lifecycle option" where
  "lc_step (Open fd) l = lc_open fd True l"
| "lc_step (Release fd) l = lc_release fd l"
| "lc_step Disconnect l = lc_disconnect l"

fun lc_run :: "file_op list \<Rightarrow> lifecycle \<Rightarrow> lifecycle option" where
  "lc_run [] l = Some l"
| "lc_run (a # as) l = Option.bind (lc_step a l) (lc_run as)"

text \<open>What the kernel promises of the calls: a file is opened once and released once, an open of an absent
  device makes no file, and a device is disconnected once. \<open>limit\<close> bounds the files open at a time.\<close>

fun legal :: "nat option \<Rightarrow> bool \<Rightarrow> nat list \<Rightarrow> file_op list \<Rightarrow> bool" where
  "legal limit plugged files [] \<longleftrightarrow> True"
| "legal limit plugged files (Open fd # as) \<longleftrightarrow>
     fd \<notin> set files \<and>
     (if plugged then (case limit of None \<Rightarrow> True | Some m \<Rightarrow> length files < m) \<and> legal limit plugged (fd # files) as
      else legal limit plugged files as)"
| "legal limit plugged files (Release fd # as) \<longleftrightarrow>
     fd \<in> set files \<and> legal limit plugged (removeAll fd files) as"
| "legal limit plugged files (Disconnect # as) \<longleftrightarrow> plugged \<and> legal limit False files as"

text \<open>The files left open and whether the device is still there.\<close>

fun left_open :: "bool \<Rightarrow> nat list \<Rightarrow> file_op list \<Rightarrow> nat list" where
  "left_open plugged files [] = files"
| "left_open plugged files (Open fd # as) = left_open plugged (if plugged then fd # files else files) as"
| "left_open plugged files (Release fd # as) = left_open plugged (removeAll fd files) as"
| "left_open plugged files (Disconnect # as) = left_open False files as"

definition lc_inv :: "bool \<Rightarrow> nat list \<Rightarrow> lifecycle \<Rightarrow> bool" where
  "lc_inv plugged files l \<longleftrightarrow>
     distinct files \<and>
     (if plugged then lc_alive l \<and> lc_plugged l \<and> lc_intf l \<and> lc_count l = int (length files) \<and> lc_files l = set files
      else \<not> lc_intf l \<and> (lc_alive l \<longleftrightarrow> files \<noteq> []) \<and>
           (files \<noteq> [] \<longrightarrow> \<not> lc_plugged l \<and> 0 < lc_count l \<and> set files \<subseteq> lc_files l))"

lemma distinct_removeAll_length:
  "distinct xs \<Longrightarrow> x \<in> set xs \<Longrightarrow> length (removeAll x xs) = length xs - 1"
  by (simp add: distinct_remove1_removeAll [symmetric] length_remove1)

lemma lc_run_single:
  "legal (Some 1) plugged files as \<Longrightarrow> lc_inv plugged files l \<Longrightarrow> length files \<le> 1 \<Longrightarrow>
   \<exists>l' b. lc_run as l = Some l' \<and> lc_inv b (left_open plugged files as) l' \<and> (b \<longrightarrow> plugged) \<and>
     (Disconnect \<in> set as \<longrightarrow> \<not> b)"
proof (induction as arbitrary: plugged files l)
  case Nil
  then show ?case by auto
next
  case (Cons a as)
  show ?case
  proof (cases a)
    case (Open fd)
    show ?thesis
    proof (cases plugged)
      case True
      let ?l = "l\<lparr>lc_count := lc_count l + 1, lc_files := insert fd (lc_files l)\<rparr>"
      have "lc_step a l = Some ?l" "lc_inv True (fd # files) ?l" "legal (Some 1) True (fd # files) as" "files = []"
        using Cons.prems True Open by (auto simp: lc_inv_def lc_open_def)
      with Cons.IH [of True "fd # files" ?l] True Open show ?thesis by auto
    next
      case False
      have "lc_step a l = Some l" "legal (Some 1) False files as"
        using Cons.prems False Open by (auto simp: lc_inv_def lc_open_def)
      with Cons.IH [of False files l] Cons.prems(2,3) False Open show ?thesis by auto
    qed
  next
    case (Release fd)
    then have f: "files = [fd]" and leg: "legal (Some 1) plugged [] as"
      using Cons.prems by (cases files; auto)+
    show ?thesis
    proof (cases plugged)
      case True
      let ?l = "l\<lparr>lc_count := lc_count l - 1, lc_files := lc_files l - {fd}\<rparr>"
      have "lc_step a l = Some ?l" "lc_inv True [] ?l"
        using Cons.prems True Release f by (auto simp: lc_inv_def lc_release_def)
      with Cons.IH [of True "[]" ?l] leg True Release f show ?thesis by auto
    next
      case False
      let ?l = "l\<lparr>lc_alive := False, lc_plugged := False, lc_count := 0\<rparr>"
      have "lc_step a l = Some ?l" "lc_inv False [] ?l"
        using Cons.prems False Release f by (auto simp: lc_inv_def lc_release_def)
      with Cons.IH [of False "[]" ?l] leg False Release f show ?thesis by auto
    qed
  next
    case Disconnect
    then have p: plugged and leg: "legal (Some 1) False files as" using Cons.prems by auto
    obtain l' where l': "lc_step a l = Some l'" "lc_inv False files l'"
      using Cons.prems Disconnect p by (cases files) (auto simp: lc_inv_def lc_disconnect_def)
    with Cons.IH [of False files l'] leg Cons.prems(3) Disconnect p show ?thesis by auto
  qed
qed

text \<open>While the device is plugged in, any number of files may come and go.\<close>

lemma lc_run_plugged:
  "legal None True files as \<Longrightarrow> Disconnect \<notin> set as \<Longrightarrow> lc_inv True files l \<Longrightarrow>
   \<exists>l'. lc_run as l = Some l' \<and> lc_inv True (left_open True files as) l'"
proof (induction as arbitrary: files l)
  case Nil
  then show ?case by auto
next
  case (Cons a as)
  show ?case
  proof (cases a)
    case (Open fd)
    let ?l = "l\<lparr>lc_count := lc_count l + 1, lc_files := insert fd (lc_files l)\<rparr>"
    have "lc_step a l = Some ?l" "lc_inv True (fd # files) ?l" "legal None True (fd # files) as"
      using Cons.prems Open by (auto simp: lc_inv_def lc_open_def)
    with Cons.IH [of "fd # files" ?l] Cons.prems(2) Open show ?thesis by auto
  next
    case (Release fd)
    let ?l = "l\<lparr>lc_count := lc_count l - 1, lc_files := lc_files l - {fd}\<rparr>"
    have len: "0 < length files" "length (removeAll fd files) = length files - 1"
      using Cons.prems Release distinct_removeAll_length [of files fd] by (auto simp: lc_inv_def)
    have dec: "int (length (removeAll fd files)) = int (length files) - 1"
      using len by linarith
    have "lc_step a l = Some ?l" "lc_inv True (removeAll fd files) ?l"
      using Cons.prems Release len(1) by (auto simp: lc_inv_def lc_release_def distinct_removeAll dec)
    with Cons.IH [of "removeAll fd files" ?l] Cons.prems Release show ?thesis by auto
  next
    case Disconnect
    with Cons.prems show ?thesis by simp
  qed
qed

text \<open>Two files still open when the device goes away: the first release frees the structure and the second
  uses it.\<close>

lemma lc_two_releases:
  assumes "lc_inv True files l" "a \<in> set files" "b \<in> set files" "a \<noteq> b"
  shows "lc_run [Disconnect, Release a, Release b] l = None"
proof -
  have "0 < length files" using assms(2) by auto
  then show ?thesis
    using assms by (auto simp: lc_inv_def lc_disconnect_def lc_release_def)
qed

section \<open>A driver's handlers\<close>

fun dev_step :: "(nat \<Rightarrow> 's \<Rightarrow> (int \<times> 's) option) \<Rightarrow> (nat \<Rightarrow> 's \<Rightarrow> (int \<times> 's) option) \<Rightarrow> ('s \<Rightarrow> 's option) \<Rightarrow>
    file_op \<Rightarrow> 's \<Rightarrow> 's option" where
  "dev_step opn rel dis (Open fd) s = map_option snd (opn fd s)"
| "dev_step opn rel dis (Release fd) s = map_option snd (rel fd s)"
| "dev_step opn rel dis Disconnect s = dis s"

fun dev_run :: "(nat \<Rightarrow> 's \<Rightarrow> (int \<times> 's) option) \<Rightarrow> (nat \<Rightarrow> 's \<Rightarrow> (int \<times> 's) option) \<Rightarrow> ('s \<Rightarrow> 's option) \<Rightarrow>
    file_op list \<Rightarrow> 's \<Rightarrow> 's option" where
  "dev_run opn rel dis [] s = Some s"
| "dev_run opn rel dis (a # as) s = Option.bind (dev_step opn rel dis a s) (dev_run opn rel dis as)"

lemma dev_run_append:
  "dev_run opn rel dis (as @ bs) s = Option.bind (dev_run opn rel dis as s) (dev_run opn rel dis bs)"
proof (induction as arbitrary: s)
  case (Cons a as)
  then show ?case by (cases "dev_step opn rel dis a s") simp_all
qed simp

locale usb_chardev =
  fixes opn :: "nat \<Rightarrow> 's \<Rightarrow> (int \<times> 's) option"
    and rel :: "nat \<Rightarrow> 's \<Rightarrow> (int \<times> 's) option"
    and dis :: "'s \<Rightarrow> 's option"
    and life :: "'s \<Rightarrow> lifecycle"
  assumes opn_life: "map_option (life \<circ> snd) (opn fd s) = lc_open fd True (life s)"
    and rel_life: "map_option (life \<circ> snd) (rel fd s) = lc_release fd (life s)"
    and dis_life: "map_option life (dis s) = lc_disconnect (life s)"
begin

lemma dev_step_life: "map_option life (dev_step opn rel dis a s) = lc_step a (life s)"
  by (cases a) (simp_all add: option.map_comp opn_life rel_life dis_life)

lemma dev_run_life: "map_option life (dev_run opn rel dis as s) = lc_run as (life s)"
proof (induction as arbitrary: s)
  case (Cons a as)
  show ?case
  proof (cases "dev_step opn rel dis a s")
    case None
    then show ?thesis using dev_step_life [of a s] by simp
  next
    case (Some t)
    then show ?thesis using dev_step_life [of a s] Cons.IH [of t] by (simp flip: dev_step_life)
  qed
qed simp

lemma single_file_safe:
  assumes "legal (Some 1) True [] as" "lc_inv True [] (life s)"
  shows "\<exists>t. dev_run opn rel dis as s = Some t \<and>
     (Disconnect \<in> set as \<longrightarrow> (lc_alive (life t) \<longleftrightarrow> left_open True [] as \<noteq> []))"
proof -
  obtain l' b where l': "lc_run as (life s) = Some l'" "lc_inv b (left_open True [] as) l'"
    "Disconnect \<in> set as \<longrightarrow> \<not> b"
    using lc_run_single [OF assms] by auto
  then obtain t where "dev_run opn rel dis as s = Some t" "life t = l'"
    using dev_run_life [of as s] by (cases "dev_run opn rel dis as s") auto
  with l' show ?thesis by (auto simp: lc_inv_def split: if_splits)
qed

lemma plugged_safe:
  assumes "legal None True [] as" "Disconnect \<notin> set as" "lc_inv True [] (life s)"
  shows "\<exists>t. dev_run opn rel dis as s = Some t \<and> lc_inv True (left_open True [] as) (life t)"
proof -
  obtain l' where l': "lc_run as (life s) = Some l'" "lc_inv True (left_open True [] as) l'"
    using lc_run_plugged [OF assms] by auto
  then obtain t where "dev_run opn rel dis as s = Some t" "life t = l'"
    using dev_run_life [of as s] by (cases "dev_run opn rel dis as s") auto
  with l' show ?thesis by auto
qed

lemma two_files_unsafe:
  assumes "lc_inv True files (life s)" "a \<in> set files" "b \<in> set files" "a \<noteq> b"
  shows "dev_run opn rel dis [Disconnect, Release a, Release b] s = None"
  using dev_run_life [of "[Disconnect, Release a, Release b]" s] lc_two_releases [OF assms]
  by (simp del: dev_run.simps lc_run.simps)

lemma two_files_end:
  assumes "legal None True [] as" "Disconnect \<notin> set as" "lc_inv True [] (life s)"
    "a \<in> set (left_open True [] as)" "b \<in> set (left_open True [] as)" "a \<noteq> b"
  shows "dev_run opn rel dis (as @ [Disconnect, Release a, Release b]) s = None"
proof -
  obtain t where "dev_run opn rel dis as s = Some t" "lc_inv True (left_open True [] as) (life t)"
    using plugged_safe [OF assms(1-3)] by blast
  with two_files_unsafe [OF this(2) assms(4-6)] show ?thesis by (simp add: dev_run_append del: dev_run.simps)
qed

end

end
