(* ===== verification/Rwand_State.thy ===== *)
theory Rwand_State
  imports Rwand_Filter Rwand_Timing Usb_Chardev
begin

text \<open>
  The state machine of the Raster Wand driver (\<^verbatim>\<open>rasterwand/kernel/rwand.c\<close>): what each 8-byte status packet
  of the hardware does to \<^verbatim>\<open>struct rwand_dev\<close>, from its decoding to the handler of the current state, and the
  requests the driver sends. The time \<open>jiffies\<close> (constant during one packet) and \<open>HZ\<close> are arguments; what
  becomes of each nonblocking request is taken from the list \<open>nb_results\<close>.
\<close>

section \<open>The device structure\<close>

record rwand_status =
  st_period :: u16
  st_phase :: u16
  st_edge_count :: byte
  st_mode :: byte
  st_flip_count :: byte
  st_buttons :: byte

datatype rwand_state = STATE_OFF | STATE_STARTING | STATE_STABILIZING | STATE_RUNNING

text \<open>A request: its number, \<^verbatim>\<open>wValue\<close> and \<^verbatim>\<open>wIndex\<close>. An input event: its code and value.\<close>

datatype rwand_request = Request nat u16 u16
datatype input_event = Key_BTN_1 bool | Abs_X int | Abs_Y int | Sync

text \<open>A nonblocking request: no memory for the setup packet or for the URB, a refused URB, or sent.\<close>

datatype nb_result = NbNoMemory | NbNoUrb | NbRefused | NbSent

record rwand_dev =
  udev_ok :: bool
  settings :: rwand_settings
  settings_dirty :: bool
  intrinsics :: model_intrinsics
  startup :: rwand_startup
  fb :: "byte list"
  status :: rwand_status
  state :: rwand_state
  pfilter :: period_filter
  filtered_period :: int
  edge_count :: int
  state_timer :: u32
  page_flip_pending :: bool
  wakeups :: nat
  open_count :: int
  requests :: "rwand_request list"
  nb_results :: "nb_result list"
  nb_leaked :: nat
  events :: "input_event list"

abbreviation (input) RWAND_CTRL_SET_COIL_PHASE :: nat where "RWAND_CTRL_SET_COIL_PHASE \<equiv> 0x04"
abbreviation (input) RWAND_CTRL_SET_MODES :: nat where "RWAND_CTRL_SET_MODES \<equiv> 0x05"
abbreviation (input) RWAND_CTRL_SET_DISPLAY_PHASE :: nat where "RWAND_CTRL_SET_DISPLAY_PHASE \<equiv> 0x06"
abbreviation (input) RWAND_CTRL_SET_COLUMN_WIDTH :: nat where "RWAND_CTRL_SET_COLUMN_WIDTH \<equiv> 0x07"
abbreviation (input) RWAND_CTRL_FLIP :: nat where "RWAND_CTRL_FLIP \<equiv> 0x09"
abbreviation (input) RWAND_CTRL_SET_PERIOD :: nat where "RWAND_CTRL_SET_PERIOD \<equiv> 0x0A"
abbreviation (input) RWAND_CTRL_SET_NUM_COLUMNS :: nat where "RWAND_CTRL_SET_NUM_COLUMNS \<equiv> 0x0B"
abbreviation (input) RWAND_CTRL_SEQ_WRITE4 :: nat where "RWAND_CTRL_SEQ_WRITE4 \<equiv> 0x0D"

abbreviation (input) RWAND_MODE_ENABLE_SYNC :: byte where "RWAND_MODE_ENABLE_SYNC \<equiv> 0x01"
abbreviation (input) RWAND_MODE_ENABLE_COIL :: byte where "RWAND_MODE_ENABLE_COIL \<equiv> 0x02"
abbreviation (input) RWAND_MODE_ENABLE_DISPLAY :: byte where "RWAND_MODE_ENABLE_DISPLAY \<equiv> 0x04"
abbreviation (input) RWAND_MODE_STALL_DETECT :: byte where "RWAND_MODE_STALL_DETECT \<equiv> 0x10"

abbreviation (input) RWAND_BUTTON_SQUARE :: byte where "RWAND_BUTTON_SQUARE \<equiv> 0x10"
abbreviation (input) RWAND_BUTTON_RIGHT :: byte where "RWAND_BUTTON_RIGHT \<equiv> 0x08"
abbreviation (input) RWAND_BUTTON_LEFT :: byte where "RWAND_BUTTON_LEFT \<equiv> 0x04"
abbreviation (input) RWAND_BUTTON_UP :: byte where "RWAND_BUTTON_UP \<equiv> 0x02"
abbreviation (input) RWAND_BUTTON_DOWN :: byte where "RWAND_BUTTON_DOWN \<equiv> 0x01"
abbreviation (input) RWAND_BUTTON_POWER :: byte where "RWAND_BUTTON_POWER \<equiv> 0x20"

abbreviation (input) PERIOD_TOLERANCE :: int where "PERIOD_TOLERANCE \<equiv> 20"
abbreviation (input) STABILIZER_EDGES :: int where "STABILIZER_EDGES \<equiv> 8"

section \<open>Requests\<close>

definition rwand_nb_request :: "nat \<Rightarrow> int \<Rightarrow> int \<Rightarrow> rwand_dev \<Rightarrow> rwand_dev" where
  "rwand_nb_request request wValue wIndex dev =
     (let outcome = (case nb_results dev of [] \<Rightarrow> NbSent | r # _ \<Rightarrow> r);
          dev = dev\<lparr>nb_results := tl (nb_results dev)\<rparr>
      in case outcome of
          NbNoMemory \<Rightarrow> dev
        | NbNoUrb \<Rightarrow> dev
        | NbRefused \<Rightarrow> dev\<lparr>nb_leaked := nb_leaked dev + 1\<rparr>
        | NbSent \<Rightarrow> dev\<lparr>requests := requests dev @ [Request request (word_of_int wValue) (word_of_int wIndex)]\<rparr>)"

definition rwand_ensure_mode :: "rwand_status \<Rightarrow> byte \<Rightarrow> rwand_dev \<Rightarrow> rwand_dev" where
  "rwand_ensure_mode new_status mode dev =
     (if st_mode new_status \<noteq> mode then rwand_nb_request RWAND_CTRL_SET_MODES (uint mode) 0 dev else dev)"

definition rwand_request_flip :: "rwand_dev \<Rightarrow> rwand_dev" where
  "rwand_request_flip dev = rwand_nb_request RWAND_CTRL_FLIP 0 0 (dev\<lparr>page_flip_pending := True\<rparr>)"

section \<open>State handlers\<close>

definition rwand_enter_state_off :: "rwand_dev \<Rightarrow> rwand_dev" where
  "rwand_enter_state_off dev = dev\<lparr>state := STATE_OFF\<rparr>"

definition rwand_enter_state_starting :: "u32 \<Rightarrow> rwand_dev \<Rightarrow> rwand_dev" where
  "rwand_enter_state_starting jiffies dev =
     dev\<lparr>state := STATE_STARTING, edge_count := 0, state_timer := jiffies\<rparr>"

definition rwand_enter_state_stabilizing :: "int \<Rightarrow> u32 \<Rightarrow> rwand_dev \<Rightarrow> rwand_dev" where
  "rwand_enter_state_stabilizing HZ jiffies dev =
     dev\<lparr>state := STATE_STABILIZING, edge_count := 0, state_timer := jiffies + word_of_int HZ\<rparr>"

definition rwand_enter_state_running :: "rwand_dev \<Rightarrow> rwand_dev" where
  "rwand_enter_state_running dev = dev\<lparr>state := STATE_RUNNING\<rparr>"

definition rwand_update_state_off :: "rwand_status \<Rightarrow> rwand_dev \<Rightarrow> rwand_dev option" where
  "rwand_update_state_off new_status dev = Some (rwand_ensure_mode new_status 0 dev)"

text \<open>The period to try next, before the climb: back to an end of the startup range when outside it.\<close>

definition startup_clamp :: "rwand_startup \<Rightarrow> int \<Rightarrow> int" where
  "startup_clamp su new_period =
     (if new_period > max_period su \<or> new_period < min_period su then
        (if climb_rate su \<ge> 0 then min_period su else max_period su)
      else new_period)"

definition rwand_update_state_starting :: "int \<Rightarrow> u32 \<Rightarrow> rwand_status \<Rightarrow> rwand_dev \<Rightarrow> rwand_dev option" where
  "rwand_update_state_starting HZ jiffies new_status dev = do {
     let dt = sint (jiffies - state_timer dev);
     let dev = dev\<lparr>state_timer := jiffies\<rparr>;
     let dev = rwand_ensure_mode new_status RWAND_MODE_ENABLE_COIL dev;
     let new_period = startup_clamp (startup dev) (uint (st_period new_status));
     climb \<leftarrow> c_mul dt (climb_rate (startup dev));
     climb \<leftarrow> c_div climb HZ;
     new_period \<leftarrow> c_add new_period climb;
     timings \<leftarrow> rwand_calc_timings (settings dev) new_period;
     let dev = rwand_nb_request RWAND_CTRL_SET_PERIOD new_period 0 dev;
     let dev = rwand_nb_request RWAND_CTRL_SET_COIL_PHASE (coil_begin timings) (coil_end timings) dev;
     Some (if edge_count dev > mi_starting_edges (intrinsics dev)
           then rwand_enter_state_stabilizing HZ jiffies dev else dev)
   }"

text \<open>\<^verbatim>\<open>time_after(a, b)\<close>: the signed difference decides, so that the counter may wrap.\<close>

definition time_after :: "u32 \<Rightarrow> u32 \<Rightarrow> bool" where
  "time_after a b \<longleftrightarrow> sint (b - a) < 0"

definition rwand_update_state_stabilizing :: "u32 \<Rightarrow> rwand_status \<Rightarrow> rwand_dev \<Rightarrow> rwand_dev option" where
  "rwand_update_state_stabilizing jiffies new_status dev =
     (let dev = rwand_ensure_mode new_status (RWAND_MODE_ENABLE_SYNC OR RWAND_MODE_ENABLE_COIL) dev in
      if edge_count dev > STABILIZER_EDGES then Some (rwand_enter_state_running dev)
      else if time_after jiffies (state_timer dev) then Some (rwand_enter_state_starting jiffies dev)
      else Some dev)"

definition send_timings :: "rwand_timings \<Rightarrow> rwand_dev \<Rightarrow> rwand_dev" where
  "send_timings t dev =
     (let dev = rwand_nb_request RWAND_CTRL_SET_COIL_PHASE (coil_begin t) (coil_end t) dev;
          dev = rwand_nb_request RWAND_CTRL_SET_COLUMN_WIDTH (column_width t) (gap_width t) dev;
          dev = rwand_nb_request RWAND_CTRL_SET_DISPLAY_PHASE (fwd_phase t) (rev_phase t) dev
      in rwand_nb_request RWAND_CTRL_SET_NUM_COLUMNS (num_columns (settings dev)) 0 dev)"

definition rwand_update_state_running :: "u32 \<Rightarrow> rwand_status \<Rightarrow> rwand_dev \<Rightarrow> rwand_dev option" where
  "rwand_update_state_running jiffies new_status dev =
     (let dev = rwand_ensure_mode new_status
            (RWAND_MODE_STALL_DETECT OR RWAND_MODE_ENABLE_SYNC OR RWAND_MODE_ENABLE_COIL OR
             RWAND_MODE_ENABLE_DISPLAY) dev
      in if st_mode (status dev) AND RWAND_MODE_ENABLE_DISPLAY \<noteq> 0 \<and>
            st_mode new_status AND RWAND_MODE_ENABLE_DISPLAY = 0
         then Some (rwand_enter_state_starting jiffies dev)
         else do {
           let dev = (if st_mode new_status \<noteq> st_mode (status dev)
                      then dev\<lparr>settings_dirty := True, pfilter := filter_reset (pfilter dev)\<rparr> else dev);
           (new_filtered_period, f) \<leftarrow> filter_push (pfilter dev) (uint (st_period new_status));
           let dev = dev\<lparr>pfilter := f\<rparr>;
           let dev = (if \<bar>new_filtered_period - filtered_period dev\<bar> > PERIOD_TOLERANCE
                      then dev\<lparr>settings_dirty := True, filtered_period := new_filtered_period\<rparr> else dev);
           if settings_dirty dev then do {
             timings \<leftarrow> rwand_calc_timings (settings dev) new_filtered_period;
             Some ((send_timings timings dev)\<lparr>settings_dirty := False\<rparr>)
           } else Some dev
         })"

section \<open>A status packet\<close>

definition rwand_decode_status :: "byte list \<Rightarrow> rwand_status" where
  "rwand_decode_status p =
     \<lparr>st_period = word_of_int (uint (p ! 0) + push_bit 8 (uint (p ! 1))),
      st_phase = word_of_int (uint (p ! 2) + push_bit 8 (uint (p ! 3))),
      st_edge_count = p ! 4, st_mode = p ! 5, st_flip_count = p ! 6, st_buttons = p ! 7\<rparr>"

definition buttons_to_axis :: "byte \<Rightarrow> byte \<Rightarrow> byte \<Rightarrow> int" where
  "buttons_to_axis buttons neg_mask pos_mask =
     (let x = 0;
          x = (if buttons AND neg_mask \<noteq> 0 then x - 1 else x)
      in if buttons AND pos_mask \<noteq> 0 then x + 1 else x)"

definition report_buttons :: "byte \<Rightarrow> input_event list" where
  "report_buttons b =
     [Key_BTN_1 (b AND RWAND_BUTTON_SQUARE \<noteq> 0),
      Abs_X (buttons_to_axis b RWAND_BUTTON_LEFT RWAND_BUTTON_RIGHT),
      Abs_Y (buttons_to_axis b RWAND_BUTTON_UP RWAND_BUTTON_DOWN), Sync]"

definition power_wanted :: "byte \<Rightarrow> rwand_dev \<Rightarrow> bool" where
  "power_wanted buttons dev =
     (if power_mode (settings dev) = RWAND_POWER_ON then True
      else if power_mode (settings dev) = RWAND_POWER_SWITCH then buttons AND RWAND_BUTTON_POWER \<noteq> 0
      else if power_mode (settings dev) = RWAND_POWER_AUTO then open_count dev \<noteq> 0
      else False)"

text \<open>\<^verbatim>\<open>rwand_process_status\<close> in three parts: what it reports and counts, the power switch, and the
  handler of the state.\<close>

definition packet_events :: "rwand_status \<Rightarrow> rwand_dev \<Rightarrow> rwand_dev" where
  "packet_events new_status dev =
     (let dev = dev\<lparr>events := events dev @ report_buttons (st_buttons new_status)\<rparr>;
          dev = (if st_flip_count new_status \<noteq> st_flip_count (status dev)
                 then dev\<lparr>page_flip_pending := False, wakeups := wakeups dev + 1\<rparr> else dev)
      in dev\<lparr>edge_count := edge_count dev +
           ((uint (st_edge_count new_status) - uint (st_edge_count (status dev))) AND 0xFF)\<rparr>)"

definition packet_power :: "u32 \<Rightarrow> rwand_status \<Rightarrow> rwand_dev \<Rightarrow> rwand_dev" where
  "packet_power jiffies new_status dev =
     (if power_wanted (st_buttons new_status) dev
      then (if state dev = STATE_OFF then rwand_enter_state_starting jiffies dev else dev)
      else (if state dev \<noteq> STATE_OFF then rwand_enter_state_off dev else dev))"

definition handle_state :: "int \<Rightarrow> u32 \<Rightarrow> rwand_status \<Rightarrow> rwand_dev \<Rightarrow> rwand_dev option" where
  "handle_state HZ jiffies new_status dev =
     (case state dev of
        STATE_OFF \<Rightarrow> rwand_update_state_off new_status dev
      | STATE_STARTING \<Rightarrow> rwand_update_state_starting HZ jiffies new_status dev
      | STATE_STABILIZING \<Rightarrow> rwand_update_state_stabilizing jiffies new_status dev
      | STATE_RUNNING \<Rightarrow> rwand_update_state_running jiffies new_status dev)"

definition rwand_process_status :: "int \<Rightarrow> u32 \<Rightarrow> byte list \<Rightarrow> rwand_dev \<Rightarrow> rwand_dev option" where
  "rwand_process_status HZ jiffies packet dev =
     (let new_status = rwand_decode_status packet;
          dev = packet_events new_status dev;
          dev = packet_power jiffies new_status dev
      in do {
        dev \<leftarrow> handle_state HZ jiffies new_status dev;
        Some (dev\<lparr>status := new_status\<rparr>)
      })"

text \<open>The completion handler of the status URB: its status, the length of the packet and the packet; the result
  says whether the URB was submitted again.\<close>

abbreviation (input) ECONNRESET :: int where "ECONNRESET \<equiv> 104"
abbreviation (input) ENOENT :: int where "ENOENT \<equiv> 2"
abbreviation (input) ESHUTDOWN :: int where "ESHUTDOWN \<equiv> 108"
abbreviation (input) STATUS_PACKET_SIZE :: nat where "STATUS_PACKET_SIZE \<equiv> 8"

definition rwand_status_irq :: "int \<Rightarrow> u32 \<Rightarrow> int \<Rightarrow> nat \<Rightarrow> byte list \<Rightarrow> rwand_dev \<Rightarrow> (bool \<times> rwand_dev) option" where
  "rwand_status_irq HZ jiffies urb_status actual_length packet dev =
     (if urb_status \<in> {- ECONNRESET, - ENOENT, - ESHUTDOWN} then Some (False, dev)
      else if urb_status \<noteq> 0 \<or> actual_length \<noteq> STATUS_PACKET_SIZE then Some (False, dev)
      else do { dev \<leftarrow> rwand_process_status HZ jiffies packet dev; Some (True, dev) })"

section \<open>Models and settings\<close>

text \<open>\<open>model\<close> is the byte that the request \<^verbatim>\<open>GET_HW_MODEL\<close> read.\<close>

definition rwand_set_model :: "byte \<Rightarrow> rwand_dev \<Rightarrow> rwand_dev" where
  "rwand_set_model model dev =
     (case find (\<lambda>m. mi_model m = uint model) model_table of
        Some m \<Rightarrow> dev\<lparr>intrinsics := m\<rparr>
      | None \<Rightarrow> dev\<lparr>intrinsics := hd model_table\<rparr>)"

definition rwand_reset_settings :: "rwand_dev \<Rightarrow> rwand_dev" where
  "rwand_reset_settings dev =
     dev\<lparr>settings := default_settings (intrinsics dev) (num_columns (settings dev)),
         startup := mi_startup (intrinsics dev)\<rparr>"

section \<open>The frame buffer\<close>

abbreviation (input) RWAND_FB_BYTES :: nat where "RWAND_FB_BYTES \<equiv> 80"

definition convert_fb_byte :: "bool \<Rightarrow> byte \<Rightarrow> byte" where
  "convert_fb_byte vflip b = (if vflip then reverse_bits b else b)"

text \<open>The requests of \<^verbatim>\<open>rwand_update_fb\<close> from column \<open>i\<close> on; \<open>new_fb\<close> is the caller's array of 80 bytes,
  whose bytes past the ones copied from the user hold what was on the stack.\<close>

function update_fb_loop :: "bool \<Rightarrow> int \<Rightarrow> byte list \<Rightarrow> rwand_dev \<Rightarrow> rwand_dev" where
  "update_fb_loop vflip i new_fb dev =
     (if i < num_columns (settings dev) then
        let c = (\<lambda>k. convert_fb_byte vflip (byte_at 0 new_fb (nat i + k)));
            dev = dev\<lparr>requests := requests dev @
              [Request RWAND_CTRL_SEQ_WRITE4 (word_of_int (pack16 (c 0) (c 1))) (word_of_int (pack16 (c 2) (c 3)))]\<rparr>
        in update_fb_loop vflip (i + 4) new_fb dev
      else dev)"
  by pat_completeness auto
termination
  by (relation "measure (\<lambda>(_, i, _, dev). nat (num_columns (settings dev) - i))") auto

definition rwand_update_fb :: "bool \<Rightarrow> nat \<Rightarrow> byte list \<Rightarrow> rwand_dev \<Rightarrow> rwand_dev" where
  "rwand_update_fb vflip bytes new_fb dev =
     (let dev = (if int bytes \<noteq> num_columns (settings dev)
                 then dev\<lparr>settings := (settings dev)\<lparr>num_columns := int bytes\<rparr>, settings_dirty := True\<rparr> else dev);
          dev = dev\<lparr>fb := overlay (take bytes new_fb) (fb dev)\<rparr>
      in update_fb_loop vflip 0 new_fb dev)"

declare update_fb_loop.simps [simp del]

text \<open>\<^verbatim>\<open>rwand_wait_for_fb\<close> sleeps while a page flip is pending. Each wake-up brings whether a signal is pending and
  what the rest of the driver did to the device meanwhile; without a further one the process is still asleep.\<close>

fun rwand_wait_for_fb :: "(bool \<times> (rwand_dev \<Rightarrow> rwand_dev)) list \<Rightarrow> rwand_dev \<Rightarrow> (int \<times> rwand_dev) sleep" where
  "rwand_wait_for_fb wakes dev =
     (if page_flip_pending dev \<and> st_mode (status dev) AND RWAND_MODE_ENABLE_DISPLAY \<noteq> 0 then
        (case wakes of
           [] \<Rightarrow> Asleep
         | (signal, change) # rest \<Rightarrow>
             if signal then Awake (- 512, dev) else rwand_wait_for_fb rest (change dev))
      else Awake (0, dev))"

declare rwand_wait_for_fb.simps [simp del]

end
