(* ===== verification/Rwand_Run.thy ===== *)
theory Rwand_Run
  imports Rwand_State
begin

text \<open>
  Runs of the Raster Wand driver: any interleaving of status packets, frames written by processes and opens and
  closes, from the state that \<^verbatim>\<open>rwand_probe\<close> sets up. The invariant of these runs makes every packet
  well defined; the rest of the theory says what the state machine does.
\<close>

section \<open>What the requests leave alone\<close>

lemma nb_request_frame [simp, state_frame]:
  "udev_ok (rwand_nb_request r v i dev) = udev_ok dev" "settings (rwand_nb_request r v i dev) = settings dev"
  "settings_dirty (rwand_nb_request r v i dev) = settings_dirty dev"
  "intrinsics (rwand_nb_request r v i dev) = intrinsics dev" "startup (rwand_nb_request r v i dev) = startup dev"
  "fb (rwand_nb_request r v i dev) = fb dev" "status (rwand_nb_request r v i dev) = status dev"
  "state (rwand_nb_request r v i dev) = state dev" "pfilter (rwand_nb_request r v i dev) = pfilter dev"
  "filtered_period (rwand_nb_request r v i dev) = filtered_period dev"
  "edge_count (rwand_nb_request r v i dev) = edge_count dev"
  "state_timer (rwand_nb_request r v i dev) = state_timer dev"
  "page_flip_pending (rwand_nb_request r v i dev) = page_flip_pending dev"
  "open_count (rwand_nb_request r v i dev) = open_count dev"
  by (simp_all add: rwand_nb_request_def Let_def split: nb_result.split)

lemma ensure_mode_frame [simp, state_frame]:
  "udev_ok (rwand_ensure_mode st m dev) = udev_ok dev" "settings (rwand_ensure_mode st m dev) = settings dev"
  "settings_dirty (rwand_ensure_mode st m dev) = settings_dirty dev"
  "intrinsics (rwand_ensure_mode st m dev) = intrinsics dev" "startup (rwand_ensure_mode st m dev) = startup dev"
  "fb (rwand_ensure_mode st m dev) = fb dev" "status (rwand_ensure_mode st m dev) = status dev"
  "state (rwand_ensure_mode st m dev) = state dev" "pfilter (rwand_ensure_mode st m dev) = pfilter dev"
  "filtered_period (rwand_ensure_mode st m dev) = filtered_period dev"
  "edge_count (rwand_ensure_mode st m dev) = edge_count dev"
  "state_timer (rwand_ensure_mode st m dev) = state_timer dev"
  "page_flip_pending (rwand_ensure_mode st m dev) = page_flip_pending dev"
  "open_count (rwand_ensure_mode st m dev) = open_count dev"
  by (simp_all add: rwand_ensure_mode_def)

lemma send_timings_frame [simp, state_frame]:
  "settings (send_timings t dev) = settings dev" "intrinsics (send_timings t dev) = intrinsics dev"
  "startup (send_timings t dev) = startup dev" "state (send_timings t dev) = state dev"
  "pfilter (send_timings t dev) = pfilter dev" "filtered_period (send_timings t dev) = filtered_period dev"
  "edge_count (send_timings t dev) = edge_count dev" "state_timer (send_timings t dev) = state_timer dev"
  "page_flip_pending (send_timings t dev) = page_flip_pending dev" "status (send_timings t dev) = status dev"
  by (simp_all add: send_timings_def Let_def)

section \<open>The invariant\<close>

definition rwand_inv :: "rwand_dev \<Rightarrow> bool" where
  "rwand_inv dev \<longleftrightarrow>
     (\<exists>m n xs. m \<in> set model_table \<and> 0 \<le> n \<and> n \<le> 80 \<and> intrinsics dev = m \<and> startup dev = mi_startup m \<and>
        settings dev = default_settings m n \<and> filter_inv xs (pfilter dev) \<and> (\<forall>x \<in> set xs. period_ok x))"

text \<open>The clock during the next packet: while the wand is starting, packets arrive at least once a second.\<close>

definition timely :: "int \<Rightarrow> u32 \<Rightarrow> rwand_dev \<Rightarrow> bool" where
  "timely HZ jiffies dev \<longleftrightarrow>
     0 < HZ \<and> HZ \<le> 1000 \<and>
     (state dev = STATE_STARTING \<longrightarrow>
        0 \<le> sint (jiffies - state_timer dev) \<and> sint (jiffies - state_timer dev) \<le> HZ)"

lemma period_u16: "period_ok (uint (w :: u16))"
  using uint_lt2p [of w] by (simp add: period_ok_def)

lemma calc_timings_total:
  assumes "m \<in> set model_table" "0 \<le> p" "p \<le> 65535" "0 \<le> n" "n \<le> 80"
  shows "\<exists>t. rwand_calc_timings (default_settings m n) p = Some t"
proof (cases "0 < n")
  case True
  then show ?thesis using calc_timings_default [OF assms(1-3) _ assms(5)] by simp
next
  case False
  have m: "mi_coil_center m = 16384" "mi_coil_width m = 28672"
    using assms(1) by (auto simp: model_table_def)
  show ?thesis
    using assms(2,3) False
    by (simp add: rwand_calc_timings_def default_settings_def m c_div_def c_sub_def c_add_def c_mul_def sdiv_pos
        chk32_def int32_ok_def Let_def)
qed

lemma climb_bounds:
  assumes "m \<in> set model_table" "0 < HZ" "HZ \<le> 1000" "0 \<le> dt" "dt \<le> HZ" "period_ok p"
  defines "su \<equiv> mi_startup m"
  shows "\<exists>c. c_mul dt (climb_rate su) = Some (dt * climb_rate su) \<and> c_div (dt * climb_rate su) HZ = Some c \<and>
     0 \<le> c \<and> c \<le> climb_rate su \<and> c = dt * climb_rate su div HZ \<and>
     c_add (startup_clamp su p) c = Some (startup_clamp su p + c) \<and>
     min_period su \<le> startup_clamp su p \<and> startup_clamp su p + c \<le> 65535"
proof -
  have su: "0 \<le> climb_rate su" "climb_rate su \<le> 4662" "0 \<le> min_period su" "min_period su \<le> max_period su"
    "max_period su + climb_rate su \<le> 65535"
    using assms(1) by (auto simp: model_table_def su_def)
  have prod: "0 \<le> dt * climb_rate su" "dt * climb_rate su \<le> HZ * climb_rate su"
    using assms su by (simp_all add: mult_right_mono)
  then have "dt * climb_rate su \<le> 1000 * 4662"
    using mult_mono [of HZ 1000 "climb_rate su" 4662] assms su by linarith
  then have mul: "int32_ok (dt * climb_rate su)" using prod by (simp add: int32_ok_def)
  have q: "0 \<le> dt * climb_rate su div HZ" "dt * climb_rate su div HZ \<le> climb_rate su"
    using prod assms(2) zdiv_mono1 [OF prod(2), of HZ] by (simp_all add: pos_imp_zdiv_nonneg_iff)
  have clamp: "min_period su \<le> startup_clamp su p" "startup_clamp su p \<le> max_period su"
    using su by (auto simp: startup_clamp_def)
  show ?thesis
    using mul prod q clamp su assms(2)
    by (simp add: c_mul_def c_div_def c_add_def chk32_ok sdiv_pos int32_ok_def)
qed

lemma starting_total:
  assumes "rwand_inv dev" "timely HZ jiffies dev" "state dev = STATE_STARTING"
  shows "\<exists>dev'. rwand_update_state_starting HZ jiffies st dev = Some dev' \<and> rwand_inv dev'"
proof -
  obtain m n xs where m: "m \<in> set model_table" "0 \<le> n" "n \<le> 80" "intrinsics dev = m" "startup dev = mi_startup m"
    "settings dev = default_settings m n" "filter_inv xs (pfilter dev)" "\<forall>x \<in> set xs. period_ok x"
    using assms(1) by (auto simp: rwand_inv_def)
  have t: "0 < HZ" "HZ \<le> 1000" "0 \<le> sint (jiffies - state_timer dev)" "sint (jiffies - state_timer dev) \<le> HZ"
    using assms(2,3) by (simp_all add: timely_def)
  let ?su = "mi_startup m"
  obtain c where c: "c_mul (sint (jiffies - state_timer dev)) (climb_rate ?su)
        = Some (sint (jiffies - state_timer dev) * climb_rate ?su)"
    "c_div (sint (jiffies - state_timer dev) * climb_rate ?su) HZ = Some c" "0 \<le> c"
    "c_add (startup_clamp ?su (uint (st_period st))) c = Some (startup_clamp ?su (uint (st_period st)) + c)"
    "min_period ?su \<le> startup_clamp ?su (uint (st_period st))"
    "startup_clamp ?su (uint (st_period st)) + c \<le> 65535"
    using climb_bounds [OF m(1) t period_u16, of "st_period st"] by blast
  have "0 \<le> min_period ?su" using m(1) by (auto simp: model_table_def)
  then obtain tm where tm: "rwand_calc_timings (default_settings m n) (startup_clamp ?su (uint (st_period st)) + c) = Some tm"
    using calc_timings_total [OF m(1) _ c(6) m(2,3)] c(3,5) by auto
  have run: "\<exists>dev'. rwand_update_state_starting HZ jiffies st dev = Some dev' \<and> settings dev' = settings dev \<and>
      intrinsics dev' = intrinsics dev \<and> startup dev' = startup dev \<and> pfilter dev' = pfilter dev"
    using m c tm by (simp add: rwand_update_state_starting_def rwand_enter_state_stabilizing_def Let_def)
  then obtain dev' where "rwand_update_state_starting HZ jiffies st dev = Some dev'" "settings dev' = settings dev"
    "intrinsics dev' = intrinsics dev" "startup dev' = startup dev" "pfilter dev' = pfilter dev" by blast
  with m show ?thesis by (auto simp: rwand_inv_def)
qed

lemma running_total:
  assumes "rwand_inv dev"
  shows "\<exists>dev'. rwand_update_state_running jiffies st dev = Some dev' \<and> rwand_inv dev'"
proof -
  obtain m n xs where m: "m \<in> set model_table" "0 \<le> n" "n \<le> 80" "intrinsics dev = m" "startup dev = mi_startup m"
    "settings dev = default_settings m n" "filter_inv xs (pfilter dev)" "\<forall>x \<in> set xs. period_ok x"
    using assms by (auto simp: rwand_inv_def)
  let ?dirty = "st_mode st \<noteq> st_mode (status dev)"
  let ?f = "if ?dirty then filter_reset (pfilter dev) else pfilter dev"
  let ?ys = "if ?dirty then [] else xs"
  let ?v = "uint (st_period st)"
  have fi: "filter_inv ?ys ?f" "\<forall>x \<in> set ?ys. period_ok x"
    using m(7,8) filter_reset_inv [of "pfilter dev"] by (auto simp: filter_inv_def)
  define r where "r = filter_total (?ys @ [?v]) div int (min (Suc (length ?ys)) 257)"
  obtain f' where f': "filter_push ?f ?v = Some (r, f')" "filter_inv (?ys @ [?v]) f'"
    using filter_push_inv [OF fi period_u16] by (auto simp: r_def)
  have all: "\<forall>x \<in> set (?ys @ [?v]). period_ok x" using fi(2) period_u16 by auto
  have r: "0 \<le> r" "r \<le> 65535"
  proof -
    let ?n = "int (min (Suc (length ?ys)) 257)"
    have n: "0 < ?n" by simp
    have b: "0 \<le> filter_total (?ys @ [?v])" "filter_total (?ys @ [?v]) \<le> 65535 * ?n"
      using filter_total_bounds [OF all] by (simp_all only: length_append list.size Suc_eq_plus1 add_0)
    show "0 \<le> r" unfolding r_def using b(1) n by (simp add: pos_imp_zdiv_nonneg_iff)
    have "65535 * ?n div ?n = 65535" by (rule nonzero_mult_div_cancel_right) (use n in simp)
    with zdiv_mono1 [OF b(2) n] show "r \<le> 65535" unfolding r_def by (simp only:)
  qed
  obtain tm where tm: "rwand_calc_timings (default_settings m n) r = Some tm"
    using calc_timings_total [OF m(1) r m(2,3)] by blast
  define mode where "mode = RWAND_MODE_STALL_DETECT OR RWAND_MODE_ENABLE_SYNC OR RWAND_MODE_ENABLE_COIL OR
      RWAND_MODE_ENABLE_DISPLAY"
  have "\<exists>dev' g ys. rwand_update_state_running jiffies st dev = Some dev' \<and> settings dev' = settings dev \<and>
      intrinsics dev' = intrinsics dev \<and> startup dev' = startup dev \<and> pfilter dev' = g \<and> filter_inv ys g \<and>
      (\<forall>x \<in> set ys. period_ok x)"
  proof (cases "st_mode (status dev) AND RWAND_MODE_ENABLE_DISPLAY \<noteq> 0 \<and>
      st_mode st AND RWAND_MODE_ENABLE_DISPLAY = 0")
    case True
    then show ?thesis
      using m(7,8) unfolding rwand_update_state_running_def mode_def [symmetric] Let_def
      by (auto simp: rwand_enter_state_starting_def)
  next
    case False
    have "\<exists>ys. filter_inv ys f' \<and> (\<forall>x \<in> set ys. period_ok x)" using f'(2) all by blast
    then show ?thesis
      using False f'(1) tm m(6) unfolding rwand_update_state_running_def mode_def [symmetric] Let_def
      by (cases ?dirty) (auto simp: Let_def)
  qed
  with m show ?thesis by (auto simp: rwand_inv_def)
qed

section \<open>Runs\<close>

text \<open>The device after \<^verbatim>\<open>rwand_probe\<close> has cleared the structure, read the model and set the defaults.\<close>

definition rwand_dev0 :: rwand_dev where
  "rwand_dev0 = \<lparr>udev_ok = True,
     settings = \<lparr>display_center = 0, display_width = 0, coil_center = 0, coil_width = 0, duty_cycle = 0,
       fine_adjust = 0, power_mode = 0, num_columns = 0\<rparr>,
     settings_dirty = False, intrinsics = hd model_table,
     startup = \<lparr>min_period = 0, max_period = 0, climb_rate = 0\<rparr>, fb = replicate 84 0,
     status = \<lparr>st_period = 0, st_phase = 0, st_edge_count = 0, st_mode = 0, st_flip_count = 0, st_buttons = 0\<rparr>,
     state = STATE_OFF, pfilter = filter0, filtered_period = 0, edge_count = 0, state_timer = 0,
     page_flip_pending = False, wakeups = 0, open_count = 0, requests = [], nb_results = [], nb_leaked = 0,
     events = []\<rparr>"

definition rwand_setup :: "byte \<Rightarrow> rwand_dev \<Rightarrow> rwand_dev" where
  "rwand_setup model dev = rwand_enter_state_off (rwand_reset_settings (rwand_set_model model dev))"

lemma setup_inv: "rwand_inv (rwand_setup model rwand_dev0)"
proof -
  let ?d = "rwand_set_model model rwand_dev0"
  have "intrinsics ?d \<in> set model_table" "num_columns (settings ?d) = 0" "pfilter ?d = filter0"
    by (auto simp: rwand_set_model_def rwand_dev0_def find_Some_iff model_table_def split: option.split)
  moreover have "filter_inv [] filter0" by (simp add: filter_inv_def filter0_def filter_total_def)
  ultimately show ?thesis
    unfolding rwand_inv_def rwand_setup_def rwand_reset_settings_def rwand_enter_state_off_def
    by (intro exI [of _ "intrinsics ?d"] exI [of _ 0] exI [of _ "[]"]) simp
qed

text \<open>A frame of \<^verbatim>\<open>bytes\<close> columns written by a process.\<close>

definition rwand_frame :: "bool \<Rightarrow> nat \<Rightarrow> byte list \<Rightarrow> rwand_dev \<Rightarrow> rwand_dev" where
  "rwand_frame vflip bytes new_fb dev = rwand_request_flip (rwand_update_fb vflip bytes new_fb dev)"

inductive rwand_run :: "int \<Rightarrow> bool \<Rightarrow> rwand_dev \<Rightarrow> bool" for HZ vflip where
  probed: "rwand_run HZ vflip (rwand_setup model rwand_dev0)"
| packet: "rwand_run HZ vflip dev \<Longrightarrow> timely HZ jiffies dev \<Longrightarrow>
     rwand_process_status HZ jiffies p dev = Some dev' \<Longrightarrow> rwand_run HZ vflip dev'"
| frame: "rwand_run HZ vflip dev \<Longrightarrow> 0 < bytes \<Longrightarrow> bytes \<le> RWAND_FB_BYTES \<Longrightarrow>
     rwand_run HZ vflip (rwand_frame vflip bytes new_fb dev)"
| opened: "rwand_run HZ vflip dev \<Longrightarrow> rwand_run HZ vflip (dev\<lparr>open_count := open_count dev + 1\<rparr>)"
| closed: "rwand_run HZ vflip dev \<Longrightarrow> 0 < open_count dev \<Longrightarrow>
     rwand_run HZ vflip (dev\<lparr>open_count := open_count dev - 1\<rparr>)"

lemma update_fb_loop_frame:
  "settings (update_fb_loop vflip i new_fb dev) = settings dev"
  "intrinsics (update_fb_loop vflip i new_fb dev) = intrinsics dev"
  "startup (update_fb_loop vflip i new_fb dev) = startup dev"
  "pfilter (update_fb_loop vflip i new_fb dev) = pfilter dev"
  by (induction vflip i new_fb dev rule: update_fb_loop.induct)
    (subst update_fb_loop.simps; simp add: Let_def)+

lemma frame_inv:
  assumes "rwand_inv dev" "bytes \<le> RWAND_FB_BYTES"
  shows "rwand_inv (rwand_frame vflip bytes new_fb dev)"
proof -
  have s: "settings (rwand_frame vflip bytes new_fb dev) = (settings dev)\<lparr>num_columns := int bytes\<rparr>"
    "intrinsics (rwand_frame vflip bytes new_fb dev) = intrinsics dev"
    "startup (rwand_frame vflip bytes new_fb dev) = startup dev"
    "pfilter (rwand_frame vflip bytes new_fb dev) = pfilter dev"
    by (auto simp: rwand_frame_def rwand_request_flip_def rwand_update_fb_def update_fb_loop_frame Let_def)
  have d: "(default_settings m n)\<lparr>num_columns := k\<rparr> = default_settings m k" for m n k
    by (simp add: default_settings_def)
  have n: "0 \<le> int bytes" "int bytes \<le> 80" using assms(2) by simp_all
  from assms(1) obtain m k xs where "m \<in> set model_table" "intrinsics dev = m" "startup dev = mi_startup m"
    "settings dev = default_settings m k" "filter_inv xs (pfilter dev)" "\<forall>x \<in> set xs. period_ok x"
    by (auto simp: rwand_inv_def)
  with n show ?thesis unfolding rwand_inv_def s
    by (intro exI [of _ m] exI [of _ "int bytes"] exI [of _ xs]) (simp add: d)
qed

lemma packet_events_frame [simp, state_frame]:
  "settings (packet_events st dev) = settings dev" "intrinsics (packet_events st dev) = intrinsics dev"
  "startup (packet_events st dev) = startup dev" "state (packet_events st dev) = state dev"
  "pfilter (packet_events st dev) = pfilter dev" "state_timer (packet_events st dev) = state_timer dev"
  "status (packet_events st dev) = status dev" "open_count (packet_events st dev) = open_count dev"
  "filtered_period (packet_events st dev) = filtered_period dev" "requests (packet_events st dev) = requests dev"
  "nb_results (packet_events st dev) = nb_results dev" "settings_dirty (packet_events st dev) = settings_dirty dev"
  by (simp_all add: packet_events_def Let_def)

lemma packet_power_frame [simp, state_frame]:
  "settings (packet_power j st dev) = settings dev" "intrinsics (packet_power j st dev) = intrinsics dev"
  "startup (packet_power j st dev) = startup dev" "pfilter (packet_power j st dev) = pfilter dev"
  "status (packet_power j st dev) = status dev" "filtered_period (packet_power j st dev) = filtered_period dev"
  "requests (packet_power j st dev) = requests dev" "nb_results (packet_power j st dev) = nb_results dev"
  "page_flip_pending (packet_power j st dev) = page_flip_pending dev"
  by (simp_all add: packet_power_def rwand_enter_state_starting_def rwand_enter_state_off_def)

lemma power_wanted_events [simp]: "power_wanted b (packet_events st dev) = power_wanted b dev"
  by (simp add: power_wanted_def)

lemma packet_power_state:
  "state (packet_power j st dev) =
     (if power_wanted (st_buttons st) dev then if state dev = STATE_OFF then STATE_STARTING else state dev
      else STATE_OFF)"
  by (simp add: packet_power_def rwand_enter_state_starting_def rwand_enter_state_off_def)

lemma packet_power_timely:
  "timely HZ j dev \<Longrightarrow> timely HZ j (packet_power j st (packet_events st dev))"
  by (auto simp: timely_def packet_power_def rwand_enter_state_starting_def rwand_enter_state_off_def)

lemma rwand_inv_cong:
  "settings d' = settings d \<Longrightarrow> intrinsics d' = intrinsics d \<Longrightarrow> startup d' = startup d \<Longrightarrow> pfilter d' = pfilter d \<Longrightarrow>
   rwand_inv d' = rwand_inv d"
  by (simp add: rwand_inv_def)

lemma handle_state_total:
  assumes "rwand_inv dev" "timely HZ jiffies dev"
  shows "\<exists>dev'. handle_state HZ jiffies st dev = Some dev' \<and> rwand_inv dev'"
proof (cases "state dev")
  case STATE_OFF
  then show ?thesis
    using assms rwand_inv_cong [of "rwand_ensure_mode st 0 dev" dev]
    by (simp add: handle_state_def rwand_update_state_off_def)
next
  case STATE_STARTING
  then show ?thesis using starting_total [OF assms] by (simp add: handle_state_def)
next
  case STATE_STABILIZING
  define d where "d = rwand_ensure_mode st (RWAND_MODE_ENABLE_SYNC OR RWAND_MODE_ENABLE_COIL) dev"
  have "rwand_inv d" using assms(1) rwand_inv_cong [of d dev] by (simp add: d_def)
  then have "rwand_inv d" "rwand_inv (rwand_enter_state_running d)" "rwand_inv (rwand_enter_state_starting jiffies d)"
    by (simp_all add: rwand_inv_def rwand_enter_state_running_def rwand_enter_state_starting_def)
  then show ?thesis
    unfolding handle_state_def STATE_STABILIZING rwand_update_state_stabilizing_def d_def [symmetric] Let_def
    by simp
next
  case STATE_RUNNING
  then show ?thesis using running_total [OF assms(1)] by (simp add: handle_state_def)
qed

lemma process_status_total:
  assumes "rwand_inv dev" "timely HZ jiffies dev"
  shows "\<exists>dev'. rwand_process_status HZ jiffies p dev = Some dev' \<and> rwand_inv dev'"
proof -
  let ?st = "rwand_decode_status p"
  let ?d = "packet_power jiffies ?st (packet_events ?st dev)"
  have "rwand_inv ?d" using assms(1) rwand_inv_cong [of ?d dev] by simp
  from handle_state_total [OF this packet_power_timely [OF assms(2)], of ?st]
  obtain d' where d': "handle_state HZ jiffies ?st ?d = Some d'" "rwand_inv d'" by blast
  have "rwand_inv (d'\<lparr>status := ?st\<rparr>)" using d'(2) by (simp add: rwand_inv_def)
  with d'(1) show ?thesis by (simp add: rwand_process_status_def Let_def)
qed

lemma rwand_run_inv: "rwand_run HZ vflip dev \<Longrightarrow> rwand_inv dev"
proof (induction rule: rwand_run.induct)
  case (probed model)
  then show ?case by (rule setup_inv)
next
  case (packet dev jiffies p dev')
  then show ?case using process_status_total [of dev HZ jiffies p] by auto
next
  case (frame dev bytes new_fb)
  then show ?case by (simp add: frame_inv)
qed (simp_all add: rwand_inv_def)

section \<open>The handlers, case by case\<close>

text \<open>The edges seen up to and including a packet.\<close>

definition edges_now :: "byte list \<Rightarrow> rwand_dev \<Rightarrow> int" where
  "edges_now p dev = edge_count dev +
     ((uint (st_edge_count (rwand_decode_status p)) - uint (st_edge_count (status dev))) AND 0xFF)"

definition powered :: "byte list \<Rightarrow> rwand_dev \<Rightarrow> bool" where
  "powered p dev = power_wanted (st_buttons (rwand_decode_status p)) dev"

lemma packet_events_edges: "edge_count (packet_events (rwand_decode_status p) dev) = edges_now p dev"
  by (simp add: packet_events_def edges_now_def Let_def)

lemma edges_now_ge: "edge_count dev \<le> edges_now p dev"
  by (simp add: edges_now_def)

lemma update_starting_state:
  assumes "rwand_update_state_starting HZ j st dev = Some dev'"
  shows "state dev' = (if edge_count dev > mi_starting_edges (intrinsics dev) then STATE_STABILIZING else state dev)"
    "edge_count dev' = (if edge_count dev > mi_starting_edges (intrinsics dev) then 0 else edge_count dev)"
    "intrinsics dev' = intrinsics dev"
    "state_timer dev' = (if edge_count dev > mi_starting_edges (intrinsics dev) then j + word_of_int HZ else j)"
  using assms
  by (cases "edge_count dev > mi_starting_edges (intrinsics dev)";
      auto simp: rwand_update_state_starting_def Let_def bind_eq_Some_conv rwand_enter_state_stabilizing_def)+

lemma update_stabilizing_state:
  assumes "rwand_update_state_stabilizing j st dev = Some dev'"
  shows "state dev' = (if edge_count dev > STABILIZER_EDGES then STATE_RUNNING
      else if time_after j (state_timer dev) then STATE_STARTING else state dev)"
    "\<not> time_after j (state_timer dev) \<or> edge_count dev > STABILIZER_EDGES \<Longrightarrow>
       edge_count dev' = edge_count dev \<and> state_timer dev' = state_timer dev"
    "intrinsics dev' = intrinsics dev"
  using assms
  by (auto simp: rwand_update_state_stabilizing_def Let_def rwand_enter_state_running_def
      rwand_enter_state_starting_def split: if_splits)

lemma update_running_state:
  assumes "rwand_update_state_running j st dev = Some dev'"
  shows "state dev' = (if st_mode (status dev) AND RWAND_MODE_ENABLE_DISPLAY \<noteq> 0 \<and>
        st_mode st AND RWAND_MODE_ENABLE_DISPLAY = 0 then STATE_STARTING else state dev)"
  using assms
  by (auto simp: rwand_update_state_running_def Let_def rwand_enter_state_starting_def bind_eq_Some_conv
      split: if_splits prod.splits)

lemma filter_push_result:
  assumes "filter_push f v = Some (r, g)"
  shows "r = f_total g sdiv f_n_values g"
  using assms by (auto simp: filter_push_def bind_eq_Some_conv c_div_def Let_def split: if_splits)

lemma update_running_refreshes:
  assumes "rwand_update_state_running j st dev = Some dev'" "state dev = STATE_RUNNING" "state dev' = STATE_RUNNING"
  shows "\<not> settings_dirty dev'"
    "\<bar>f_total (pfilter dev') sdiv f_n_values (pfilter dev') - filtered_period dev'\<bar> \<le> PERIOD_TOLERANCE"
proof -
  define mode where "mode = RWAND_MODE_STALL_DETECT OR RWAND_MODE_ENABLE_SYNC OR RWAND_MODE_ENABLE_COIL OR
      RWAND_MODE_ENABLE_DISPLAY"
  let ?d0 = "rwand_ensure_mode st mode dev"
  let ?d1 = "if st_mode st \<noteq> st_mode (status ?d0)
     then ?d0\<lparr>settings_dirty := True, pfilter := filter_reset (pfilter ?d0)\<rparr> else ?d0"
  have no: "\<not> (st_mode (status ?d0) AND RWAND_MODE_ENABLE_DISPLAY \<noteq> 0 \<and> st_mode st AND RWAND_MODE_ENABLE_DISPLAY = 0)"
    using update_running_state [OF assms(1)] assms(2,3) by (auto split: if_splits)
  have run: "rwand_update_state_running j st dev = (do {
       (r, f) \<leftarrow> filter_push (pfilter ?d1) (uint (st_period st));
       let dev = ?d1\<lparr>pfilter := f\<rparr>;
       let dev = (if \<bar>r - filtered_period dev\<bar> > PERIOD_TOLERANCE
                  then dev\<lparr>settings_dirty := True, filtered_period := r\<rparr> else dev);
       if settings_dirty dev then do {
         timings \<leftarrow> rwand_calc_timings (settings dev) r;
         Some ((send_timings timings dev)\<lparr>settings_dirty := False\<rparr>)
       } else Some dev
     })"
    unfolding rwand_update_state_running_def mode_def [symmetric] Let_def using no by (simp only: if_False)
  with assms(1) obtain r f where rf: "filter_push (pfilter ?d1) (uint (st_period st)) = Some (r, f)"
    and rest: "(let dev = ?d1\<lparr>pfilter := f\<rparr>;
       dev = (if \<bar>r - filtered_period dev\<bar> > PERIOD_TOLERANCE
                  then dev\<lparr>settings_dirty := True, filtered_period := r\<rparr> else dev)
       in if settings_dirty dev then do {
         timings \<leftarrow> rwand_calc_timings (settings dev) r;
         Some ((send_timings timings dev)\<lparr>settings_dirty := False\<rparr>)
       } else Some dev) = Some dev'"
    by (cases "filter_push (pfilter ?d1) (uint (st_period st))") (auto simp: Let_def)
  have r: "r = f_total f sdiv f_n_values f" by (rule filter_push_result [OF rf])
  have "\<not> settings_dirty dev' \<and> \<bar>r - filtered_period dev'\<bar> \<le> 20 \<and> pfilter dev' = f"
  proof (cases "\<bar>r - filtered_period (?d1\<lparr>pfilter := f\<rparr>)\<bar> > PERIOD_TOLERANCE")
    case True
    with rest show ?thesis by (auto simp: Let_def bind_eq_Some_conv)
  next
    case False
    with rest show ?thesis
      by (cases "settings_dirty ?d1") (auto simp: Let_def bind_eq_Some_conv simp del: if_split)
  qed
  then show "\<not> settings_dirty dev'"
    "\<bar>f_total (pfilter dev') sdiv f_n_values (pfilter dev') - filtered_period dev'\<bar> \<le> PERIOD_TOLERANCE"
    using r by auto
qed

section \<open>Starting up\<close>

text \<open>A packet that arrives while the device is powered, before the handler of the state.\<close>

lemma process_status_step:
  assumes "rwand_process_status HZ j p dev = Some dev'" "powered p dev"
  obtains d d' where "handle_state HZ j (rwand_decode_status p) d = Some d'"
    "dev' = d'\<lparr>status := rwand_decode_status p\<rparr>"
    "state d = (if state dev = STATE_OFF then STATE_STARTING else state dev)"
    "edge_count d = (if state dev = STATE_OFF then 0 else edges_now p dev)"
    "intrinsics d = intrinsics dev" "state dev \<noteq> STATE_OFF \<Longrightarrow> state_timer d = state_timer dev"
proof -
  let ?st = "rwand_decode_status p"
  let ?d = "packet_power j ?st (packet_events ?st dev)"
  obtain d' where "handle_state HZ j ?st ?d = Some d'" "dev' = d'\<lparr>status := ?st\<rparr>"
    using assms(1) by (auto simp: rwand_process_status_def Let_def bind_eq_Some_conv)
  moreover have "state ?d = (if state dev = STATE_OFF then STATE_STARTING else state dev)"
    using assms(2) by (simp add: packet_power_state powered_def)
  moreover have "edge_count ?d = (if state dev = STATE_OFF then 0 else edges_now p dev)"
    using assms(2) by (simp add: packet_power_def powered_def rwand_enter_state_starting_def packet_events_edges)
  moreover have "state dev \<noteq> STATE_OFF \<Longrightarrow> state_timer ?d = state_timer dev"
    using assms(2) by (simp add: packet_power_def powered_def)
  ultimately show thesis using that [of ?d d'] by simp
qed

text \<open>How much is still to be done before the display runs: edges to see while starting, then while
  stabilizing.\<close>

definition startup_distance :: "rwand_dev \<Rightarrow> nat" where
  "startup_distance dev =
     (case state dev of
        STATE_OFF \<Rightarrow> nat (mi_starting_edges (intrinsics dev)) + 12
      | STATE_STARTING \<Rightarrow> nat (mi_starting_edges (intrinsics dev) - edge_count dev) + 11
      | STATE_STABILIZING \<Rightarrow> nat (8 - edge_count dev) + 1
      | STATE_RUNNING \<Rightarrow> 0)"

text \<open>A packet that brings at least one new edge, in time.\<close>

definition lively :: "u32 \<Rightarrow> byte list \<Rightarrow> rwand_dev \<Rightarrow> bool" where
  "lively j p dev \<longleftrightarrow>
     powered p dev \<and> edge_count dev < edges_now p dev \<and>
     (state dev = STATE_STABILIZING \<longrightarrow> \<not> time_after j (state_timer dev))"

lemma startup_progress:
  assumes "rwand_process_status HZ j p dev = Some dev'" "lively j p dev" "0 \<le> edge_count dev"
    "state dev \<noteq> STATE_RUNNING" "0 \<le> mi_starting_edges (intrinsics dev)"
  shows "startup_distance dev' < startup_distance dev" "0 \<le> edge_count dev'" "intrinsics dev' = intrinsics dev"
proof -
  have pw: "powered p dev" and e: "edge_count dev < edges_now p dev"
    using assms(2) by (simp_all add: lively_def)
  obtain d d' where d: "handle_state HZ j (rwand_decode_status p) d = Some d'"
    "dev' = d'\<lparr>status := rwand_decode_status p\<rparr>"
    "state d = (if state dev = STATE_OFF then STATE_STARTING else state dev)"
    "edge_count d = (if state dev = STATE_OFF then 0 else edges_now p dev)"
    "intrinsics d = intrinsics dev" "state dev \<noteq> STATE_OFF \<Longrightarrow> state_timer d = state_timer dev"
    using process_status_step [OF assms(1) pw] by metis
  have "startup_distance dev' < startup_distance dev \<and> 0 \<le> edge_count dev' \<and> intrinsics dev' = intrinsics dev"
  proof (cases "state dev")
    case STATE_STABILIZING
    then have "rwand_update_state_stabilizing j (rwand_decode_status p) d = Some d'"
      using d(1,3) by (simp add: handle_state_def)
    note u = update_stabilizing_state [OF this]
    have "\<not> time_after j (state_timer d)" using assms(2) STATE_STABILIZING d(6) by (simp add: lively_def)
    with u d e STATE_STABILIZING assms(3) show ?thesis
      by (cases "edge_count d > STABILIZER_EDGES") (simp_all add: startup_distance_def)
  next
    case STATE_RUNNING
    with assms(4) show ?thesis by simp
  next
    case STATE_OFF
    then have "rwand_update_state_starting HZ j (rwand_decode_status p) d = Some d'"
      using d(1,3) by (simp add: handle_state_def)
    from update_starting_state [OF this] d STATE_OFF assms(5) show ?thesis
      by (simp add: startup_distance_def)
  next
    case STATE_STARTING
    then have "rwand_update_state_starting HZ j (rwand_decode_status p) d = Some d'"
      using d(1,3) by (simp add: handle_state_def)
    from update_starting_state [OF this] d STATE_STARTING e assms(3) show ?thesis
      by (cases "edge_count d > mi_starting_edges (intrinsics dev)") (simp_all add: startup_distance_def)
  qed
  then show "startup_distance dev' < startup_distance dev" "0 \<le> edge_count dev'" "intrinsics dev' = intrinsics dev"
    by simp_all
qed

text \<open>Packets processed one after the other; \<open>None\<close> once one is not defined.\<close>

fun process_packets :: "int \<Rightarrow> (u32 \<times> byte list) list \<Rightarrow> rwand_dev \<Rightarrow> rwand_dev option" where
  "process_packets HZ [] dev = Some dev"
| "process_packets HZ ((j, p) # ps) dev =
     Option.bind (rwand_process_status HZ j p dev) (process_packets HZ ps)"

fun all_lively :: "int \<Rightarrow> (u32 \<times> byte list) list \<Rightarrow> rwand_dev \<Rightarrow> bool" where
  "all_lively HZ [] dev \<longleftrightarrow> True"
| "all_lively HZ ((j, p) # ps) dev \<longleftrightarrow>
     timely HZ j dev \<and> (state dev \<noteq> STATE_RUNNING \<longrightarrow> lively j p dev) \<and>
     (case rwand_process_status HZ j p dev of None \<Rightarrow> False | Some dev' \<Rightarrow> all_lively HZ ps dev')"

lemma startup_reaches_running:
  assumes "rwand_inv dev" "0 \<le> edge_count dev" "all_lively HZ ps dev" "startup_distance dev \<le> length ps"
  shows "\<exists>n dev'. n \<le> startup_distance dev \<and> process_packets HZ (take n ps) dev = Some dev' \<and> state dev' = STATE_RUNNING"
  using assms
proof (induction ps arbitrary: dev)
  case Nil
  then have "startup_distance dev = 0" by simp
  then have "state dev = STATE_RUNNING"
    by (cases "state dev") (simp_all add: startup_distance_def)
  then show ?case by (intro exI [of _ 0]) simp
next
  case (Cons q ps)
  obtain j p where q: "q = (j, p)" by (cases q)
  show ?case
  proof (cases "state dev = STATE_RUNNING")
    case True
    then show ?thesis by (intro exI [of _ 0]) simp
  next
    case False
    obtain dev1 where d1: "rwand_process_status HZ j p dev = Some dev1" "all_lively HZ ps dev1" "lively j p dev"
      "timely HZ j dev"
      using Cons.prems(3) False by (auto simp: q split: option.splits)
    have se: "0 \<le> mi_starting_edges (intrinsics dev)"
      using Cons.prems(1) by (auto simp: rwand_inv_def model_table_def)
    note pr = startup_progress [OF d1(1,3) Cons.prems(2) False se]
    have inv: "rwand_inv dev1" using process_status_total [OF Cons.prems(1) d1(4), of p] d1(1) by auto
    obtain n dev' where n: "n \<le> startup_distance dev1" "process_packets HZ (take n ps) dev1 = Some dev'"
      "state dev' = STATE_RUNNING"
      using Cons.IH [OF inv pr(2) d1(2)] pr(1) Cons.prems(4) by auto
    then show ?thesis using pr(1) d1(1)
      by (intro exI [of _ "Suc n"] exI [of _ dev']) (simp add: q)
  qed
qed

section \<open>Devices for the witnesses\<close>

definition status_packet :: "byte \<Rightarrow> byte \<Rightarrow> byte \<Rightarrow> byte list" where
  "status_packet edges mode buttons = [0x98, 0xB7, 0, 0, edges, mode, 0, buttons]"

definition rwand_at :: "rwand_state \<Rightarrow> int \<Rightarrow> rwand_dev" where
  "rwand_at st e = (rwand_setup 1 rwand_dev0)\<lparr>state := st, edge_count := e\<rparr>"

lemma rwand_at_inv: "rwand_inv (rwand_at st e)"
  using setup_inv [of 1] by (simp add: rwand_at_def rwand_inv_def)

lemma rwand_at_fields:
  "state (rwand_at st e) = st" "edge_count (rwand_at st e) = e" "state_timer (rwand_at st e) = 0"
  "power_mode (settings (rwand_at st e)) = 0" "st_edge_count (status (rwand_at st e)) = 0"
  "st_mode (status (rwand_at st e)) = 0" "nb_results (rwand_at st e) = []" "requests (rwand_at st e) = []"
  "intrinsics (rwand_at st e) = hd model_table"
  by (simp_all add: rwand_at_def rwand_setup_def rwand_enter_state_off_def rwand_reset_settings_def
      rwand_set_model_def rwand_dev0_def default_settings_def model_table_def)

lemma status_packet_fields:
  "st_edge_count (rwand_decode_status (status_packet e m b)) = e"
  "st_mode (rwand_decode_status (status_packet e m b)) = m"
  "st_buttons (rwand_decode_status (status_packet e m b)) = b"
  "st_period (rwand_decode_status (status_packet e m b)) = 0xB798"
  by (simp_all add: rwand_decode_status_def status_packet_def)

lemma powered_at: "powered (status_packet e m 0x20) (rwand_at st k)"
  by (simp add: powered_def power_wanted_def rwand_at_fields status_packet_fields)

lemma timely_at: "timely 1000 0 (rwand_at st e)"
  by (simp add: timely_def rwand_at_fields)

section \<open>Properties\<close>





text \<open>The display is only ever turned on through the startup sequence: a packet enters \<^verbatim>\<open>STATE_RUNNING\<close> only
  from \<^verbatim>\<open>STATE_STABILIZING\<close> with more than eight edges counted and the power wanted, and enters
  \<^verbatim>\<open>STATE_STABILIZING\<close> only from \<^verbatim>\<open>STATE_STARTING\<close> with more edges than the model asks for.\<close>

lemma rwand_state_order:
  assumes "rwand_process_status HZ j p dev = Some dev'" "0 \<le> mi_starting_edges (intrinsics dev)"
    "state dev' \<noteq> state dev"
  shows "(state dev' = STATE_RUNNING \<longrightarrow>
       state dev = STATE_STABILIZING \<and> STABILIZER_EDGES < edges_now p dev \<and> powered p dev) \<and>
     (state dev' = STATE_STABILIZING \<longrightarrow>
       state dev = STATE_STARTING \<and> mi_starting_edges (intrinsics dev) < edges_now p dev \<and> powered p dev)"
proof (cases "powered p dev")
  case True
  obtain d d' where d: "handle_state HZ j (rwand_decode_status p) d = Some d'"
    "dev' = d'\<lparr>status := rwand_decode_status p\<rparr>"
    "state d = (if state dev = STATE_OFF then STATE_STARTING else state dev)"
    "edge_count d = (if state dev = STATE_OFF then 0 else edges_now p dev)" "intrinsics d = intrinsics dev"
    using process_status_step [OF assms(1) True] by metis
  show ?thesis
  proof (cases "state d")
    case STATE_STARTING
    then have "rwand_update_state_starting HZ j (rwand_decode_status p) d = Some d'"
      using d(1) by (simp add: handle_state_def)
    from update_starting_state [OF this] d(2-5) STATE_STARTING assms(2) True show ?thesis
      by (auto split: if_splits)
  next
    case STATE_STABILIZING
    then have "rwand_update_state_stabilizing j (rwand_decode_status p) d = Some d'"
      using d(1) by (simp add: handle_state_def)
    from update_stabilizing_state(1) [OF this] d(2-5) STATE_STABILIZING assms(3) True show ?thesis
      by (auto split: if_splits)
  next
    case STATE_RUNNING
    then have "rwand_update_state_running j (rwand_decode_status p) d = Some d'"
      using d(1) by (simp add: handle_state_def)
    from update_running_state [OF this] d(2-5) STATE_RUNNING assms(3) show ?thesis
      by (auto split: if_splits)
  qed (use d(3) in \<open>auto split: if_splits\<close>)
next
  case False
  then have "state (packet_power j (rwand_decode_status p) (packet_events (rwand_decode_status p) dev)) = STATE_OFF"
    by (simp add: packet_power_state powered_def)
  then have "state dev' = STATE_OFF"
    using assms(1) by (auto simp: rwand_process_status_def Let_def handle_state_def rwand_update_state_off_def)
  then show ?thesis by simp
qed

lemma rwand_state_order_witness:
  "\<exists>dev'. rwand_process_status 1000 0 (status_packet 9 0 0x20) (rwand_at STATE_STABILIZING 0) = Some dev' \<and>
     state dev' = STATE_RUNNING \<and> 8 < edges_now (status_packet 9 0 0x20) (rwand_at STATE_STABILIZING 0)"
proof -
  let ?d = "rwand_at STATE_STABILIZING 0" and ?p = "status_packet 9 0 0x20"
  obtain d' where d': "rwand_process_status 1000 0 ?p ?d = Some d'"
    using process_status_total [OF rwand_at_inv timely_at] by blast
  have "startup_distance d' < startup_distance (rwand_at STATE_STABILIZING 0) \<and> state d' = STATE_RUNNING"
  proof -
    obtain a b where ab: "handle_state 1000 0 (rwand_decode_status ?p) a = Some b"
      "d' = b\<lparr>status := rwand_decode_status ?p\<rparr>"
      "state a = (if state ?d = STATE_OFF then STATE_STARTING else state ?d)"
      "edge_count a = (if state ?d = STATE_OFF then 0 else edges_now ?p ?d)"
      using process_status_step [OF d' powered_at] by metis
    have ac: "state a = STATE_STABILIZING" "edge_count a = edges_now ?p ?d"
      using ab(3,4) by (simp_all add: rwand_at_fields)
    with ab(1) have "rwand_update_state_stabilizing 0 (rwand_decode_status ?p) a = Some b"
      by (simp add: handle_state_def)
    from update_stabilizing_state(1) [OF this] ab(2) ac(2) show ?thesis
      by (simp add: edges_now_def rwand_at_fields status_packet_fields startup_distance_def)
  qed
  with rwand_state_order [OF d'] d' show ?thesis by (auto simp: rwand_at_fields model_table_def)
qed

text \<open>Whatever the power mode, when the power is not wanted a packet leaves the driver off, and the only request
  it sends is the one that clears the mode flags, sent until the hardware reports them clear.\<close>

lemma rwand_power_off:
  assumes "\<not> power_wanted (st_buttons (rwand_decode_status p)) dev" "nb_results dev = []"
  shows "\<exists>dev'. rwand_process_status HZ j p dev = Some dev' \<and> state dev' = STATE_OFF \<and>
     requests dev' = requests dev @
       (if st_mode (rwand_decode_status p) = 0 then [] else [Request RWAND_CTRL_SET_MODES 0 0])"
  using assms
  by (simp add: rwand_process_status_def Let_def handle_state_def packet_power_state rwand_update_state_off_def
      rwand_ensure_mode_def rwand_nb_request_def)

lemma rwand_power_off_witness:
  "\<exists>dev'. rwand_process_status 1000 0 (status_packet 3 7 0) (rwand_at STATE_RUNNING 3) = Some dev' \<and>
     state dev' = STATE_OFF \<and> requests dev' = [Request RWAND_CTRL_SET_MODES 0 0]"
proof -
  have a: "\<not> power_wanted (st_buttons (rwand_decode_status (status_packet 3 7 0))) (rwand_at STATE_RUNNING 3)"
    "nb_results (rwand_at STATE_RUNNING 3) = []"
    by (simp_all add: power_wanted_def rwand_at_fields status_packet_fields)
  from rwand_power_off [OF a, of 1000 0] show ?thesis by (simp add: rwand_at_fields status_packet_fields)
qed

text \<open>After every packet that keeps the driver in \<^verbatim>\<open>STATE_RUNNING\<close> the settings have been sent, and the period
  the hardware's timings were computed for is within \<^verbatim>\<open>PERIOD_TOLERANCE\<close> of the filter's current mean.\<close>

lemma rwand_running_in_tolerance:
  assumes "rwand_process_status HZ j p dev = Some dev'" "state dev = STATE_RUNNING" "state dev' = STATE_RUNNING"
  shows "\<not> settings_dirty dev' \<and>
     \<bar>f_total (pfilter dev') sdiv f_n_values (pfilter dev') - filtered_period dev'\<bar> \<le> PERIOD_TOLERANCE"
proof -
  let ?st = "rwand_decode_status p"
  let ?d = "packet_power j ?st (packet_events ?st dev)"
  obtain d' where d': "handle_state HZ j ?st ?d = Some d'" "dev' = d'\<lparr>status := ?st\<rparr>"
    using assms(1) by (auto simp: rwand_process_status_def Let_def bind_eq_Some_conv)
  have "state ?d = STATE_RUNNING \<or> state ?d = STATE_OFF" using assms(2) by (simp add: packet_power_state)
  moreover have "state ?d \<noteq> STATE_OFF"
    using d' assms(3) by (auto simp: handle_state_def rwand_update_state_off_def)
  ultimately have r: "state ?d = STATE_RUNNING" by simp
  then have "rwand_update_state_running j ?st ?d = Some d'" using d'(1) by (simp add: handle_state_def)
  from update_running_refreshes [OF this r] d'(2) assms(3) show ?thesis by simp
qed

lemma rwand_running_in_tolerance_witness:
  "\<exists>dev'. rwand_process_status 1000 0 (status_packet 1 0 0x20) (rwand_at STATE_RUNNING 0) = Some dev' \<and>
     \<not> settings_dirty dev'"
proof -
  let ?d = "rwand_at STATE_RUNNING 0" and ?p = "status_packet 1 0 0x20"
  obtain d' where d': "rwand_process_status 1000 0 ?p ?d = Some d'"
    using process_status_total [OF rwand_at_inv timely_at] by blast
  let ?a = "packet_power 0 (rwand_decode_status ?p) (packet_events (rwand_decode_status ?p) ?d)"
  obtain b where b: "handle_state 1000 0 (rwand_decode_status ?p) ?a = Some b"
    "d' = b\<lparr>status := rwand_decode_status ?p\<rparr>"
    using d' by (auto simp: rwand_process_status_def Let_def bind_eq_Some_conv)
  have ac: "state ?a = STATE_RUNNING"
    using powered_at [of 1 0 STATE_RUNNING 0] by (simp add: packet_power_state powered_def rwand_at_fields)
  with b(1) have "rwand_update_state_running 0 (rwand_decode_status ?p) ?a = Some b"
    by (simp add: handle_state_def)
  from update_running_state [OF this] b(2) ac have "state d' = STATE_RUNNING"
    by (simp add: rwand_at_fields)
  from rwand_running_in_tolerance [OF d' _ this] d' show ?thesis by (simp add: rwand_at_fields)
qed

text \<open>The startup sweep stands still when packets arrive faster than one unit of the climb: if the time since the
  last packet times the climb rate is less than \<^verbatim>\<open>HZ\<close>, the period sent back is the period reported, however
  long the wand has been starting.\<close>

lemma rwand_sweep_stands_still:
  assumes "rwand_inv dev" "timely HZ j dev" "state dev = STATE_STARTING" "powered p dev" "nb_results dev = []"
    "sint (j - state_timer dev) * climb_rate (startup dev) < HZ"
    "min_period (startup dev) \<le> uint (st_period (rwand_decode_status p))"
    "uint (st_period (rwand_decode_status p)) \<le> max_period (startup dev)"
  shows "\<exists>dev' b e modes. rwand_process_status HZ j p dev = Some dev' \<and>
     requests dev' = requests dev @ modes @
       [Request RWAND_CTRL_SET_PERIOD (st_period (rwand_decode_status p)) 0, Request RWAND_CTRL_SET_COIL_PHASE b e]"
proof -
  let ?st = "rwand_decode_status p"
  let ?d = "packet_power j ?st (packet_events ?st dev)"
  obtain m n where m: "m \<in> set model_table" "0 \<le> n" "n \<le> 80" "startup dev = mi_startup m"
    "settings dev = default_settings m n"
    using assms(1) by (auto simp: rwand_inv_def)
  have t: "0 < HZ" "HZ \<le> 1000" "0 \<le> sint (j - state_timer dev)" "sint (j - state_timer dev) \<le> HZ"
    using assms(2,3) by (simp_all add: timely_def)
  have d: "state ?d = STATE_STARTING" "state_timer ?d = state_timer dev"
    using assms(3,4) by (simp_all add: packet_power_state powered_def packet_power_def)
  have nn: "0 \<le> sint (j - state_timer dev) * climb_rate (startup dev)"
    using t(3) m(1,4) by (auto simp: model_table_def)
  have c: "c_mul (sint (j - state_timer dev)) (climb_rate (startup dev))
      = Some (sint (j - state_timer dev) * climb_rate (startup dev))"
    "c_div (sint (j - state_timer dev) * climb_rate (startup dev)) HZ = Some 0"
    using nn assms(6) t by (simp_all add: c_mul_def c_div_def chk32_def int32_ok_def sdiv_pos)
  have clamp: "startup_clamp (startup dev) (uint (st_period ?st)) = uint (st_period ?st)"
    using assms(7,8) by (simp add: startup_clamp_def)
  have per: "0 \<le> uint (st_period ?st)" "uint (st_period ?st) \<le> 65535"
    using period_u16 [of "st_period ?st"] by (simp_all add: period_ok_def)
  obtain tm where tm: "rwand_calc_timings (settings dev) (uint (st_period ?st)) = Some tm"
    using calc_timings_total [OF m(1) per m(2,3)] m(5) by auto
  have "int32_ok (uint (st_period ?st))" unfolding int32_ok_def using per by linarith
  then have add: "c_add (uint (st_period ?st)) 0 = Some (uint (st_period ?st))"
    by (simp add: c_add_def chk32_ok)
  show ?thesis
    using assms(5)
    by (simp add: rwand_process_status_def Let_def handle_state_def d rwand_update_state_starting_def c clamp add tm
        rwand_nb_request_def rwand_ensure_mode_def rwand_enter_state_stabilizing_def)
qed

lemma rwand_sweep_stands_still_witness:
  "\<exists>dev' b e modes. rwand_process_status 1000 0 (status_packet 0 2 0x20) (rwand_at STATE_STARTING 0) = Some dev' \<and>
     requests dev' = modes @ [Request RWAND_CTRL_SET_PERIOD 0xB798 0, Request RWAND_CTRL_SET_COIL_PHASE b e]"
proof -
  have su: "startup (rwand_at STATE_STARTING 0) = mi_startup (hd model_table)"
    by (simp add: rwand_at_def rwand_setup_def rwand_enter_state_off_def rwand_reset_settings_def
        rwand_set_model_def rwand_dev0_def model_table_def)
  have a: "sint (0 - state_timer (rwand_at STATE_STARTING 0)) * climb_rate (startup (rwand_at STATE_STARTING 0)) < 1000"
    "min_period (startup (rwand_at STATE_STARTING 0)) \<le> uint (st_period (rwand_decode_status (status_packet 0 2 0x20)))"
    "uint (st_period (rwand_decode_status (status_packet 0 2 0x20))) \<le> max_period (startup (rwand_at STATE_STARTING 0))"
    by (simp_all add: rwand_at_fields su model_table_def status_packet_fields)
  from rwand_sweep_stands_still [OF rwand_at_inv timely_at _ powered_at _ a]
  show ?thesis by (simp add: rwand_at_fields status_packet_fields)
qed

end
