(* ===== verification/Rwand_Chardev.thy ===== *)
theory Rwand_Chardev
  imports Rwand_Run
begin

text \<open>
  The character device of the Raster Wand driver: \<^verbatim>\<open>rwand_open\<close>, \<^verbatim>\<open>rwand_release\<close>, \<^verbatim>\<open>rwand_ioctl\<close>,
  \<^verbatim>\<open>rwand_write\<close>, and its USB side, \<^verbatim>\<open>rwand_probe\<close>, \<^verbatim>\<open>rwand_delete\<close> and
  \<^verbatim>\<open>rwand_disconnect\<close> (\<^verbatim>\<open>rasterwand/kernel/rwand.c\<close>). Handlers run one at a time, as the two
  semaphores make them; a write gives the device up while it sleeps. The locale \<open>usb_chardev\<close> is interpreted on
  these handlers. \<^term>\<open>None\<close> is undefined behaviour.
\<close>

section \<open>Handlers\<close>

text \<open>The allocated device structure if any, whether the interface points to it, and the files whose
  \<^verbatim>\<open>private_data\<close> is set.\<close>

record rwand_node =
  n_mem :: "rwand_dev option"
  n_intf :: bool
  n_files :: "nat set"

definition rwand_delete :: "rwand_node \<Rightarrow> rwand_node" where
  "rwand_delete s = s\<lparr>n_mem := None\<rparr>"

definition rwand_open :: "nat \<Rightarrow> bool \<Rightarrow> rwand_node \<Rightarrow> (int \<times> rwand_node) option" where
  "rwand_open fd kmalloc_ok s =
     (if \<not> n_intf s then Some (- ENODEV, s)
      else case n_mem s of
        None \<Rightarrow> None
      | Some dev \<Rightarrow>
          let dev = dev\<lparr>open_count := open_count dev + 1\<rparr> in
          if \<not> kmalloc_ok then None
          else Some (0, s\<lparr>n_mem := Some dev, n_files := insert fd (n_files s)\<rparr>))"

definition rwand_release :: "nat \<Rightarrow> rwand_node \<Rightarrow> (int \<times> rwand_node) option" where
  "rwand_release fd s =
     (if fd \<notin> n_files s then Some (- ENODEV, s)
      else case n_mem s of
        None \<Rightarrow> None
      | Some dev \<Rightarrow>
          if open_count dev \<le> 0 then Some (- ENODEV, s)
          else if \<not> udev_ok dev then Some (0, rwand_delete s)
          else Some (0, s\<lparr>n_mem := Some (dev\<lparr>open_count := open_count dev - 1\<rparr>), n_files := n_files s - {fd}\<rparr>))"

definition rwand_disconnect :: "rwand_node \<Rightarrow> rwand_node option" where
  "rwand_disconnect s =
     (if \<not> n_intf s then None
      else
        let s' = s\<lparr>n_intf := False\<rparr> in
        case n_mem s of
          None \<Rightarrow> None
        | Some dev \<Rightarrow>
            if open_count dev = 0 then Some (rwand_delete s')
            else Some (s'\<lparr>n_mem := Some (dev\<lparr>udev_ok := False\<rparr>)\<rparr>))"

abbreviation (input) RWANDIO_GET_SETTINGS :: nat where "RWANDIO_GET_SETTINGS \<equiv> 0x3B01"
abbreviation (input) RWANDIO_PUT_SETTINGS :: nat where "RWANDIO_PUT_SETTINGS \<equiv> 0x3B02"
abbreviation (input) RWANDIO_GET_STATUS :: nat where "RWANDIO_GET_STATUS \<equiv> 0x3B03"
abbreviation (input) RWANDIO_GET_STARTUP :: nat where "RWANDIO_GET_STARTUP \<equiv> 0x3B04"
abbreviation (input) RWANDIO_PUT_STARTUP :: nat where "RWANDIO_PUT_STARTUP \<equiv> 0x3B05"

datatype rwand_out = NoOut | OutSettings rwand_settings | OutStatus rwand_status | OutStartup rwand_startup

text \<open>\<open>fault\<close>: the copy from or to the user's memory fails; \<open>us\<close> and \<open>up\<close> are what has then arrived in the
  kernel's structure.\<close>

definition rwand_ioctl :: "nat \<Rightarrow> nat \<Rightarrow> bool \<Rightarrow> rwand_settings \<Rightarrow> rwand_startup \<Rightarrow> rwand_node
    \<Rightarrow> (int \<times> rwand_out \<times> rwand_node) option" where
  "rwand_ioctl fd cmd fault us up s =
     (if fd \<notin> n_files s then Some (- ENODEV, NoOut, s)
      else case n_mem s of
        None \<Rightarrow> None
      | Some dev \<Rightarrow>
          if \<not> udev_ok dev then Some (- ENODEV, NoOut, s)
          else if cmd = RWANDIO_GET_SETTINGS then
            Some (if fault then (- EFAULT, NoOut, s) else (0, OutSettings (settings dev), s))
          else if cmd = RWANDIO_GET_STATUS then
            Some (if fault then (- EFAULT, NoOut, s) else (0, OutStatus (status dev), s))
          else if cmd = RWANDIO_PUT_SETTINGS then
            let dev = dev\<lparr>settings := us\<rparr> in
            Some (if fault then (- EFAULT, NoOut, s\<lparr>n_mem := Some dev\<rparr>)
                  else (0, NoOut, s\<lparr>n_mem := Some (dev\<lparr>settings_dirty := True\<rparr>)\<rparr>))
          else if cmd = RWANDIO_GET_STARTUP then
            Some (if fault then (- EFAULT, NoOut, s) else (0, OutStartup (startup dev), s))
          else if cmd = RWANDIO_PUT_STARTUP then
            Some (if fault then - EFAULT else 0, NoOut, s\<lparr>n_mem := Some (dev\<lparr>startup := up\<rparr>)\<rparr>)
          else Some (- ENOTTY, NoOut, s))"

text \<open>\<open>buffer\<close> is the user's buffer, \<open>stack\<close> the 80 bytes of the local array before the copy.\<close>

definition rwand_write :: "bool \<Rightarrow> nat \<Rightarrow> byte list \<Rightarrow> bool \<Rightarrow> byte list \<Rightarrow> (bool \<times> (rwand_dev \<Rightarrow> rwand_dev)) list
    \<Rightarrow> rwand_node \<Rightarrow> (int \<times> rwand_node) sleep option" where
  "rwand_write vflip fd buffer fault stack wakes s =
     (if fd \<notin> n_files s then Some (Awake (- ENODEV, s))
      else case n_mem s of
        None \<Rightarrow> None
      | Some dev \<Rightarrow>
          if \<not> udev_ok dev then Some (Awake (- ENODEV, s))
          else if length buffer = 0 then Some (Awake (0, s))
          else
            let bytes_written = min RWAND_FB_BYTES (length buffer) in
            if fault then Some (Awake (- EFAULT, s))
            else
              let new_fb = overlay (take bytes_written buffer) stack;
                  dev = rwand_update_fb vflip bytes_written new_fb dev;
                  dev = rwand_request_flip dev
              in case rwand_wait_for_fb wakes dev of
                  Asleep \<Rightarrow> Some Asleep
                | Awake (wait_retval, dev) \<Rightarrow>
                    Some (Awake (if wait_retval \<noteq> 0 then wait_retval else int bytes_written,
                                 s\<lparr>n_mem := Some dev\<rparr>)))"

text \<open>What the kernel answers to \<^verbatim>\<open>rwand_probe\<close>: the descriptors match, the allocations succeed, the value of
  \<^verbatim>\<open>usb_register_dev\<close>, and the model byte that the device sent.\<close>

record probe_env =
  pe_match :: bool
  pe_kmalloc :: bool
  pe_register :: int
  pe_model :: byte
  pe_input :: bool
  pe_dma :: bool
  pe_urb :: bool

definition no_node :: rwand_node where
  "no_node = \<lparr>n_mem = None, n_intf = False, n_files = {}\<rparr>"

definition rwand_probe :: "probe_env \<Rightarrow> (int \<times> rwand_node) option" where
  "rwand_probe e =
     (if \<not> pe_match e then Some (- ENODEV, no_node)
      else if \<not> pe_kmalloc e then Some (- ENOMEM, no_node)
      else
        let s = no_node\<lparr>n_mem := Some rwand_dev0, n_intf := True\<rparr>;
            undo = rwand_delete (s\<lparr>n_intf := False\<rparr>)
        in if pe_register e \<noteq> 0 then Some (pe_register e, undo)
           else
             let s = s\<lparr>n_mem := map_option (rwand_setup (pe_model e)) (n_mem s)\<rparr> in
             if \<not> pe_input e then None
             else if \<not> pe_dma e then Some (- ENOMEM, undo)
             else if \<not> pe_urb e then Some (- ENODEV, undo)
             else Some (0, s))"

section \<open>The lifecycle of the device\<close>

definition rwand_life :: "rwand_node \<Rightarrow> lifecycle" where
  "rwand_life s =
     \<lparr>lc_alive = n_mem s \<noteq> None,
      lc_plugged = (case n_mem s of None \<Rightarrow> False | Some dev \<Rightarrow> udev_ok dev),
      lc_intf = n_intf s,
      lc_count = (case n_mem s of None \<Rightarrow> 0 | Some dev \<Rightarrow> open_count dev),
      lc_files = n_files s\<rparr>"

interpretation rw_life: usb_chardev "\<lambda>fd. rwand_open fd True" rwand_release rwand_disconnect rwand_life
  by unfold_locales
    (auto simp: rwand_open_def rwand_release_def rwand_disconnect_def rwand_delete_def rwand_life_def
      lc_open_def lc_release_def lc_disconnect_def Let_def split: option.split)

lemma setup_open: "udev_ok (rwand_setup model rwand_dev0)" "open_count (rwand_setup model rwand_dev0) = 0"
  by (simp_all add: rwand_setup_def rwand_enter_state_off_def rwand_reset_settings_def rwand_set_model_def
      rwand_dev0_def split: option.split)

text \<open>The device right after a successful probe, and the environment of one.\<close>

definition fresh_node :: "byte \<Rightarrow> rwand_node" where
  "fresh_node model = \<lparr>n_mem = Some (rwand_setup model rwand_dev0), n_intf = True, n_files = {}\<rparr>"

definition all_well :: "byte \<Rightarrow> probe_env" where
  "all_well model = \<lparr>pe_match = True, pe_kmalloc = True, pe_register = 0, pe_model = model, pe_input = True,
     pe_dma = True, pe_urb = True\<rparr>"

lemma probe_ok:
  assumes "rwand_probe e = Some (0, s)"
  shows "s = fresh_node (pe_model e)"
  using assms by (auto simp: rwand_probe_def no_node_def fresh_node_def Let_def split: if_splits)

lemma probe_all_well: "rwand_probe (all_well model) = Some (0, fresh_node model)"
  by (simp add: rwand_probe_def all_well_def no_node_def fresh_node_def)

lemma probe_life: "rwand_probe e = Some (0, s) \<Longrightarrow> lc_inv True [] (rwand_life s)"
  by (auto dest!: probe_ok simp: lc_inv_def rwand_life_def fresh_node_def setup_open)

section \<open>Frames\<close>

text \<open>The bytes that a list of requests writes to the display, and the requests of a frame.\<close>

fun display_bytes :: "rwand_request list \<Rightarrow> byte list" where
  "display_bytes [] = []"
| "display_bytes (Request r v i # qs) =
     (if r = RWAND_CTRL_SEQ_WRITE4
      then [lo8 (uint v), hi8 (uint v), lo8 (uint i), hi8 (uint i)] @ display_bytes qs else display_bytes qs)"

definition write4 :: "bool \<Rightarrow> byte list \<Rightarrow> nat \<Rightarrow> rwand_request" where
  "write4 vflip new_fb k =
     (let c = (\<lambda>j. convert_fb_byte vflip (byte_at 0 new_fb (k + j)))
      in Request RWAND_CTRL_SEQ_WRITE4 (word_of_int (pack16 (c 0) (c 1))) (word_of_int (pack16 (c 2) (c 3))))"

definition frame_requests :: "bool \<Rightarrow> nat \<Rightarrow> byte list \<Rightarrow> rwand_request list" where
  "frame_requests vflip n new_fb = map (\<lambda>k. write4 vflip new_fb (4 * k)) [0..<(n + 3) div 4]"

lemma uint_pack16 [simp]: "uint (word_of_int (pack16 a b) :: u16) = pack16 a b"
  using pack16_range [of a b] by (simp add: uint_word_of_int)

lemma display_write4:
  "display_bytes (write4 vflip new_fb k # qs) =
     map (\<lambda>j. convert_fb_byte vflip (byte_at 0 new_fb j)) [k..<k + 4] @ display_bytes qs"
proof -
  have "[k..<k + 4] = [k, k + 1, k + 2, k + 3]" by (simp add: upt_conv_Cons)
  then show ?thesis by (simp add: write4_def Let_def)
qed

lemma display_frame:
  "display_bytes (map (\<lambda>k. write4 vflip new_fb (4 * k)) [a..<a + m]) =
     map (\<lambda>j. convert_fb_byte vflip (byte_at 0 new_fb j)) [4 * a..<4 * a + 4 * m]"
proof (induction m arbitrary: a)
  case (Suc m)
  have "[4 * a..<4 * a + 4 * Suc m] = [4 * a..<4 * a + 4] @ [4 * Suc a..<4 * Suc a + 4 * m]"
    using upt_add_eq_append [of "4 * a" "4 * a + 4" "4 * m"] by (simp add: algebra_simps)
  moreover have "[a..<a + Suc m] = a # [Suc a..<Suc a + m]" by (simp add: upt_conv_Cons)
  ultimately show ?case by (simp only: list.map display_write4 Suc.IH map_append)
qed simp

lemma update_fb_loop_requests:
  assumes "num_columns (settings dev) = int n"
  shows "update_fb_loop vflip (int (4 * k)) new_fb dev =
     dev\<lparr>requests := requests dev @ map (\<lambda>k. write4 vflip new_fb (4 * k)) [k..<(n + 3) div 4]\<rparr>"
  using assms
proof (induction "n - 4 * k" arbitrary: k dev rule: less_induct)
  case less
  show ?case
  proof (cases "4 * k < n")
    case True
    let ?d = "dev\<lparr>requests := requests dev @ [write4 vflip new_fb (4 * k)]\<rparr>"
    have "int (4 * k) + 4 = int (4 * Suc k)" by simp
    moreover have "int (4 * k) < num_columns (settings dev)" using True less.prems by linarith
    ultimately have "update_fb_loop vflip (int (4 * k)) new_fb dev = update_fb_loop vflip (int (4 * Suc k)) new_fb ?d"
      by (simp only: update_fb_loop.simps [of vflip "int (4 * k)"] Let_def write4_def nat_int if_True)
    also have "\<dots> = ?d\<lparr>requests := requests ?d @ map (\<lambda>k. write4 vflip new_fb (4 * k)) [Suc k..<(n + 3) div 4]\<rparr>"
      by (rule less.hyps) (use True less.prems in auto)
    also have "[k..<(n + 3) div 4] = k # [Suc k..<(n + 3) div 4]" using True by (simp add: upt_conv_Cons)
    ultimately show ?thesis by simp
  next
    case False
    then have "(n + 3) div 4 \<le> k" by simp
    with False less.prems show ?thesis by (subst update_fb_loop.simps) simp
  qed
qed

lemma update_fb_requests:
  "requests (rwand_update_fb vflip n new_fb dev) = requests dev @ frame_requests vflip n new_fb"
  "num_columns (settings (rwand_update_fb vflip n new_fb dev)) = int n"
  "page_flip_pending (rwand_update_fb vflip n new_fb dev) = page_flip_pending dev"
  "status (rwand_update_fb vflip n new_fb dev) = status dev"
  "nb_results (rwand_update_fb vflip n new_fb dev) = nb_results dev"
  "settings_dirty (rwand_update_fb vflip n new_fb dev) \<longleftrightarrow>
     settings_dirty dev \<or> int n \<noteq> num_columns (settings dev)"
  using update_fb_loop_requests [where k = 0 and n = n and vflip = vflip and new_fb = new_fb]
  by (simp_all add: rwand_update_fb_def Let_def frame_requests_def)

lemma frame_requests_bytes:
  assumes "n \<le> length new_fb"
  shows "take n (display_bytes (frame_requests vflip n new_fb)) = map (convert_fb_byte vflip) (take n new_fb)"
proof -
  have "n \<le> 4 * ((n + 3) div 4)" by simp
  then show ?thesis
    using display_frame [of vflip new_fb 0 "(n + 3) div 4"] assms
    by (auto simp: frame_requests_def take_map intro!: nth_equalityI)
qed

lemma wait_done:
  "st_mode (status dev) AND RWAND_MODE_ENABLE_DISPLAY = 0 \<Longrightarrow> rwand_wait_for_fb wakes dev = Awake (0, dev)"
  by (subst rwand_wait_for_fb.simps) simp

lemma wait_again:
  "page_flip_pending dev \<Longrightarrow> st_mode (status dev) AND RWAND_MODE_ENABLE_DISPLAY \<noteq> 0 \<Longrightarrow>
   rwand_wait_for_fb ((False, change) # wakes) dev = rwand_wait_for_fb wakes (change dev)"
  by (subst rwand_wait_for_fb.simps) simp

lemma rwand_at_udev: "udev_ok (rwand_at st e)"
  by (simp add: rwand_at_def setup_open)

section \<open>Properties\<close>



text \<open>Two processes can: with two files open when the device is unplugged, the first
  \<^verbatim>\<open>rwand_release\<close> frees the structure and the second reads it after it was freed.\<close>

lemma rwand_two_files_use_after_free:
  assumes "rwand_probe e = Some (0, s)" "legal None True [] ops" "Disconnect \<notin> set ops"
    "a \<in> set (left_open True [] ops)" "b \<in> set (left_open True [] ops)" "a \<noteq> b"
  shows "dev_run (\<lambda>fd. rwand_open fd True) rwand_release rwand_disconnect (ops @ [Disconnect, Release a, Release b]) s
     = None"
  using rw_life.two_files_end [OF assms(2,3) probe_life [OF assms(1)] assms(4-6)] by simp

lemma rwand_two_files_use_after_free_witness:
  "dev_run (\<lambda>fd. rwand_open fd True) rwand_release rwand_disconnect [Open 1, Open 2, Disconnect, Release 2, Release 1]
     (fresh_node 2) = None"
proof -
  have l: "legal None True [] [Open 1, Open 2]" "Disconnect \<notin> set [Open 1, Open 2]"
    "2 \<in> set (left_open True [] [Open 1, Open 2])" "1 \<in> set (left_open True [] [Open 1, Open 2])" "2 \<noteq> (1::nat)"
    by simp_all
  from rwand_two_files_use_after_free [OF probe_all_well l, of 2] show ?thesis by (simp del: dev_run.simps)
qed

text \<open>A write reaches the display: when the wait ends at once, \<^verbatim>\<open>rwand_write\<close> returns the number of bytes it
  took (at most the 80 columns), the bytes its requests write to the display begin with those columns in order, the
  page flip comes after them, and the number of columns is the length written.\<close>

lemma rwand_write_sends_frame:
  assumes "fd \<in> n_files s" "n_mem s = Some dev" "udev_ok dev" "buffer \<noteq> []" "length stack = 80"
    "nb_results dev = []" "st_mode (status dev) AND RWAND_MODE_ENABLE_DISPLAY = 0"
  shows "\<exists>dev' qs. rwand_write vflip fd buffer False stack wakes s =
       Some (Awake (int (min 80 (length buffer)), s\<lparr>n_mem := Some dev'\<rparr>)) \<and>
     requests dev' = requests dev @ qs @ [Request RWAND_CTRL_FLIP 0 0] \<and>
     take (min 80 (length buffer)) (display_bytes qs) = map (convert_fb_byte vflip) (take 80 buffer) \<and>
     num_columns (settings dev') = int (min 80 (length buffer))"
proof -
  define n where "n = min 80 (length buffer)"
  define new_fb where "new_fb = overlay (take n buffer) stack"
  define d where "d = rwand_update_fb vflip n new_fb dev"
  have l: "length new_fb = 80" using assms(5) by (simp add: new_fb_def)
  have "take n new_fb = take 80 buffer"
    using assms(5) by (simp add: new_fb_def overlay_def n_def min_def)
  then have b: "take n (display_bytes (frame_requests vflip n new_fb)) = map (convert_fb_byte vflip) (take 80 buffer)"
    using frame_requests_bytes [of n new_fb vflip] l by (simp add: n_def)
  have f: "rwand_request_flip d = d\<lparr>page_flip_pending := True, requests := requests d @ [Request RWAND_CTRL_FLIP 0 0]\<rparr>"
    using assms(6) by (simp add: rwand_request_flip_def rwand_nb_request_def d_def update_fb_requests)
  have "rwand_wait_for_fb wakes (rwand_request_flip d) = Awake (0, rwand_request_flip d)"
    using assms(7) by (intro wait_done) (simp add: rwand_request_flip_def d_def update_fb_requests)
  then have "rwand_write vflip fd buffer False stack wakes s =
      Some (Awake (int n, s\<lparr>n_mem := Some (rwand_request_flip d)\<rparr>))"
    using assms(1-4) by (simp add: rwand_write_def n_def d_def new_fb_def Let_def)
  then show ?thesis
    using b unfolding n_def [symmetric]
    by (intro exI [of _ "rwand_request_flip d"] exI [of _ "frame_requests vflip n new_fb"])
      (simp add: f, simp add: d_def update_fb_requests)
qed

lemma rwand_write_sends_frame_witness:
  "\<exists>dev' qs. rwand_write True 1 [0x81, 0x0F, 0x30] False (replicate 80 0) []
       \<lparr>n_mem = Some (rwand_at STATE_RUNNING 0), n_intf = True, n_files = {1}\<rparr> =
       Some (Awake (3, \<lparr>n_mem = Some dev', n_intf = True, n_files = {1}\<rparr>)) \<and>
     requests dev' = qs @ [Request RWAND_CTRL_FLIP 0 0] \<and>
     take 3 (display_bytes qs) = map reverse_bits [0x81, 0x0F, 0x30]"
  using rwand_write_sends_frame [of 1 "\<lparr>n_mem = Some (rwand_at STATE_RUNNING 0), n_intf = True, n_files = {1}\<rparr>"
      "rwand_at STATE_RUNNING 0" "[0x81, 0x0F, 0x30]" "replicate 80 0" True "[]"]
  by (auto simp: rwand_at_fields rwand_at_udev convert_fb_byte_def numeral_3_eq_3)

text \<open>\<^verbatim>\<open>rwand_write\<close> does not notice that the device went away: with the display enabled it waits for the page
  flip, and if nothing but the disconnection and calls of other processes that leave the flip pending happens, it
  never returns, however often it runs; \<^verbatim>\<open>rwand_disconnect\<close> neither wakes it nor makes its wait fail.\<close>

lemma rwand_write_stuck_after_unplug:
  assumes "fd \<in> n_files s" "n_mem s = Some dev" "udev_ok dev" "buffer \<noteq> []"
    "st_mode (status dev) AND RWAND_MODE_ENABLE_DISPLAY \<noteq> 0"
    "\<forall>(signal, change) \<in> set wakes. \<not> signal \<and>
       (\<forall>d. page_flip_pending d \<longrightarrow> page_flip_pending (change d)) \<and> (\<forall>d. status (change d) = status d)"
  shows "rwand_write vflip fd buffer False stack wakes s = Some Asleep"
proof -
  have stuck: "page_flip_pending d \<Longrightarrow> st_mode (status d) AND RWAND_MODE_ENABLE_DISPLAY \<noteq> 0 \<Longrightarrow>
      rwand_wait_for_fb wakes d = Asleep" for d
    using assms(6)
  proof (induction wakes arbitrary: d)
    case Nil
    then show ?case by (simp add: rwand_wait_for_fb.simps)
  next
    case (Cons w wakes)
    then obtain change where w: "w = (False, change)" by (cases w) auto
    with Cons.prems have "rwand_wait_for_fb wakes (change d) = Asleep" by (intro Cons.IH) auto
    with wait_again [OF Cons.prems(1,2)] show ?case by (simp add: w)
  qed
  have "rwand_wait_for_fb wakes (rwand_request_flip d) = Asleep" if "status d = status dev" for d
    by (rule stuck) (use that assms(5) in \<open>simp_all add: rwand_request_flip_def\<close>)
  then show ?thesis
    using assms(1-4) by (simp add: rwand_write_def Let_def update_fb_requests)
qed

lemma rwand_write_stuck_after_unplug_witness:
  "\<forall>n. rwand_write False 1 [0xFF] False [] (replicate n (False, \<lambda>d. d\<lparr>udev_ok := False\<rparr>))
     \<lparr>n_mem = Some ((rwand_at STATE_RUNNING 0)\<lparr>status := rwand_decode_status (status_packet 1 7 0x20)\<rparr>),
      n_intf = True, n_files = {1}\<rparr> = Some Asleep"
proof
  fix n
  show "rwand_write False 1 [0xFF] False [] (replicate n (False, \<lambda>d. d\<lparr>udev_ok := False\<rparr>))
     \<lparr>n_mem = Some ((rwand_at STATE_RUNNING 0)\<lparr>status := rwand_decode_status (status_packet 1 7 0x20)\<rparr>),
      n_intf = True, n_files = {1}\<rparr> = Some Asleep"
    by (rule rwand_write_stuck_after_unplug [OF _ _ _ _ _])
      (auto simp: rwand_at_def setup_open status_packet_fields)
qed

end
