(* ===== verification/Uvswitch_Dev.thy ===== *)
theory Uvswitch_Dev
  imports Usb_Chardev
begin

text \<open>
  The device side of the USB video switch driver (\<^verbatim>\<open>wasabi/devices/uvswitch/kernel/uvswitch.c\<close>): the
  switch and calibration requests, the video detector that turns packets of A/D readings into a set of active
  inputs, and automatic switching. What becomes of each URB and control message is taken from
  \<open>bus_results\<close> (success when the list is used up); the requests that were sent are logged.
\<close>

section \<open>The device structure\<close>

abbreviation (input) UVSWITCH_CHANNELS :: nat where "UVSWITCH_CHANNELS \<equiv> 8"

record uvswitch_status =
  video_channel :: byte
  white_audio_channel :: byte
  red_audio_channel :: byte
  bypass_switch :: byte

record uvswitch_calibration =
  precharge_reads :: int
  integration_reads :: int
  interval :: int
  integration_packets :: int
  threshold :: int

datatype uvswitch_mode = MODE_MANUAL | MODE_AUTOMATIC

text \<open>A request: \<^verbatim>\<open>UVSWITCH_CTRL_SWITCH\<close> or \<^verbatim>\<open>UVSWITCH_CTRL_ADC_CYCLES\<close>, with its \<^verbatim>\<open>wValue\<close> and
  \<^verbatim>\<open>wIndex\<close>.\<close>

datatype uvswitch_request = CtrlSwitch u16 u16 | CtrlAdcCycles u16 u16

record usb_uvswitch =
  uv_udev :: bool
  uv_open_count :: int
  uv_status :: uvswitch_status
  status_mode :: uvswitch_mode
  adc_interval :: int
  adc_accumulator :: "int list"
  adc_accumulated :: "int list"
  active_inputs :: "bool list"
  adc_samples :: int
  adc_wakeups :: nat
  adc_change_id :: int
  calibration :: uvswitch_calibration
  bus_results :: "int list"
  sent :: "uvswitch_request list"

definition uvswitch_submit :: "uvswitch_request \<Rightarrow> usb_uvswitch \<Rightarrow> int \<times> usb_uvswitch" where
  "uvswitch_submit q dev =
     (let r = (case bus_results dev of [] \<Rightarrow> 0 | x # _ \<Rightarrow> x)
      in (r, dev\<lparr>bus_results := tl (bus_results dev), sent := (if r < 0 then sent dev else sent dev @ [q])\<rparr>))"

section \<open>Device communications\<close>

definition switch_request :: "uvswitch_status \<Rightarrow> uvswitch_request" where
  "switch_request st =
     CtrlSwitch (word_of_int (pack16 (video_channel st) (bypass_switch st)))
       (word_of_int (pack16 (red_audio_channel st) (white_audio_channel st)))"

definition uvswitch_updateStatus :: "usb_uvswitch \<Rightarrow> int \<times> usb_uvswitch" where
  "uvswitch_updateStatus dev = uvswitch_submit (switch_request (uv_status dev)) dev"

definition uvswitch_updateCalibration :: "usb_uvswitch \<Rightarrow> int \<times> usb_uvswitch" where
  "uvswitch_updateCalibration dev =
     (let dev = dev\<lparr>adc_interval := interval (calibration dev)\<rparr>
      in uvswitch_submit (CtrlAdcCycles (word_of_int (integration_reads (calibration dev)))
           (word_of_int (precharge_reads (calibration dev)))) dev)"

definition default_calibration :: uvswitch_calibration where
  "default_calibration =
     \<lparr>precharge_reads = 10, integration_reads = 50, interval = 10, integration_packets = 100, threshold = 1600\<rparr>"

definition uvswitch_initCalibration :: "usb_uvswitch \<Rightarrow> int \<times> usb_uvswitch" where
  "uvswitch_initCalibration dev = uvswitch_updateCalibration (dev\<lparr>calibration := default_calibration\<rparr>)"

text \<open>\<open>first_active 1 xs\<close> is the loop of \<^verbatim>\<open>uvswitch_getFirstActiveChannel\<close>.\<close>

fun first_active :: "nat \<Rightarrow> bool list \<Rightarrow> nat" where
  "first_active i [] = 0"
| "first_active i (x # xs) = (if x then i else first_active (i + 1) xs)"

definition uvswitch_getFirstActiveChannel :: "usb_uvswitch \<Rightarrow> nat" where
  "uvswitch_getFirstActiveChannel dev = first_active 1 (active_inputs dev)"

definition uvswitch_updateAutoStatus :: "usb_uvswitch \<Rightarrow> usb_uvswitch" where
  "uvswitch_updateAutoStatus dev =
     (case status_mode dev of
        MODE_AUTOMATIC \<Rightarrow>
          let channel = uvswitch_getFirstActiveChannel dev;
              dev = dev\<lparr>uv_status :=
                \<lparr>video_channel = of_nat channel, white_audio_channel = of_nat channel,
                 red_audio_channel = of_nat channel, bypass_switch = (if channel = 0 then 1 else 0)\<rparr>\<rparr>
          in snd (uvswitch_updateStatus dev)
      | MODE_MANUAL \<Rightarrow> dev)"

text \<open>\<^verbatim>\<open>adc_accumulator[i] += adc_buffer[i]\<close> for each channel.\<close>

fun accumulate :: "int list \<Rightarrow> byte list \<Rightarrow> int list option" where
  "accumulate (a # as) (b # bs) =
     do { a \<leftarrow> c_add a (uint b); as \<leftarrow> accumulate as bs; Some (a # as) }"
| "accumulate as bs = Some []"

abbreviation (input) ECONNRESET :: int where "ECONNRESET \<equiv> 104"
abbreviation (input) ENOENT :: int where "ENOENT \<equiv> 2"
abbreviation (input) ESHUTDOWN :: int where "ESHUTDOWN \<equiv> 108"

text \<open>The completion handler of the detector's URB; the result says whether the URB was submitted again.\<close>

definition uvswitch_adc_irq :: "int \<Rightarrow> nat \<Rightarrow> byte list \<Rightarrow> usb_uvswitch \<Rightarrow> (bool \<times> usb_uvswitch) option" where
  "uvswitch_adc_irq urb_status actual_length packet dev =
     (if urb_status \<in> {- ECONNRESET, - ENOENT, - ESHUTDOWN} then Some (False, dev)
      else if urb_status \<noteq> 0 \<or> actual_length \<noteq> UVSWITCH_CHANNELS then Some (False, dev)
      else do {
        acc \<leftarrow> accumulate (adc_accumulator dev) packet;
        samples \<leftarrow> c_add (adc_samples dev) 1;
        let dev = dev\<lparr>adc_accumulator := acc, adc_samples := samples\<rparr>;
        if adc_samples dev \<ge> integration_packets (calibration dev) then do {
          let dev = dev\<lparr>adc_accumulated := adc_accumulator dev,
                        adc_accumulator := replicate UVSWITCH_CHANNELS 0, adc_samples := 0\<rparr>;
          let active = map (\<lambda>a. a > threshold (calibration dev)) (adc_accumulated dev);
          if active \<noteq> active_inputs dev then do {
            let dev = dev\<lparr>active_inputs := active\<rparr>;
            cid \<leftarrow> c_add (adc_change_id dev) 1;
            let dev = dev\<lparr>adc_change_id := cid, adc_wakeups := adc_wakeups dev + 1\<rparr>;
            Some (True, uvswitch_updateAutoStatus dev)
          } else Some (True, dev)
        } else Some (True, dev)
      })"

fun adc_packets :: "byte list list \<Rightarrow> usb_uvswitch \<Rightarrow> usb_uvswitch option" where
  "adc_packets [] dev = Some dev"
| "adc_packets (p # ps) dev =
     Option.bind (uvswitch_adc_irq 0 UVSWITCH_CHANNELS p dev) (\<lambda>(_, dev). adc_packets ps dev)"

section \<open>The detector\<close>

lemma accumulate_map:
  assumes "length p = length is" "\<And>i. i < length is \<Longrightarrow> 0 \<le> f (is ! i) \<and> f (is ! i) + 255 \<le> 2147483647"
  shows "accumulate (map f is) p = Some (map2 (\<lambda>i b. f i + uint b) is p)"
  using assms
proof (induction "is" p rule: list_induct2')
  case (4 i "is" b p)
  have "uint b \<le> 255" "0 \<le> uint b" using uint8_lt [of b] by (linarith, simp)
  moreover have "0 \<le> f i \<and> f i + 255 \<le> 2147483647" using "4.prems"(2) [of 0] by simp
  ultimately have "int32_ok (f i + uint b)" unfolding int32_ok_def by linarith
  then have "c_add (f i) (uint b) = Some (f i + uint b)" by (simp add: c_add_def chk32_ok)
  moreover have "accumulate (map f is) p = Some (map2 (\<lambda>i b. f i + uint b) is p)"
  proof (rule "4.IH")
    show "length p = length is" using "4.prems"(1) by simp
    show "0 \<le> f (is ! j) \<and> f (is ! j) + 255 \<le> 2147483647" if "j < length is" for j
      using "4.prems"(2) [of "Suc j"] that by simp
  qed
  ultimately show ?case by simp
qed simp_all

lemma accumulate_channels:
  assumes "length p = 8" "\<And>i. i < 8 \<Longrightarrow> 0 \<le> f i \<and> f i + 255 \<le> 2147483647"
  shows "accumulate (map f [0..<8]) p = Some (map (\<lambda>i. f i + uint (p ! i)) [0..<8])"
proof -
  have "map2 (\<lambda>i b. f i + uint b) [0..<8] p = map (\<lambda>i. f i + uint (p ! i)) [0..<8]"
    using assms(1) by (intro nth_equalityI) simp_all
  then show ?thesis using accumulate_map [of p "[0..<8]" f] assms by simp
qed

text \<open>The readings of channel \<open>i\<close> added up.\<close>

definition reading :: "byte list list \<Rightarrow> nat \<Rightarrow> int" where
  "reading ps i = (\<Sum>p\<leftarrow>ps. uint (p ! i))"

lemma reading_Cons [simp]: "reading (p # ps) i = uint (p ! i) + reading ps i"
  by (simp add: reading_def)

lemma reading_bounds: "0 \<le> reading ps i \<and> reading ps i \<le> 255 * int (length ps)"
proof (induction ps)
  case (Cons p ps)
  have "uint (p ! i) \<le> 255" using uint8_lt [of "p ! i"] by linarith
  moreover have "0 \<le> uint (p ! i)" by simp
  moreover have "255 * int (length (p # ps)) = 255 + 255 * int (length ps)" by simp
  ultimately show ?case using Cons.IH unfolding reading_Cons by linarith
qed (simp add: reading_def)

definition detect :: "byte list list \<Rightarrow> int \<Rightarrow> bool list" where
  "detect ps thr = map (\<lambda>i. reading ps i > thr) [0..<8]"

lemma adc_packets_partial:
  assumes "\<forall>p \<in> set ps. length p = 8" "adc_accumulator dev = map f [0..<8]"
    "\<And>i. i < 8 \<Longrightarrow> 0 \<le> f i \<and> f i + 255 * int (length ps) \<le> 2147483647"
    "0 \<le> adc_samples dev" "adc_samples dev + int (length ps) < integration_packets (calibration dev)"
    "integration_packets (calibration dev) \<le> 2147483647"
  shows "adc_packets ps dev = Some (dev\<lparr>adc_accumulator := map (\<lambda>i. f i + reading ps i) [0..<8],
    adc_samples := adc_samples dev + int (length ps)\<rparr>)"
  using assms
proof (induction ps arbitrary: dev f)
  case Nil
  then show ?case by (simp add: reading_def)
next
  case (Cons p ps)
  have len: "length p = 8" using Cons.prems(1) by simp
  have b: "0 \<le> f i \<and> f i + 255 + 255 * int (length ps) \<le> 2147483647" if "i < 8" for i
    using Cons.prems(3) [OF that] by (simp add: algebra_simps)
  have acc: "accumulate (adc_accumulator dev) p = Some (map (\<lambda>i. f i + uint (p ! i)) [0..<8])"
    unfolding Cons.prems(2) by (rule accumulate_channels [OF len]) (use b in fastforce)
  have smp: "c_add (adc_samples dev) 1 = Some (adc_samples dev + 1)"
    using Cons.prems(4-6) by (simp add: c_add_def chk32_def int32_ok_def)
  let ?d = "dev\<lparr>adc_accumulator := map (\<lambda>i. f i + uint (p ! i)) [0..<8], adc_samples := adc_samples dev + 1\<rparr>"
  have step: "uvswitch_adc_irq 0 8 p dev = Some (True, ?d)"
    using Cons.prems(5) by (simp add: uvswitch_adc_irq_def acc smp Let_def)
  have "adc_packets ps ?d = Some (?d\<lparr>adc_accumulator := map (\<lambda>i. f i + uint (p ! i) + reading ps i) [0..<8],
      adc_samples := adc_samples ?d + int (length ps)\<rparr>)"
  proof (rule Cons.IH)
    fix i :: nat
    assume "i < 8"
    have "uint (p ! i) \<le> 255" "0 \<le> uint (p ! i)" using uint8_lt [of "p ! i"] by (linarith, simp)
    with b [OF \<open>i < 8\<close>] show "0 \<le> f i + uint (p ! i) \<and> f i + uint (p ! i) + 255 * int (length ps) \<le> 2147483647"
      by linarith
  qed (use Cons.prems in simp_all)
  then show ?case by (simp add: step add.assoc)
qed

text \<open>The last packet of an integration.\<close>

lemma adc_irq_last:
  assumes "length p = 8" "adc_accumulator dev = map f [0..<8]"
    "\<And>i. i < 8 \<Longrightarrow> 0 \<le> f i \<and> f i + 255 \<le> 2147483647"
    "0 \<le> adc_samples dev" "adc_samples dev + 1 = integration_packets (calibration dev)"
    "integration_packets (calibration dev) \<le> 2147483647" "0 \<le> adc_change_id dev" "adc_change_id dev < 2147483647"
  defines "active \<equiv> map (\<lambda>i. f i + uint (p ! i) > threshold (calibration dev)) [0..<8]"
  shows "\<exists>dev'. uvswitch_adc_irq 0 8 p dev = Some (True, dev') \<and>
    adc_accumulated dev' = map (\<lambda>i. f i + uint (p ! i)) [0..<8] \<and> adc_accumulator dev' = map (\<lambda>_. 0) [0..<8] \<and>
    adc_samples dev' = 0 \<and> active_inputs dev' = active \<and> calibration dev' = calibration dev \<and>
    adc_change_id dev' = adc_change_id dev + (if active = active_inputs dev then 0 else 1) \<and>
    adc_wakeups dev' = adc_wakeups dev + (if active = active_inputs dev then 0 else 1) \<and>
    (active = active_inputs dev \<longrightarrow> uv_status dev' = uv_status dev \<and> sent dev' = sent dev)"
proof -
  have acc: "accumulate (adc_accumulator dev) p = Some (map (\<lambda>i. f i + uint (p ! i)) [0..<8])"
    unfolding assms(2) by (rule accumulate_channels) (use assms in auto)
  have smp: "c_add (adc_samples dev) 1 = Some (adc_samples dev + 1)"
    using assms(4-6) by (simp add: c_add_def chk32_def int32_ok_def)
  have cid: "c_add (adc_change_id dev) 1 = Some (adc_change_id dev + 1)"
    using assms(7,8) by (simp add: c_add_def chk32_def int32_ok_def)
  have r: "replicate 8 (0::int) = map (\<lambda>_. 0) [0..<8]" by (simp add: map_replicate_const)
  have act: "map (\<lambda>a. a > threshold (calibration dev)) (map (\<lambda>i. f i + uint (p ! i)) [0..<8]) = active"
    by (simp add: active_def o_def)
  show ?thesis
    using assms(5)
    by (cases "active = active_inputs dev"; cases "status_mode dev")
      (simp_all add: uvswitch_adc_irq_def acc smp cid Let_def r act uvswitch_updateAutoStatus_def
        uvswitch_updateStatus_def uvswitch_submit_def del: map_map)
qed

lemma adc_packets_append:
  "adc_packets (ps @ qs) dev = Option.bind (adc_packets ps dev) (adc_packets qs)"
proof (induction ps arbitrary: dev)
  case (Cons p ps)
  then show ?case by (cases "uvswitch_adc_irq 0 8 p dev") auto
qed simp

text \<open>Devices for the witnesses: \<open>n\<close> packets an integration.\<close>

definition uv_at :: "uvswitch_mode \<Rightarrow> int \<Rightarrow> int \<Rightarrow> usb_uvswitch" where
  "uv_at m n thr = \<lparr>uv_udev = True, uv_open_count = 0,
     uv_status = \<lparr>video_channel = 0, white_audio_channel = 0, red_audio_channel = 0, bypass_switch = 1\<rparr>,
     status_mode = m, adc_interval = 10, adc_accumulator = replicate 8 0, adc_accumulated = replicate 8 0,
     active_inputs = replicate 8 False, adc_samples = 0, adc_wakeups = 0, adc_change_id = 0,
     calibration = default_calibration\<lparr>integration_packets := n, threshold := thr\<rparr>, bus_results = [], sent = []\<rparr>"

section \<open>Properties\<close>

text \<open>The video detector: once \<^verbatim>\<open>integration_packets\<close> packets have arrived from a cleared accumulator, the
  finished value of each channel is the sum of its readings, an input is active exactly when that sum exceeds the
  threshold, the accumulator is clear for the next round, and the change counter moves (waking the readers) exactly
  when the set of active inputs did. Nothing overflows up to 8421504 packets.\<close>

lemma detector_integrates:
  assumes "\<forall>p \<in> set ps. length p = 8" "int (length ps) = integration_packets (calibration dev)" "ps \<noteq> []"
    "length ps \<le> 8421504" "adc_accumulator dev = replicate 8 0" "adc_samples dev = 0"
    "0 \<le> adc_change_id dev" "adc_change_id dev < 2147483647"
  shows "\<exists>dev'. adc_packets ps dev = Some dev' \<and> adc_accumulated dev' = map (reading ps) [0..<8] \<and>
    adc_accumulator dev' = replicate 8 0 \<and> adc_samples dev' = 0 \<and>
    active_inputs dev' = detect ps (threshold (calibration dev)) \<and>
    adc_change_id dev' = adc_change_id dev + (if active_inputs dev' = active_inputs dev then 0 else 1) \<and>
    adc_wakeups dev' = adc_wakeups dev + (if active_inputs dev' = active_inputs dev then 0 else 1)"
proof -
  obtain qs p where ps: "ps = qs @ [p]" using assms(3) by (cases ps rule: rev_cases) auto
  have n: "int (length qs) + 1 = integration_packets (calibration dev)" "length qs < 8421504"
    using assms(2,4) by (simp_all add: ps)
  have len: "length p = 8" "\<forall>p \<in> set qs. length p = 8" using assms(1) by (simp_all add: ps)
  have r: "replicate 8 (0::int) = map (\<lambda>_. 0) [0..<8]" by (simp add: map_replicate_const)
  have q: "reading qs i \<le> 255 * int (length qs)" "0 \<le> reading qs i" "255 * int (length qs) + 255 \<le> 2147483647" for i
    using reading_bounds [of qs i] n(2) by simp_all
  let ?d = "dev\<lparr>adc_accumulator := map (reading qs) [0..<8], adc_samples := int (length qs)\<rparr>"
  have first: "adc_packets qs dev = Some ?d"
    using adc_packets_partial [of qs dev "\<lambda>_. 0"] len(2) assms(5,6) n q(3) by (simp add: r)
  have h: "adc_accumulator ?d = map (reading qs) [0..<8]" "0 \<le> adc_samples ?d"
    "adc_samples ?d + 1 = integration_packets (calibration ?d)" "integration_packets (calibration ?d) \<le> 2147483647"
    "0 \<le> adc_change_id ?d" "adc_change_id ?d < 2147483647"
    using n assms(7,8) by simp_all
  have "0 \<le> reading qs i \<and> reading qs i + 255 \<le> 2147483647" for i
    using q(1,2) [of i] q(3) by linarith
  then obtain dev' where d: "uvswitch_adc_irq 0 8 p ?d = Some (True, dev')"
    "adc_accumulated dev' = map (\<lambda>i. reading qs i + uint (p ! i)) [0..<8]" "adc_accumulator dev' = map (\<lambda>_. 0) [0..<8]"
    "adc_samples dev' = 0"
    "active_inputs dev' = map (\<lambda>i. reading qs i + uint (p ! i) > threshold (calibration dev)) [0..<8]"
    "adc_change_id dev' = adc_change_id dev + (if active_inputs dev' = active_inputs dev then 0 else 1)"
    "adc_wakeups dev' = adc_wakeups dev + (if active_inputs dev' = active_inputs dev then 0 else 1)"
    using adc_irq_last [OF len(1) h(1) _ h(2-6)] by auto
  have "reading ps = (\<lambda>i. reading qs i + uint (p ! i))" by (rule ext) (simp add: ps reading_def)
  then have "detect ps (threshold (calibration dev)) = active_inputs dev'" by (simp only: d detect_def)
  moreover have "map (reading ps) [0..<8] = adc_accumulated dev'"
    by (simp only: d \<open>reading ps = (\<lambda>i. reading qs i + uint (p ! i))\<close>)
  moreover have "adc_packets ps dev = Some dev'" by (simp add: ps adc_packets_append first d(1))
  ultimately show ?thesis using d(3,4,6,7) by (intro exI [of _ dev']) (simp add: r)
qed

lemma detector_integrates_witness:
  "\<exists>dev'. adc_packets [[200, 3, 0, 0, 0, 0, 0, 9], [100, 7, 0, 0, 0, 0, 0, 255]] (uv_at MODE_MANUAL 2 250) = Some dev' \<and>
     adc_accumulated dev' = [300, 10, 0, 0, 0, 0, 0, 264] \<and>
     active_inputs dev' = [True, False, False, False, False, False, False, True]"
proof -
  have eight: "[0..<8] = [0, 1, 2, 3, 4, 5, 6, 7]" by (simp add: upt_conv_Cons)
  let ?ps = "[[200, 3, 0, 0, 0, 0, 0, 9], [100, 7, 0, 0, 0, 0, 0, 255]]"
  obtain dev' where "adc_packets ?ps (uv_at MODE_MANUAL 2 250) = Some dev'"
    "adc_accumulated dev' = map (reading ?ps) [0..<8]" "active_inputs dev' = detect ?ps 250"
    using detector_integrates [of ?ps "uv_at MODE_MANUAL 2 250"] by (auto simp: uv_at_def)
  then show ?thesis
    by (simp add: detect_def reading_def eight)
qed

end
