(* ===== verification/Uvswitch_File.thy ===== *)
theory Uvswitch_File
  imports Uvswitch_Dev
begin

text \<open>
  The character device of the USB video switch (\<^verbatim>\<open>wasabi/devices/uvswitch/kernel/uvswitch.c\<close>): open, release,
  ioctl, read, write and poll, and probe and disconnect. The locale \<open>usb_chardev\<close> is interpreted on these
  handlers. The kernel's \<^verbatim>\<open>simple_strtol\<close>, which is not part of the repository, is the argument
  \<open>strtol\<close>. \<^term>\<open>None\<close> is undefined behaviour.
\<close>

section \<open>Opening and closing\<close>

record uvswitch_fd_private =
  not_first_read :: bool
  last_change_id :: int

record uvswitch_node =
  uv_mem :: "usb_uvswitch option"
  uv_intf :: bool
  uv_files :: "nat \<rightharpoonup> uvswitch_fd_private"

definition uvswitch_delete :: "uvswitch_node \<Rightarrow> uvswitch_node option" where
  "uvswitch_delete s = (case uv_mem s of None \<Rightarrow> None | Some _ \<Rightarrow> Some (s\<lparr>uv_mem := None\<rparr>))"

definition uvswitch_open :: "nat \<Rightarrow> bool \<Rightarrow> uvswitch_node \<Rightarrow> (int \<times> uvswitch_node) option" where
  "uvswitch_open fd kmalloc_ok s =
     (if \<not> uv_intf s then Some (- ENODEV, s)
      else case uv_mem s of
        None \<Rightarrow> None
      | Some dev \<Rightarrow>
          let dev = dev\<lparr>uv_open_count := uv_open_count dev + 1\<rparr> in
          if \<not> kmalloc_ok then None
          else Some (0, s\<lparr>uv_mem := Some dev,
                          uv_files := (uv_files s)(fd \<mapsto> \<lparr>not_first_read = False, last_change_id = 0\<rparr>)\<rparr>))"

definition uvswitch_release :: "nat \<Rightarrow> uvswitch_node \<Rightarrow> (int \<times> uvswitch_node) option" where
  "uvswitch_release fd s =
     (case uv_files s fd of
        None \<Rightarrow> Some (- ENODEV, s)
      | Some prv \<Rightarrow>
          (case uv_mem s of
             None \<Rightarrow> None
           | Some dev \<Rightarrow>
               if uv_open_count dev \<le> 0 then Some (- ENODEV, s)
               else if \<not> uv_udev dev then map_option (Pair 0) (uvswitch_delete s)
               else
                 let dev = dev\<lparr>uv_open_count := uv_open_count dev - 1\<rparr>;
                     dev = (if uv_open_count dev \<le> 0 then dev\<lparr>uv_open_count := 0\<rparr> else dev)
                 in Some (0, s\<lparr>uv_mem := Some dev, uv_files := (uv_files s)(fd := None)\<rparr>)))"

definition uvswitch_disconnect :: "uvswitch_node \<Rightarrow> uvswitch_node option" where
  "uvswitch_disconnect s =
     (if \<not> uv_intf s then None
      else
        let s' = s\<lparr>uv_intf := False\<rparr> in
        case uv_mem s of
          None \<Rightarrow> None
        | Some dev \<Rightarrow>
            if uv_open_count dev = 0 then uvswitch_delete s'
            else Some (s'\<lparr>uv_mem := Some (dev\<lparr>uv_udev := False\<rparr>)\<rparr>))"

section \<open>Control\<close>

abbreviation (input) UVSWITCHIO_ADC_CALIBRATE :: nat where "UVSWITCHIO_ADC_CALIBRATE \<equiv> 0x3901"
abbreviation (input) UVSWITCHIO_ADC_READ_RAW :: nat where "UVSWITCHIO_ADC_READ_RAW \<equiv> 0x3902"
abbreviation (input) UVSWITCHIO_ADC_RESET :: nat where "UVSWITCHIO_ADC_RESET \<equiv> 0x3903"

text \<open>\<open>fault\<close>: the copy from or to the user's memory fails; \<open>uc\<close> is what has then arrived in the kernel's
  structure. The second result is what is copied to the user.\<close>

definition uvswitch_ioctl :: "nat \<Rightarrow> nat \<Rightarrow> bool \<Rightarrow> uvswitch_calibration \<Rightarrow> uvswitch_node
    \<Rightarrow> (int \<times> int list \<times> uvswitch_node) option" where
  "uvswitch_ioctl fd cmd fault uc s =
     (case uv_files s fd of
        None \<Rightarrow> Some (- ENODEV, [], s)
      | Some prv \<Rightarrow>
          (case uv_mem s of
             None \<Rightarrow> None
           | Some dev \<Rightarrow>
               if \<not> uv_udev dev then Some (- ENODEV, [], s)
               else if cmd = UVSWITCHIO_ADC_CALIBRATE then
                 let dev = dev\<lparr>calibration := uc\<rparr> in
                 Some (if fault then (- EFAULT, [], s\<lparr>uv_mem := Some dev\<rparr>)
                       else (0, [], s\<lparr>uv_mem := Some (snd (uvswitch_updateCalibration dev))\<rparr>))
               else if cmd = UVSWITCHIO_ADC_READ_RAW then
                 Some (if fault then (- EFAULT, [], s) else (0, adc_accumulated dev, s))
               else if cmd = UVSWITCHIO_ADC_RESET then
                 let (retval, dev) = uvswitch_initCalibration dev in
                 Some (retval, [], s\<lparr>uv_mem := Some dev\<rparr>)
               else Some (- ENOTTY, [], s)))"

section \<open>Reading\<close>

text \<open>The line of text, built up in \<open>p\<close> from channel \<open>i + 1\<close> on.\<close>

fun active_text :: "nat \<Rightarrow> byte list \<Rightarrow> bool list \<Rightarrow> byte list" where
  "active_text i p [] = p"
| "active_text i p (x # xs) =
     (if x then
        let p = (if p \<noteq> [] then p @ [0x20] else p) in active_text (i + 1) (p @ [of_nat (0x30 + (i + 1))]) xs
      else active_text (i + 1) p xs)"

text \<open>The loop that waits for a change. Each return from the scheduler brings what happened to the device
  meanwhile and whether a signal is pending.\<close>

fun uvswitch_read_wait :: "bool \<Rightarrow> uvswitch_fd_private \<Rightarrow> (bool \<times> (usb_uvswitch \<Rightarrow> usb_uvswitch)) list \<Rightarrow> usb_uvswitch
    \<Rightarrow> (int \<times> usb_uvswitch) sleep" where
  "uvswitch_read_wait nonblock prv wakes dev =
     (if not_first_read prv \<and> last_change_id prv = adc_change_id dev then
        if nonblock then Awake (- EAGAIN, dev)
        else (case wakes of
            [] \<Rightarrow> Asleep
          | (signal, change) # rest \<Rightarrow>
              let dev = change dev in
              if signal then Awake (- ERESTARTSYS, dev) else uvswitch_read_wait nonblock prv rest dev)
      else Awake (0, dev))"

declare uvswitch_read_wait.simps [simp del]

definition uvswitch_read :: "nat \<Rightarrow> bool \<Rightarrow> nat \<Rightarrow> bool \<Rightarrow> (bool \<times> (usb_uvswitch \<Rightarrow> usb_uvswitch)) list \<Rightarrow> uvswitch_node
    \<Rightarrow> (int \<times> byte list \<times> uvswitch_node) sleep option" where
  "uvswitch_read fd nonblock count fault wakes s =
     (case uv_files s fd of
        None \<Rightarrow> Some (Awake (- ENODEV, [], s))
      | Some prv \<Rightarrow>
          (case uv_mem s of
             None \<Rightarrow> None
           | Some dev \<Rightarrow>
               if \<not> uv_udev dev then Some (Awake (- ENODEV, [], s))
               else (case uvswitch_read_wait nonblock prv wakes dev of
                   Asleep \<Rightarrow> Some Asleep
                 | Awake (retval, dev) \<Rightarrow>
                     let s = s\<lparr>uv_mem := Some dev\<rparr> in
                     if retval \<noteq> 0 then Some (Awake (retval, [], s))
                     else
                       let kbuffer = active_text 0 [] (active_inputs dev) @ [0x0A];
                           count = min count (length kbuffer)
                       in if fault then Some (Awake (- EFAULT, [], s))
                          else Some (Awake (int count, take count kbuffer,
                            s\<lparr>uv_files := (uv_files s)(fd \<mapsto>
                                \<lparr>not_first_read = True, last_change_id = adc_change_id dev\<rparr>)\<rparr>)))))"

abbreviation (input) POLLIN_RDNORM :: int where "POLLIN_RDNORM \<equiv> 0x41"
abbreviation (input) POLLERR_HUP :: int where "POLLERR_HUP \<equiv> 0x18"

definition uvswitch_poll :: "nat \<Rightarrow> uvswitch_node \<Rightarrow> int option" where
  "uvswitch_poll fd s =
     (case uv_files s fd of
        None \<Rightarrow> Some (- ENODEV)
      | Some prv \<Rightarrow>
          (case uv_mem s of
             None \<Rightarrow> None
           | Some dev \<Rightarrow>
               Some (if \<not> uv_udev dev then POLLERR_HUP
                     else if adc_change_id dev \<noteq> last_change_id prv then POLLIN_RDNORM
                     else 0)))"

section \<open>Writing\<close>

text \<open>\<^verbatim>\<open>strsep\<close>: the token up to the first delimiter, and the rest behind it.\<close>

abbreviation (input) delim :: "byte list" where "delim \<equiv> [0x20, 0x09, 0x0A]"

fun strsep :: "byte list option \<Rightarrow> byte list option \<times> byte list option" where
  "strsep None = (None, None)"
| "strsep (Some s) =
     (Some (takeWhile (\<lambda>c. c \<notin> set delim) s),
      case dropWhile (\<lambda>c. c \<notin> set delim) s of [] \<Rightarrow> None | _ # rest \<Rightarrow> Some rest)"

text \<open>A token that is there and not empty is read as a number from 0 to \<open>hi\<close> and stored; the flag is false when it is
  out of range.\<close>

definition write_token :: "(byte list \<Rightarrow> int) \<Rightarrow> int \<Rightarrow> (byte \<Rightarrow> uvswitch_status \<Rightarrow> uvswitch_status) \<Rightarrow> byte list option
    \<Rightarrow> usb_uvswitch \<Rightarrow> bool \<times> usb_uvswitch" where
  "write_token strtol hi store token dev =
     (case token of
        Some (c # cs) \<Rightarrow>
          let v = strtol (c # cs) in
          if v < 0 \<or> v > hi then (False, dev)
          else (True, dev\<lparr>uv_status := store (word_of_int v) (uv_status dev)\<rparr>)
      | _ \<Rightarrow> (True, dev))"

abbreviation (input) auto_keyword :: "byte list" where "auto_keyword \<equiv> [0x61, 0x75, 0x74, 0x6F]"

text \<open>The parser: what the string does to the device, and the value returned. \<open>count\<close> is the length written.\<close>

definition write_string :: "(byte list \<Rightarrow> int) \<Rightarrow> nat \<Rightarrow> byte list \<Rightarrow> usb_uvswitch \<Rightarrow> int \<times> usb_uvswitch" where
  "write_string strtol count kbuffer dev =
     (let dev = dev\<lparr>status_mode := MODE_MANUAL\<rparr>;
          (token, pkbuf) = strsep (Some kbuffer)
      in if token = Some auto_keyword then
           (int count, uvswitch_updateAutoStatus (dev\<lparr>status_mode := MODE_AUTOMATIC\<rparr>))
         else
           let (ok, dev) = write_token strtol 8
                 (\<lambda>v st. st\<lparr>video_channel := v, white_audio_channel := v, red_audio_channel := v\<rparr>) token dev
           in if \<not> ok then (- EINVAL, dev) else
           let (token, pkbuf) = strsep pkbuf;
               (ok, dev) = write_token strtol 1 (\<lambda>v st. st\<lparr>bypass_switch := v\<rparr>) token dev
           in if \<not> ok then (- EINVAL, dev) else
           let (token, pkbuf) = strsep pkbuf;
               (ok, dev) = write_token strtol 8
                 (\<lambda>v st. st\<lparr>white_audio_channel := v, red_audio_channel := v\<rparr>) token dev
           in if \<not> ok then (- EINVAL, dev) else
           let (token, pkbuf) = strsep pkbuf;
               (ok, dev) = write_token strtol 8 (\<lambda>v st. st\<lparr>red_audio_channel := v\<rparr>) token dev
           in if \<not> ok then (- EINVAL, dev) else
           let (retval, dev) = uvswitch_updateStatus dev
           in (if retval = 0 then int count else retval, dev))"

definition uvswitch_write :: "(byte list \<Rightarrow> int) \<Rightarrow> nat \<Rightarrow> byte list \<Rightarrow> bool \<Rightarrow> uvswitch_node
    \<Rightarrow> (int \<times> uvswitch_node) option" where
  "uvswitch_write strtol fd buffer fault s =
     (case uv_files s fd of
        None \<Rightarrow> Some (- ENODEV, s)
      | Some prv \<Rightarrow>
          (case uv_mem s of
             None \<Rightarrow> None
           | Some dev \<Rightarrow>
               if \<not> uv_udev dev then Some (- ENODEV, s)
               else
                 let count = min (length buffer) 255
                 in if fault then Some (- EFAULT, s)
                    else
                      let kbuffer = takeWhile (\<lambda>c. c \<noteq> 0) (take count buffer);
                          (retval, dev) = write_string strtol count kbuffer dev
                      in Some (retval, s\<lparr>uv_mem := Some dev\<rparr>)))"

section \<open>Plugging in\<close>

record uvswitch_probe_env =
  up_match :: bool
  up_kmalloc :: bool
  up_register :: int
  up_buffer :: bool
  up_adc_urb :: bool
  up_status_urb :: bool
  up_bus :: "int list"

definition uvswitch0 :: "int list \<Rightarrow> usb_uvswitch" where
  "uvswitch0 bus = \<lparr>uv_udev = True, uv_open_count = 0,
     uv_status = \<lparr>video_channel = 0, white_audio_channel = 0, red_audio_channel = 0, bypass_switch = 0\<rparr>,
     status_mode = MODE_MANUAL, adc_interval = 0, adc_accumulator = replicate 8 0, adc_accumulated = replicate 8 0,
     active_inputs = replicate 8 False, adc_samples = 0, adc_wakeups = 0, adc_change_id = 0,
     calibration = \<lparr>precharge_reads = 0, integration_reads = 0, interval = 0, integration_packets = 0, threshold = 0\<rparr>,
     bus_results = bus, sent = []\<rparr>"

text \<open>What a successful probe does to the cleared structure, once its URBs are allocated.\<close>

definition uvswitch_setup :: "usb_uvswitch \<Rightarrow> usb_uvswitch" where
  "uvswitch_setup dev =
     (let (_, dev) = uvswitch_initCalibration dev;
          dev = dev\<lparr>adc_interval := interval (calibration dev)\<rparr>;
          dev = dev\<lparr>uv_status :=
            \<lparr>video_channel = 0, white_audio_channel = 0, red_audio_channel = 0, bypass_switch = 1\<rparr>\<rparr>
      in snd (uvswitch_updateStatus dev))"

definition uvswitch_probe :: "uvswitch_probe_env \<Rightarrow> (int \<times> uvswitch_node) option" where
  "uvswitch_probe e =
     (let s = \<lparr>uv_mem = None, uv_intf = False, uv_files = Map.empty\<rparr> in
      if \<not> up_match e then Some (- ENODEV, s)
      else if \<not> up_kmalloc e then map_option (Pair (- ENOMEM)) (uvswitch_delete s)
      else
        let s = s\<lparr>uv_mem := Some (uvswitch0 (up_bus e)), uv_intf := True\<rparr>;
            error = (\<lambda>retval. map_option (Pair retval) (uvswitch_delete (s\<lparr>uv_intf := False\<rparr>)))
        in if up_register e \<noteq> 0 then error (up_register e)
           else if \<not> up_buffer e then error (- ENOMEM)
           else if \<not> up_adc_urb e then error (- ENODEV)
           else if \<not> up_status_urb e then error (- ENODEV)
           else Some (0, s\<lparr>uv_mem := map_option uvswitch_setup (uv_mem s)\<rparr>))"

end
