(* ===== verification/Uvswitch_Run.thy ===== *)
theory Uvswitch_Run
  imports Uvswitch_File
begin

text \<open>
  What the USB video switch driver guarantees: the lifecycle of its device structure, the invariant of its runs
  (switch positions in range, automatic mode in step with the detector), and the text protocol of its device node.
\<close>

section \<open>The lifecycle of the device\<close>

definition uvswitch_life :: "uvswitch_node \<Rightarrow> lifecycle" where
  "uvswitch_life s =
     \<lparr>lc_alive = uv_mem s \<noteq> None,
      lc_plugged = (case uv_mem s of None \<Rightarrow> False | Some dev \<Rightarrow> uv_udev dev),
      lc_intf = uv_intf s,
      lc_count = (case uv_mem s of None \<Rightarrow> 0 | Some dev \<Rightarrow> uv_open_count dev),
      lc_files = dom (uv_files s)\<rparr>"

interpretation uv_life: usb_chardev "\<lambda>fd. uvswitch_open fd True" uvswitch_release uvswitch_disconnect uvswitch_life
  by unfold_locales
    (auto simp: uvswitch_open_def uvswitch_release_def uvswitch_disconnect_def uvswitch_delete_def uvswitch_life_def
      lc_open_def lc_release_def lc_disconnect_def Let_def split: option.split)

lemma submit_frame [simp, state_frame]:
  "uv_udev (snd (uvswitch_submit q dev)) = uv_udev dev" "uv_open_count (snd (uvswitch_submit q dev)) = uv_open_count dev"
  "uv_status (snd (uvswitch_submit q dev)) = uv_status dev" "status_mode (snd (uvswitch_submit q dev)) = status_mode dev"
  "adc_accumulator (snd (uvswitch_submit q dev)) = adc_accumulator dev"
  "adc_accumulated (snd (uvswitch_submit q dev)) = adc_accumulated dev"
  "active_inputs (snd (uvswitch_submit q dev)) = active_inputs dev"
  "adc_samples (snd (uvswitch_submit q dev)) = adc_samples dev"
  "adc_change_id (snd (uvswitch_submit q dev)) = adc_change_id dev"
  "calibration (snd (uvswitch_submit q dev)) = calibration dev"
  by (simp_all add: uvswitch_submit_def Let_def)

lemma uvswitch_setup_fields:
  "uv_udev (uvswitch_setup (uvswitch0 bus))" "uv_open_count (uvswitch_setup (uvswitch0 bus)) = 0"
  "status_mode (uvswitch_setup (uvswitch0 bus)) = MODE_MANUAL"
  "active_inputs (uvswitch_setup (uvswitch0 bus)) = replicate 8 False"
  "adc_accumulator (uvswitch_setup (uvswitch0 bus)) = replicate 8 0"
  "uv_status (uvswitch_setup (uvswitch0 bus)) =
     \<lparr>video_channel = 0, white_audio_channel = 0, red_audio_channel = 0, bypass_switch = 1\<rparr>"
  by (simp_all add: uvswitch_setup_def uvswitch_initCalibration_def uvswitch_updateCalibration_def
      uvswitch_updateStatus_def uvswitch_submit_def uvswitch0_def Let_def)

definition fresh_uvswitch :: "int list \<Rightarrow> uvswitch_node" where
  "fresh_uvswitch bus = \<lparr>uv_mem = Some (uvswitch_setup (uvswitch0 bus)), uv_intf = True, uv_files = Map.empty\<rparr>"

definition uvswitch_all_well :: "int list \<Rightarrow> uvswitch_probe_env" where
  "uvswitch_all_well bus = \<lparr>up_match = True, up_kmalloc = True, up_register = 0, up_buffer = True, up_adc_urb = True,
     up_status_urb = True, up_bus = bus\<rparr>"

lemma uvswitch_probe_ok: "uvswitch_probe e = Some (0, s) \<Longrightarrow> s = fresh_uvswitch (up_bus e)"
  by (auto simp: uvswitch_probe_def fresh_uvswitch_def uvswitch_delete_def Let_def split: if_splits)

lemma uvswitch_probe_all_well: "uvswitch_probe (uvswitch_all_well bus) = Some (0, fresh_uvswitch bus)"
  by (simp add: uvswitch_probe_def uvswitch_all_well_def fresh_uvswitch_def)

lemma uvswitch_probe_life: "uvswitch_probe e = Some (0, s) \<Longrightarrow> lc_inv True [] (uvswitch_life s)"
  by (auto dest!: uvswitch_probe_ok simp: lc_inv_def uvswitch_life_def fresh_uvswitch_def uvswitch_setup_fields)

section \<open>Runs\<close>

text \<open>Any interleaving of detector packets, calibrations, writes and opens and closes.\<close>

inductive uvswitch_run :: "(byte list \<Rightarrow> int) \<Rightarrow> usb_uvswitch \<Rightarrow> bool" for strtol where
  probed: "uvswitch_run strtol (uvswitch_setup (uvswitch0 bus))"
| packet: "uvswitch_run strtol dev \<Longrightarrow> length p = 8 \<Longrightarrow> uvswitch_adc_irq st n p dev = Some (again, dev') \<Longrightarrow>
     uvswitch_run strtol dev'"
| calibrate: "uvswitch_run strtol dev \<Longrightarrow>
     uvswitch_run strtol (snd (uvswitch_updateCalibration (dev\<lparr>calibration := c\<rparr>)))"
| faulty_calibrate: "uvswitch_run strtol dev \<Longrightarrow> uvswitch_run strtol (dev\<lparr>calibration := c\<rparr>)"
| written: "uvswitch_run strtol dev \<Longrightarrow> uvswitch_run strtol (snd (write_string strtol count line dev))"
| counted: "uvswitch_run strtol dev \<Longrightarrow> uvswitch_run strtol (dev\<lparr>uv_open_count := k\<rparr>)"

definition auto_status :: "bool list \<Rightarrow> uvswitch_status" where
  "auto_status xs =
     (let c = first_active 1 xs
      in \<lparr>video_channel = of_nat c, white_audio_channel = of_nat c, red_audio_channel = of_nat c,
          bypass_switch = (if c = 0 then 1 else 0)\<rparr>)"

definition in_range :: "uvswitch_status \<Rightarrow> bool" where
  "in_range st \<longleftrightarrow>
     video_channel st \<le> 8 \<and> white_audio_channel st \<le> 8 \<and> red_audio_channel st \<le> 8 \<and> bypass_switch st \<le> 1"

definition uvswitch_inv :: "usb_uvswitch \<Rightarrow> bool" where
  "uvswitch_inv dev \<longleftrightarrow>
     length (active_inputs dev) = 8 \<and> length (adc_accumulator dev) = 8 \<and> in_range (uv_status dev) \<and>
     (status_mode dev = MODE_AUTOMATIC \<longrightarrow> uv_status dev = auto_status (active_inputs dev))"

lemma first_active_less: "0 < i \<Longrightarrow> first_active i xs < i + length xs"
proof (induction xs arbitrary: i)
  case (Cons x xs)
  then show ?case using Cons.IH [of "i + 1"] by simp
qed simp

lemma auto_in_range: "length xs = 8 \<Longrightarrow> in_range (auto_status xs)"
proof -
  assume "length xs = 8"
  then have "first_active 1 xs \<le> 8" using first_active_less [of 1 xs] by simp
  then have "(of_nat (first_active 1 xs) :: byte) \<le> of_nat 8"
    by (simp add: word_le_nat_alt unat_of_nat)
  then show ?thesis by (simp add: in_range_def auto_status_def Let_def)
qed

lemma auto_update [simp]:
  "uv_status (uvswitch_updateAutoStatus dev) =
     (if status_mode dev = MODE_AUTOMATIC then auto_status (active_inputs dev) else uv_status dev)"
  "active_inputs (uvswitch_updateAutoStatus dev) = active_inputs dev"
  "adc_accumulator (uvswitch_updateAutoStatus dev) = adc_accumulator dev"
  "status_mode (uvswitch_updateAutoStatus dev) = status_mode dev"
  by (simp_all add: uvswitch_updateAutoStatus_def uvswitch_updateStatus_def auto_status_def
      uvswitch_getFirstActiveChannel_def Let_def split: uvswitch_mode.split)

lemma length_accumulate: "accumulate as bs = Some cs \<Longrightarrow> length cs = min (length as) (length bs)"
  by (induction as bs arbitrary: cs rule: accumulate.induct) (auto simp: bind_eq_Some_conv)

lemma adc_irq_inv:
  assumes "uvswitch_inv dev" "length p = 8" "uvswitch_adc_irq st n p dev = Some (again, dev')"
  shows "uvswitch_inv dev'"
proof (cases "st = 0 \<and> n = 8")
  case False
  then have "dev' = dev" using assms(3) by (auto simp: uvswitch_adc_irq_def split: if_splits)
  with assms(1) show ?thesis by simp
next
  case True
  with assms(3) obtain acc k where acc: "accumulate (adc_accumulator dev) p = Some acc"
    and k: "c_add (adc_samples dev) 1 = Some k"
    by (auto simp: uvswitch_adc_irq_def bind_eq_Some_conv)
  let ?act = "map (\<lambda>a. a > threshold (calibration dev)) acc"
  have len: "length acc = 8" using length_accumulate [OF acc] assms(1,2) by (simp add: uvswitch_inv_def)
  consider "dev' = dev\<lparr>adc_accumulator := acc, adc_samples := k\<rparr>"
    | "dev' = dev\<lparr>adc_accumulated := acc, adc_accumulator := replicate 8 0, adc_samples := 0\<rparr>"
    | cid where "dev' = uvswitch_updateAutoStatus (dev\<lparr>adc_accumulated := acc, adc_accumulator := replicate 8 0,
        adc_samples := 0, active_inputs := ?act, adc_change_id := cid, adc_wakeups := adc_wakeups dev + 1\<rparr>)"
    using assms(3) True
    by (cases "k \<ge> integration_packets (calibration dev)"; cases "?act = active_inputs dev")
      (auto simp: uvswitch_adc_irq_def acc k Let_def bind_eq_Some_conv)
  then show ?thesis
  proof cases
    case 3
    then show ?thesis using assms(1) len by (simp add: uvswitch_inv_def auto_in_range)
  qed (use assms(1) len in \<open>auto simp: uvswitch_inv_def\<close>)
qed

text \<open>What the tokens keep while a string is written: a manual device in range, with the same inputs and requests
  sent.\<close>

definition manual_from :: "usb_uvswitch \<Rightarrow> usb_uvswitch \<Rightarrow> bool" where
  "manual_from dev0 dev \<longleftrightarrow>
     in_range (uv_status dev) \<and> status_mode dev = MODE_MANUAL \<and> active_inputs dev = active_inputs dev0 \<and>
     adc_accumulator dev = adc_accumulator dev0 \<and> sent dev = sent dev0 \<and> bus_results dev = bus_results dev0"

lemma write_token_manual:
  assumes "write_token strtol hi store token dev = (ok, dev')" "manual_from dev0 dev"
    "\<And>v st. v \<le> word_of_int hi \<Longrightarrow> in_range st \<Longrightarrow> in_range (store v st)" "hi \<le> 8"
  shows "manual_from dev0 dev'"
proof (cases "dev' = dev")
  case False
  then obtain c cs where tok: "token = Some (c # cs)" using assms(1)
    by (auto simp: write_token_def split: option.splits list.splits)
  let ?t = "c # cs"
  have "\<not> (strtol ?t < 0 \<or> hi < strtol ?t)"
    using assms(1) False by (auto simp: write_token_def tok)
  then have t: "0 \<le> strtol ?t" "strtol ?t \<le> hi"
    "dev' = dev\<lparr>uv_status := store (word_of_int (strtol ?t)) (uv_status dev)\<rparr>"
    using assms(1) by (auto simp: write_token_def tok Let_def)
  have "(word_of_int (strtol ?t) :: byte) \<le> word_of_int hi"
    using t(1,2) assms(4) by (simp add: word_le_def uint_word_of_int)
  then show ?thesis using assms(2,3) t(3) by (simp add: manual_from_def)
qed (use assms(2) in simp)

lemma write_string_cases:
  assumes "write_string strtol count line dev = (r, dev')" "in_range (uv_status dev)"
  shows "(fst (strsep (Some line)) = Some auto_keyword \<and> r = int count \<and>
            dev' = uvswitch_updateAutoStatus (dev\<lparr>status_mode := MODE_AUTOMATIC\<rparr>)) \<or>
     (r = - EINVAL \<and> manual_from dev dev') \<or>
     (\<exists>d q. manual_from dev d \<and> uvswitch_updateStatus d = (q, dev') \<and> r = (if q = 0 then int count else q))"
proof (cases "fst (strsep (Some line)) = Some auto_keyword")
  case True
  then show ?thesis using assms(1) by (auto simp: write_string_def Let_def)
next
  case False
  obtain t1 p1 where s1: "strsep (Some line) = (t1, p1)" by (cases "strsep (Some line)")
  obtain t2 p2 where s2: "strsep p1 = (t2, p2)" by (cases "strsep p1")
  obtain t3 p3 where s3: "strsep p2 = (t3, p3)" by (cases "strsep p2")
  obtain t4 p4 where s4: "strsep p3 = (t4, p4)" by (cases "strsep p3")
  let ?st1 = "\<lambda>v st. st\<lparr>video_channel := v, white_audio_channel := v, red_audio_channel := v\<rparr>"
  let ?st2 = "\<lambda>v st. st\<lparr>bypass_switch := v\<rparr>"
  let ?st3 = "\<lambda>v st. st\<lparr>white_audio_channel := v, red_audio_channel := v\<rparr>"
  let ?st4 = "\<lambda>v st. st\<lparr>red_audio_channel := v\<rparr>"
  have m0: "manual_from dev (dev\<lparr>status_mode := MODE_MANUAL\<rparr>)" using assms(2) by (simp add: manual_from_def)
  obtain ok1 d1 where w1: "write_token strtol 8 ?st1 t1 (dev\<lparr>status_mode := MODE_MANUAL\<rparr>) = (ok1, d1)" by fastforce
  have m1: "manual_from dev d1" by (rule write_token_manual [OF w1 m0]) (simp_all add: in_range_def)
  obtain ok2 d2 where w2: "write_token strtol 1 ?st2 t2 d1 = (ok2, d2)" by fastforce
  have m2: "manual_from dev d2" by (rule write_token_manual [OF w2 m1]) (simp_all add: in_range_def)
  obtain ok3 d3 where w3: "write_token strtol 8 ?st3 t3 d2 = (ok3, d3)" by fastforce
  have m3: "manual_from dev d3" by (rule write_token_manual [OF w3 m2]) (simp_all add: in_range_def)
  obtain ok4 d4 where w4: "write_token strtol 8 ?st4 t4 d3 = (ok4, d4)" by fastforce
  have m4: "manual_from dev d4" by (rule write_token_manual [OF w4 m3]) (simp_all add: in_range_def)
  obtain q d5 where u: "uvswitch_updateStatus d4 = (q, d5)" by fastforce
  have "(r, dev') = (if \<not> ok1 then (- EINVAL, d1) else if \<not> ok2 then (- EINVAL, d2) else if \<not> ok3 then (- EINVAL, d3)
      else if \<not> ok4 then (- EINVAL, d4) else (if q = 0 then int count else q, d5))"
    using assms(1) False s1
    by (cases ok1; cases ok2; cases ok3; cases ok4)
      (simp_all add: write_string_def Let_def s2 s3 s4 w1 w2 w3 w4 u del: strsep.simps)
  then show ?thesis using m1 m2 m3 m4 u by (auto split: if_splits)
qed

lemma write_string_inv:
  assumes "uvswitch_inv dev"
  shows "uvswitch_inv (snd (write_string strtol count line dev))"
proof -
  obtain r dev' where w: "write_string strtol count line dev = (r, dev')" by fastforce
  have "in_range (uv_status dev)" using assms by (simp add: uvswitch_inv_def)
  from write_string_cases [OF w this] show ?thesis
  proof (elim disjE exE conjE)
    assume "dev' = uvswitch_updateAutoStatus (dev\<lparr>status_mode := MODE_AUTOMATIC\<rparr>)"
    with assms w show ?thesis by (simp add: uvswitch_inv_def auto_in_range)
  next
    assume "manual_from dev dev'"
    with assms w show ?thesis by (simp add: uvswitch_inv_def manual_from_def)
  next
    fix d q
    assume "manual_from dev d" "uvswitch_updateStatus d = (q, dev')"
    then have "manual_from dev (dev'\<lparr>sent := sent dev, bus_results := bus_results dev\<rparr>)"
      by (auto simp: manual_from_def uvswitch_updateStatus_def uvswitch_submit_def Let_def)
    with assms w show ?thesis by (simp add: uvswitch_inv_def manual_from_def)
  qed
qed

lemma uvswitch_run_inv: "uvswitch_run strtol dev \<Longrightarrow> uvswitch_inv dev"
proof (induction rule: uvswitch_run.induct)
  case (probed bus)
  then show ?case by (simp add: uvswitch_inv_def uvswitch_setup_fields in_range_def)
next
  case (packet dev p st n again dev')
  then show ?case using adc_irq_inv by blast
next
  case (written dev count line)
  then show ?case by (simp add: write_string_inv)
next
  case (calibrate dev c)
  then show ?case by (simp add: uvswitch_inv_def uvswitch_updateCalibration_def)
qed (simp_all add: uvswitch_inv_def)

section \<open>The text protocol\<close>

text \<open>The forms that \<^verbatim>\<open>uvswitch_dev.h\<close> documents: one to four words separated by single spaces, and
  what they ask for.\<close>

definition word_ok :: "byte list \<Rightarrow> bool" where
  "word_ok t \<longleftrightarrow> t \<noteq> [] \<and> (\<forall>c \<in> set t. c \<notin> {0, 0x20, 0x09, 0x0A})"

fun spaced :: "byte list list \<Rightarrow> byte list" where
  "spaced [] = []"
| "spaced [t] = t"
| "spaced (t # u # ts) = t @ 0x20 # spaced (u # ts)"

fun switch_to :: "int list \<Rightarrow> uvswitch_status \<Rightarrow> uvswitch_status" where
  "switch_to [v] st = st\<lparr>video_channel := word_of_int v, white_audio_channel := word_of_int v,
     red_audio_channel := word_of_int v\<rparr>"
| "switch_to [v, b] st = (switch_to [v] st)\<lparr>bypass_switch := word_of_int b\<rparr>"
| "switch_to [v, b, a] st = (switch_to [v, b] st)\<lparr>white_audio_channel := word_of_int a,
     red_audio_channel := word_of_int a\<rparr>"
| "switch_to [v, b, w, r] st = (switch_to [v, b, w] st)\<lparr>red_audio_channel := word_of_int r\<rparr>"
| "switch_to _ st = st"

text \<open>Which words are numbers that the position allows.\<close>

definition words_allowed :: "int list \<Rightarrow> bool" where
  "words_allowed vs \<longleftrightarrow> length vs \<in> {1, 2, 3, 4} \<and>
     (\<forall>i < length vs. 0 \<le> vs ! i \<and> vs ! i \<le> (if i = 1 then 1 else 8))"

lemma strsep_word:
  assumes "word_ok t"
  shows "strsep (Some t) = (Some t, None)" "strsep (Some (t @ 0x20 # r)) = (Some t, Some r)"
    "strsep (Some (t @ 0x0A # r)) = (Some t, Some r)"
proof -
  have c: "\<And>c. c \<in> set t \<Longrightarrow> c \<notin> set delim" using assms by (auto simp: word_ok_def)
  then have "takeWhile (\<lambda>c. c \<notin> set delim) t = t" "dropWhile (\<lambda>c. c \<notin> set delim) t = []"
    by (simp_all add: takeWhile_eq_all_conv)
  then show "strsep (Some t) = (Some t, None)" by (simp only: strsep.simps list.case)
  show "strsep (Some (t @ 0x20 # r)) = (Some t, Some r)" "strsep (Some (t @ 0x0A # r)) = (Some t, Some r)"
    using c by (simp_all add: takeWhile_append dropWhile_append)
qed

lemma strsep_empty: "strsep (Some []) = (Some [], None)"
  by simp

lemma write_token_word:
  "t \<noteq> [] \<Longrightarrow> 0 \<le> strtol t \<Longrightarrow> strtol t \<le> hi \<Longrightarrow>
   write_token strtol hi store (Some t) dev =
     (True, dev\<lparr>uv_status := store (word_of_int (strtol t)) (uv_status dev)\<rparr>)"
  by (cases t) (simp_all add: write_token_def)

lemma write_token_none:
  "write_token strtol hi store None dev = (True, dev)" "write_token strtol hi store (Some []) dev = (True, dev)"
  by (simp_all add: write_token_def)

lemmas string_rules = write_string_def write_token_word write_token_none strsep_word strsep_empty

lemma words_shape:
  assumes "words_allowed (map strtol ts)"
  obtains (one) a where "ts = [a]" "0 \<le> strtol a" "strtol a \<le> 8"
  | (two) a b where "ts = [a, b]" "0 \<le> strtol a" "strtol a \<le> 8" "0 \<le> strtol b" "strtol b \<le> 1"
  | (three) a b c where "ts = [a, b, c]" "0 \<le> strtol a" "strtol a \<le> 8" "0 \<le> strtol b" "strtol b \<le> 1"
      "0 \<le> strtol c" "strtol c \<le> 8"
  | (four) a b c d where "ts = [a, b, c, d]" "0 \<le> strtol a" "strtol a \<le> 8" "0 \<le> strtol b" "strtol b \<le> 1"
      "0 \<le> strtol c" "strtol c \<le> 8" "0 \<le> strtol d" "strtol d \<le> 8"
proof -
  have all: "\<And>i. i < length ts \<Longrightarrow> 0 \<le> strtol (ts ! i) \<and> strtol (ts ! i) \<le> (if i = 1 then 1 else 8)"
    and len: "length ts \<in> {1, 2, 3, 4}"
    using assms by (auto simp: words_allowed_def)
  consider a where "ts = [a]" | a b where "ts = [a, b]" | a b c where "ts = [a, b, c]" | a b c d where "ts = [a, b, c, d]"
    using len by (auto simp: numeral_eq_Suc length_Suc_conv)
  then show thesis
  proof cases
    case 1
    then show thesis using one all [of 0] by simp
  next
    case 2
    then show thesis using two all [of 0] all [of 1] by simp
  next
    case 3
    then show thesis using three all [of 0] all [of 1] all [of 2] by simp
  next
    case 4
    then show thesis using four all [of 0] all [of 1] all [of 2] all [of 3] by simp
  qed
qed

lemma write_string_words:
  assumes "\<forall>t \<in> set ts. word_ok t" "words_allowed (map strtol ts)" "hd ts \<noteq> auto_keyword" "e = [] \<or> e = [0x0A]"
  shows "write_string strtol count (spaced ts @ e) dev =
    (let (q, d) = uvswitch_updateStatus (dev\<lparr>status_mode := MODE_MANUAL, uv_status := switch_to (map strtol ts) (uv_status dev)\<rparr>)
     in (if q = 0 then int count else q, d))"
  using assms(2)
proof (cases rule: words_shape)
  case (one a)
  then have "a \<noteq> []" "word_ok a" "a \<noteq> auto_keyword" using assms by (auto simp: word_ok_def)
  with one assms(4) show ?thesis by (auto simp: string_rules simp del: strsep.simps(2))
next
  case (two a b)
  then have "a \<noteq> []" "b \<noteq> []" "word_ok a" "word_ok b" "a \<noteq> auto_keyword" using assms by (auto simp: word_ok_def)
  with two assms(4) show ?thesis by (auto simp: string_rules simp del: strsep.simps(2))
next
  case (three a b c)
  then have "a \<noteq> []" "b \<noteq> []" "c \<noteq> []" "word_ok a" "word_ok b" "word_ok c" "a \<noteq> auto_keyword"
    using assms by (auto simp: word_ok_def)
  with three assms(4) show ?thesis by (auto simp: string_rules simp del: strsep.simps(2))
next
  case (four a b c d)
  then have "a \<noteq> []" "b \<noteq> []" "c \<noteq> []" "d \<noteq> []" "word_ok a" "word_ok b" "word_ok c" "word_ok d" "a \<noteq> auto_keyword"
    using assms by (auto simp: word_ok_def)
  with four assms(4) show ?thesis by (auto simp: string_rules simp del: strsep.simps(2))
qed

text \<open>Reading numbers, for the witnesses.\<close>

definition digits_value :: "byte list \<Rightarrow> int" where
  "digits_value t = foldl (\<lambda>v c. 10 * v + (uint c - 0x30)) 0 t"

text \<open>The line that \<^verbatim>\<open>uvswitch_read\<close> writes, and the channels in it.\<close>

definition active_line :: "usb_uvswitch \<Rightarrow> byte list" where
  "active_line dev = active_text 0 [] (active_inputs dev) @ [0x0A]"

definition line_channels :: "byte list \<Rightarrow> nat list" where
  "line_channels cs = map (\<lambda>c. unat c - 0x30) (filter (\<lambda>c. c \<noteq> 0x20 \<and> c \<noteq> 0x0A) cs)"

definition active_channels :: "usb_uvswitch \<Rightarrow> nat list" where
  "active_channels dev = filter (\<lambda>c. active_inputs dev ! (c - 1)) [1..<9]"

lemma len8: "LENGTH(8) = 8" by simp

lemma digit_char: "i < 9 \<Longrightarrow> unat (of_nat (0x30 + (i + 1)) :: byte) = 0x30 + (i + 1)"
  by (simp only: unat_of_nat len8) simp

text \<open>The numbers of the active channels in \<open>xs\<close>, counted from \<open>i\<close>.\<close>

definition channels_from :: "nat \<Rightarrow> bool list \<Rightarrow> nat list" where
  "channels_from i xs = filter (\<lambda>c. xs ! (c - i)) [i..<i + length xs]"

lemma channels_from_Nil [simp]: "channels_from i [] = []"
  by (simp add: channels_from_def)

lemma channels_from_Cons [simp]:
  "channels_from i (x # xs) = (if x then [i] else []) @ channels_from (i + 1) xs"
proof -
  have "[i..<i + length (x # xs)] = i # [i + 1..<i + 1 + length xs]" by (subst upt_conv_Cons) simp_all
  moreover have "filter (\<lambda>c. (x # xs) ! (c - i)) [i + 1..<i + 1 + length xs] =
      filter (\<lambda>c. xs ! (c - (i + 1))) [i + 1..<i + 1 + length xs]"
  proof (rule filter_cong)
    fix c
    assume "c \<in> set [i + 1..<i + 1 + length xs]"
    then have "i + 1 \<le> c" unfolding set_upt by (rule atLeastLessThan_iff [THEN iffD1, THEN conjunct1])
    then have "c - i = Suc (c - (i + 1))" by linarith
    then show "(x # xs) ! (c - i) = xs ! (c - (i + 1))" by (simp only: nth_Cons_Suc)
  qed simp
  ultimately show ?thesis
    unfolding channels_from_def
    by (cases x) (simp_all only: filter.simps nth_Cons_0 diff_self_eq_0 if_True if_False append.simps)
qed

lemma active_channels_from: "length (active_inputs dev) = 8 \<Longrightarrow> active_channels dev = channels_from 1 (active_inputs dev)"
  by (simp add: active_channels_def channels_from_def)

lemma first_active_channels:
  "0 < i \<Longrightarrow> first_active i xs = (if channels_from i xs = [] then 0 else hd (channels_from i xs))"
  "0 < i \<Longrightarrow> first_active i xs = 0 \<longleftrightarrow> channels_from i xs = []"
  by (induction xs arbitrary: i) auto

lemma line_channels_append: "line_channels (p @ q) = line_channels p @ line_channels q"
  by (simp add: line_channels_def)

lemma active_text_channels:
  "i + length xs \<le> 8 \<Longrightarrow> line_channels (active_text i p xs) = line_channels p @ channels_from (i + 1) xs"
proof (induction xs arbitrary: i p)
  case (Cons x xs)
  let ?c = "of_nat (0x30 + (i + 1)) :: byte"
  have u: "unat ?c = 0x30 + (i + 1)" using Cons.prems by (intro digit_char) simp
  then have ne: "?c \<noteq> 0x20" "?c \<noteq> 0x0A" by (auto simp del: of_nat_add of_nat_Suc)
  have one: "line_channels [?c] = [i + 1]" "line_channels [0x20, ?c] = [i + 1]"
    using u ne by (simp_all add: line_channels_def del: of_nat_add of_nat_Suc)
  have IH: "line_channels (active_text (i + 1) q xs) = line_channels q @ channels_from (i + 2) xs" for q
    using Cons.IH [of "i + 1" q] Cons.prems by (simp add: numeral_2_eq_2)
  have nil: "line_channels [] = []" by (simp add: line_channels_def)
  show ?case
    using IH one nil
    by (cases x; cases "p = []") (simp_all add: Let_def line_channels_append del: of_nat_add of_nat_Suc)
qed simp

lemma active_text_length:
  "length (active_text i p xs) \<le> length p + 2 * length xs" "length (active_text i [] xs) \<le> 2 * length xs - 1"
proof -
  show a: "length (active_text i p xs) \<le> length p + 2 * length xs" for i p xs
  proof (induction i p xs rule: active_text.induct)
    case (2 i p x xs)
    then show ?case by (cases x; cases "p = []") (auto simp: Let_def)
  qed simp
  show "length (active_text i [] xs) \<le> 2 * length xs - 1"
  proof (induction xs arbitrary: i)
    case (Cons x xs i)
    have "length (active_text (i + 1) [of_nat (0x30 + (i + 1))] xs) \<le> 1 + 2 * length xs"
      using a [of "i + 1" "[of_nat (0x30 + (i + 1))]"] by simp
    moreover have "length (active_text (i + 1) [] xs) \<le> 1 + 2 * length xs" using Cons.IH [of "i + 1"] by linarith
    ultimately show ?case by (cases x) simp_all
  qed simp
qed

lemma active_line_channels:
  assumes "length (active_inputs dev) = 8"
  shows "line_channels (active_line dev) = active_channels dev" "length (active_line dev) \<le> 16"
proof -
  have "line_channels (active_line dev) = line_channels (active_text 0 [] (active_inputs dev))"
    by (simp add: active_line_def line_channels_def)
  then show "line_channels (active_line dev) = active_channels dev"
    using active_text_channels [of 0 "active_inputs dev" "[]"] assms
    by (simp add: active_channels_from line_channels_def)
  show "length (active_line dev) \<le> 16"
    using active_text_length(2) [of 0 "active_inputs dev"] assms by (simp add: active_line_def)
qed

section \<open>Properties\<close>



text \<open>C37: The text protocol: writing one to four words of the documented forms, each a number its position allows, with
  or without the newline at the end, sets the switches as \<^verbatim>\<open>uvswitch_dev.h\<close> says, leaves automatic mode,
  sends one switch request with exactly those positions and returns the length written.\<close>

theorem uvswitch_write_words:
  assumes "uv_files s fd = Some prv" "uv_mem s = Some dev" "uv_udev dev" "bus_results dev = []"
    "\<forall>t \<in> set ts. word_ok t" "words_allowed (map strtol ts)" "hd ts \<noteq> auto_keyword" "e = [] \<or> e = [0x0A]"
    "length (spaced ts @ e) \<le> 255"
  shows "\<exists>dev'. uvswitch_write strtol fd (spaced ts @ e) False s = Some (int (length (spaced ts @ e)), s\<lparr>uv_mem := Some dev'\<rparr>) \<and>
     uv_status dev' = switch_to (map strtol ts) (uv_status dev) \<and> status_mode dev' = MODE_MANUAL \<and>
     sent dev' = sent dev @ [switch_request (uv_status dev')]"
proof -
  define buf where "buf = spaced ts @ e"
  have "0 \<notin> set (spaced ts)" using assms(5)
    by (induction ts rule: spaced.induct) (auto simp: word_ok_def)
  then have k: "takeWhile (\<lambda>c. c \<noteq> 0) buf = buf" using assms(8) by (auto simp: takeWhile_eq_all_conv buf_def)
  have m: "min (length buf) 255 = length buf" using assms(9) by (simp add: buf_def)
  note w = write_string_words [OF assms(5-8), folded buf_def]
  have "uvswitch_write strtol fd buf False s =
      (let (q, d) = uvswitch_updateStatus (dev\<lparr>status_mode := MODE_MANUAL, uv_status := switch_to (map strtol ts) (uv_status dev)\<rparr>)
       in Some (if q = 0 then int (length buf) else q, s\<lparr>uv_mem := Some d\<rparr>))"
    using assms(1-3) by (simp add: uvswitch_write_def Let_def k m w split: prod.splits)
  then show ?thesis unfolding buf_def [symmetric]
    by (simp add: uvswitch_updateStatus_def uvswitch_submit_def assms(4)) (intro exI conjI, rule refl, simp_all)
qed

theorem uvswitch_write_words_witness:
  "\<exists>dev'. uvswitch_write digits_value 1 [0x33, 0x20, 0x31, 0x20, 0x37, 0x0A] False
      ((fresh_uvswitch [])\<lparr>uv_files := [1 \<mapsto> \<lparr>not_first_read = False, last_change_id = 0\<rparr>]\<rparr>) =
      Some (6, (fresh_uvswitch [])\<lparr>uv_files := [1 \<mapsto> \<lparr>not_first_read = False, last_change_id = 0\<rparr>], uv_mem := Some dev'\<rparr>) \<and>
     uv_status dev' = \<lparr>video_channel = 3, white_audio_channel = 7, red_audio_channel = 7, bypass_switch = 1\<rparr>"
proof -
  let ?ts = "[[0x33], [0x31], [0x37]] :: byte list list"
  let ?s = "(fresh_uvswitch [])\<lparr>uv_files := [1 \<mapsto> \<lparr>not_first_read = False, last_change_id = 0\<rparr>]\<rparr>"
  have "map digits_value ?ts = [3, 1, 7]" by (simp add: digits_value_def)
  moreover from this have "words_allowed (map digits_value ?ts)" by (auto simp: words_allowed_def nth_Cons split: nat.split)
  moreover have "\<forall>t \<in> set ?ts. word_ok t" by (simp add: word_ok_def)
  moreover have "bus_results (uvswitch_setup (uvswitch0 [])) = []"
    by (simp add: uvswitch_setup_def uvswitch_initCalibration_def uvswitch_updateCalibration_def uvswitch_updateStatus_def
        uvswitch_submit_def uvswitch0_def Let_def)
  ultimately show ?thesis
    using uvswitch_write_words [of ?s 1 "\<lparr>not_first_read = False, last_change_id = 0\<rparr>" "uvswitch_setup (uvswitch0 [])"
        ?ts digits_value "[0x0A]"]
    by (clarsimp simp: fresh_uvswitch_def uvswitch_setup_fields)
qed

text \<open>A rejected write is not undone: when \<^verbatim>\<open>uvswitch_write\<close> answers \<^verbatim>\<open>-EINVAL\<close> for a word out of
  range, no switch request has been sent, but the driver has left automatic mode, so from then on a change of the
  active inputs no longer moves the switches.\<close>

lemma uvswitch_rejected_write:
  assumes "uv_files s fd = Some prv" "uv_mem s = Some dev" "uv_udev dev" "bus_results dev = []"
    "in_range (uv_status dev)" "uvswitch_write strtol fd buffer False s = Some (- EINVAL, s')"
  shows "\<exists>dev'. s' = s\<lparr>uv_mem := Some dev'\<rparr> \<and> sent dev' = sent dev \<and> status_mode dev' = MODE_MANUAL \<and>
     uvswitch_updateAutoStatus dev' = dev'"
proof -
  let ?k = "takeWhile (\<lambda>c. c \<noteq> 0) (take (min (length buffer) 255) buffer)"
  obtain r dev' where w: "write_string strtol (min (length buffer) 255) ?k dev = (r, dev')" by fastforce
  then have r: "r = - EINVAL" "s' = s\<lparr>uv_mem := Some dev'\<rparr>"
    using assms(1-3,6) by (simp_all add: uvswitch_write_def Let_def)
  from write_string_cases [OF w assms(5)] r(1) have "manual_from dev dev'"
    by (auto simp: manual_from_def uvswitch_updateStatus_def uvswitch_submit_def Let_def assms(4) split: if_splits)
  then show ?thesis using r(2) by (intro exI [of _ dev']) (simp add: manual_from_def uvswitch_updateAutoStatus_def)
qed

lemma uvswitch_rejected_write_witness:
  "\<exists>dev'. write_string digits_value 1 [0x39] (uv_at MODE_AUTOMATIC 2 250) = (- EINVAL, dev') \<and>
     sent dev' = [] \<and> status_mode dev' = MODE_MANUAL"
proof -
  let ?s = "\<lparr>uv_mem = Some (uv_at MODE_AUTOMATIC 2 250), uv_intf = True,
      uv_files = [1 \<mapsto> \<lparr>not_first_read = False, last_change_id = 0\<rparr>]\<rparr>"
  obtain dev' where w: "write_string digits_value 1 [0x39] (uv_at MODE_AUTOMATIC 2 250) = (- EINVAL, dev')"
    by (simp add: write_string_def write_token_def digits_value_def)
  have u: "uv_udev (uv_at MODE_AUTOMATIC 2 250)" "bus_results (uv_at MODE_AUTOMATIC 2 250) = []"
    "in_range (uv_status (uv_at MODE_AUTOMATIC 2 250))" "sent (uv_at MODE_AUTOMATIC 2 250) = []"
    by (simp_all add: uv_at_def in_range_def)
  have "uvswitch_write digits_value 1 [0x39] False ?s = Some (- EINVAL, ?s\<lparr>uv_mem := Some dev'\<rparr>)"
    using w u(1) by (simp add: uvswitch_write_def)
  from uvswitch_rejected_write [OF _ _ u(1-3) this] w u(4) show ?thesis by auto
qed

text \<open>The first read of a file returns at once the line of active channels, numbered from 1 in ascending order, cut
  at the size asked for; the line has at most 16 bytes, so it fits the driver's buffer of 512.\<close>

lemma uvswitch_read_line:
  assumes "uvswitch_run strtol dev" "uv_files s fd = Some prv" "uv_mem s = Some dev" "uv_udev dev"
    "\<not> not_first_read prv \<or> last_change_id prv \<noteq> adc_change_id dev"
  shows "\<exists>line. uvswitch_read fd nonblock count False wakes s = Some (Awake (int (min count (length line)), take count line,
       s\<lparr>uv_files := (uv_files s)(fd \<mapsto> \<lparr>not_first_read = True, last_change_id = adc_change_id dev\<rparr>)\<rparr>)) \<and>
     line_channels line = active_channels dev \<and> length line \<le> 16"
proof -
  have "length (active_inputs dev) = 8" using uvswitch_run_inv [OF assms(1)] by (simp add: uvswitch_inv_def)
  note line = active_line_channels [OF this]
  have "uvswitch_read_wait nonblock prv wakes dev = Awake (0, dev)"
    using assms(5) by (subst uvswitch_read_wait.simps) auto
  moreover have "take (min count (length (active_line dev))) (active_line dev) = take count (active_line dev)"
    by (simp add: min_def)
  ultimately show ?thesis
    using assms(2-4) line
    by (intro exI [of _ "active_line dev"]) (simp add: uvswitch_read_def Let_def active_line_def [symmetric])
qed

lemma uvswitch_read_line_witness:
  "\<exists>line s'. uvswitch_read 1 False 3 False []
      ((fresh_uvswitch [])\<lparr>uv_files := [1 \<mapsto> \<lparr>not_first_read = False, last_change_id = 0\<rparr>]\<rparr>) =
      Some (Awake (int (min 3 (length line)), take 3 line, s')) \<and> length line \<le> 16"
  using uvswitch_read_line [OF uvswitch_run.probed, of
      "(fresh_uvswitch [])\<lparr>uv_files := [1 \<mapsto> \<lparr>not_first_read = False, last_change_id = 0\<rparr>]\<rparr>" 1
      "\<lparr>not_first_read = False, last_change_id = 0\<rparr>" "[]" False 3 "[]"]
  by (clarsimp simp: fresh_uvswitch_def uvswitch_setup_fields) blast

text \<open>\<^verbatim>\<open>poll\<close> and \<^verbatim>\<open>read\<close> disagree on a file just opened: while the detector has seen no change,
  \<^verbatim>\<open>poll\<close> reports that nothing can be read, although a read returns a line at once.\<close>

lemma uvswitch_poll_misses_first_line:
  assumes "uvswitch_run strtol dev" "uv_intf s" "uv_mem s = Some dev" "uv_udev dev" "adc_change_id dev = 0"
    "uvswitch_open fd True s = Some (0, s')" "0 < count"
  shows "uvswitch_poll fd s' = Some 0 \<and>
     (\<exists>n line s''. uvswitch_read fd True count False [] s' = Some (Awake (n, line, s'')) \<and> 0 < n)"
proof -
  let ?d = "dev\<lparr>uv_open_count := uv_open_count dev + 1\<rparr>"
  let ?prv = "\<lparr>not_first_read = False, last_change_id = 0\<rparr>"
  have s': "uv_files s' fd = Some ?prv" "uv_mem s' = Some ?d"
    using assms(2,3,6) by (auto simp: uvswitch_open_def Let_def)
  have "uvswitch_read_wait True ?prv [] ?d = Awake (0, ?d)" by (subst uvswitch_read_wait.simps) simp
  then have "\<exists>line s''. uvswitch_read fd True count False [] s' =
      Some (Awake (int (min count (length (active_line ?d))), line, s''))"
    using s' assms(4) by (simp add: uvswitch_read_def Let_def active_line_def)
  moreover have "0 < length (active_line ?d)" by (simp add: active_line_def)
  ultimately show ?thesis
    using s' assms(4,5,7) by (fastforce simp: uvswitch_poll_def)
qed

lemma uvswitch_poll_misses_first_line_witness:
  "\<exists>s'. uvswitch_open 1 True (fresh_uvswitch []) = Some (0, s') \<and> uvswitch_poll 1 s' = Some 0"
proof -
  let ?d = "uvswitch_setup (uvswitch0 [])"
  have "adc_change_id ?d = 0"
    by (simp add: uvswitch_setup_def uvswitch_initCalibration_def uvswitch_updateCalibration_def uvswitch_updateStatus_def
        uvswitch_submit_def uvswitch0_def Let_def)
  moreover obtain s' where "uvswitch_open 1 True (fresh_uvswitch []) = Some (0, s')"
    by (simp add: uvswitch_open_def fresh_uvswitch_def)
  ultimately show ?thesis
    using uvswitch_poll_misses_first_line [OF uvswitch_run.probed, of "fresh_uvswitch []" "[]" 1 s' 1]
    by (simp add: fresh_uvswitch_def uvswitch_setup_fields)
qed

text \<open>A device whose structure cannot be allocated crashes the kernel: the error path of
  \<^verbatim>\<open>uvswitch_probe\<close> hands the null pointer to \<^verbatim>\<open>uvswitch_delete\<close>, which follows it; the other failures
  of probe free the structure and leave no device behind.\<close>

lemma uvswitch_probe_without_memory:
  "up_match e \<Longrightarrow> (uvswitch_probe e = None \<longleftrightarrow> \<not> up_kmalloc e) \<and>
     (\<forall>r s. uvswitch_probe e = Some (r, s) \<longrightarrow> r = 0 \<or> uv_mem s = None \<and> \<not> uv_intf s)"
  by (auto simp: uvswitch_probe_def uvswitch_delete_def Let_def)

lemma uvswitch_probe_without_memory_witness:
  "uvswitch_probe ((uvswitch_all_well [])\<lparr>up_kmalloc := False\<rparr>) = None"
  using uvswitch_probe_without_memory [of "(uvswitch_all_well [])\<lparr>up_kmalloc := False\<rparr>"]
  by (simp add: uvswitch_all_well_def)

end
