(* ===== verification/Ipipe_List.thy ===== *)
theory Ipipe_List
  imports Prelude
begin

text \<open>
  The doubly linked lists of inputpipe: the clients of the server (\<^verbatim>\<open>client_list_insert\<close>,
  \<^verbatim>\<open>client_list_remove\<close> in \<^verbatim>\<open>inputpipe/src/server.c\<close>) and the connections of the client
  (\<^verbatim>\<open>connection_list_append\<close>, \<^verbatim>\<open>connection_list_remove\<close> in \<^verbatim>\<open>client.c\<close>), as nodes in a heap, and
  the loops that poll every element while elements remove and free themselves. The locale \<open>poll_list\<close> says what
  such a loop needs; both lists interpret it. \<^term>\<open>None\<close> is a failed assertion or the use of a node that
  is not allocated.
\<close>

section \<open>Nodes\<close>

record node =
  next_node :: "nat option"
  prev_node :: "nat option"

record connection_node = node +
  in_connection_list :: bool

record 'n store =
  heap :: "nat \<rightharpoonup> 'n"
  list_head :: "nat option"
  list_tail :: "nat option"

definition set_next :: "nat \<Rightarrow> nat option \<Rightarrow> 'a node_scheme store \<Rightarrow> 'a node_scheme store option" where
  "set_next p v s =
     (case heap s p of None \<Rightarrow> None | Some n \<Rightarrow> Some (s\<lparr>heap := (heap s)(p \<mapsto> n\<lparr>next_node := v\<rparr>)\<rparr>))"

definition set_prev :: "nat \<Rightarrow> nat option \<Rightarrow> 'a node_scheme store \<Rightarrow> 'a node_scheme store option" where
  "set_prev p v s =
     (case heap s p of None \<Rightarrow> None | Some n \<Rightarrow> Some (s\<lparr>heap := (heap s)(p \<mapsto> n\<lparr>prev_node := v\<rparr>)\<rparr>))"

definition free_node :: "nat \<Rightarrow> 'n store \<Rightarrow> 'n store" where
  "free_node p s = s\<lparr>heap := (heap s)(p := None)\<rparr>"

section \<open>The server's list of clients\<close>

definition client_list_insert :: "nat \<Rightarrow> node store \<Rightarrow> node store option" where
  "client_list_insert c s =
     (case heap s c of
        None \<Rightarrow> None
      | Some n \<Rightarrow>
          if prev_node n \<noteq> None \<or> next_node n \<noteq> None then None
          else do {
            s \<leftarrow> (case list_tail s of
                Some t \<Rightarrow> do { s \<leftarrow> set_prev c (Some t) s; set_next t (Some c) s }
              | None \<Rightarrow> if list_head s \<noteq> None then None else Some (s\<lparr>list_head := Some c\<rparr>));
            Some (s\<lparr>list_tail := Some c\<rparr>)
          })"

definition client_list_remove :: "nat \<Rightarrow> node store \<Rightarrow> node store option" where
  "client_list_remove c s =
     (case heap s c of
        None \<Rightarrow> None
      | Some n \<Rightarrow> do {
          s \<leftarrow> (case prev_node n of
              Some p \<Rightarrow> set_next p (next_node n) s
            | None \<Rightarrow> if list_head s \<noteq> Some c then None else Some (s\<lparr>list_head := next_node n\<rparr>));
          (case next_node n of
              Some q \<Rightarrow> set_prev q (prev_node n) s
            | None \<Rightarrow> if list_tail s \<noteq> Some c then None else Some (s\<lparr>list_tail := prev_node n\<rparr>))
        })"

section \<open>The client's list of connections\<close>

definition set_listed :: "nat \<Rightarrow> bool \<Rightarrow> connection_node store \<Rightarrow> connection_node store option" where
  "set_listed p v s =
     (case heap s p of
        None \<Rightarrow> None | Some n \<Rightarrow> Some (s\<lparr>heap := (heap s)(p \<mapsto> n\<lparr>in_connection_list := v\<rparr>)\<rparr>))"

definition connection_list_append :: "nat \<Rightarrow> connection_node store \<Rightarrow> connection_node store option" where
  "connection_list_append c s = do {
     s \<leftarrow> set_listed c True s;
     s \<leftarrow> (case list_tail s of
         Some t \<Rightarrow> do { s \<leftarrow> set_prev c (Some t) s; set_next t (Some c) s }
       | None \<Rightarrow> if list_head s \<noteq> None then None else Some (s\<lparr>list_head := Some c\<rparr>));
     Some (s\<lparr>list_tail := Some c\<rparr>)
   }"

definition connection_list_remove :: "nat \<Rightarrow> connection_node store \<Rightarrow> connection_node store option" where
  "connection_list_remove c s =
     (case heap s c of
        None \<Rightarrow> None
      | Some n \<Rightarrow>
          if \<not> in_connection_list n then Some s
          else do {
            s \<leftarrow> set_listed c False s;
            s \<leftarrow> (case next_node n of
                Some q \<Rightarrow> set_prev q (prev_node n) s
              | None \<Rightarrow> if list_tail s \<noteq> Some c then None else Some (s\<lparr>list_tail := prev_node n\<rparr>));
            (case prev_node n of
                Some p \<Rightarrow> set_next p (next_node n) s
              | None \<Rightarrow> if list_head s \<noteq> Some c then None else Some (s\<lparr>list_head := next_node n\<rparr>))
          })"

section \<open>Polling every element\<close>

text \<open>The loop of \<^verbatim>\<open>main_loop\<close> and of \<^verbatim>\<open>connection_list_poll\<close>: the next element is noted before the current
  one is polled, and the current one, if \<open>gone\<close>, is removed from the list and freed. The first result lists the
  elements polled. \<open>fuel\<close>, one more than the elements, is enough.\<close>

fun poll_walk :: "(nat \<Rightarrow> 'n store \<Rightarrow> 'n store option) \<Rightarrow> ('n \<Rightarrow> nat option) \<Rightarrow> (nat \<Rightarrow> bool) \<Rightarrow> nat \<Rightarrow> nat option \<Rightarrow>
    'n store \<Rightarrow> (nat list \<times> 'n store) option" where
  "poll_walk remove nx gone 0 iter s = None"
| "poll_walk remove nx gone (Suc fuel) None s = Some ([], s)"
| "poll_walk remove nx gone (Suc fuel) (Some c) s =
     (case heap s c of
        None \<Rightarrow> None
      | Some n \<Rightarrow> do {
          s \<leftarrow> (if gone c then map_option (free_node c) (remove c s) else Some s);
          (visited, s) \<leftarrow> poll_walk remove nx gone fuel (nx n) s;
          Some (c # visited, s)
        })"

definition first_of :: "nat list \<Rightarrow> nat option" where
  "first_of xs = (if xs = [] then None else Some (hd xs))"

definition last_of :: "nat list \<Rightarrow> nat option" where
  "last_of xs = (if xs = [] then None else Some (last xs))"

lemma ends_simps [simp]:
  "first_of [] = None" "first_of (x # xs) = Some x" "last_of [] = None" "last_of (xs @ [x]) = Some x"
  by (simp_all add: first_of_def last_of_def)

locale poll_list =
  fixes remove :: "nat \<Rightarrow> 'n store \<Rightarrow> 'n store option"
    and nx :: "'n \<Rightarrow> nat option"
    and is_list :: "'n store \<Rightarrow> nat list \<Rightarrow> bool"
  assumes distinct_list: "is_list s xs \<Longrightarrow> distinct xs"
    and head_of: "is_list s xs \<Longrightarrow> list_head s = first_of xs"
    and next_of: "is_list s (xs @ c # ys) \<Longrightarrow> \<exists>n. heap s c = Some n \<and> nx n = first_of ys"
    and remove_free: "is_list s (xs @ c # ys) \<Longrightarrow>
      \<exists>t. remove c s = Some t \<and> is_list (free_node c t) (xs @ ys)"
begin

lemma walk_from:
  assumes "is_list s (kept @ ys)" "length ys < fuel"
  shows "\<exists>t. poll_walk remove nx gone fuel (first_of ys) s = Some (ys, t) \<and>
    is_list t (kept @ filter (\<lambda>c. \<not> gone c) ys)"
  using assms
proof (induction ys arbitrary: kept s fuel)
  case Nil
  then obtain f where "fuel = Suc f" by (cases fuel) auto
  with Nil show ?case by simp
next
  case (Cons c ys)
  then obtain f where f: "fuel = Suc f" "length ys < f" by (cases fuel) auto
  obtain n where n: "heap s c = Some n" "nx n = first_of ys" using next_of [OF Cons.prems(1)] by blast
  show ?case
  proof (cases "gone c")
    case True
    obtain t where t: "remove c s = Some t" "is_list (free_node c t) (kept @ ys)"
      using remove_free [OF Cons.prems(1)] by blast
    from Cons.IH [OF t(2) f(2)] t(1) n f True show ?thesis by auto
  next
    case False
    have "is_list s ((kept @ [c]) @ ys)" using Cons.prems(1) by simp
    from Cons.IH [OF this f(2)] n f False show ?thesis by auto
  qed
qed

lemma walk_all:
  assumes "is_list s xs"
  shows "\<exists>t. poll_walk remove nx gone (Suc (length xs)) (list_head s) s = Some (xs, t) \<and>
    is_list t (filter (\<lambda>c. \<not> gone c) xs)"
  using walk_from [of s "[]" xs "Suc (length xs)"] assms head_of [OF assms] by simp

end

section \<open>Linked lists\<close>

text \<open>\<open>seg h p xs q\<close>: the nodes \<open>xs\<close> are linked in order, the first back to \<open>p\<close> and the last on to \<open>q\<close>.\<close>

fun seg :: "(nat \<rightharpoonup> 'a node_scheme) \<Rightarrow> nat option \<Rightarrow> nat list \<Rightarrow> nat option \<Rightarrow> bool" where
  "seg h p [] q \<longleftrightarrow> True"
| "seg h p (x # xs) q \<longleftrightarrow>
     (\<exists>n. h x = Some n \<and> prev_node n = p \<and> next_node n = (if xs = [] then q else Some (hd xs))) \<and>
     seg h (Some x) xs q"

lemma seg_append:
  "seg h p (xs @ ys) q \<longleftrightarrow>
     seg h p xs (if ys = [] then q else Some (hd ys)) \<and> seg h (if xs = [] then p else Some (last xs)) ys q"
  by (induction xs arbitrary: p) auto

lemma seg_cong: "(\<And>x. x \<in> set xs \<Longrightarrow> h x = h' x) \<Longrightarrow> seg h p xs q = seg h' p xs q"
  by (induction xs arbitrary: p) auto

lemma seg_other [simp]: "x \<notin> set xs \<Longrightarrow> seg (h(x := v)) p xs q = seg h p xs q"
  by (rule seg_cong) auto

definition dll :: "'a node_scheme store \<Rightarrow> nat list \<Rightarrow> bool" where
  "dll s xs \<longleftrightarrow>
     distinct xs \<and> list_head s = first_of xs \<and> list_tail s = last_of xs \<and> seg (heap s) None xs None"

text \<open>The last node's forward link, and the first node's backward link, changed.\<close>

lemma seg_relink_last:
  assumes "seg h p (xs @ [x]) q" "x \<notin> set xs" "h x = Some n"
  shows "seg (h(x \<mapsto> n\<lparr>next_node := q'\<rparr>)) p (xs @ [x]) q'"
  using assms by (auto simp: seg_append)

lemma seg_relink_first:
  assumes "seg h p (x # xs) q" "x \<notin> set xs" "h x = Some n"
  shows "seg (h(x \<mapsto> n\<lparr>prev_node := p'\<rparr>)) p' (x # xs) q"
  using assms by auto

lemma seg_mid:
  assumes "seg h None (xs @ c # ys) None"
  shows "\<exists>n. h c = Some n \<and> prev_node n = last_of xs \<and> next_node n = first_of ys"
  using assms by (auto simp: seg_append first_of_def last_of_def)

lemma seg_defined: "seg h p xs q \<Longrightarrow> x \<in> set xs \<Longrightarrow> h x \<noteq> None"
  by (induction xs arbitrary: p) auto

text \<open>The server's removal.\<close>

lemma client_list_remove_ok:
  assumes "dll s (xs @ c # ys)"
  shows "\<exists>t. client_list_remove c s = Some t \<and> dll (free_node c t) (xs @ ys)"
proof -
  have d: "distinct (xs @ c # ys)" "seg (heap s) None (xs @ c # ys) None" "list_head s = first_of (xs @ c # ys)"
    "list_tail s = last_of (xs @ c # ys)" using assms by (simp_all add: dll_def)
  obtain n where n: "heap s c = Some n" "prev_node n = last_of xs" "next_node n = first_of ys"
    using seg_mid [OF d(2)] by blast
  show ?thesis
  proof (cases xs rule: rev_cases)
    case Nil
    show ?thesis
    proof (cases ys)
      case (Cons y zs)
      obtain m where "heap s y = Some m" using d(2) Nil Cons by (auto simp: seg_append)
      with d n Nil Cons show ?thesis
        by (auto simp: client_list_remove_def set_prev_def dll_def free_node_def first_of_def last_of_def)
    qed (use d n Nil in \<open>auto simp: client_list_remove_def dll_def free_node_def first_of_def last_of_def\<close>)
  next
    case (snoc ws w)
    obtain k where k: "heap s w = Some k" using d(2) snoc by (auto simp: seg_append)
    show ?thesis
    proof (cases ys)
      case Nil
      with d n k snoc show ?thesis
        by (auto simp: client_list_remove_def set_next_def dll_def free_node_def first_of_def last_of_def seg_append hd_append)
    next
      case (Cons y zs)
      obtain m where "heap s y = Some m" using d(2) Cons by (auto simp: seg_append)
      with d n k snoc Cons show ?thesis
        by (auto simp: client_list_remove_def set_next_def set_prev_def dll_def free_node_def first_of_def last_of_def
            seg_append hd_append)
    qed
  qed
qed

text \<open>The server's insertion of a node that \<^verbatim>\<open>memset\<close> has cleared.\<close>

lemma client_list_insert_ok:
  assumes "dll s xs" "c \<notin> set xs" "heap s c = Some \<lparr>next_node = None, prev_node = None\<rparr>"
  shows "\<exists>t. client_list_insert c s = Some t \<and> dll t (xs @ [c])"
proof (cases xs rule: rev_cases)
  case Nil
  with assms show ?thesis by (auto simp: client_list_insert_def dll_def last_of_def)
next
  case (snoc ws w)
  then obtain k where "heap s w = Some k" using assms(1) by (auto simp: dll_def seg_append)
  with assms snoc show ?thesis
    by (auto simp: client_list_insert_def set_next_def set_prev_def dll_def seg_append first_of_def last_of_def hd_append)
qed

text \<open>The client's list: all its nodes carry the flag.\<close>

definition connections :: "connection_node store \<Rightarrow> nat list \<Rightarrow> bool" where
  "connections s xs \<longleftrightarrow> dll s xs \<and> (\<forall>x \<in> set xs. \<exists>n. heap s x = Some n \<and> in_connection_list n)"

lemma connection_list_append_ok:
  assumes "connections s xs" "c \<notin> set xs"
    "heap s c = Some \<lparr>next_node = None, prev_node = None, in_connection_list = False\<rparr>"
  shows "\<exists>t. connection_list_append c s = Some t \<and> connections t (xs @ [c])"
proof (cases xs rule: rev_cases)
  case Nil
  with assms show ?thesis by (auto simp: connection_list_append_def set_listed_def dll_def connections_def last_of_def)
next
  case (snoc ws w)
  then obtain k where "heap s w = Some k" using assms(1) by (auto simp: connections_def)
  with assms snoc show ?thesis
    by (auto simp: connection_list_append_def set_listed_def set_next_def set_prev_def dll_def connections_def seg_append
        first_of_def last_of_def hd_append)
qed

lemma connection_list_remove_ok:
  assumes "connections s (xs @ c # ys)"
  shows "\<exists>t. connection_list_remove c s = Some t \<and> connections (free_node c t) (xs @ ys)"
proof -
  have d: "distinct (xs @ c # ys)" "seg (heap s) None (xs @ c # ys) None" "list_head s = first_of (xs @ c # ys)"
    "list_tail s = last_of (xs @ c # ys)" and l: "\<forall>x \<in> set (xs @ c # ys). \<exists>n. heap s x = Some n \<and> in_connection_list n"
    using assms by (simp_all add: dll_def connections_def)
  obtain n where n: "heap s c = Some n" "prev_node n = last_of xs" "next_node n = first_of ys" "in_connection_list n"
    using seg_mid [OF d(2)] l by auto
  show ?thesis
  proof (cases xs rule: rev_cases)
    case Nil
    show ?thesis
    proof (cases ys)
      case (Cons y zs)
      with d l n Nil show ?thesis
        by (auto simp: connection_list_remove_def set_listed_def set_prev_def dll_def connections_def free_node_def
            first_of_def last_of_def)
    qed (use d l n Nil in \<open>auto simp: connection_list_remove_def set_listed_def dll_def connections_def free_node_def
          first_of_def last_of_def\<close>)
  next
    case (snoc ws w)
    show ?thesis
    proof (cases ys)
      case Nil
      with d l n snoc show ?thesis
        by (auto simp: connection_list_remove_def set_listed_def set_next_def dll_def connections_def free_node_def
            first_of_def last_of_def seg_append hd_append)
    next
      case (Cons y zs)
      with d l n snoc show ?thesis
        by (auto simp: connection_list_remove_def set_listed_def set_next_def set_prev_def dll_def connections_def
            free_node_def first_of_def last_of_def seg_append hd_append)
    qed
  qed
qed

lemma dll_next: "dll s (xs @ c # ys) \<Longrightarrow> \<exists>n. heap s c = Some n \<and> next_node n = first_of ys"
  using seg_mid [of "heap s" xs c ys] by (auto simp: dll_def)

interpretation clients: poll_list client_list_remove next_node dll
proof unfold_locales
  show "dll s xs \<Longrightarrow> distinct xs" for s :: "node store" and xs by (simp add: dll_def)
  show "dll s xs \<Longrightarrow> list_head s = first_of xs" for s :: "node store" and xs by (simp add: dll_def)
qed (simp_all add: dll_next client_list_remove_ok)

lemma connections_next: "connections s (xs @ c # ys) \<Longrightarrow> \<exists>n. heap s c = Some n \<and> next_node n = first_of ys"
  unfolding connections_def by (elim conjE) (rule dll_next)

interpretation conns: poll_list connection_list_remove next_node connections
  by unfold_locales
    (simp_all add: connections_next connection_list_remove_ok, simp_all add: connections_def dll_def)

section \<open>Properties\<close>

text \<open>Clients accepted one after the other, each in fresh memory.\<close>

fun accept_all :: "nat list \<Rightarrow> node store \<Rightarrow> node store option" where
  "accept_all [] s = Some s"
| "accept_all (c # cs) s = do {
     s \<leftarrow> client_list_insert c (s\<lparr>heap := (heap s)(c \<mapsto> \<lparr>next_node = None, prev_node = None\<rparr>)\<rparr>);
     accept_all cs s
   }"

definition no_clients :: "node store" where
  "no_clients = \<lparr>heap = Map.empty, list_head = None, list_tail = None\<rparr>"

lemma accept_all_ok:
  assumes "dll s xs" "distinct (xs @ cs)"
  shows "\<exists>t. accept_all cs s = Some t \<and> dll t (xs @ cs)"
  using assms
proof (induction cs arbitrary: s xs)
  case (Cons c cs)
  let ?s = "s\<lparr>heap := (heap s)(c \<mapsto> \<lparr>next_node = None, prev_node = None\<rparr>)\<rparr>"
  have "dll ?s xs" using Cons.prems by (simp add: dll_def)
  then obtain t where "client_list_insert c ?s = Some t" "dll t (xs @ [c])"
    using client_list_insert_ok [of ?s xs c] Cons.prems(2) by auto
  with Cons.IH [of t "xs @ [c]"] Cons.prems(2) show ?case by auto
qed simp

text \<open>C12: The server's loop over its clients: whatever order they connected in and whichever of them hang up while being
  polled, every client is polled exactly once in the order of connection, no freed client is used, no assertion of
  the list fails, and the list that is left holds exactly the clients that did not hang up, in the same order.\<close>

theorem poll_visits_every_client:
  assumes "distinct cs"
  shows "\<exists>s t. accept_all cs no_clients = Some s \<and>
     poll_walk client_list_remove next_node gone (Suc (length cs)) (list_head s) s = Some (cs, t) \<and>
     dll t (filter (\<lambda>c. \<not> gone c) cs)"
proof -
  have "dll no_clients []" by (simp add: dll_def no_clients_def)
  then obtain s where "accept_all cs no_clients = Some s" "dll s cs"
    using accept_all_ok [of no_clients "[]" cs] assms by auto
  with clients.walk_all [of s cs gone] show ?thesis by auto
qed

theorem poll_visits_every_client_witness:
  "\<exists>s t. accept_all [7, 3, 9] no_clients = Some s \<and>
     poll_walk client_list_remove next_node (\<lambda>c. c = 3) 4 (list_head s) s = Some ([7, 3, 9], t) \<and> dll t [7, 9]"
  using poll_visits_every_client [of "[7, 3, 9]" "\<lambda>c. c = 3"] by (simp add: numeral_eq_Suc)

text \<open>The same for the client's connections: \<^verbatim>\<open>connection_list_poll\<close> polls each connection once, deleting those
  that are lost, and leaves the others linked in order.\<close>

lemma poll_visits_every_connection:
  assumes "connections s cs"
  shows "\<exists>t. poll_walk connection_list_remove next_node lost (Suc (length cs)) (list_head s) s = Some (cs, t) \<and>
     connections t (filter (\<lambda>c. \<not> lost c) cs)"
  by (rule conns.walk_all [OF assms])

lemma poll_visits_every_connection_witness:
  "\<exists>t. poll_walk connection_list_remove next_node (\<lambda>c. True) 2 (Some 5)
       \<lparr>heap = [5 \<mapsto> \<lparr>next_node = None, prev_node = None, in_connection_list = True\<rparr>], list_head = Some 5,
        list_tail = Some 5\<rparr> = Some ([5], t) \<and> connections t []"
proof -
  have "connections \<lparr>heap = [5 \<mapsto> \<lparr>next_node = None, prev_node = None, in_connection_list = True\<rparr>], list_head = Some 5,
        list_tail = Some 5\<rparr> [5]"
    by (simp add: connections_def dll_def last_of_def)
  from poll_visits_every_connection [OF this, of "\<lambda>c. True"] show ?thesis by (simp add: numeral_2_eq_2)
qed

end
