(* ===== verification/Ipipe_Packet.thy ===== *)
theory Ipipe_Packet
  imports Prelude
begin

text \<open>
  The packet layer that inputpipe's client and server share (\<^verbatim>\<open>inputpipe/src/packet.c\<close>,
  \<^verbatim>\<open>inputpipe.h\<close>): the write buffer of a \<^verbatim>\<open>struct packet_socket\<close>, its flush, and the
  reassembly of packets from a nonblocking stream. \<^verbatim>\<open>write\<close> and \<^verbatim>\<open>fread\<close> are modelled with
  what POSIX and the C library let them do: \<^verbatim>\<open>write_room\<close> gives how many bytes each \<^verbatim>\<open>write\<close>
  accepts (everything when the list is used up), and \<^verbatim>\<open>fread\<close> of one element takes what has arrived even
  when that is less than the element. \<^term>\<open>None\<close> is a failed assertion or a write outside the buffer.
\<close>

section \<open>Network byte order\<close>

text \<open>\<^verbatim>\<open>htons\<close>, \<^verbatim>\<open>htonl\<close> and their inverses, as the bytes that a value occupies in memory.\<close>

definition htons :: "u16 \<Rightarrow> byte list" where
  "htons w = [ucast (drop_bit 8 w), ucast w]"

definition htonl :: "u32 \<Rightarrow> byte list" where
  "htonl w = [ucast (drop_bit 24 w), ucast (drop_bit 16 w), ucast (drop_bit 8 w), ucast w]"

fun ntohs :: "byte list \<Rightarrow> u16" where
  "ntohs [a, b] = push_bit 8 (ucast a) OR ucast b"
| "ntohs _ = 0"

fun ntohl :: "byte list \<Rightarrow> u32" where
  "ntohl [a, b, c, d] = push_bit 24 (ucast a) OR push_bit 16 (ucast b) OR push_bit 8 (ucast c) OR ucast d"
| "ntohl _ = 0"

lemma length_hton [simp]: "length (htons w) = 2" "length (htonl v) = 4"
  by (simp_all add: htons_def htonl_def)

lemma ntohs_htons [simp]: "ntohs (htons w) = w"
  by (rule bit_word_eqI)
    (auto simp: htons_def bit_or_iff bit_push_bit_iff bit_ucast_iff bit_drop_bit_eq not_le)

lemma ntohl_htonl [simp]: "ntohl (htonl w) = w"
proof (rule bit_word_eqI)
  fix n
  assume "n < LENGTH(32)"
  then consider "n < 8" | "8 \<le> n" "n < 16" | "16 \<le> n" "n < 24" | "24 \<le> n" "n < 32" by fastforce
  then show "bit (ntohl (htonl w)) n = bit w n"
    by cases (auto simp: htonl_def bit_or_iff bit_push_bit_iff bit_ucast_iff bit_drop_bit_eq less_diff_conv2)
qed

section \<open>The socket\<close>

abbreviation (input) BUFFER_SIZE :: nat where "BUFFER_SIZE \<equiv> 4096"

text \<open>The write buffer: its bytes, the free space and the place of the next byte. The stream that comes in: the
  bytes that have arrived and are not yet read, and whether the peer has closed it.\<close>

record packet_socket =
  wb_data :: "byte list"
  wb_remaining :: int
  wb_current :: nat
  written :: "byte list"
  write_room :: "nat list"
  arrived :: "byte list"
  hung_up :: bool
  at_eof :: bool
  pkt_header :: "byte list"
  received_header :: bool

definition packet_socket_new :: packet_socket where
  "packet_socket_new =
     \<lparr>wb_data = replicate BUFFER_SIZE 0, wb_remaining = int BUFFER_SIZE, wb_current = 0, written = [],
      write_room = [], arrived = [], hung_up = False, at_eof = False, pkt_header = [0, 0, 0, 0],
      received_header = False\<rparr>"

section \<open>Writing\<close>

definition packet_socket_flush :: "packet_socket \<Rightarrow> packet_socket" where
  "packet_socket_flush self =
     (let size = wb_current self in
      if size = 0 then self
      else
        let room = (case write_room self of [] \<Rightarrow> size | n # _ \<Rightarrow> n) in
        self\<lparr>written := written self @ take room (take size (wb_data self)), write_room := tl (write_room self),
             wb_remaining := int BUFFER_SIZE, wb_current := 0\<rparr>)"

text \<open>\<^verbatim>\<open>memcpy\<close> to the current position of the buffer.\<close>

definition buffer_copy :: "byte list \<Rightarrow> packet_socket \<Rightarrow> packet_socket option" where
  "buffer_copy bs self =
     (if wb_current self + length bs > length (wb_data self) then None
      else Some (self\<lparr>wb_data := take (wb_current self) (wb_data self) @ bs @
                        drop (wb_current self + length bs) (wb_data self),
                      wb_current := wb_current self + length bs\<rparr>))"

definition packet_socket_write :: "u16 \<Rightarrow> byte list \<Rightarrow> packet_socket \<Rightarrow> packet_socket option" where
  "packet_socket_write packet_type content self =
     (let len = length content in
      if \<not> len < 0x10000 then None
      else if \<not> len + 4 < BUFFER_SIZE then None
      else
        let pkt = htons packet_type @ htons (of_nat len);
            self = (if int (len + 4) > wb_remaining self then packet_socket_flush self else self);
            self = self\<lparr>wb_remaining := wb_remaining self - int (len + 4)\<rparr>
        in do { self \<leftarrow> buffer_copy pkt self; buffer_copy content self })"

section \<open>Reading\<close>

text \<open>\<^verbatim>\<open>fread(p, n, 1, file)\<close>: the element when it has arrived in full. Otherwise what has arrived is gone:
  it was copied to \<open>p\<close>, but the result is 0 and the stream is past it.\<close>

definition fread1 :: "nat \<Rightarrow> packet_socket \<Rightarrow> byte list option \<times> packet_socket" where
  "fread1 n self =
     (if n \<le> length (arrived self) then (Some (take n (arrived self)), self\<lparr>arrived := drop n (arrived self)\<rparr>)
      else (None, self\<lparr>arrived := [], at_eof := hung_up self\<rparr>))"

text \<open>The result: 0 or the type of the packet, and its content (which a caller does not see after a 0).\<close>

definition read_content :: "packet_socket \<Rightarrow> u16 \<times> byte list \<times> packet_socket" where
  "read_content self =
     (let type = ntohs (take 2 (pkt_header self));
          len = unat (ntohs (drop 2 (pkt_header self)))
      in if len > 0 then
           (case fread1 len self of
              (Some content, self) \<Rightarrow> (type, content, self\<lparr>received_header := False\<rparr>)
            | (None, self) \<Rightarrow> (0, [], self))
         else (type, [], self\<lparr>received_header := False\<rparr>))"

definition packet_socket_read :: "packet_socket \<Rightarrow> u16 \<times> byte list \<times> packet_socket" where
  "packet_socket_read self =
     (if received_header self then read_content self
      else (case fread1 4 self of
          (Some header, self) \<Rightarrow> read_content (self\<lparr>pkt_header := header, received_header := True\<rparr>)
        | (None, self) \<Rightarrow> (0, [], self)))"

section \<open>The stream of packets\<close>

type_synonym packet = "u16 \<times> byte list"

definition encode :: "packet \<Rightarrow> byte list" where
  "encode p = htons (fst p) @ htons (of_nat (length (snd p))) @ snd p"

definition sendable :: "packet \<Rightarrow> bool" where
  "sendable p \<longleftrightarrow> length (snd p) < 4092"

text \<open>What a socket has to send, sent or not, and the condition that its buffer is in order.\<close>

definition outgoing :: "packet_socket \<Rightarrow> byte list" where
  "outgoing self = written self @ take (wb_current self) (wb_data self)"

definition buffer_inv :: "packet_socket \<Rightarrow> bool" where
  "buffer_inv self \<longleftrightarrow>
     length (wb_data self) = BUFFER_SIZE \<and> wb_current self \<le> BUFFER_SIZE \<and>
     wb_remaining self = int BUFFER_SIZE - int (wb_current self)"

text \<open>The packets written by one after the other.\<close>

fun write_all :: "packet list \<Rightarrow> packet_socket \<Rightarrow> packet_socket option" where
  "write_all [] self = Some self"
| "write_all (p # ps) self = Option.bind (packet_socket_write (fst p) (snd p) self) (write_all ps)"

text \<open>The loop of \<^verbatim>\<open>client_poll\<close> and \<^verbatim>\<open>connection_poll\<close>: packets are read until a result is 0; \<open>fuel\<close> bounds the
  number of packets, and one more than the bytes arrived is enough, since every packet takes some.\<close>

fun read_all :: "nat \<Rightarrow> packet_socket \<Rightarrow> packet list \<times> packet_socket" where
  "read_all 0 self = ([], self)"
| "read_all (Suc fuel) self =
     (case packet_socket_read self of
        (type, content, self) \<Rightarrow>
          if type = 0 then ([], self)
          else (case read_all fuel self of (ps, self) \<Rightarrow> ((type, content) # ps, self)))"

lemma flush_inv: "buffer_inv self \<Longrightarrow> buffer_inv (packet_socket_flush self)"
  by (simp add: buffer_inv_def packet_socket_flush_def Let_def)

lemma flush_outgoing: "write_room self = [] \<Longrightarrow> buffer_inv self \<Longrightarrow>
    outgoing (packet_socket_flush self) = outgoing self \<and> write_room (packet_socket_flush self) = [] \<and>
    written (packet_socket_flush self) = outgoing self"
  by (simp add: outgoing_def packet_socket_flush_def Let_def)

lemma buffer_copy_ok:
  assumes "buffer_inv (self\<lparr>wb_remaining := int BUFFER_SIZE - int (wb_current self)\<rparr>)" "wb_current self + length bs \<le> BUFFER_SIZE"
  shows "\<exists>self'. buffer_copy bs self = Some self' \<and> length (wb_data self') = BUFFER_SIZE \<and>
    wb_current self' = wb_current self + length bs \<and> outgoing self' = outgoing self @ bs \<and>
    wb_remaining self' = wb_remaining self \<and> write_room self' = write_room self \<and> written self' = written self"
  using assms by (auto simp: buffer_copy_def buffer_inv_def outgoing_def)

text \<open>A packet written: it always fits, and it is appended to what the socket has to send.\<close>

lemma write_refines:
  assumes "buffer_inv self" "sendable p" "write_room self = []"
  shows "\<exists>self'. packet_socket_write (fst p) (snd p) self = Some self' \<and> buffer_inv self' \<and>
    outgoing self' = outgoing self @ encode p \<and> write_room self' = []"
proof -
  define n where "n = length (snd p) + 4"
  have n: "n < BUFFER_SIZE" using assms(2) by (simp add: sendable_def n_def)
  define s where "s = (if int n > wb_remaining self then packet_socket_flush self else self)"
  have s: "buffer_inv s" "outgoing s = outgoing self" "write_room s = []"
    using flush_inv [OF assms(1)] flush_outgoing [OF assms(3,1)] assms(1,3) by (auto simp: s_def)
  have room: "wb_current s + n \<le> BUFFER_SIZE"
    using assms(1) n by (auto simp: s_def buffer_inv_def packet_socket_flush_def Let_def)
  let ?s = "s\<lparr>wb_remaining := wb_remaining s - int n\<rparr>"
  let ?pkt = "htons (fst p) @ htons (of_nat (length (snd p)))"
  obtain s1 where s1: "buffer_copy ?pkt ?s = Some s1" "length (wb_data s1) = BUFFER_SIZE"
    "wb_current s1 = wb_current s + 4" "outgoing s1 = outgoing s @ ?pkt" "wb_remaining s1 = wb_remaining s - int n"
    "write_room s1 = []"
    using buffer_copy_ok [of ?s ?pkt] s room by (auto simp: buffer_inv_def n_def outgoing_def)
  obtain s2 where s2: "buffer_copy (snd p) s1 = Some s2" "length (wb_data s2) = BUFFER_SIZE"
    "wb_current s2 = wb_current s1 + length (snd p)" "outgoing s2 = outgoing s1 @ snd p"
    "wb_remaining s2 = wb_remaining s1" "write_room s2 = []"
    using buffer_copy_ok [of s1 "snd p"] s1 room by (auto simp: buffer_inv_def n_def)
  have "packet_socket_write (fst p) (snd p) self = Some s2"
    using n s1(1) s2(1) by (simp add: packet_socket_write_def Let_def s_def n_def)
  moreover have "buffer_inv s2" using s(1) s1 s2 room by (auto simp: buffer_inv_def n_def)
  moreover have "outgoing s2 = outgoing self @ encode p" using s1(4) s2(4) s(2) by (simp add: encode_def)
  ultimately show ?thesis using s2(6) by blast
qed

lemma write_all_refines:
  assumes "buffer_inv self" "\<forall>p \<in> set ps. sendable p" "write_room self = []"
  shows "\<exists>self'. write_all ps self = Some self' \<and> buffer_inv self' \<and>
    outgoing self' = outgoing self @ concat (map encode ps) \<and> write_room self' = []"
  using assms
proof (induction ps arbitrary: self)
  case (Cons p ps)
  obtain s1 where s1: "packet_socket_write (fst p) (snd p) self = Some s1" "buffer_inv s1"
    "outgoing s1 = outgoing self @ encode p" "write_room s1 = []"
    using write_refines [OF Cons.prems(1) _ Cons.prems(3), of p] Cons.prems(2) by auto
  from Cons.IH [OF s1(2) _ s1(4)] Cons.prems(2) s1 show ?case by auto
qed simp

section \<open>Reading back\<close>

lemma header_fields:
  "take 2 (htons t @ htons n) = htons t" "drop 2 (htons t @ htons n) = htons n"
  by (simp_all add: htons_def)

lemma unat_len: "length c < 65536 \<Longrightarrow> unat (of_nat (length c) :: u16) = length c"
  by (simp add: unat_of_nat)

lemma read_content_here:
  assumes "pkt_header self = htons t @ htons (of_nat (length c))" "arrived self = c @ rest" "length c < 65536"
  shows "read_content self = (t, c, self\<lparr>arrived := rest, received_header := False\<rparr>)"
  using assms(1,2) unat_len [OF assms(3)]
  by (simp add: read_content_def header_fields fread1_def Let_def del: of_nat_Suc)

lemma read_header:
  assumes "\<not> received_header self" "arrived self = htons t @ htons n @ rest"
  shows "packet_socket_read self =
    read_content (self\<lparr>arrived := rest, pkt_header := htons t @ htons n, received_header := True\<rparr>)"
  using assms by (simp add: packet_socket_read_def fread1_def htons_def)

lemma read_packet:
  assumes "\<not> received_header self" "arrived self = encode p @ rest" "length (snd p) < 65536"
  shows "\<exists>h. packet_socket_read self =
    (fst p, snd p, self\<lparr>arrived := rest, pkt_header := h, received_header := False\<rparr>)"
proof -
  let ?h = "htons (fst p) @ htons (of_nat (length (snd p)))"
  have "packet_socket_read self =
      read_content (self\<lparr>arrived := snd p @ rest, pkt_header := ?h, received_header := True\<rparr>)"
    by (rule read_header) (use assms in \<open>simp_all add: encode_def\<close>)
  also have "\<dots> = (fst p, snd p, self\<lparr>arrived := rest, pkt_header := ?h, received_header := False\<rparr>)"
    by (subst read_content_here [OF _ _ assms(3)]; cases self) simp_all
  finally show ?thesis by blast
qed

lemma read_nothing:
  "\<not> received_header self \<Longrightarrow> arrived self = [] \<Longrightarrow>
   packet_socket_read self = (0, [], self\<lparr>arrived := [], at_eof := hung_up self\<rparr>)"
  by (simp add: packet_socket_read_def fread1_def)

text \<open>Whole packets at the front of the stream are read one after the other.\<close>

lemma read_all_prefix:
  assumes "\<not> received_header self" "\<forall>p \<in> set ps. fst p \<noteq> 0 \<and> length (snd p) < 65536"
    "arrived self = concat (map encode ps) @ rest"
  shows "\<exists>h. read_all (length ps + fuel) self =
    (let (qs, s) = read_all fuel (self\<lparr>arrived := rest, pkt_header := h, received_header := False\<rparr>) in (ps @ qs, s))"
  using assms
proof (induction ps arbitrary: self)
  case Nil
  then have "self = self\<lparr>arrived := rest, pkt_header := pkt_header self, received_header := False\<rparr>" by simp
  then show ?case by (intro exI [of _ "pkt_header self"]) (simp split: prod.split)
next
  case (Cons p ps)
  obtain h where h: "packet_socket_read self = (fst p, snd p,
      self\<lparr>arrived := concat (map encode ps) @ rest, pkt_header := h, received_header := False\<rparr>)"
    using read_packet [of self p "concat (map encode ps) @ rest"] Cons.prems by auto
  let ?s = "self\<lparr>arrived := concat (map encode ps) @ rest, pkt_header := h, received_header := False\<rparr>"
  obtain g where "read_all (length ps + fuel) ?s =
      (let (qs, s) = read_all fuel (?s\<lparr>arrived := rest, pkt_header := g, received_header := False\<rparr>) in (ps @ qs, s))"
    using Cons.IH [of ?s] Cons.prems(2) by auto
  then show ?case
    using Cons.prems(2) h by (intro exI [of _ g]) (simp add: Let_def split: prod.split)
qed

lemma read_all_whole:
  assumes "\<not> received_header self" "\<forall>p \<in> set ps. fst p \<noteq> 0 \<and> length (snd p) < 65536"
    "arrived self = concat (map encode ps)"
  shows "fst (read_all (Suc (length ps)) self) = ps"
proof -
  obtain h where h: "read_all (length ps + 1) self =
      (let (qs, s) = read_all 1 (self\<lparr>arrived := [], pkt_header := h, received_header := False\<rparr>) in (ps @ qs, s))"
    using read_all_prefix [OF assms(1,2), of "[]" 1] assms(3) by auto
  obtain s where "read_all 1 (self\<lparr>arrived := [], pkt_header := h, received_header := False\<rparr>) = ([], s)"
    by (simp add: read_nothing)
  then show ?thesis using h by (simp only: Suc_eq_plus1 Let_def split_conv append_Nil2 fst_conv prod.case)
qed

section \<open>Properties\<close>

text \<open>C6: What one side writes the other side reads: any packets with nonzero types and less than 4092 bytes of content,
  written to a new socket and flushed, pass the assertions and never leave the 4096-byte buffer; when \<^verbatim>\<open>write\<close>
  takes all it is given, the bytes sent are the packets' encodings in order, and the receive loop that gets them
  returns exactly these packets.\<close>

theorem packets_roundtrip:
  assumes "\<forall>p \<in> set ps. sendable p \<and> fst p \<noteq> 0" "\<not> received_header peer"
  shows "\<exists>self. write_all ps packet_socket_new = Some self \<and>
     written (packet_socket_flush self) = concat (map encode ps) \<and>
     fst (read_all (Suc (length ps)) (peer\<lparr>arrived := written (packet_socket_flush self)\<rparr>)) = ps"
proof -
  have inv: "buffer_inv packet_socket_new" "write_room packet_socket_new = []" "outgoing packet_socket_new = []"
    by (simp_all add: buffer_inv_def packet_socket_new_def outgoing_def)
  obtain self where s: "write_all ps packet_socket_new = Some self" "buffer_inv self"
    "outgoing self = concat (map encode ps)" "write_room self = []"
    using write_all_refines [OF inv(1) _ inv(2)] assms(1) inv(3) by auto
  have "written (packet_socket_flush self) = outgoing self"
    using flush_outgoing [OF s(4,2)] by simp
  moreover have "\<forall>p \<in> set ps. fst p \<noteq> 0 \<and> length (snd p) < 65536"
    using assms(1) by (auto simp: sendable_def)
  ultimately show ?thesis
    using s(1,3) assms(2) read_all_whole [of "peer\<lparr>arrived := concat (map encode ps)\<rparr>" ps]
    by auto
qed

theorem packets_roundtrip_witness:
  "\<exists>self. write_all [(0x0201, [74, 111, 121]), (0x0301, [])] packet_socket_new = Some self \<and>
     fst (read_all 3 (packet_socket_new\<lparr>arrived := written (packet_socket_flush self)\<rparr>)) =
       [(0x0201, [74, 111, 121]), (0x0301, [])]"
  using packets_roundtrip [of "[(0x0201, [74, 111, 121]), (0x0301, [])]" packet_socket_new]
  by (auto simp: sendable_def packet_socket_new_def numeral_3_eq_3)

text \<open>A packet that arrives in pieces is not put together again: \<^verbatim>\<open>packet.h\<close> says that stdio's buffering will
  ensure that no partial content is read, but when only \<open>k\<close> bytes of the content have arrived they are thrown
  away, and once the rest has come the packet is delivered with its content shifted by \<open>k\<close> bytes into the
  packets behind it.\<close>

lemma fragment_is_lost:
  assumes "\<not> received_header self" "sendable (t, c)" "0 < k" "k < length c" "k \<le> length rest"
    "arrived self = take (4 + k) (encode (t, c))"
  shows "\<exists>self1. packet_socket_read self = (0, [], self1) \<and> arrived self1 = [] \<and>
     (\<exists>self2. packet_socket_read (self1\<lparr>arrived := drop (4 + k) (encode (t, c)) @ rest\<rparr>) =
        (t, drop k c @ take k rest, self2) \<and> arrived self2 = drop k rest)"
proof -
  let ?h = "htons t @ htons (of_nat (length c))"
  have h: "encode (t, c) = ?h @ c" "length ?h = 4" by (simp_all add: encode_def)
  have len: "length c < 65536" using assms(2) by (simp add: sendable_def)
  have "arrived self = htons t @ htons (of_nat (length c)) @ take k c" using assms(6) by (simp add: h)
  from read_header [OF assms(1) this]
  have one: "packet_socket_read self =
      (0, [], self\<lparr>arrived := [], pkt_header := ?h, received_header := True, at_eof := hung_up self\<rparr>)"
    using assms(4) by (auto simp: read_content_def header_fields unat_len [OF len] fread1_def Let_def)
  let ?s1 = "self\<lparr>arrived := [], pkt_header := ?h, received_header := True, at_eof := hung_up self\<rparr>"
  let ?s = "?s1\<lparr>arrived := drop k c @ rest\<rparr>"
  have "packet_socket_read ?s = (t, drop k c @ take k rest, ?s\<lparr>arrived := drop k rest, received_header := False\<rparr>)"
    using assms(3-5)
    by (auto simp: packet_socket_read_def read_content_def header_fields unat_len [OF len] fread1_def Let_def)
  then have "\<exists>self2. packet_socket_read (?s1\<lparr>arrived := drop (4 + k) (encode (t, c)) @ rest\<rparr>) =
      (t, drop k c @ take k rest, self2) \<and> arrived self2 = drop k rest"
    by (intro exI [of _ "?s\<lparr>arrived := drop k rest, received_header := False\<rparr>"]) (simp add: h)
  then show ?thesis using one by (intro exI [of _ ?s1]) simp
qed

lemma fragment_is_lost_witness:
  "\<exists>self1. packet_socket_read (packet_socket_new\<lparr>arrived := [2, 1, 0, 3, 65]\<rparr>) = (0, [], self1) \<and>
     (\<exists>self2. packet_socket_read (self1\<lparr>arrived := [66, 67] @ [3, 1, 0, 0]\<rparr>) = (0x0201, [66, 67, 3], self2))"
proof -
  have e: "encode (0x0201, [65, 66, 67]) = [2, 1, 0, 3, 65, 66, 67]" by (simp add: encode_def htons_def)
  show ?thesis
    using fragment_is_lost [of "packet_socket_new\<lparr>arrived := [2, 1, 0, 3, 65]\<rparr>" "0x0201" "[65, 66, 67]" 1 "[3, 1, 0, 0]"]
    by (auto simp: e sendable_def packet_socket_new_def)
qed

text \<open>A short write loses packets: \<^verbatim>\<open>packet_socket_flush\<close> ignores how much the nonblocking \<^verbatim>\<open>write\<close>
  took and clears the buffer, so what did not fit is never sent.\<close>

lemma short_write_is_lost:
  assumes "buffer_inv self" "write_room self = n # ns" "n < wb_current self"
  shows "written (packet_socket_flush self) = written self @ take n (take (wb_current self) (wb_data self)) \<and>
     outgoing (packet_socket_flush self) = written (packet_socket_flush self) \<and>
     length (outgoing (packet_socket_flush self)) < length (outgoing self)"
  using assms by (auto simp: packet_socket_flush_def outgoing_def buffer_inv_def Let_def)

lemma short_write_is_lost_witness:
  "\<exists>self. packet_socket_write 0x0301 [] (packet_socket_new\<lparr>write_room := [2]\<rparr>) = Some self \<and>
     length (outgoing (packet_socket_flush self)) < length (outgoing self)"
proof -
  obtain self where s: "packet_socket_write 0x0301 [] (packet_socket_new\<lparr>write_room := [2]\<rparr>) = Some self"
    "buffer_inv self" "write_room self = [2]" "wb_current self = 4"
    by (auto simp: packet_socket_write_def buffer_copy_def packet_socket_new_def buffer_inv_def Let_def)
  with short_write_is_lost [of self 2 "[]"] show ?thesis by auto
qed

text \<open>A packet of type 0 stops the receive loop: the packets behind it stay unread although they have arrived (and
  are not looked at before the peer sends more), because the loop takes the type 0 for an empty stream.\<close>

lemma packet_of_type_0_stops:
  assumes "\<not> received_header self" "\<forall>p \<in> set ps. fst p \<noteq> 0 \<and> length (snd p) < 65536" "length ps < fuel"
    "length c < 65536" "arrived self = concat (map encode ps) @ encode (0, c) @ behind"
  shows "fst (read_all fuel self) = ps \<and> arrived (snd (read_all fuel self)) = behind"
proof -
  obtain f where f: "fuel = length ps + Suc f" using assms(3) less_iff_Suc_add by auto
  obtain h where h: "read_all (length ps + Suc f) self =
      (let (qs, s) = read_all (Suc f) (self\<lparr>arrived := encode (0, c) @ behind, pkt_header := h, received_header := False\<rparr>)
       in (ps @ qs, s))"
    using read_all_prefix [OF assms(1,2,5), of "Suc f"] by blast
  let ?s = "self\<lparr>arrived := encode (0, c) @ behind, pkt_header := h, received_header := False\<rparr>"
  obtain g where "packet_socket_read ?s = (0, c, ?s\<lparr>arrived := behind, pkt_header := g, received_header := False\<rparr>)"
    using read_packet [of ?s "(0, c)" behind] assms(4) by auto
  then show ?thesis using h by (simp add: f Let_def)
qed

lemma packet_of_type_0_stops_witness:
  "fst (read_all 5 (packet_socket_new\<lparr>arrived := encode (0, [9]) @ encode (0x0301, [])\<rparr>)) = [] \<and>
   arrived (snd (read_all 5 (packet_socket_new\<lparr>arrived := encode (0, [9]) @ encode (0x0301, [])\<rparr>))) = encode (0x0301, [])"
  by (rule packet_of_type_0_stops [where c = "[9]"]) (simp_all add: packet_socket_new_def)

end
