(* ===== verification/Ipipe_Convert.thy ===== *)
theory Ipipe_Convert
  imports Ipipe_Packet
begin

text \<open>
  The conversions between the structures of the Linux input layer and inputpipe's network structures
  (\<^verbatim>\<open>inputpipe/src/packet.c\<close>, \<^verbatim>\<open>inputpipe.h\<close>). A network structure is the list of bytes it occupies; a
  conversion stores each field at its offset and leaves the other bytes (padding, and the part of the union that
  the effect does not use) as they were. A host structure is a record; the union of a force feedback effect is a
  datatype with one constructor per member.
\<close>

section \<open>Fields in memory\<close>

definition put :: "nat \<Rightarrow> byte list \<Rightarrow> byte list \<Rightarrow> byte list" where
  "put off bs mem = take off mem @ bs @ drop (off + length bs) mem"

definition get16 :: "nat \<Rightarrow> byte list \<Rightarrow> u16" where
  "get16 off mem = ntohs (take 2 (drop off mem))"

definition get32 :: "nat \<Rightarrow> byte list \<Rightarrow> u32" where
  "get32 off mem = ntohl (take 4 (drop off mem))"

lemma length_put [simp]: "off + length bs \<le> length mem \<Longrightarrow> length (put off bs mem) = length mem"
  by (simp add: put_def)

lemma take_drop_put_other:
  assumes "off + length bs \<le> length mem" "a + n \<le> off \<or> off + length bs \<le> a"
  shows "take n (drop a (put off bs mem)) = take n (drop a mem)"
  using assms by (auto simp: put_def drop_take)

lemma get_put [simp]:
  "off + 2 \<le> length mem \<Longrightarrow> get16 off (put off (htons v) mem) = v"
  "off + 4 \<le> length mem \<Longrightarrow> get32 off (put off (htonl w) mem) = w"
  by (simp_all add: get16_def get32_def put_def)

lemma get16_put_other [simp]:
  "off + length bs \<le> length mem \<Longrightarrow> a + 2 \<le> off \<or> off + length bs \<le> a \<Longrightarrow> get16 a (put off bs mem) = get16 a mem"
  by (simp add: get16_def take_drop_put_other)

lemma get32_put_other [simp]:
  "off + length bs \<le> length mem \<Longrightarrow> a + 4 \<le> off \<or> off + length bs \<le> a \<Longrightarrow> get32 a (put off bs mem) = get32 a mem"
  by (simp add: get32_def take_drop_put_other)

section \<open>Force feedback effects\<close>

abbreviation (input) FF_RUMBLE :: u16 where "FF_RUMBLE \<equiv> 0x50"
abbreviation (input) FF_PERIODIC :: u16 where "FF_PERIODIC \<equiv> 0x51"
abbreviation (input) FF_CONSTANT :: u16 where "FF_CONSTANT \<equiv> 0x52"
abbreviation (input) FF_SPRING :: u16 where "FF_SPRING \<equiv> 0x53"
abbreviation (input) FF_FRICTION :: u16 where "FF_FRICTION \<equiv> 0x54"
abbreviation (input) FF_DAMPER :: u16 where "FF_DAMPER \<equiv> 0x55"
abbreviation (input) FF_INERTIA :: u16 where "FF_INERTIA \<equiv> 0x56"
abbreviation (input) FF_RAMP :: u16 where "FF_RAMP \<equiv> 0x57"

record ff_envelope =
  attack_length :: u16
  attack_level :: u16
  fade_length :: u16
  fade_level :: u16

record ff_condition =
  right_saturation :: u16
  left_saturation :: u16
  right_coeff :: u16
  left_coeff :: u16
  deadband :: u16
  center :: u16

text \<open>Constant: level and envelope. Ramp: start and end level, envelope. Periodic: waveform, period, magnitude,
  offset, phase, envelope. Conditions: one for each axis. Rumble: strong and weak magnitude.\<close>

datatype ff_union =
    Constant u16 ff_envelope
  | Ramp u16 u16 ff_envelope
  | Periodic u16 u16 u16 u16 u16 ff_envelope
  | Condition ff_condition ff_condition
  | Rumble u16 u16

record ff_effect =
  ff_type :: u16
  ff_id :: u16
  direction :: u16
  trigger_button :: u16
  trigger_interval :: u16
  replay_length :: u16
  replay_delay :: u16
  ff_u :: ff_union

abbreviation (input) FF_EFFECT_SIZE :: nat where "FF_EFFECT_SIZE \<equiv> 38"

definition hton_ff_envelope :: "nat \<Rightarrow> ff_envelope \<Rightarrow> byte list \<Rightarrow> byte list" where
  "hton_ff_envelope off host net =
     (let net = put off (htons (attack_length host)) net;
          net = put (off + 2) (htons (attack_level host)) net;
          net = put (off + 4) (htons (fade_length host)) net
      in put (off + 6) (htons (fade_level host)) net)"

definition ntoh_ff_envelope :: "nat \<Rightarrow> byte list \<Rightarrow> ff_envelope" where
  "ntoh_ff_envelope off net =
     \<lparr>attack_length = get16 off net, attack_level = get16 (off + 2) net,
      fade_length = get16 (off + 4) net, fade_level = get16 (off + 6) net\<rparr>"

definition hton_condition :: "nat \<Rightarrow> ff_condition \<Rightarrow> byte list \<Rightarrow> byte list" where
  "hton_condition off host net =
     (let net = put off (htons (right_saturation host)) net;
          net = put (off + 2) (htons (left_saturation host)) net;
          net = put (off + 4) (htons (right_coeff host)) net;
          net = put (off + 6) (htons (left_coeff host)) net;
          net = put (off + 8) (htons (deadband host)) net
      in put (off + 10) (htons (center host)) net)"

definition ntoh_condition :: "nat \<Rightarrow> byte list \<Rightarrow> ff_condition" where
  "ntoh_condition off net =
     \<lparr>right_saturation = get16 off net, left_saturation = get16 (off + 2) net,
      right_coeff = get16 (off + 4) net, left_coeff = get16 (off + 6) net,
      deadband = get16 (off + 8) net, center = get16 (off + 10) net\<rparr>"

text \<open>The fields that every effect has.\<close>

definition hton_ff_header :: "ff_effect \<Rightarrow> byte list \<Rightarrow> byte list" where
  "hton_ff_header host net =
     (let net = put 0 (htons (ff_type host)) net;
          net = put 2 (htons (ff_id host)) net;
          net = put 4 (htons (direction host)) net;
          net = put 6 (htons (trigger_button host)) net;
          net = put 8 (htons (trigger_interval host)) net;
          net = put 10 (htons (replay_length host)) net
      in put 12 (htons (replay_delay host)) net)"

text \<open>The switch on the type. A union whose last written member is not the one that the type selects is stored as
  \<^verbatim>\<open>net\<close> was: the input layer fills in the member of the type.\<close>

definition hton_ff_effect :: "ff_effect \<Rightarrow> byte list \<Rightarrow> byte list" where
  "hton_ff_effect host net =
     (let net = hton_ff_header host net
      in if ff_type host = FF_CONSTANT then
           (case ff_u host of Constant level envelope \<Rightarrow>
              hton_ff_envelope 16 envelope (put 14 (htons level) net) | _ \<Rightarrow> net)
         else if ff_type host = FF_RAMP then
           (case ff_u host of Ramp start_level end_level envelope \<Rightarrow>
              hton_ff_envelope 18 envelope (put 16 (htons end_level) (put 14 (htons start_level) net)) | _ \<Rightarrow> net)
         else if ff_type host = FF_PERIODIC then
           (case ff_u host of Periodic waveform period magnitude offset phase envelope \<Rightarrow>
              hton_ff_envelope 24 envelope (put 22 (htons phase) (put 20 (htons offset) (put 18 (htons magnitude)
                (put 16 (htons period) (put 14 (htons waveform) net))))) | _ \<Rightarrow> net)
         else if ff_type host = FF_SPRING \<or> ff_type host = FF_FRICTION then
           (case ff_u host of Condition c0 c1 \<Rightarrow> hton_condition 26 c1 (hton_condition 14 c0 net) | _ \<Rightarrow> net)
         else if ff_type host = FF_RUMBLE then
           (case ff_u host of Rumble strong_magnitude weak_magnitude \<Rightarrow>
              put 16 (htons weak_magnitude) (put 14 (htons strong_magnitude) net) | _ \<Rightarrow> net)
         else net)"

definition ntoh_ff_effect :: "byte list \<Rightarrow> ff_effect \<Rightarrow> ff_effect" where
  "ntoh_ff_effect net host =
     (let host = host\<lparr>ff_type := get16 0 net, ff_id := get16 2 net, direction := get16 4 net,
                      trigger_button := get16 6 net, trigger_interval := get16 8 net,
                      replay_length := get16 10 net, replay_delay := get16 12 net\<rparr>
      in if ff_type host = FF_CONSTANT then
           host\<lparr>ff_u := Constant (get16 14 net) (ntoh_ff_envelope 16 net)\<rparr>
         else if ff_type host = FF_RAMP then
           host\<lparr>ff_u := Ramp (get16 14 net) (get16 16 net) (ntoh_ff_envelope 18 net)\<rparr>
         else if ff_type host = FF_PERIODIC then
           host\<lparr>ff_u := Periodic (get16 14 net) (get16 16 net) (get16 18 net) (get16 20 net) (get16 22 net)
                  (ntoh_ff_envelope 24 net)\<rparr>
         else if ff_type host = FF_SPRING \<or> ff_type host = FF_FRICTION then
           host\<lparr>ff_u := Condition (ntoh_condition 14 net) (ntoh_condition 26 net)\<rparr>
         else if ff_type host = FF_RUMBLE then host\<lparr>ff_u := Rumble (get16 14 net) (get16 16 net)\<rparr>
         else host)"

section \<open>Events, identities and axes\<close>

record input_event =
  tv_sec :: u32
  tv_usec :: u32
  ev_type :: u16
  ev_code :: u16
  ev_value :: u32

record input_id =
  bustype :: u16
  vendor :: u16
  product :: u16
  version :: u16

record input_absinfo =
  abs_value :: u32
  minimum :: u32
  maximum :: u32
  fuzz :: u32
  flat :: u32

definition hton_input_event :: "input_event \<Rightarrow> byte list \<Rightarrow> byte list" where
  "hton_input_event host net =
     (let net = put 0 (htonl (tv_sec host)) net;
          net = put 4 (htonl (tv_usec host)) net;
          net = put 8 (htonl (ev_value host)) net;
          net = put 12 (htons (ev_type host)) net
      in put 14 (htons (ev_code host)) net)"

definition ntoh_input_event :: "byte list \<Rightarrow> input_event" where
  "ntoh_input_event net =
     \<lparr>tv_sec = get32 0 net, tv_usec = get32 4 net, ev_type = get16 12 net, ev_code = get16 14 net,
      ev_value = get32 8 net\<rparr>"

definition ntoh_input_id :: "byte list \<Rightarrow> input_id" where
  "ntoh_input_id net = \<lparr>bustype = get16 0 net, vendor = get16 2 net, product = get16 4 net, version = get16 6 net\<rparr>"

definition hton_input_id :: "u16 list \<Rightarrow> byte list \<Rightarrow> byte list" where
  "hton_input_id host net =
     (let net = put 0 (htons (host ! 0)) net;
          net = put 2 (htons (host ! 1)) net;
          net = put 4 (htons (host ! 2)) net
      in put 6 (htons (host ! 3)) net)"

definition hton_input_absinfo :: "input_absinfo \<Rightarrow> int \<Rightarrow> byte list \<Rightarrow> byte list" where
  "hton_input_absinfo host axis net =
     (let net = put 0 (htonl (word_of_int axis)) net;
          net = put 4 (htonl (maximum host)) net;
          net = put 8 (htonl (minimum host)) net;
          net = put 12 (htonl (fuzz host)) net
      in put 16 (htonl (flat host)) net)"

section \<open>Round trips\<close>

lemma envelope_length [simp]: "off + 8 \<le> length net \<Longrightarrow> length (hton_ff_envelope off e net) = length net"
  by (simp add: hton_ff_envelope_def Let_def)

lemma condition_length [simp]: "off + 12 \<le> length net \<Longrightarrow> length (hton_condition off c net) = length net"
  by (simp add: hton_condition_def Let_def)

lemma envelope_other [simp]:
  "off + 8 \<le> length net \<Longrightarrow> a + 2 \<le> off \<Longrightarrow> get16 a (hton_ff_envelope off e net) = get16 a net"
  by (simp add: hton_ff_envelope_def Let_def)

lemma condition_other [simp]:
  "off + 12 \<le> length net \<Longrightarrow> a + 2 \<le> off \<Longrightarrow> get16 a (hton_condition off c net) = get16 a net"
  by (simp add: hton_condition_def Let_def)

lemma envelope_roundtrip [simp]: "off + 8 \<le> length net \<Longrightarrow> ntoh_ff_envelope off (hton_ff_envelope off e net) = e"
  by (simp add: hton_ff_envelope_def ntoh_ff_envelope_def Let_def)

lemma condition_roundtrip [simp]: "off + 12 \<le> length net \<Longrightarrow> ntoh_condition off (hton_condition off c net) = c"
  by (simp add: hton_condition_def ntoh_condition_def Let_def)

lemma condition_below [simp]:
  "off + 12 \<le> length net \<Longrightarrow> a + 12 \<le> off \<Longrightarrow> ntoh_condition a (hton_condition off c net) = ntoh_condition a net"
  by (simp add: ntoh_condition_def)

lemma header_fields_of [simp]:
  assumes "length net = 38"
  shows "length (hton_ff_header e net) = 38" "get16 0 (hton_ff_header e net) = ff_type e"
    "get16 2 (hton_ff_header e net) = ff_id e" "get16 4 (hton_ff_header e net) = direction e"
    "get16 6 (hton_ff_header e net) = trigger_button e" "get16 8 (hton_ff_header e net) = trigger_interval e"
    "get16 10 (hton_ff_header e net) = replay_length e" "get16 12 (hton_ff_header e net) = replay_delay e"
  using assms by (simp_all add: hton_ff_header_def Let_def)

text \<open>An effect whose union holds the member that its type selects.\<close>

fun well_tagged :: "ff_effect \<Rightarrow> bool" where
  "well_tagged e \<longleftrightarrow>
     (case ff_u e of
        Constant _ _ \<Rightarrow> ff_type e = FF_CONSTANT
      | Ramp _ _ _ \<Rightarrow> ff_type e = FF_RAMP
      | Periodic _ _ _ _ _ _ \<Rightarrow> ff_type e = FF_PERIODIC
      | Condition _ _ \<Rightarrow> ff_type e \<in> {FF_SPRING, FF_FRICTION}
      | Rumble _ _ \<Rightarrow> ff_type e = FF_RUMBLE)"

lemma hton_ff_effect_length [simp]: "length net = 38 \<Longrightarrow> length (hton_ff_effect e net) = 38"
  by (simp add: hton_ff_effect_def Let_def split: ff_union.split)

lemma event_length [simp]: "length net = 16 \<Longrightarrow> length (hton_input_event ev net) = 16"
  by (simp add: hton_input_event_def Let_def)

lemma id_length [simp]: "length net = 8 \<Longrightarrow> length (hton_input_id h net) = 8"
  by (simp add: hton_input_id_def Let_def)

lemma absinfo_length [simp]: "length net = 20 \<Longrightarrow> length (hton_input_absinfo h axis net) = 20"
  by (simp add: hton_input_absinfo_def Let_def)

lemma event_roundtrip: "length net = 16 \<Longrightarrow> ntoh_input_event (hton_input_event ev net) = ev"
  by (simp add: ntoh_input_event_def hton_input_event_def Let_def)

lemma id_roundtrip:
  "length net = 8 \<Longrightarrow> ntoh_input_id (hton_input_id [b, v, p, w] net) =
     \<lparr>bustype = b, vendor = v, product = p, version = w\<rparr>"
  by (simp add: ntoh_input_id_def hton_input_id_def Let_def)

lemma absinfo_fields:
  assumes "length net = 20"
  shows "get32 0 (hton_input_absinfo h axis net) = word_of_int axis"
    "get32 4 (hton_input_absinfo h axis net) = maximum h" "get32 8 (hton_input_absinfo h axis net) = minimum h"
    "get32 12 (hton_input_absinfo h axis net) = fuzz h" "get32 16 (hton_input_absinfo h axis net) = flat h"
  using assms by (simp_all add: hton_input_absinfo_def Let_def)

lemma ff_effect_trip:
  assumes "well_tagged e" "length net = 38"
  shows "ntoh_ff_effect (hton_ff_effect e net) host = e"
proof (cases "ff_u e")
  case (Constant l env)
  have "hton_ff_effect e net = hton_ff_envelope 16 env (put 14 (htons l) (hton_ff_header e net))"
    using assms(1) Constant by (simp add: hton_ff_effect_def Let_def)
  then show ?thesis
    using assms Constant by (intro ff_effect.equality) (simp_all add: ntoh_ff_effect_def Let_def)
next
  case (Ramp a b env)
  have "hton_ff_effect e net =
      hton_ff_envelope 18 env (put 16 (htons b) (put 14 (htons a) (hton_ff_header e net)))"
    using assms(1) Ramp by (simp add: hton_ff_effect_def Let_def)
  then show ?thesis
    using assms Ramp by (intro ff_effect.equality) (simp_all add: ntoh_ff_effect_def Let_def)
next
  case (Periodic a b c d f env)
  have "hton_ff_effect e net = hton_ff_envelope 24 env (put 22 (htons f) (put 20 (htons d) (put 18 (htons c)
      (put 16 (htons b) (put 14 (htons a) (hton_ff_header e net))))))"
    using assms(1) Periodic by (simp add: hton_ff_effect_def Let_def)
  then show ?thesis
    using assms Periodic by (intro ff_effect.equality) (simp_all add: ntoh_ff_effect_def Let_def)
next
  case (Condition c0 c1)
  have "hton_ff_effect e net = hton_condition 26 c1 (hton_condition 14 c0 (hton_ff_header e net))"
    using assms(1) Condition by (auto simp: hton_ff_effect_def Let_def)
  moreover have "ff_type e = FF_SPRING \<or> ff_type e = FF_FRICTION" using assms(1) Condition by simp
  ultimately show ?thesis
    using assms Condition by (intro ff_effect.equality) (auto simp: ntoh_ff_effect_def Let_def)
next
  case (Rumble s w)
  have "hton_ff_effect e net = put 16 (htons w) (put 14 (htons s) (hton_ff_header e net))"
    using assms(1) Rumble by (simp add: hton_ff_effect_def Let_def)
  then show ?thesis
    using assms Rumble by (intro ff_effect.equality) (simp_all add: ntoh_ff_effect_def Let_def)
qed

section \<open>Properties\<close>

text \<open>Force feedback effects survive the network: every constant, ramp, periodic, spring, friction or rumble effect
  converted by \<^verbatim>\<open>hton_ff_effect\<close> into any 38 bytes of memory and back by \<^verbatim>\<open>ntoh_ff_effect\<close> into any effect
  is the effect it was.\<close>

lemma ff_effect_roundtrip:
  assumes "well_tagged e" "length net = 38"
  shows "ntoh_ff_effect (hton_ff_effect e net) host = e"
  by (rule ff_effect_trip [OF assms])

lemma ff_effect_roundtrip_witness:
  "ntoh_ff_effect (hton_ff_effect \<lparr>ff_type = FF_RUMBLE, ff_id = 0xFFFF, direction = 0x4000, trigger_button = 0,
     trigger_interval = 0, replay_length = 500, replay_delay = 0, ff_u = Rumble 0x8000 0xC000\<rparr> (replicate 38 0))
     \<lparr>ff_type = 0, ff_id = 0, direction = 0, trigger_button = 0, trigger_interval = 0, replay_length = 0, replay_delay = 0,
       ff_u = Rumble 0 0\<rparr> =
   \<lparr>ff_type = FF_RUMBLE, ff_id = 0xFFFF, direction = 0x4000, trigger_button = 0,
     trigger_interval = 0, replay_length = 500, replay_delay = 0, ff_u = Rumble 0x8000 0xC000\<rparr>"
  by (rule ff_effect_roundtrip) simp_all

end
