(* ===== verification/Ipipe_Server.thy ===== *)
theory Ipipe_Server
  imports Ipipe_Convert
begin

text \<open>
  The inputpipe server's side of one client (\<^verbatim>\<open>inputpipe/src/server.c\<close>): what every packet received from
  the network does to \<^verbatim>\<open>struct client\<close> and to its uinput device, the events that go back, and the polling of
  a client. The uinput device is the log of the writes and ioctls made on it; their results are taken from
  \<open>ui_results\<close> (success when the list is used up). \<^term>\<open>None\<close> is undefined behaviour: an index outside an
  array, or signed overflow.
\<close>

section \<open>The uinput device\<close>

abbreviation (input) ABS_MAX :: int where "ABS_MAX \<equiv> 0x3f"
abbreviation (input) UINPUT_MAX_NAME_SIZE :: nat where "UINPUT_MAX_NAME_SIZE \<equiv> 80"

record uinput_user_dev =
  name :: "byte list"
  dev_id :: input_id
  ff_effects_max :: int
  absmax :: "int list"
  absmin :: "int list"
  absfuzz :: "int list"
  absflat :: "int list"

datatype bit_ioctl = UI_SET_EVBIT | UI_SET_KEYBIT | UI_SET_RELBIT | UI_SET_ABSBIT | UI_SET_MSCBIT | UI_SET_LEDBIT
  | UI_SET_SNDBIT | UI_SET_FFBIT

datatype uinput_op =
    WriteEvent input_event
  | WriteDevice uinput_user_dev
  | SetPhys "byte list"
  | SetBit bit_ioctl nat
  | DevCreate
  | EndUpload u32 u32 ff_effect
  | EndErase u32 u32

record client =
  uinput :: "uinput_op list"
  ui_results :: "int list"
  device_created :: bool
  dev_info :: uinput_user_dev
  ev_syn_bit :: bool
  addr_ip :: "byte list"
  addr_port :: u16
  socket :: packet_socket

definition ui :: "uinput_op \<Rightarrow> client \<Rightarrow> int \<times> client" where
  "ui q self =
     ((case ui_results self of [] \<Rightarrow> 0 | r # _ \<Rightarrow> r),
      self\<lparr>uinput := uinput self @ [q], ui_results := tl (ui_results self)\<rparr>)"

section \<open>Addresses and physical paths\<close>

text \<open>\<^verbatim>\<open>%d\<close> of a number that is not negative.\<close>

fun decimal :: "nat \<Rightarrow> byte list" where
  "decimal n = (if n < 10 then [of_nat (0x30 + n)] else decimal (n div 10) @ [of_nat (0x30 + n mod 10)])"

declare decimal.simps [simp del]

definition client_format_addr :: "client \<Rightarrow> byte list" where
  "client_format_addr self =
     decimal (unat (addr_ip self ! 0)) @ [0x2E] @ decimal (unat (addr_ip self ! 1)) @ [0x2E] @
     decimal (unat (addr_ip self ! 2)) @ [0x2E] @ decimal (unat (addr_ip self ! 3)) @ [0x3A] @
     decimal (unat (addr_port self))"

text \<open>\<^verbatim>\<open>ipipe://\<close>.\<close>

definition phys_prefix :: "byte list" where
  "phys_prefix = [0x69, 0x70, 0x69, 0x70, 0x65, 0x3A, 0x2F, 0x2F]"

text \<open>\<^verbatim>\<open>snprintf\<close> cuts what it stores at 1023 characters but returns the full length; past that the copy would
  leave the buffer.\<close>

definition client_set_phys :: "byte list \<Rightarrow> client \<Rightarrow> client option" where
  "client_set_phys content self =
     (let prefix = phys_prefix @ client_format_addr self @ [0x2F];
          prefix_len = length prefix;
          copy_len = 1024 - int prefix_len - 1;
          copy_len = (if copy_len > int (length content) then int (length content) else copy_len)
      in if copy_len < 0 then None
         else Some (snd (ui (SetPhys (prefix @ take (nat copy_len) content)) self)))"

section \<open>Packets\<close>

abbreviation (input) IPIPE_EVENT :: u16 where "IPIPE_EVENT \<equiv> 0x0101"
abbreviation (input) IPIPE_DEVICE_NAME :: u16 where "IPIPE_DEVICE_NAME \<equiv> 0x0201"
abbreviation (input) IPIPE_DEVICE_ID :: u16 where "IPIPE_DEVICE_ID \<equiv> 0x0202"
abbreviation (input) IPIPE_DEVICE_FF_EFFECTS_MAX :: u16 where "IPIPE_DEVICE_FF_EFFECTS_MAX \<equiv> 0x0203"
abbreviation (input) IPIPE_DEVICE_ABSINFO :: u16 where "IPIPE_DEVICE_ABSINFO \<equiv> 0x0204"
abbreviation (input) IPIPE_DEVICE_BITS :: u16 where "IPIPE_DEVICE_BITS \<equiv> 0x0205"
abbreviation (input) IPIPE_DEVICE_PHYS :: u16 where "IPIPE_DEVICE_PHYS \<equiv> 0x0206"
abbreviation (input) IPIPE_CREATE :: u16 where "IPIPE_CREATE \<equiv> 0x0301"
abbreviation (input) IPIPE_UPLOAD_EFFECT :: u16 where "IPIPE_UPLOAD_EFFECT \<equiv> 0x0401"
abbreviation (input) IPIPE_ERASE_EFFECT :: u16 where "IPIPE_ERASE_EFFECT \<equiv> 0x0402"
abbreviation (input) IPIPE_UPLOAD_EFFECT_RESPONSE :: u16 where "IPIPE_UPLOAD_EFFECT_RESPONSE \<equiv> 0x0403"
abbreviation (input) IPIPE_ERASE_EFFECT_RESPONSE :: u16 where "IPIPE_ERASE_EFFECT_RESPONSE \<equiv> 0x0404"

abbreviation (input) EV_SYN :: u16 where "EV_SYN \<equiv> 0x00"
abbreviation (input) EV_KEY :: u16 where "EV_KEY \<equiv> 0x01"
abbreviation (input) EV_REL :: u16 where "EV_REL \<equiv> 0x02"
abbreviation (input) EV_ABS :: u16 where "EV_ABS \<equiv> 0x03"
abbreviation (input) EV_MSC :: u16 where "EV_MSC \<equiv> 0x04"
abbreviation (input) EV_LED :: u16 where "EV_LED \<equiv> 0x11"
abbreviation (input) EV_SND :: u16 where "EV_SND \<equiv> 0x12"
abbreviation (input) EV_REP :: u16 where "EV_REP \<equiv> 0x14"
abbreviation (input) EV_FF :: u16 where "EV_FF \<equiv> 0x15"
abbreviation (input) EV_UINPUT :: u16 where "EV_UINPUT \<equiv> 0x0101"

definition received_event :: "byte list \<Rightarrow> client \<Rightarrow> client" where
  "received_event content self =
     (if length content \<noteq> 16 then self
      else if \<not> device_created self then self
      else
        let ev = ntoh_input_event content;
            self = snd (ui (WriteEvent ev) self)
        in if \<not> ev_syn_bit self
           then snd (ui (WriteEvent (ev\<lparr>ev_type := EV_SYN, ev_code := 0, ev_value := 0\<rparr>)) self)
           else self)"

definition received_name :: "byte list \<Rightarrow> client \<Rightarrow> client" where
  "received_name content self =
     (let len = (if length content \<ge> UINPUT_MAX_NAME_SIZE then UINPUT_MAX_NAME_SIZE - 1 else length content);
          n = overlay (take len content) (name (dev_info self));
          n = n[len := 0]
      in self\<lparr>dev_info := (dev_info self)\<lparr>name := n\<rparr>\<rparr>)"

text \<open>An element of a 64-element array; other indices are outside it.\<close>

definition set_at :: "int \<Rightarrow> int \<Rightarrow> int list \<Rightarrow> int list option" where
  "set_at i v xs = (if 0 \<le> i \<and> i < int (length xs) then Some (xs[nat i := v]) else None)"

text \<open>The last part of \<^verbatim>\<open>IPIPE_DEVICE_ABSINFO\<close>: ranges that the device creation would refuse are mended.\<close>

definition mend_absinfo :: "nat \<Rightarrow> uinput_user_dev \<Rightarrow> uinput_user_dev option" where
  "mend_absinfo axis d = do {
     least \<leftarrow> c_add (absmin d ! axis) 2;
     let d = (if absmax d ! axis < least then d\<lparr>absmax := (absmax d)[axis := least]\<rparr> else d);
     d \<leftarrow> (if absflat d ! axis \<le> absmin d ! axis then do {
              v \<leftarrow> c_add (absmin d ! axis) 1;
              Some (d\<lparr>absflat := (absflat d)[axis := v]\<rparr>) }
            else Some d);
     if absflat d ! axis \<ge> absmax d ! axis then do {
       v \<leftarrow> c_sub (absmax d ! axis) 1;
       Some (d\<lparr>absflat := (absflat d)[axis := v]\<rparr>) }
     else Some d
   }"

definition received_absinfo :: "byte list \<Rightarrow> client \<Rightarrow> client option" where
  "received_absinfo content self =
     (if length content \<noteq> 20 then Some self
      else
        let axis = sint (get32 0 content) in
        if axis > ABS_MAX then Some self
        else do {
          let d = dev_info self;
          mx \<leftarrow> set_at axis (sint (get32 4 content)) (absmax d);
          mn \<leftarrow> set_at axis (sint (get32 8 content)) (absmin d);
          fz \<leftarrow> set_at axis (sint (get32 12 content)) (absfuzz d);
          fl \<leftarrow> set_at axis (sint (get32 16 content)) (absflat d);
          d \<leftarrow> mend_absinfo (nat axis) (d\<lparr>absmax := mx, absmin := mn, absfuzz := fz, absflat := fl\<rparr>);
          Some (self\<lparr>dev_info := d\<rparr>)
        })"

fun bits_ioctl :: "u16 \<Rightarrow> bit_ioctl option" where
  "bits_ioctl ev =
     (if ev = 0 then Some UI_SET_EVBIT
      else if ev = EV_KEY then Some UI_SET_KEYBIT
      else if ev = EV_REL then Some UI_SET_RELBIT
      else if ev = EV_ABS then Some UI_SET_ABSBIT
      else if ev = EV_MSC then Some UI_SET_MSCBIT
      else if ev = EV_LED then Some UI_SET_LEDBIT
      else if ev = EV_SND then Some UI_SET_SNDBIT
      else if ev = EV_FF then Some UI_SET_FFBIT
      else None)"

text \<open>The inner loop, over the 8 bits of a byte, and the outer one, over the bytes.\<close>

fun unpack_byte :: "u16 \<Rightarrow> bit_ioctl \<Rightarrow> nat \<Rightarrow> byte \<Rightarrow> nat \<Rightarrow> client \<Rightarrow> client" where
  "unpack_byte ev ioc 0 b bt self = self"
| "unpack_byte ev ioc (Suc j) b bt self =
     (let bit_value = (b AND 1 \<noteq> 0);
          self = (if ev = 0 \<and> bt = unat EV_SYN then self\<lparr>ev_syn_bit := bit_value\<rparr> else self);
          self = (if bit_value then snd (ui (SetBit ioc bt) self) else self)
      in unpack_byte ev ioc j (drop_bit 1 b) (bt + 1) self)"

fun unpack_bits :: "u16 \<Rightarrow> bit_ioctl \<Rightarrow> byte list \<Rightarrow> nat \<Rightarrow> client \<Rightarrow> client" where
  "unpack_bits ev ioc [] bt self = self"
| "unpack_bits ev ioc (b # bs) bt self = unpack_bits ev ioc bs (bt + 8) (unpack_byte ev ioc 8 b bt self)"

definition received_bits :: "byte list \<Rightarrow> client \<Rightarrow> client" where
  "received_bits content self =
     (if length content < 2 then self
      else
        let ev = get16 0 content in
        case bits_ioctl ev of
          None \<Rightarrow> self
        | Some ioc \<Rightarrow> unpack_bits ev ioc (drop 2 content) 0 self)"

definition received_create :: "client \<Rightarrow> client" where
  "received_create self =
     (if device_created self then self
      else
        let (write_res, self) = ui (WriteDevice (dev_info self)) self;
            (ioctl_res, self) = ui DevCreate self
        in if write_res < 0 \<or> ioctl_res < 0 then self else self\<lparr>device_created := True\<rparr>)"

text \<open>\<open>garbage\<close> is the effect on the stack before \<^verbatim>\<open>ntoh_ff_effect\<close> fills it in.\<close>

definition client_received_packet :: "ff_effect \<Rightarrow> u16 \<Rightarrow> byte list \<Rightarrow> client \<Rightarrow> client option" where
  "client_received_packet garbage type content self =
     (if type = IPIPE_EVENT then Some (received_event content self)
      else if type = IPIPE_DEVICE_NAME then Some (received_name content self)
      else if type = IPIPE_DEVICE_PHYS then client_set_phys content self
      else if type = IPIPE_DEVICE_ID then
        Some (if length content \<noteq> 8 then self
              else self\<lparr>dev_info := (dev_info self)\<lparr>dev_id := ntoh_input_id content\<rparr>\<rparr>)
      else if type = IPIPE_DEVICE_FF_EFFECTS_MAX then
        Some (if length content \<noteq> 4 then self
              else self\<lparr>dev_info := (dev_info self)\<lparr>ff_effects_max := sint (get32 0 content)\<rparr>\<rparr>)
      else if type = IPIPE_DEVICE_ABSINFO then received_absinfo content self
      else if type = IPIPE_DEVICE_BITS then Some (received_bits content self)
      else if type = IPIPE_CREATE then Some (received_create self)
      else if type = IPIPE_UPLOAD_EFFECT_RESPONSE then
        Some (if length content \<noteq> 48 then self
              else snd (ui (EndUpload (get32 0 content) (get32 4 content)
                     (ntoh_ff_effect (take 38 (drop 8 content)) garbage)) self))
      else if type = IPIPE_ERASE_EFFECT_RESPONSE then
        Some (if length content \<noteq> 8 then self
              else snd (ui (EndErase (get32 0 content) (get32 4 content)) self))
      else Some self)"

section \<open>Events from the applications\<close>

text \<open>What the kernel answers to \<^verbatim>\<open>UI_BEGIN_FF_UPLOAD\<close> or \<^verbatim>\<open>UI_BEGIN_FF_ERASE\<close>: the result of the ioctl,
  the effect or its number; \<open>stack\<close> is the memory of the packet before it is filled in.\<close>

definition client_received_event :: "int \<Rightarrow> ff_effect \<Rightarrow> u16 \<Rightarrow> byte list \<Rightarrow> input_event \<Rightarrow> client \<Rightarrow> client option" where
  "client_received_event begin_res effect effect_id stack ev self =
     (if ev_type ev = EV_UINPUT then
        (if ev_code ev = 1 \<and> begin_res < 0 \<or> ev_code ev = 2 \<and> begin_res < 0 then Some self
         else do {
           s \<leftarrow> (if ev_code ev = 1 then
                    packet_socket_write IPIPE_UPLOAD_EFFECT
                      (htonl (ev_value ev) @ hton_ff_effect effect (take 38 (drop 4 stack)) @ take 2 (drop 42 stack))
                      (socket self)
                  else if ev_code ev = 2 then
                    packet_socket_write IPIPE_ERASE_EFFECT
                      (htonl (ev_value ev) @ htons effect_id @ take 2 (drop 6 stack)) (socket self)
                  else Some (socket self));
           Some (self\<lparr>socket := packet_socket_flush s\<rparr>)
         })
      else do {
        s \<leftarrow> packet_socket_write IPIPE_EVENT (hton_input_event ev (take 16 stack)) (socket self);
        Some (self\<lparr>socket := packet_socket_flush s\<rparr>)
      })"

section \<open>Clients\<close>

definition empty_dev :: uinput_user_dev where
  "empty_dev = \<lparr>name = replicate 80 0, dev_id = \<lparr>bustype = 0, vendor = 0, product = 0, version = 0\<rparr>,
     ff_effects_max = 0, absmax = replicate 64 0, absmin = replicate 64 0, absfuzz = replicate 64 0,
     absflat = replicate 64 0\<rparr>"

text \<open>\<open>opened\<close>: uinput can be opened. The default path is \<^verbatim>\<open>unknown\<close> with its terminating 0.\<close>

definition client_new :: "byte list \<Rightarrow> u16 \<Rightarrow> bool \<Rightarrow> int list \<Rightarrow> client option option" where
  "client_new ip port opened results =
     (let self = \<lparr>uinput = [], ui_results = results, device_created = False, dev_info = empty_dev,
            ev_syn_bit = False, addr_ip = ip, addr_port = port, socket = packet_socket_new\<rparr>
      in if \<not> opened then Some None
         else map_option Some (client_set_phys [0x75, 0x6E, 0x6B, 0x6E, 0x6F, 0x77, 0x6E, 0] self))"

text \<open>The receive loop of \<^verbatim>\<open>client_poll\<close>; \<open>fuel\<close> bounds the packets.\<close>

fun client_loop :: "ff_effect \<Rightarrow> nat \<Rightarrow> client \<Rightarrow> client option" where
  "client_loop garbage 0 self = Some self"
| "client_loop garbage (Suc fuel) self =
     (case packet_socket_read (socket self) of
        (type, content, s) \<Rightarrow>
          let self = self\<lparr>socket := s\<rparr> in
          if type = 0 then Some self
          else Option.bind (client_received_packet garbage type content self) (client_loop garbage fuel))"

text \<open>\<open>event\<close>: what was read from the uinput device, with the answers for it. \<open>news\<close>: the bytes that have arrived, and
  whether the peer has hung up. The result is \<open>None\<close> inside when the client removes itself.\<close>

definition client_poll :: "ff_effect \<Rightarrow> (int \<times> ff_effect \<times> u16 \<times> byte list \<times> input_event) option \<Rightarrow>
    (byte list \<times> bool) option \<Rightarrow> client \<Rightarrow> client option option" where
  "client_poll garbage event news self = do {
     self \<leftarrow> (case event of
         None \<Rightarrow> Some self
       | Some (r, effect, effect_id, stack, ev) \<Rightarrow> client_received_event r effect effect_id stack ev self);
     case news of
       None \<Rightarrow> Some (Some self)
     | Some (bytes, hup) \<Rightarrow> do {
         let self = self\<lparr>socket := (socket self)\<lparr>arrived := arrived (socket self) @ bytes, hung_up := hup\<rparr>\<rparr>;
         self \<leftarrow> client_loop garbage (Suc (length (arrived (socket self)))) self;
         Some (if at_eof (socket self) then None else Some self)
       }
   }"

end
