(* ===== verification/Ipipe_Client.thy ===== *)
theory Ipipe_Client
  imports Ipipe_Server
begin

text \<open>
  The inputpipe client (\<^verbatim>\<open>inputpipe/src/client.c\<close>): what it sends about an event device when it connects,
  the events it forwards, the packets it takes from the server, and which devices its hotplugging picks. The answers
  of the event device (\<^verbatim>\<open>/dev/input/eventN\<close>) are arguments; what is written to it is logged. A
  \<^verbatim>\<open>long\<close> has 32 bits, and the kernel's bit masks are whole \<^verbatim>\<open>long\<close>s.
\<close>

section \<open>Bit masks\<close>

text \<open>\<^verbatim>\<open>test_bit(nr, addr)\<close>.\<close>

definition test_bit :: "nat \<Rightarrow> u32 list \<Rightarrow> bool" where
  "test_bit nr addr = bit (addr ! (nr div 32)) (nr mod 32)"

fun repack_word :: "nat \<Rightarrow> u32 \<Rightarrow> byte list" where
  "repack_word 0 w = []"
| "repack_word (Suc i) w = ucast w # repack_word i (drop_bit 8 w)"

fun repack_bits :: "u32 list \<Rightarrow> byte list" where
  "repack_bits [] = []"
| "repack_bits (w # src) = repack_word 4 w @ repack_bits src"

definition is_output_event :: "input_event \<Rightarrow> bool" where
  "is_output_event ev \<longleftrightarrow> ev_type ev \<in> {EV_MSC, EV_LED, EV_SND, EV_REP, EV_FF}"

section \<open>Describing a device\<close>

text \<open>What the event device answers: the buffers filled in by \<^verbatim>\<open>EVIOCGNAME\<close> and \<^verbatim>\<open>EVIOCGPHYS\<close> (when the
  ioctl gave a length), the identity, the mask of each event type (none when the ioctl gave no length), the
  description of each axis, the number of effects. \<open>d_stack\<close> is what the packets' memory held before.\<close>

record device =
  d_name :: "byte list option"
  d_phys :: "byte list option"
  d_id :: "u16 list option"
  d_bits :: "nat \<Rightarrow> u32 list"
  d_abs :: "nat \<Rightarrow> input_absinfo"
  d_effects :: "u32 option"
  d_stack :: "byte list"

definition send :: "u16 \<Rightarrow> byte list \<Rightarrow> packet_socket option \<Rightarrow> packet_socket option" where
  "send type content s = Option.bind s (packet_socket_write type content)"

text \<open>\<^verbatim>\<open>strlen\<close> of a buffer of 512 bytes whose last is set to 0.\<close>

definition c_string :: "byte list \<Rightarrow> byte list" where
  "c_string buffer = takeWhile (\<lambda>c. c \<noteq> 0) (take 511 buffer)"

fun send_axes :: "device \<Rightarrow> nat list \<Rightarrow> packet_socket option \<Rightarrow> packet_socket option" where
  "send_axes d [] s = s"
| "send_axes d (axis # axes) s =
     send_axes d axes
       (if bit (d_bits d 3 ! (axis div 32)) (axis mod 32)
        then send IPIPE_DEVICE_ABSINFO (hton_input_absinfo (d_abs d axis) (int axis) (take 20 (d_stack d))) s
        else s)"

fun send_masks :: "device \<Rightarrow> nat list \<Rightarrow> packet_socket option \<Rightarrow> packet_socket option" where
  "send_masks d [] s = s"
| "send_masks d (i # is) s =
     send_masks d is
       (let len = 4 * length (d_bits d i) in
        if len = 0 then s
        else
          let s = send IPIPE_DEVICE_BITS (htons (of_nat i) @ repack_bits (d_bits d i)) s
          in if i = 3 then send_axes d [0..<len * 8] s else s)"

abbreviation (input) EV_MAX :: nat where "EV_MAX \<equiv> 0x1f"

definition evdev_send_metadata :: "device \<Rightarrow> packet_socket \<Rightarrow> packet_socket option" where
  "evdev_send_metadata d s =
     (let s = Some s;
          s = (case d_name d of Some b \<Rightarrow> send IPIPE_DEVICE_NAME (c_string b) s | None \<Rightarrow> s);
          s = (case d_phys d of Some b \<Rightarrow> send IPIPE_DEVICE_PHYS (c_string b) s | None \<Rightarrow> s);
          s = (case d_id d of Some i \<Rightarrow> send IPIPE_DEVICE_ID (hton_input_id i (take 8 (d_stack d))) s | None \<Rightarrow> s);
          s = send_masks d [0..<EV_MAX] s;
          s = (case d_effects d of Some n \<Rightarrow> send IPIPE_DEVICE_FF_EFFECTS_MAX (htonl n) s | None \<Rightarrow> s);
          s = send IPIPE_CREATE [] s
      in map_option packet_socket_flush s)"

section \<open>Events\<close>

text \<open>What a \<^verbatim>\<open>read\<close> of the event device gives.\<close>

datatype evdev_read = ReadAgain | ReadError | ReadEof | ReadShort | ReadEvent input_event

definition evdev_send_event :: "u32 list \<Rightarrow> byte list \<Rightarrow> evdev_read \<Rightarrow> packet_socket \<Rightarrow> (int \<times> packet_socket) option" where
  "evdev_send_event evbits stack r s =
     (case r of
        ReadAgain \<Rightarrow> Some (0, s)
      | ReadError \<Rightarrow> Some (1, s)
      | ReadEof \<Rightarrow> Some (1, s)
      | ReadShort \<Rightarrow> Some (0, s)
      | ReadEvent ev \<Rightarrow>
          let ip_ev = hton_input_event ev (take 16 stack) in
          if is_output_event ev then Some (0, s)
          else do {
            s \<leftarrow> packet_socket_write IPIPE_EVENT ip_ev s;
            Some (0, if test_bit 0 evbits
                     then (if ev_type ev = EV_SYN then packet_socket_flush s else s)
                     else packet_socket_flush s)
          })"

section \<open>Connections\<close>

datatype evdev_op = WriteEv input_event | UploadEffect ff_effect | EraseEffect int

record connection =
  c_socket :: packet_socket
  c_evdev :: "evdev_op list"
  c_evbits :: "u32 list"

text \<open>The LED of an open device that shows whether a connection stands: the number configured, negative for none, and the
  polarity.\<close>

definition connection_set_status_led :: "int \<Rightarrow> int \<Rightarrow> bool \<Rightarrow> connection \<Rightarrow> connection" where
  "connection_set_status_led led polarity connected self =
     (if led \<ge> 0 then
        self\<lparr>c_evdev := c_evdev self @ [WriteEv \<lparr>tv_sec = 0, tv_usec = 0, ev_type = EV_LED, ev_code = word_of_int led,
               ev_value = (if connected then (if polarity \<noteq> 0 then 1 else 0) else (if polarity = 0 then 1 else 0))\<rparr>]\<rparr>
      else self)"

text \<open>\<open>sff\<close> is the event device's answer to \<^verbatim>\<open>EVIOCSFF\<close>: the result, \<^verbatim>\<open>errno\<close> and the effect as the
  driver leaves it; \<open>rmff\<close> its answer to \<^verbatim>\<open>EVIOCRMFF\<close>. \<open>garbage\<close> and \<open>stack\<close> are what the local
  variables held before.\<close>

definition connection_received_packet :: "(ff_effect \<Rightarrow> int \<times> int \<times> ff_effect) \<Rightarrow> (int \<Rightarrow> int) \<Rightarrow> ff_effect \<Rightarrow> byte list
    \<Rightarrow> u16 \<Rightarrow> byte list \<Rightarrow> connection \<Rightarrow> connection option" where
  "connection_received_packet sff rmff garbage stack type content self =
     (if type = IPIPE_EVENT then
        Some (if length content \<noteq> 16 then self
              else
                let ev = ntoh_input_event content in
                if is_output_event ev then self\<lparr>c_evdev := c_evdev self @ [WriteEv ev]\<rparr> else self)
      else if type = IPIPE_UPLOAD_EFFECT then
        (if length content \<noteq> 44 then Some self
         else
           let effect = ntoh_ff_effect (take 38 (drop 4 content)) garbage;
               self = self\<lparr>c_evdev := c_evdev self @ [UploadEffect effect]\<rparr>;
               (retval, errno, effect) = sff effect;
               ret = (if retval < 0 then word_of_int (- errno) else word_of_int retval);
               response = take 4 content @ htonl ret @ hton_ff_effect effect (take 38 (drop 8 stack)) @
                 take 2 (drop 46 stack)
           in do {
             s \<leftarrow> packet_socket_write IPIPE_UPLOAD_EFFECT_RESPONSE response (c_socket self);
             Some (self\<lparr>c_socket := packet_socket_flush s\<rparr>)
           })
      else if type = IPIPE_ERASE_EFFECT then
        (if length content \<noteq> 8 then Some self
         else
           let effect_id = uint (get16 4 content);
               self = self\<lparr>c_evdev := c_evdev self @ [EraseEffect effect_id]\<rparr>;
               response = take 4 content @ htonl (word_of_int (rmff effect_id))
           in do {
             s \<leftarrow> packet_socket_write IPIPE_ERASE_EFFECT_RESPONSE response (c_socket self);
             Some (self\<lparr>c_socket := packet_socket_flush s\<rparr>)
           })
      else Some self)"

fun connection_loop :: "(u16 \<Rightarrow> byte list \<Rightarrow> connection \<Rightarrow> connection option) \<Rightarrow> nat \<Rightarrow> connection \<Rightarrow> connection option" where
  "connection_loop received 0 self = Some self"
| "connection_loop received (Suc fuel) self =
     (case packet_socket_read (c_socket self) of
        (type, content, s) \<Rightarrow>
          let self = self\<lparr>c_socket := s\<rparr> in
          if type = 0 then Some self
          else Option.bind (received type content self) (connection_loop received fuel))"

text \<open>The result is not 0 when the connection is to be deleted.\<close>

definition connection_poll :: "(u16 \<Rightarrow> byte list \<Rightarrow> connection \<Rightarrow> connection option) \<Rightarrow> byte list \<Rightarrow>
    (byte list \<times> bool) option \<Rightarrow> evdev_read \<Rightarrow> connection \<Rightarrow> (int \<times> connection) option" where
  "connection_poll received stack news r self =
     (if news \<noteq> None \<and> at_eof (c_socket self) then Some (1, self)
      else do {
        self \<leftarrow> (case news of
            None \<Rightarrow> Some self
          | Some (bytes, hup) \<Rightarrow>
              let self = self\<lparr>c_socket := (c_socket self)\<lparr>arrived := arrived (c_socket self) @ bytes, hung_up := hup\<rparr>\<rparr>
              in connection_loop received (Suc (length (arrived (c_socket self)))) self);
        (retval, s) \<leftarrow> evdev_send_event (c_evbits self) stack r (c_socket self);
        Some (retval, self\<lparr>c_socket := s\<rparr>)
      })"

section \<open>Hotplugging\<close>

record detect_config =
  config_detect_all :: bool
  config_detect_joystick :: bool
  config_detect_mouse :: bool
  config_detect_keyboard :: bool

text \<open>The masks of event types, keys, relative and absolute axes; none when the ioctl failed.\<close>

definition hotplug_detect :: "detect_config \<Rightarrow> u32 list option \<Rightarrow> u32 list option \<Rightarrow> u32 list option \<Rightarrow> u32 list option
    \<Rightarrow> bool" where
  "hotplug_detect cfg evbits keybits relbits absbits =
     (if config_detect_all cfg then True
      else case (evbits, keybits, relbits, absbits) of
        (Some evbits, Some keybits, Some relbits, Some absbits) \<Rightarrow>
          if config_detect_joystick cfg \<and> test_bit 1 evbits \<and> test_bit 3 evbits \<and> test_bit 0 absbits \<and>
             test_bit 1 absbits \<and> (test_bit 0x120 keybits \<or> test_bit 0x130 keybits \<or> test_bit 0x100 keybits \<or>
             test_bit 0x101 keybits) then True
          else if config_detect_mouse cfg \<and> test_bit 1 evbits \<and> test_bit 2 evbits \<and> test_bit 0 relbits \<and>
             test_bit 1 relbits \<and> test_bit 0x110 keybits then True
          else if config_detect_keyboard cfg \<and> test_bit 1 evbits \<and> \<not> test_bit 2 evbits \<and> \<not> test_bit 3 evbits then True
          else False
      | _ \<Rightarrow> False)"

end
