(* ===== verification/Ipipe_Serve.thy ===== *)
theory Ipipe_Serve
  imports Ipipe_Server
begin

text \<open>
  What the inputpipe server guarantees for one client: which packets it survives, what the capability masks and the
  axis descriptions do, and that its receive loop handles the packets of the stream in order.
\<close>

section \<open>Addresses\<close>

lemma decimal_length: "n < 10 ^ k \<Longrightarrow> 0 < k \<Longrightarrow> length (decimal n) \<le> k"
proof (induction n arbitrary: k rule: decimal.induct)
  case (1 n)
  show ?case
  proof (cases "n < 10")
    case True
    then show ?thesis using 1(3) by (simp add: decimal.simps)
  next
    case False
    then obtain k' where k: "k = Suc k'" "0 < k'" using 1(2,3) by (cases k; cases "k - 1") auto
    then have "n div 10 < 10 ^ k'" using 1(2) by (simp add: div_less_iff_less_mult mult.commute)
    from 1(1) [OF False this k(2)] False k(1) show ?thesis by (subst decimal.simps) simp
  qed
qed

lemma format_addr_length: "length (client_format_addr self) \<le> 21"
proof -
  have b: "length (decimal (unat (w :: byte))) \<le> 3" for w
    using unsigned_less [of w, where ?'a = nat] by (intro decimal_length) simp_all
  have "length (decimal (unat (addr_port self))) \<le> 5"
    using unsigned_less [of "addr_port self", where ?'a = nat] by (intro decimal_length) simp_all
  with b [of "addr_ip self ! 0"] b [of "addr_ip self ! 1"] b [of "addr_ip self ! 2"] b [of "addr_ip self ! 3"]
  show ?thesis by (simp add: client_format_addr_def)
qed

lemma set_phys_total:
  "client_set_phys content self = Some (snd (ui (SetPhys (phys_prefix @ client_format_addr self @ [0x2F] @
     take (1014 - length (client_format_addr self)) content)) self))"
proof -
  have "length (client_format_addr self) \<le> 21" by (rule format_addr_length)
  moreover have "nat (1014 - int k) = 1014 - k" for k by arith
  ultimately show ?thesis by (auto simp: client_set_phys_def Let_def phys_prefix_def)
qed

section \<open>What operations leave alone\<close>

lemma ui_frame [simp, state_frame]:
  "device_created (snd (ui q self)) = device_created self" "dev_info (snd (ui q self)) = dev_info self"
  "ev_syn_bit (snd (ui q self)) = ev_syn_bit self" "socket (snd (ui q self)) = socket self"
  "uinput (snd (ui q self)) = uinput self @ [q]" "addr_ip (snd (ui q self)) = addr_ip self"
  "addr_port (snd (ui q self)) = addr_port self" "ui_results (snd (ui q self)) = tl (ui_results self)"
  by (simp_all add: ui_def)

lemma unpack_byte_frame [simp, state_frame]:
  "device_created (unpack_byte ev ioc j b bt self) = device_created self"
  "dev_info (unpack_byte ev ioc j b bt self) = dev_info self" "socket (unpack_byte ev ioc j b bt self) = socket self"
  "addr_ip (unpack_byte ev ioc j b bt self) = addr_ip self" "addr_port (unpack_byte ev ioc j b bt self) = addr_port self"
  by (induction j arbitrary: b bt self) (simp_all add: Let_def)

lemma unpack_bits_frame [simp, state_frame]:
  "device_created (unpack_bits ev ioc bs bt self) = device_created self"
  "dev_info (unpack_bits ev ioc bs bt self) = dev_info self" "socket (unpack_bits ev ioc bs bt self) = socket self"
  "addr_ip (unpack_bits ev ioc bs bt self) = addr_ip self" "addr_port (unpack_bits ev ioc bs bt self) = addr_port self"
  by (induction bs arbitrary: bt self) simp_all

section \<open>Capability masks\<close>

text \<open>The positions of the bits that are set.\<close>

definition byte_bits :: "nat \<Rightarrow> byte \<Rightarrow> nat list" where
  "byte_bits j b = filter (bit b) [0..<j]"

fun mask_bits :: "nat \<Rightarrow> byte list \<Rightarrow> nat list" where
  "mask_bits bt [] = []"
| "mask_bits bt (b # bs) = map ((+) bt) (byte_bits 8 b) @ mask_bits (bt + 8) bs"

lemma byte_bits_Suc:
  "byte_bits (Suc j) b = (if bit b 0 then [0] else []) @ map Suc (byte_bits j (drop_bit 1 b))"
proof -
  have "[0..<Suc j] = 0 # map Suc [0..<j]" by (metis upt_conv_Cons map_Suc_upt zero_less_Suc)
  moreover have "bit b \<circ> Suc = bit (drop_bit 1 b)" by (rule ext) (simp add: bit_drop_bit_eq)
  ultimately show ?thesis by (simp add: byte_bits_def filter_map)
qed

lemma and_1_bit: "(b :: byte) AND 1 \<noteq> 0 \<longleftrightarrow> bit b 0"
  by (simp add: and_one_eq bit_0 odd_iff_mod_2_eq_one)

lemma unpack_byte_log:
  "uinput (unpack_byte ev ioc j b bt self) = uinput self @ map (\<lambda>i. SetBit ioc (bt + i)) (byte_bits j b)"
proof (induction j arbitrary: b bt self)
  case 0
  then show ?case by (simp add: byte_bits_def)
next
  case (Suc j)
  show ?case by (simp add: Let_def and_1_bit byte_bits_Suc Suc.IH)
qed

lemma unpack_bits_log:
  "uinput (unpack_bits ev ioc bs bt self) = uinput self @ map (SetBit ioc) (mask_bits bt bs)"
  by (induction bs arbitrary: bt self) (simp_all add: unpack_byte_log)

lemma unpack_byte_syn:
  "ev_syn_bit (unpack_byte ev ioc j b bt self) =
     (if ev = 0 \<and> bt = 0 \<and> 0 < j then bit b 0 else ev_syn_bit self)"
proof (induction j arbitrary: b bt self)
  case (Suc j)
  show ?case by (simp add: Let_def and_1_bit Suc.IH)
qed simp

lemma unpack_bits_syn:
  "ev_syn_bit (unpack_bits ev ioc bs bt self) =
     (if ev = 0 \<and> bt = 0 \<and> bs \<noteq> [] then bit (hd bs) 0 else ev_syn_bit self)"
  by (induction bs arbitrary: bt self) (simp_all add: unpack_byte_syn)

section \<open>The invariant of a client\<close>

definition client_ok :: "client \<Rightarrow> bool" where
  "client_ok self \<longleftrightarrow>
     length (name (dev_info self)) = 80 \<and> name (dev_info self) ! 79 = 0 \<and>
     length (absmax (dev_info self)) = 64 \<and> length (absmin (dev_info self)) = 64 \<and>
     length (absfuzz (dev_info self)) = 64 \<and> length (absflat (dev_info self)) = 64"

lemma client_ok_cong: "dev_info c = dev_info d \<Longrightarrow> client_ok c = client_ok d"
  by (simp add: client_ok_def)

definition axis_range_ok :: "uinput_user_dev \<Rightarrow> nat \<Rightarrow> bool" where
  "axis_range_ok d axis \<longleftrightarrow>
     absmin d ! axis + 2 \<le> absmax d ! axis \<and> absmin d ! axis < absflat d ! axis \<and> absflat d ! axis < absmax d ! axis"

lemma sint32_bounds: "- 2147483648 \<le> sint (w :: u32)" "sint (w :: u32) \<le> 2147483647"
  using sint_range_size [of w] by (simp_all add: word_size)

text \<open>Apart from the axis itself nothing is changed, and nothing at all when the axis was in order.\<close>

definition only_axis :: "nat \<Rightarrow> uinput_user_dev \<Rightarrow> uinput_user_dev \<Rightarrow> bool" where
  "only_axis axis d d' \<longleftrightarrow>
     name d' = name d \<and> dev_id d' = dev_id d \<and> ff_effects_max d' = ff_effects_max d \<and>
     (\<forall>f \<in> {absmax, absmin, absfuzz, absflat}. length (f d') = length (f d) \<and> (\<forall>i. i \<noteq> axis \<longrightarrow> f d' ! i = f d ! i))"

lemma mend_absinfo_total:
  assumes "axis < length (absmax d)" "axis < length (absflat d)" "int32_ok (absmin d ! axis)"
    "absmin d ! axis \<le> 2147483645" "int32_ok (absmax d ! axis)"
  shows "\<exists>d'. mend_absinfo axis d = Some d' \<and> axis_range_ok d' axis \<and> only_axis axis d d' \<and> absmin d' = absmin d \<and>
     (axis_range_ok d axis \<longrightarrow> d' = d)"
proof -
  have least: "c_add (absmin d ! axis) 2 = Some (absmin d ! axis + 2)"
    using assms(3,4) by (simp add: c_add_def chk32_def int32_ok_def)
  have one: "c_add (absmin d ! axis) 1 = Some (absmin d ! axis + 1)"
    using assms(3,4) by (simp add: c_add_def chk32_def int32_ok_def)
  have sub: "absmin d ! axis + 2 \<le> m \<Longrightarrow> int32_ok m \<Longrightarrow> c_sub m 1 = Some (m - 1)" for m
    using assms(3) by (simp add: c_sub_def chk32_def int32_ok_def)
  have ok: "int32_ok (absmin d ! axis + 2)" using assms(3,4) by (simp add: int32_ok_def)
  note rules = mend_absinfo_def least one axis_range_ok_def only_axis_def assms(1,2)
  show ?thesis
  proof (cases "absmax d ! axis < absmin d ! axis + 2")
    case True
    then show ?thesis
      by (cases "absflat d ! axis \<le> absmin d ! axis"; cases "absflat d ! axis \<ge> absmin d ! axis + 2")
        (simp_all add: rules sub ok)
  next
    case False
    then show ?thesis
      by (cases "absflat d ! axis \<le> absmin d ! axis"; cases "absflat d ! axis \<ge> absmax d ! axis")
        (simp_all add: rules sub assms(5))
  qed
qed

section \<open>Axis packets\<close>

lemma set_at_ok: "0 \<le> i \<Longrightarrow> i < int (length xs) \<Longrightarrow> set_at i v xs = Some (xs[nat i := v])"
  by (simp add: set_at_def)

lemma absinfo_total:
  assumes "client_ok self" "length content = 20" "0 \<le> sint (get32 0 content)" "sint (get32 0 content) \<le> 63"
    "sint (get32 8 content) \<le> 2147483645"
  shows "\<exists>self'. received_absinfo content self = Some self' \<and> client_ok self' \<and>
    self' = self\<lparr>dev_info := dev_info self'\<rparr> \<and> axis_range_ok (dev_info self') (nat (sint (get32 0 content))) \<and>
    only_axis (nat (sint (get32 0 content))) (dev_info self) (dev_info self') \<and>
    absmin (dev_info self') ! nat (sint (get32 0 content)) = sint (get32 8 content)"
proof -
  define axis where "axis = nat (sint (get32 0 content))"
  have a: "sint (get32 0 content) = int axis" "axis < 64" using assms(3,4) by (simp_all add: axis_def)
  let ?d = "dev_info self"
  have l: "length (absmax ?d) = 64" "length (absmin ?d) = 64" "length (absfuzz ?d) = 64" "length (absflat ?d) = 64"
    using assms(1) by (simp_all add: client_ok_def)
  define d where "d = ?d\<lparr>absmax := (absmax ?d)[axis := sint (get32 4 content)],
    absmin := (absmin ?d)[axis := sint (get32 8 content)], absfuzz := (absfuzz ?d)[axis := sint (get32 12 content)],
    absflat := (absflat ?d)[axis := sint (get32 16 content)]\<rparr>"
  have dl: "axis < length (absmax d)" "axis < length (absflat d)" "absmin d ! axis = sint (get32 8 content)"
    "absmax d ! axis = sint (get32 4 content)"
    using l a(2) by (simp_all add: d_def)
  obtain d' where d': "mend_absinfo axis d = Some d'" "axis_range_ok d' axis" "only_axis axis d d'" "absmin d' = absmin d"
    using mend_absinfo_total [OF dl(1,2)] dl(3,4) assms(5) sint32_bounds by (auto simp: int32_ok_def)
  have oa: "only_axis axis ?d d'" using d'(3) by (simp add: only_axis_def d_def)
  have run: "received_absinfo content self = Some (self\<lparr>dev_info := d'\<rparr>)"
    using assms(2) a l d'(1) by (simp add: received_absinfo_def Let_def set_at_ok d_def)
  have "client_ok (self\<lparr>dev_info := d'\<rparr>)" using assms(1) oa by (simp add: client_ok_def only_axis_def)
  moreover have "absmin d' ! axis = sint (get32 8 content)" using d'(4) dl(3) by simp
  ultimately show ?thesis
    using run d'(2) oa unfolding axis_def [symmetric] by (intro exI [of _ "self\<lparr>dev_info := d'\<rparr>"]) simp
qed

section \<open>Every packet\<close>

text \<open>The packets that the server does not survive: axes below 0, and minima that cannot be two below a maximum.\<close>

definition hostile :: "u16 \<Rightarrow> byte list \<Rightarrow> bool" where
  "hostile type content \<longleftrightarrow>
     type = IPIPE_DEVICE_ABSINFO \<and> length content = 20 \<and>
     (sint (get32 0 content) < 0 \<or> sint (get32 0 content) \<le> 63 \<and> 2147483645 < sint (get32 8 content))"

lemma received_name_ok:
  assumes "client_ok self"
  shows "client_ok (received_name content self)"
    "take (min 79 (length content)) (name (dev_info (received_name content self))) = take 79 content"
    "name (dev_info (received_name content self)) ! min 79 (length content) = 0"
proof -
  let ?len = "if length content \<ge> 80 then 79 else length content"
  have len: "?len = min 79 (length content)" by auto
  let ?n = "overlay (take ?len content) (name (dev_info self))"
  have l: "length (name (dev_info self)) = 80" "name (dev_info self) ! 79 = 0" using assms by (simp_all add: client_ok_def)
  have n: "length ?n = 80" using l(1) by simp
  have r: "name (dev_info (received_name content self)) = ?n[?len := 0]" by (simp add: received_name_def Let_def)
  have "?n[?len := 0] ! 79 = 0"
  proof (cases "?len = 79")
    case False
    then have "?len < 79" by auto
    then have "?n ! 79 = name (dev_info self) ! 79" using l(1) by (simp add: overlay_def nth_append)
    with l(2) False n show ?thesis by simp
  qed (use n in simp)
  with assms n show "client_ok (received_name content self)"
    by (simp add: client_ok_def r) (simp add: received_name_def Let_def)
  show "name (dev_info (received_name content self)) ! min 79 (length content) = 0"
    unfolding r len [symmetric] using n by simp
  have "take (min 79 (length content)) (?n[?len := 0]) = take ?len ?n" unfolding len by simp
  also have "\<dots> = take 79 content" using l(1) by (auto simp: overlay_def)
  finally show "take (min 79 (length content)) (name (dev_info (received_name content self))) = take 79 content"
    unfolding r .
qed

lemma received_create_dev [simp]:
  "dev_info (received_create self) = dev_info self" "socket (received_create self) = socket self"
  by (simp_all add: received_create_def ui_def Let_def)

lemma received_event_dev [simp]:
  "dev_info (received_event c self) = dev_info self" "socket (received_event c self) = socket self"
  by (simp_all add: received_event_def Let_def)

lemma received_bits_dev [simp]:
  "dev_info (received_bits c self) = dev_info self" "socket (received_bits c self) = socket self"
  by (simp_all add: received_bits_def Let_def split: option.split)

lemma received_packet_total:
  assumes "client_ok self" "\<not> hostile type content"
  shows "\<exists>self'. client_received_packet garbage type content self = Some self' \<and> client_ok self'"
proof (cases "type = IPIPE_DEVICE_ABSINFO")
  case True
  have "\<exists>self'. received_absinfo content self = Some self' \<and> client_ok self'"
  proof (cases "length content = 20 \<and> sint (get32 0 content) \<le> 63")
    case True
    with assms(2) \<open>type = IPIPE_DEVICE_ABSINFO\<close> have "0 \<le> sint (get32 0 content)" "sint (get32 8 content) \<le> 2147483645"
      by (auto simp: hostile_def)
    with absinfo_total [OF assms(1)] True show ?thesis by blast
  next
    case False
    then show ?thesis using assms(1) by (auto simp: received_absinfo_def Let_def)
  qed
  with True show ?thesis by (simp add: client_received_packet_def)
next
  case False
  then show ?thesis
    using assms(1) received_name_ok(1) [OF assms(1), of content]
    by (auto simp: client_received_packet_def set_phys_total client_ok_cong [of _ self] client_ok_def)
qed

section \<open>The receive loop\<close>

text \<open>No packet looks at the socket, so that the loop is the handling of the packets one after the other.\<close>

lemma ui_socket: "ui q (self\<lparr>socket := s\<rparr>) = (fst (ui q self), (snd (ui q self))\<lparr>socket := s\<rparr>)"
  by (simp add: ui_def)

lemma socket_first:
  "self\<lparr>socket := s, ev_syn_bit := v\<rparr> = self\<lparr>ev_syn_bit := v, socket := s\<rparr>"
  "self\<lparr>socket := s, dev_info := d\<rparr> = self\<lparr>dev_info := d, socket := s\<rparr>" for self :: client
  by (cases self, simp)+

lemma unpack_byte_socket: "unpack_byte ev ioc j b bt (self\<lparr>socket := s\<rparr>) = (unpack_byte ev ioc j b bt self)\<lparr>socket := s\<rparr>"
proof (induction j arbitrary: ev b bt self)
  case (Suc j)
  show ?case by (simp add: Let_def Suc.IH ui_socket socket_first)
qed simp

lemma unpack_bits_socket: "unpack_bits ev ioc bs bt (self\<lparr>socket := s\<rparr>) = (unpack_bits ev ioc bs bt self)\<lparr>socket := s\<rparr>"
  by (induction bs arbitrary: bt self) (simp_all add: unpack_byte_socket)

lemma received_packet_socket:
  "client_received_packet g t c (self\<lparr>socket := s\<rparr>) =
     map_option (\<lambda>x. x\<lparr>socket := s\<rparr>) (client_received_packet g t c self)"
proof -
  have "received_event c (self\<lparr>socket := s\<rparr>) = (received_event c self)\<lparr>socket := s\<rparr>"
    by (simp add: received_event_def ui_socket Let_def)
  moreover have "received_name c (self\<lparr>socket := s\<rparr>) = (received_name c self)\<lparr>socket := s\<rparr>"
    by (simp add: received_name_def Let_def)
  moreover have "client_set_phys c (self\<lparr>socket := s\<rparr>) = map_option (\<lambda>x. x\<lparr>socket := s\<rparr>) (client_set_phys c self)"
    by (simp add: client_set_phys_def client_format_addr_def ui_socket Let_def)
  moreover have "received_absinfo c (self\<lparr>socket := s\<rparr>) = map_option (\<lambda>x. x\<lparr>socket := s\<rparr>) (received_absinfo c self)"
    by (simp add: received_absinfo_def Let_def map_option_bind o_def socket_first)
  moreover have "received_bits c (self\<lparr>socket := s\<rparr>) = (received_bits c self)\<lparr>socket := s\<rparr>"
    by (simp add: received_bits_def unpack_bits_socket Let_def split: option.split)
  moreover have "received_create (self\<lparr>socket := s\<rparr>) = (received_create self)\<lparr>socket := s\<rparr>"
    by (simp add: received_create_def ui_def Let_def)
  ultimately show ?thesis
    by (simp add: client_received_packet_def ui_socket)
qed

fun receive_packets :: "ff_effect \<Rightarrow> packet list \<Rightarrow> client \<Rightarrow> client option" where
  "receive_packets garbage [] self = Some self"
| "receive_packets garbage (p # ps) self =
     Option.bind (client_received_packet garbage (fst p) (snd p) self) (receive_packets garbage ps)"

lemma receive_packets_total:
  assumes "client_ok self" "\<forall>p \<in> set ps. \<not> hostile (fst p) (snd p)"
  shows "\<exists>self'. receive_packets garbage ps self = Some self' \<and> client_ok self'"
  using assms
proof (induction ps arbitrary: self)
  case (Cons p ps)
  obtain s1 where "client_received_packet garbage (fst p) (snd p) self = Some s1" "client_ok s1"
    using received_packet_total [OF Cons.prems(1), of "fst p" "snd p"] Cons.prems(2) by auto
  with Cons.IH [of s1] Cons.prems(2) show ?case by auto
qed simp

lemma receive_packets_append:
  "receive_packets garbage (ps @ qs) self = Option.bind (receive_packets garbage ps self) (receive_packets garbage qs)"
proof (induction ps arbitrary: self)
  case (Cons p ps)
  then show ?case by (cases "client_received_packet garbage (fst p) (snd p) self") simp_all
qed simp

lemma receive_packets_socket:
  "receive_packets garbage ps (x\<lparr>socket := t\<rparr>) = map_option (\<lambda>x. x\<lparr>socket := t\<rparr>) (receive_packets garbage ps x)"
proof (induction ps arbitrary: x)
  case (Cons q qs)
  then show ?case
    by (cases "client_received_packet garbage (fst q) (snd q) x") (simp_all add: received_packet_socket)
qed simp

lemma client_loop_packets:
  assumes "\<not> received_header (socket self)" "\<forall>p \<in> set ps. fst p \<noteq> 0 \<and> length (snd p) < 65536"
    "arrived (socket self) = concat (map encode ps)" "length ps < fuel"
  shows "\<exists>s. client_loop garbage fuel self = map_option (\<lambda>x. x\<lparr>socket := s\<rparr>) (receive_packets garbage ps self)"
  using assms
proof (induction ps arbitrary: self fuel)
  case Nil
  obtain f where "fuel = Suc f" using Nil.prems(4) by (cases fuel) auto
  moreover have "packet_socket_read (socket self) = (0, [], (socket self)\<lparr>arrived := [], at_eof := hung_up (socket self)\<rparr>)"
    using read_nothing [of "socket self"] Nil.prems(1,3) by simp
  ultimately show ?case
    by (intro exI [of _ "(socket self)\<lparr>arrived := [], at_eof := hung_up (socket self)\<rparr>"]) (simp add: Let_def)
next
  case (Cons p ps)
  obtain f where f: "fuel = Suc f" "length ps < f" using Cons.prems(4) by (cases fuel) auto
  obtain h where h: "packet_socket_read (socket self) = (fst p, snd p,
      (socket self)\<lparr>arrived := concat (map encode ps), pkt_header := h, received_header := False\<rparr>)"
    using read_packet [of "socket self" p "concat (map encode ps)"] Cons.prems by auto
  let ?s = "(socket self)\<lparr>arrived := concat (map encode ps), pkt_header := h, received_header := False\<rparr>"
  have step: "client_loop garbage fuel self =
      Option.bind (client_received_packet garbage (fst p) (snd p) self)
        (\<lambda>x. client_loop garbage f (x\<lparr>socket := ?s\<rparr>))"
    using h Cons.prems(2) by (simp add: f received_packet_socket Let_def bind_map_option o_def)
  show ?case
  proof (cases "client_received_packet garbage (fst p) (snd p) self")
    case None
    then show ?thesis by (simp add: step)
  next
    case (Some x)
    have "\<exists>s. client_loop garbage f (x\<lparr>socket := ?s\<rparr>) =
        map_option (\<lambda>x. x\<lparr>socket := s\<rparr>) (receive_packets garbage ps (x\<lparr>socket := ?s\<rparr>))"
      by (rule Cons.IH) (use Cons.prems f(2) in simp_all)
    moreover have "receive_packets garbage ps (x\<lparr>socket := t\<rparr>) = map_option (\<lambda>x. x\<lparr>socket := t\<rparr>) (receive_packets garbage ps x)"
      for t and x by (rule receive_packets_socket)
    ultimately show ?thesis using Some by (auto simp: step option.map_comp o_def)
  qed
qed

section \<open>Properties\<close>

text \<open>A client for the witnesses.\<close>

definition client0 :: client where
  "client0 = \<lparr>uinput = [], ui_results = [], device_created = False, dev_info = empty_dev, ev_syn_bit = False,
     addr_ip = [127, 0, 0, 1], addr_port = 7192, socket = packet_socket_new\<rparr>"

lemma client0_ok: "client_ok client0"
  by (simp add: client_ok_def client0_def empty_dev_def)

definition absinfo_packet :: "int \<Rightarrow> int \<Rightarrow> int \<Rightarrow> int \<Rightarrow> byte list" where
  "absinfo_packet axis mn mx fl = hton_input_absinfo \<lparr>abs_value = 0, minimum = word_of_int mn, maximum = word_of_int mx,
     fuzz = 0, flat = word_of_int fl\<rparr> axis (replicate 20 0)"

lemma absinfo_packet_fields:
  "length (absinfo_packet axis mn mx fl) = 20" "get32 0 (absinfo_packet axis mn mx fl) = word_of_int axis"
  "get32 8 (absinfo_packet axis mn mx fl) = word_of_int mn"
  by (simp_all add: absinfo_packet_def absinfo_fields)

text \<open>The server survives the network: whatever packets arrive, of any type, length and content, every one is
  handled without leaving an array or overflowing, and the device description stays well formed (the name is
  terminated inside its 80 bytes, the four axis tables keep their 64 entries), as long as no axis description has a
  negative axis or a minimum within two of the largest \<^verbatim>\<open>int\<close>.\<close>

lemma server_survives_packets:
  assumes "client_ok self" "\<forall>p \<in> set ps. \<not> hostile (fst p) (snd p) \<and> fst p \<noteq> 0 \<and> length (snd p) < 65536"
    "\<not> received_header (socket self)" "arrived (socket self) = concat (map encode ps)" "length ps < fuel"
  shows "\<exists>self'. client_loop garbage fuel self = Some self' \<and> client_ok self'"
proof -
  obtain x where x: "receive_packets garbage ps self = Some x" "client_ok x"
    using receive_packets_total [OF assms(1)] assms(2) by blast
  obtain s where "client_loop garbage fuel self = map_option (\<lambda>x. x\<lparr>socket := s\<rparr>) (receive_packets garbage ps self)"
    using client_loop_packets [OF assms(3) _ assms(4,5)] assms(2) by blast
  then show ?thesis using x by (simp add: client_ok_def)
qed

lemma server_survives_packets_witness:
  "\<exists>self'. client_loop \<lparr>ff_type = 0, ff_id = 0, direction = 0, trigger_button = 0, trigger_interval = 0, replay_length = 0,
       replay_delay = 0, ff_u = Rumble 0 0\<rparr> 5
     (client0\<lparr>socket := packet_socket_new\<lparr>arrived := encode (0x0205, [0]) @ encode (0x7777, [1, 2, 3])\<rparr>\<rparr>) = Some self' \<and>
     client_ok self'"
proof (rule server_survives_packets [of _ "[(0x0205, [0]), (0x7777, [1, 2, 3])]"])
  show "client_ok (client0\<lparr>socket := packet_socket_new\<lparr>arrived := encode (0x0205, [0]) @ encode (0x7777, [1, 2, 3])\<rparr>\<rparr>)"
    using client0_ok by (simp add: client_ok_def)
qed (auto simp: hostile_def packet_socket_new_def)

text \<open>A negative axis is not rejected: the check \<^verbatim>\<open>axis > ABS_MAX\<close> compares signed numbers, so an axis
  description whose axis has its top bit set, sent by any peer at any time, makes the server write in front of its
  axis tables.\<close>

lemma server_negative_axis:
  assumes "length content = 20" "bit (get32 0 content) 31"
  shows "client_received_packet garbage IPIPE_DEVICE_ABSINFO content self = None"
proof -
  have "sint (get32 0 content) < 0" using assms(2) by (simp add: bit_last_iff [symmetric])
  then show ?thesis using assms(1) by (simp add: client_received_packet_def received_absinfo_def set_at_def Let_def)
qed

lemma server_negative_axis_witness:
  "client_received_packet \<lparr>ff_type = 0, ff_id = 0, direction = 0, trigger_button = 0, trigger_interval = 0,
       replay_length = 0, replay_delay = 0, ff_u = Rumble 0 0\<rparr> IPIPE_DEVICE_ABSINFO (absinfo_packet (- 1) 0 255 16) client0
     = None"
  by (rule server_negative_axis) (simp_all add: absinfo_packet_fields)

text \<open>An axis description is mended so that uinput will take it: for an axis from 0 to 63, whatever maximum, fuzz and
  flat were sent, the minimum is the one sent, the maximum ends at least two above it and the flat value strictly
  between them; no other axis and nothing else of the client changes.\<close>

lemma absinfo_is_mended:
  assumes "client_ok self" "length content = 20" "0 \<le> sint (get32 0 content)" "sint (get32 0 content) \<le> ABS_MAX"
    "sint (get32 8 content) \<le> 2147483645"
  shows "\<exists>d. client_received_packet garbage IPIPE_DEVICE_ABSINFO content self = Some (self\<lparr>dev_info := d\<rparr>) \<and>
     (let axis = nat (sint (get32 0 content)) in
        absmin d ! axis = sint (get32 8 content) \<and> absmin d ! axis + 2 \<le> absmax d ! axis \<and>
        absmin d ! axis < absflat d ! axis \<and> absflat d ! axis < absmax d ! axis \<and> only_axis axis (dev_info self) d)"
proof -
  obtain x where x: "received_absinfo content self = Some x" "x = self\<lparr>dev_info := dev_info x\<rparr>"
    "axis_range_ok (dev_info x) (nat (sint (get32 0 content)))"
    "only_axis (nat (sint (get32 0 content))) (dev_info self) (dev_info x)"
    "absmin (dev_info x) ! nat (sint (get32 0 content)) = sint (get32 8 content)"
    using absinfo_total [OF assms(1-3) _ assms(5)] assms(4) by blast
  have "client_received_packet garbage IPIPE_DEVICE_ABSINFO content self = Some (self\<lparr>dev_info := dev_info x\<rparr>)"
    using x(1,2) by (simp add: client_received_packet_def)
  then show ?thesis
    using x(3-5) by (intro exI [of _ "dev_info x"]) (simp add: axis_range_ok_def)
qed

lemma absinfo_is_mended_witness:
  "\<exists>d. client_received_packet \<lparr>ff_type = 0, ff_id = 0, direction = 0, trigger_button = 0, trigger_interval = 0,
       replay_length = 0, replay_delay = 0, ff_u = Rumble 0 0\<rparr> IPIPE_DEVICE_ABSINFO (absinfo_packet 3 10 5 200) client0
     = Some (client0\<lparr>dev_info := d\<rparr>) \<and> absmin d ! 3 = 10 \<and> 12 \<le> absmax d ! 3"
  using absinfo_is_mended [OF client0_ok, of "absinfo_packet 3 10 5 200"]
  by (fastforce simp: absinfo_packet_fields Let_def)

text \<open>A capability mask sets exactly the bits that are set in it: for a known event type the server makes one ioctl of
  the matching kind for each set bit, in ascending order, and none for a type it does not know; a mask of event types
  also records whether the device sends synchronization events.\<close>

lemma bits_are_unpacked:
  assumes "2 \<le> length content"
  shows "\<exists>self'. client_received_packet garbage IPIPE_DEVICE_BITS content self = Some self' \<and>
     uinput self' = uinput self @ (case bits_ioctl (get16 0 content) of None \<Rightarrow> []
        | Some ioc \<Rightarrow> map (SetBit ioc) (mask_bits 0 (drop 2 content))) \<and>
     ev_syn_bit self' = (if get16 0 content = 0 \<and> 2 < length content then bit (content ! 2) 0 else ev_syn_bit self)"
proof -
  have "drop 2 content \<noteq> [] \<longleftrightarrow> 2 < length content" by auto
  moreover have "2 < length content \<Longrightarrow> hd (drop 2 content) = content ! 2" by (simp add: hd_drop_conv_nth)
  ultimately show ?thesis
    using assms
    by (cases "bits_ioctl (get16 0 content)")
      (auto simp: client_received_packet_def received_bits_def unpack_bits_log unpack_bits_syn Let_def split: if_splits)
qed

lemma bits_are_unpacked_witness:
  "\<exists>self'. client_received_packet \<lparr>ff_type = 0, ff_id = 0, direction = 0, trigger_button = 0, trigger_interval = 0,
       replay_length = 0, replay_delay = 0, ff_u = Rumble 0 0\<rparr> IPIPE_DEVICE_BITS [0, 3, 5, 128] client0 = Some self' \<and>
     uinput self' = [SetBit UI_SET_ABSBIT 0, SetBit UI_SET_ABSBIT 2, SetBit UI_SET_ABSBIT 15]"
proof -
  have "get16 0 [0, 3, 5, 128] = EV_ABS" by (simp add: get16_def)
  moreover have "mask_bits 0 [5, 128 :: byte] = [0, 2, 15]" by (simp add: byte_bits_def upt_conv_Cons bit_iff_odd_drop_bit)
  ultimately show ?thesis
    using bits_are_unpacked [of "[0, 3, 5, 128]" _ client0] by (fastforce simp: client0_def)
qed

end
