(* ===== verification/Ipipe_Mirror.thy ===== *)
theory Ipipe_Mirror
  imports Ipipe_Client Ipipe_Serve
begin

text \<open>
  Client and server of inputpipe together: what the client says about an event device makes the server create the
  same device, an event read from the one is written to the other, and a force feedback effect that an application
  uploads on the server's side reaches the device on the client's side, whose answer comes back.
\<close>

section \<open>Bit masks\<close>

definition set_bits :: "u32 list \<Rightarrow> nat list" where
  "set_bits ws = filter (\<lambda>i. test_bit i ws) [0..<32 * length ws]"

lemma mask_bits_append: "mask_bits bt (xs @ ys) = mask_bits bt xs @ mask_bits (bt + 8 * length xs) ys"
  by (induction xs arbitrary: bt) (simp_all add: algebra_simps)

lemma length_repack_word [simp]: "length (repack_word k w) = k"
  by (induction k arbitrary: w) simp_all

lemma length_repack_bits [simp]: "length (repack_bits ws) = 4 * length ws"
  by (induction ws) simp_all

lemma upt_split: "[0..<a + b] = [0..<a] @ map ((+) a) [0..<b]"
proof -
  have "[0..<a + b] = [0..<a] @ [a..<a + b]" by (rule upt_add_eq_append) simp
  moreover have "map ((+) a) [0..<b] = [a..<a + b]" by (induction b) simp_all
  ultimately show ?thesis by simp
qed

lemma byte_bits_low: "byte_bits 8 (ucast (w :: u32)) = filter (bit w) [0..<8]"
  by (auto simp: byte_bits_def bit_ucast_iff intro!: filter_cong)

lemma filter_bit_shift: "filter (bit w) (map ((+) a) xs) = map ((+) a) (filter (bit (drop_bit a w)) xs)" for w :: u32
  by (induction xs) (auto simp: bit_drop_bit_eq)

lemma mask_bits_word: "mask_bits bt (repack_word k w) = map ((+) bt) (filter (bit w) [0..<8 * k])"
proof (induction k arbitrary: bt w)
  case (Suc k)
  have "[0..<8 * Suc k] = [0..<8] @ map ((+) 8) [0..<8 * k]" using upt_split [of 8 "8 * k"] by simp
  then show ?case by (simp add: Suc.IH byte_bits_low filter_bit_shift add.assoc o_def del: upt_Suc)
qed simp

lemma test_bit_Cons: "test_bit (32 + i) (w # ws) = test_bit i ws" "i < 32 \<Longrightarrow> test_bit i (w # ws) = bit w i"
proof -
  have "(32 + i) div 32 = Suc (i div 32)" "(32 + i) mod 32 = i mod 32" by simp_all
  then show "test_bit (32 + i) (w # ws) = test_bit i ws" by (simp only: test_bit_def nth_Cons_Suc)
qed (simp add: test_bit_def)

lemma mask_bits_repack: "mask_bits bt (repack_bits ws) = map ((+) bt) (set_bits ws)"
proof (induction ws arbitrary: bt)
  case (Cons w ws)
  have "[0..<32 * length (w # ws)] = [0..<32] @ map ((+) 32) [0..<32 * length ws]"
    using upt_split [of 32 "32 * length ws"] by simp
  moreover have "filter (\<lambda>i. test_bit i (w # ws)) [0..<32] = filter (bit w) [0..<32]"
    by (rule filter_cong) (simp_all add: test_bit_Cons)
  moreover have "filter (\<lambda>i. test_bit i (w # ws)) (map ((+) 32) xs) = map ((+) 32) (filter (\<lambda>i. test_bit i ws) xs)" for xs
    by (induction xs) (simp_all add: test_bit_Cons)
  ultimately have "set_bits (w # ws) = filter (bit w) [0..<32] @ map ((+) 32) (set_bits ws)"
    by (simp only: set_bits_def filter_append)
  then show ?case by (simp add: mask_bits_append mask_bits_word Cons.IH add.assoc o_def del: upt_Suc repack_word.simps)
qed (simp add: set_bits_def)

section \<open>The client's description of a device, as packets\<close>

definition abs_packet :: "device \<Rightarrow> nat \<Rightarrow> packet" where
  "abs_packet d axis = (IPIPE_DEVICE_ABSINFO, hton_input_absinfo (d_abs d axis) (int axis) (take 20 (d_stack d)))"

definition mask_packets :: "device \<Rightarrow> nat \<Rightarrow> packet list" where
  "mask_packets d i =
     (if d_bits d i = [] then []
      else (IPIPE_DEVICE_BITS, htons (of_nat i) @ repack_bits (d_bits d i)) #
        (if i = 3 then map (abs_packet d) (set_bits (d_bits d 3)) else []))"

definition metadata_packets :: "device \<Rightarrow> packet list" where
  "metadata_packets d =
     (case d_name d of Some b \<Rightarrow> [(IPIPE_DEVICE_NAME, c_string b)] | None \<Rightarrow> []) @
     (case d_phys d of Some b \<Rightarrow> [(IPIPE_DEVICE_PHYS, c_string b)] | None \<Rightarrow> []) @
     (case d_id d of Some i \<Rightarrow> [(IPIPE_DEVICE_ID, hton_input_id i (take 8 (d_stack d)))] | None \<Rightarrow> []) @
     concat (map (mask_packets d) [0..<EV_MAX]) @
     (case d_effects d of Some n \<Rightarrow> [(IPIPE_DEVICE_FF_EFFECTS_MAX, htonl n)] | None \<Rightarrow> []) @
     [(IPIPE_CREATE, [])]"

lemma write_all_append: "write_all (ps @ qs) s = Option.bind (write_all ps s) (write_all qs)"
proof (induction ps arbitrary: s)
  case (Cons p ps)
  then show ?case by (cases "packet_socket_write (fst p) (snd p) s") simp_all
qed simp

lemma send_one: "send t c (write_all ps s) = write_all (ps @ [(t, c)]) s"
proof (cases "write_all ps s")
  case (Some a)
  then show ?thesis by (cases "packet_socket_write t c a") (simp_all add: send_def write_all_append)
qed (simp add: send_def write_all_append)

lemma send_axes_packets:
  "send_axes d axes (write_all ps s) =
     write_all (ps @ map (abs_packet d) (filter (\<lambda>i. test_bit i (d_bits d 3)) axes)) s"
  by (induction axes arbitrary: ps) (simp_all add: send_one abs_packet_def test_bit_def)

lemma send_masks_packets:
  "send_masks d is (write_all ps s) = write_all (ps @ concat (map (mask_packets d) is)) s"
proof (induction "is" arbitrary: ps)
  case (Cons i "is")
  have e: "4 * length (d_bits d i) * 8 = 32 * length (d_bits d i)" by simp
  have "send_masks d (i # is) (write_all ps s) = send_masks d is (write_all (ps @ mask_packets d i) s)"
    unfolding send_masks.simps Let_def e mask_packets_def
    by (simp add: send_one send_axes_packets set_bits_def)
  then show ?case using Cons.IH [of "ps @ mask_packets d i"] by simp
qed simp

lemma send_metadata_packets:
  "evdev_send_metadata d s = map_option packet_socket_flush (write_all (metadata_packets d) s)"
proof -
  have "Some s = write_all [] s" by simp
  then show ?thesis
    unfolding evdev_send_metadata_def metadata_packets_def Let_def
    by (simp only: send_one send_masks_packets split: option.split) (simp add: send_one send_masks_packets split: option.split)
qed

section \<open>The server's reading of it\<close>

text \<open>What the packets about masks and axes leave alone.\<close>

definition same_device :: "client \<Rightarrow> client \<Rightarrow> bool" where
  "same_device c c' \<longleftrightarrow>
     client_ok c' \<and> device_created c' = device_created c \<and> name (dev_info c') = name (dev_info c) \<and>
     dev_id (dev_info c') = dev_id (dev_info c) \<and> ff_effects_max (dev_info c') = ff_effects_max (dev_info c) \<and>
     (ui_results c = [] \<longrightarrow> ui_results c' = []) \<and> addr_ip c' = addr_ip c \<and> addr_port c' = addr_port c"

lemma same_device_refl: "client_ok c \<Longrightarrow> same_device c c"
  by (simp add: same_device_def)

lemma same_device_trans: "same_device a b \<Longrightarrow> same_device b c \<Longrightarrow> same_device a c"
  by (auto simp: same_device_def)

lemma unpack_byte_results: "ui_results c = [] \<Longrightarrow> ui_results (unpack_byte ev ioc j b bt c) = []"
proof (induction j arbitrary: b bt c)
  case (Suc j)
  show ?case by (simp add: Let_def Suc.IH Suc.prems ui_def)
qed simp

lemma unpack_bits_results: "ui_results c = [] \<Longrightarrow> ui_results (unpack_bits ev ioc bs bt c) = []"
  by (induction bs arbitrary: bt c) (simp_all add: unpack_byte_results)

definition device_ok :: "device \<Rightarrow> bool" where
  "device_ok d \<longleftrightarrow>
     (\<forall>i. length (d_bits d i) \<le> 127) \<and> 20 \<le> length (d_stack d) \<and>
     (\<forall>i \<in> set (set_bits (d_bits d 3)). sint (minimum (d_abs d i)) \<le> 2147483645)"

lemma set_bits_bound: "i \<in> set (set_bits ws) \<Longrightarrow> i < 32 * length ws"
  by (simp add: set_bits_def)

lemma sint_of_small: "i < 4096 \<Longrightarrow> sint (word_of_int (int i) :: u32) = int i"
  by (simp add: signed_of_nat signed_take_bit_int_eq_self)

lemma receive_axis:
  assumes "device_ok d" "client_ok c" "i \<in> set (set_bits (d_bits d 3))"
  shows "\<exists>c'. client_received_packet g (fst (abs_packet d i)) (snd (abs_packet d i)) c = Some c' \<and> same_device c c' \<and>
    uinput c' = uinput c \<and> ev_syn_bit c' = ev_syn_bit c"
proof -
  define p where "p = hton_input_absinfo (d_abs d i) (int i) (take 20 (d_stack d))"
  have st: "length (take 20 (d_stack d)) = 20" using assms(1) by (simp add: device_ok_def)
  have p: "length p = 20" "get32 0 p = word_of_int (int i)" "get32 8 p = minimum (d_abs d i)"
    using absinfo_fields [OF st] st by (simp_all add: p_def)
  have "i < 32 * length (d_bits d 3)" "length (d_bits d 3) \<le> 127"
    using assms(1,3) set_bits_bound by (auto simp: device_ok_def)
  then have ax: "sint (get32 0 p) = int i" using sint_of_small [of i] p(2) by simp
  have mn: "sint (get32 8 p) \<le> 2147483645" using assms(1,3) p(3) by (simp add: device_ok_def)
  have "\<exists>c'. received_absinfo p c = Some c' \<and> same_device c c' \<and> uinput c' = uinput c \<and> ev_syn_bit c' = ev_syn_bit c"
  proof (cases "i \<le> 63")
    case True
    obtain c' where c': "received_absinfo p c = Some c'" "client_ok c'" "c' = c\<lparr>dev_info := dev_info c'\<rparr>"
      "only_axis (nat (sint (get32 0 p))) (dev_info c) (dev_info c')"
      using absinfo_total [OF assms(2) p(1) _ _ mn] ax True by auto
    have "uinput c' = uinput c" "ev_syn_bit c' = ev_syn_bit c" "device_created c' = device_created c"
      "ui_results c' = ui_results c" "addr_ip c' = addr_ip c" "addr_port c' = addr_port c"
      by (subst c'(3), simp)+
    with c' show ?thesis by (auto simp: same_device_def only_axis_def)
  next
    case False
    then show ?thesis using p(1) ax assms(2) by (simp add: received_absinfo_def same_device_refl Let_def)
  qed
  then show ?thesis by (simp add: abs_packet_def p_def client_received_packet_def)
qed

lemma receive_axes:
  assumes "device_ok d" "client_ok c" "set is \<subseteq> set (set_bits (d_bits d 3))"
  shows "\<exists>c'. receive_packets g (map (abs_packet d) is) c = Some c' \<and> same_device c c' \<and>
    uinput c' = uinput c \<and> ev_syn_bit c' = ev_syn_bit c"
  using assms(2,3)
proof (induction "is" arbitrary: c)
  case Nil
  then show ?case by (simp add: same_device_refl)
next
  case (Cons i "is")
  obtain c1 where c1: "client_received_packet g (fst (abs_packet d i)) (snd (abs_packet d i)) c = Some c1" "same_device c c1"
    "uinput c1 = uinput c" "ev_syn_bit c1 = ev_syn_bit c"
    using receive_axis [OF assms(1) Cons.prems(1), of i g] Cons.prems(2) by auto
  have "client_ok c1" using c1(2) by (simp add: same_device_def)
  with Cons.IH [of c1] Cons.prems(2) c1 same_device_trans [of c c1] show ?case by auto
qed

definition mask_log :: "device \<Rightarrow> nat \<Rightarrow> uinput_op list" where
  "mask_log d i = (case bits_ioctl (of_nat i) of None \<Rightarrow> [] | Some ioc \<Rightarrow> map (SetBit ioc) (set_bits (d_bits d i)))"

lemma get16_htons: "get16 0 (htons v @ rest) = v"
  by (simp add: get16_def header_fields)

lemma unat_small: "i < 31 \<Longrightarrow> (of_nat i :: u16) = 0 \<longleftrightarrow> i = 0"
  by (auto simp: word_of_nat_eq_0_iff dest: dvd_imp_le)

lemma repack_bits_hd: "d_bits d i \<noteq> [] \<Longrightarrow> bit (repack_bits (d_bits d i) ! 0) 0 = test_bit 0 (d_bits d i)"
proof (cases "d_bits d i")
  case (Cons w ws)
  have "repack_word 4 w = ucast w # repack_word 3 (drop_bit 8 w)" by (simp add: numeral_eq_Suc)
  with Cons show ?thesis by (simp add: test_bit_def bit_ucast_iff)
qed simp

lemma receive_mask:
  assumes "device_ok d" "client_ok c" "i < 31"
  shows "\<exists>c'. receive_packets g (mask_packets d i) c = Some c' \<and> same_device c c' \<and>
    uinput c' = uinput c @ mask_log d i \<and>
    ev_syn_bit c' = (if i = 0 \<and> d_bits d 0 \<noteq> [] then test_bit 0 (d_bits d 0) else ev_syn_bit c)"
proof (cases "d_bits d i = []")
  case True
  then show ?thesis
    using assms(2) by (auto simp: mask_packets_def mask_log_def set_bits_def same_device_refl split: option.split)
next
  case False
  define content where "content = htons (of_nat i) @ repack_bits (d_bits d i)"
  have len: "2 < length content" using False by (cases "d_bits d i") (simp_all add: content_def)
  have g: "get16 0 content = of_nat i" by (simp add: content_def get16_htons)
  have dr: "drop 2 content = repack_bits (d_bits d i)" by (simp add: content_def)
  have b: "bit (content ! 2) 0 = test_bit 0 (d_bits d i)"
    using repack_bits_hd [OF False] by (simp add: content_def nth_append)
  define c1 where "c1 = received_bits content c"
  have log: "uinput c1 = uinput c @ mask_log d i"
    using len by (auto simp: c1_def received_bits_def g dr unpack_bits_log mask_bits_repack mask_log_def Let_def
        split: option.split)
  have syn: "ev_syn_bit c1 = (if i = 0 then test_bit 0 (d_bits d 0) else ev_syn_bit c)"
  proof (cases "i = 0")
    case True
    have "hd (repack_bits (d_bits d 0)) = content ! 2"
      using dr len True hd_drop_conv_nth [of 2 content] by simp
    moreover have "repack_bits (d_bits d 0) \<noteq> []"
      using False True length_repack_bits [of "d_bits d 0"] by (metis length_0_conv mult_is_0 zero_neq_numeral)
    ultimately show ?thesis using True len b by (simp add: c1_def received_bits_def g dr unpack_bits_syn Let_def)
  next
    case False
    then show ?thesis using len unat_small [OF assms(3)]
      by (simp add: c1_def received_bits_def g dr unpack_bits_syn Let_def split: option.split)
  qed
  have fr: "device_created c1 = device_created c" "addr_ip c1 = addr_ip c" "addr_port c1 = addr_port c"
    "ui_results c = [] \<Longrightarrow> ui_results c1 = []"
    by (simp_all add: c1_def received_bits_def unpack_bits_results Let_def split: option.split)
  have same: "same_device c c1"
    using assms(2) fr client_ok_cong [of c1 c] by (simp add: same_device_def c1_def)
  have first: "client_received_packet g IPIPE_DEVICE_BITS content c = Some c1"
    by (simp add: client_received_packet_def c1_def)
  show ?thesis
  proof (cases "i = 3")
    case True
    obtain c2 where "receive_packets g (map (abs_packet d) (set_bits (d_bits d 3))) c1 = Some c2" "same_device c1 c2"
      "uinput c2 = uinput c1" "ev_syn_bit c2 = ev_syn_bit c1"
      using receive_axes [OF assms(1), of c1 "set_bits (d_bits d 3)"] same by (auto simp: same_device_def)
    with True False first log syn same same_device_trans [of c c1 c2] show ?thesis
      by (auto simp: mask_packets_def content_def)
  qed (use False first log syn same in \<open>auto simp: mask_packets_def content_def\<close>)
qed

lemma receive_masks:
  assumes "device_ok d" "client_ok c" "set is \<subseteq> {0..<31}"
  shows "\<exists>c'. receive_packets g (concat (map (mask_packets d) is)) c = Some c' \<and> same_device c c' \<and>
    uinput c' = uinput c @ concat (map (mask_log d) is) \<and>
    ev_syn_bit c' = (if 0 \<in> set is \<and> d_bits d 0 \<noteq> [] then test_bit 0 (d_bits d 0) else ev_syn_bit c)"
  using assms(2,3)
proof (induction "is" arbitrary: c)
  case Nil
  then show ?case by (simp add: same_device_refl)
next
  case (Cons i "is")
  obtain c1 where c1: "receive_packets g (mask_packets d i) c = Some c1" "same_device c c1"
    "uinput c1 = uinput c @ mask_log d i"
    "ev_syn_bit c1 = (if i = 0 \<and> d_bits d 0 \<noteq> [] then test_bit 0 (d_bits d 0) else ev_syn_bit c)"
    using receive_mask [OF assms(1) Cons.prems(1), of i] Cons.prems(2) by auto
  have "client_ok c1" using c1(2) by (simp add: same_device_def)
  with Cons.IH [of c1] Cons.prems(2) obtain c2 where
    "receive_packets g (concat (map (mask_packets d) is)) c1 = Some c2" "same_device c1 c2"
    "uinput c2 = uinput c1 @ concat (map (mask_log d) is)"
    "ev_syn_bit c2 = (if 0 \<in> set is \<and> d_bits d 0 \<noteq> [] then test_bit 0 (d_bits d 0) else ev_syn_bit c1)" by auto
  with c1 same_device_trans [of c c1 c2] show ?case by (auto simp: receive_packets_append)
qed

section \<open>The whole description\<close>

lemma metadata_sendable:
  assumes "device_ok d" "d_id d = Some [b, v, p, w]"
  shows "\<forall>q \<in> set (metadata_packets d). sendable q \<and> fst q \<noteq> 0"
proof -
  have cs: "length (c_string x) < 4092" for x
    using length_takeWhile_le [of "\<lambda>c. c \<noteq> 0" "take 511 x"] by (simp add: c_string_def)
  have st: "length (take 8 (d_stack d)) = 8" "length (take 20 (d_stack d)) = 20"
    using assms(1) by (simp_all add: device_ok_def)
  have bits: "4 * length (d_bits d i) + 2 < 4092" for i
  proof -
    have "length (d_bits d i) \<le> 127" using assms(1) by (simp add: device_ok_def)
    then show ?thesis by linarith
  qed
  have mask: "\<forall>q \<in> set (mask_packets d i). sendable q \<and> fst q \<noteq> 0" for i
    using bits [of i] st by (auto simp: mask_packets_def abs_packet_def sendable_def)
  show ?thesis
    using mask cs st
    by (auto simp: metadata_packets_def sendable_def assms(2) simp del: upt_rec_numeral split: option.splits)
qed

lemma encode_count: "length ps \<le> length (concat (map encode ps))"
proof (induction ps)
  case (Cons q ps)
  have "1 \<le> length (encode q)" by (simp add: encode_def)
  with Cons.IH show ?case by simp
qed simp

lemma same_frame_socket: "client_ok (c\<lparr>socket := s\<rparr>) = client_ok c"
  by (simp add: client_ok_def)

text \<open>The server's client after all of a description that leaves nothing out.\<close>

lemma receive_metadata:
  assumes "device_ok d" "client_ok c" "d_name d = Some nb" "length (c_string nb) < 80" "d_phys d = Some pb"
    "d_id d = Some [b, v, p, w]" "d_effects d = Some n" "ui_results c = []" "\<not> device_created c"
  shows "\<exists>c'. receive_packets g (metadata_packets d) c = Some c' \<and> device_created c' \<and>
    take (length (c_string nb)) (name (dev_info c')) = c_string nb \<and> name (dev_info c') ! length (c_string nb) = 0 \<and>
    dev_id (dev_info c') = \<lparr>bustype = b, vendor = v, product = p, version = w\<rparr> \<and> ff_effects_max (dev_info c') = sint n \<and>
    ev_syn_bit c' = (if d_bits d 0 = [] then ev_syn_bit c else test_bit 0 (d_bits d 0)) \<and>
    uinput c' = uinput c @ SetPhys (phys_prefix @ client_format_addr c @ [0x2F] @ c_string pb) #
      concat (map (mask_log d) [0..<EV_MAX]) @ [WriteDevice (dev_info c'), DevCreate]"
proof -
  define nm where "nm = c_string nb"
  define c1 where "c1 = received_name nm c"
  have mn: "min 79 (length nm) = length nm" "take 79 nm = nm" using assms(4) by (simp_all add: nm_def)
  have c1: "client_ok c1" "take (length nm) (name (dev_info c1)) = nm" "name (dev_info c1) ! length nm = 0"
    using received_name_ok [OF assms(2), of nm] unfolding mn c1_def by simp_all
  have f1: "uinput c1 = uinput c" "ev_syn_bit c1 = ev_syn_bit c" "ui_results c1 = []" "\<not> device_created c1"
    "client_format_addr c1 = client_format_addr c"
    using assms(8,9) by (simp_all add: c1_def received_name_def client_format_addr_def Let_def)
  define ph where "ph = SetPhys (phys_prefix @ client_format_addr c @ [0x2F] @ c_string pb)"
  have "length (c_string pb) \<le> 511" using length_takeWhile_le [of "\<lambda>c. c \<noteq> 0" "take 511 pb"] by (simp add: c_string_def)
  then have "take (1014 - length (client_format_addr c)) (c_string pb) = c_string pb"
    using format_addr_length [of c] by simp
  then have ph: "client_set_phys (c_string pb) c1 = Some (snd (ui ph c1))"
    using set_phys_total [of "c_string pb" c1] by (simp add: ph_def f1(5))
  define idp where "idp = hton_input_id [b, v, p, w] (take 8 (d_stack d))"
  have st: "length (take 8 (d_stack d)) = 8" using assms(1) by (simp add: device_ok_def)
  have idp: "length idp = 8" "ntoh_input_id idp = \<lparr>bustype = b, vendor = v, product = p, version = w\<rparr>"
    using id_roundtrip [OF st] st by (simp_all add: idp_def)
  define c3 where "c3 = (snd (ui ph c1))\<lparr>dev_info := (dev_info c1)\<lparr>dev_id := \<lparr>bustype = b, vendor = v, product = p,
      version = w\<rparr>\<rparr>\<rparr>"
  have c3: "client_ok c3" "uinput c3 = uinput c @ [ph]" "ev_syn_bit c3 = ev_syn_bit c" "ui_results c3 = []"
    "\<not> device_created c3" "name (dev_info c3) = name (dev_info c1)"
    using c1(1) f1 by (simp_all add: c3_def client_ok_def)
  obtain c4 where c4: "receive_packets g (concat (map (mask_packets d) [0..<EV_MAX])) c3 = Some c4" "same_device c3 c4"
    "uinput c4 = uinput c3 @ concat (map (mask_log d) [0..<EV_MAX])"
    "ev_syn_bit c4 = (if 0 \<in> set [0..<EV_MAX] \<and> d_bits d 0 \<noteq> [] then test_bit 0 (d_bits d 0) else ev_syn_bit c3)"
    using receive_masks [OF assms(1) c3(1), of "[0..<EV_MAX]" g] by auto
  define c5 where "c5 = c4\<lparr>dev_info := (dev_info c4)\<lparr>ff_effects_max := sint n\<rparr>\<rparr>"
  have c5: "\<not> device_created c5" "ui_results c5 = []"
    using c4(2) c3(4,5) by (simp_all add: same_device_def c5_def)
  have front: "metadata_packets d = [(IPIPE_DEVICE_NAME, nm), (IPIPE_DEVICE_PHYS, c_string pb), (IPIPE_DEVICE_ID, idp)] @
      concat (map (mask_packets d) [0..<EV_MAX]) @ [(IPIPE_DEVICE_FF_EFFECTS_MAX, htonl n), (IPIPE_CREATE, [])]"
    using assms(3,5-7) by (simp add: metadata_packets_def nm_def idp_def del: upt_rec_numeral)
  have "receive_packets g [(IPIPE_DEVICE_NAME, nm), (IPIPE_DEVICE_PHYS, c_string pb), (IPIPE_DEVICE_ID, idp)] c = Some c3"
    using ph idp by (simp add: client_received_packet_def c1_def [symmetric] c3_def)
  moreover have "receive_packets g [(IPIPE_DEVICE_FF_EFFECTS_MAX, htonl n), (IPIPE_CREATE, [])] c4 = Some (received_create c5)"
    by (simp add: client_received_packet_def c5_def get32_def)
  ultimately have run: "receive_packets g (metadata_packets d) c = Some (received_create c5)"
    unfolding front receive_packets_append by (simp add: c4(1) del: receive_packets.simps upt_rec_numeral)
  have cr: "device_created (received_create c5)" "uinput (received_create c5) = uinput c5 @ [WriteDevice (dev_info c5), DevCreate]"
    "ev_syn_bit (received_create c5) = ev_syn_bit c5"
    using c5 by (simp_all add: received_create_def ui_def Let_def)
  have f5: "uinput c5 = uinput c @ ph # concat (map (mask_log d) [0..<EV_MAX])" "ev_syn_bit c5 = ev_syn_bit c4"
    "name (dev_info c5) = name (dev_info c1)" "dev_id (dev_info c5) = \<lparr>bustype = b, vendor = v, product = p, version = w\<rparr>"
    using c4(2,3) c3(2,6) by (simp_all add: c5_def same_device_def c3_def)
  show ?thesis
    using run cr f5 c1(2,3) c4(4) c3(3)
    by (intro exI [of _ "received_create c5"]) (auto simp: nm_def ph_def c5_def simp del: upt_rec_numeral)
qed

section \<open>Properties\<close>

lemma new_socket: "buffer_inv packet_socket_new" "write_room packet_socket_new = []" "outgoing packet_socket_new = []"
    "\<not> received_header packet_socket_new"
  by (simp_all add: buffer_inv_def packet_socket_new_def outgoing_def)

lemma client_new_ok:
  assumes "client_new ip port True [] = Some (Some self)"
  shows "client_ok self" "ui_results self = []" "\<not> device_created self" "\<not> ev_syn_bit self"
    "\<not> received_header (socket self)" "socket self = packet_socket_new"
proof -
  let ?c = "\<lparr>uinput = [], ui_results = [], device_created = False, dev_info = empty_dev,
    ev_syn_bit = False, addr_ip = ip, addr_port = port, socket = packet_socket_new\<rparr>"
  have "self = snd (ui (SetPhys (phys_prefix @ client_format_addr ?c @ [0x2F] @
      take (1014 - length (client_format_addr ?c)) [0x75, 0x6E, 0x6B, 0x6E, 0x6F, 0x77, 0x6E, 0])) ?c)"
    using assms by (simp add: client_new_def set_phys_total Let_def)
  then show "client_ok self" "ui_results self = []" "\<not> device_created self" "\<not> ev_syn_bit self"
    "\<not> received_header (socket self)" "socket self = packet_socket_new"
    by (simp_all add: client_ok_def empty_dev_def new_socket)
qed

text \<open>C7: Plugging a device into the client creates it on the server: what \<^verbatim>\<open>evdev_send_metadata\<close> writes for a device
  that answers every request, with a name of less than 80 bytes, masks of at most 127 words and axis minima that leave
  room for a range, makes a server that has just accepted the connection create one uinput device with the same name
  and identity, the physical path prefixed with the client's address, exactly the capability bits of the device's
  masks, and the flag for synchronization events that its event types show.\<close>

theorem device_is_mirrored:
  assumes "device_ok d" "d_name d = Some nb" "length (c_string nb) < 80" "d_phys d = Some pb"
    "d_id d = Some [b, v, p, w]" "d_effects d = Some n" "d_bits d 0 \<noteq> []" "client_new ip port True [] = Some (Some self)"
  shows "\<exists>s self'. evdev_send_metadata d packet_socket_new = Some s \<and>
    client_loop garbage (Suc (length (written s))) (self\<lparr>socket := packet_socket_new\<lparr>arrived := written s\<rparr>\<rparr>) = Some self' \<and>
    device_created self' \<and> take (length (c_string nb)) (name (dev_info self')) = c_string nb \<and>
    name (dev_info self') ! length (c_string nb) = 0 \<and>
    dev_id (dev_info self') = \<lparr>bustype = b, vendor = v, product = p, version = w\<rparr> \<and>
    ev_syn_bit self' = test_bit 0 (d_bits d 0) \<and>
    uinput self' = uinput self @ SetPhys (phys_prefix @ client_format_addr self @ [0x2F] @ c_string pb) #
      concat (map (mask_log d) [0..<EV_MAX]) @ [WriteDevice (dev_info self'), DevCreate]"
proof -
  let ?ps = "metadata_packets d"
  have send: "\<forall>q \<in> set ?ps. sendable q" "\<forall>q \<in> set ?ps. fst q \<noteq> 0 \<and> length (snd q) < 65536"
    using metadata_sendable [OF assms(1,5)] by (auto simp: sendable_def)
  obtain s0 where s0: "write_all ?ps packet_socket_new = Some s0" "buffer_inv s0" "outgoing s0 = concat (map encode ?ps)"
    "write_room s0 = []"
    using write_all_refines [OF new_socket(1) send(1) new_socket(2)] new_socket(3) by auto
  define s where "s = packet_socket_flush s0"
  have s: "evdev_send_metadata d packet_socket_new = Some s" "written s = concat (map encode ?ps)"
    using s0(1,3) flush_outgoing [OF s0(4,2)] by (simp_all add: send_metadata_packets s_def)
  note c = client_new_ok [OF assms(8)]
  let ?c = "self\<lparr>socket := packet_socket_new\<lparr>arrived := written s\<rparr>\<rparr>"
  have "client_ok ?c" "ui_results ?c = []" "\<not> device_created ?c" using c by (simp_all add: client_ok_def)
  from receive_metadata [OF assms(1) this(1) assms(2-6) this(2,3), of garbage]
  obtain c' where c': "receive_packets garbage ?ps ?c = Some c'" "device_created c'"
    "take (length (c_string nb)) (name (dev_info c')) = c_string nb" "name (dev_info c') ! length (c_string nb) = 0"
    "dev_id (dev_info c') = \<lparr>bustype = b, vendor = v, product = p, version = w\<rparr>"
    "ev_syn_bit c' = test_bit 0 (d_bits d 0)"
    "uinput c' = uinput self @ SetPhys (phys_prefix @ client_format_addr self @ [0x2F] @ c_string pb) #
      concat (map (mask_log d) [0..<EV_MAX]) @ [WriteDevice (dev_info c'), DevCreate]"
    using assms(7) by (auto simp: client_format_addr_def simp del: upt_rec_numeral)
  have "\<not> received_header (socket ?c)" "arrived (socket ?c) = concat (map encode ?ps)" "length ?ps < Suc (length (written s))"
    using new_socket(4) s(2) encode_count [of ?ps] by simp_all
  from client_loop_packets [OF this(1) send(2) this(2,3), of garbage] c'(1)
  obtain t where "client_loop garbage (Suc (length (written s))) ?c = Some (c'\<lparr>socket := t\<rparr>)" by auto
  with s(1) c' show ?thesis by (intro exI [of _ s] exI [of _ "c'\<lparr>socket := t\<rparr>"]) (simp del: upt_rec_numeral)
qed

text \<open>A joystick with two axes and a button.\<close>

definition joystick :: device where
  "joystick = \<lparr>d_name = Some [74, 111, 121, 0], d_phys = Some [117, 115, 98, 0], d_id = Some [3, 0x046D, 0xC215, 0x0110],
     d_bits = (\<lambda>i. if i = 0 then [0x0B] else if i = 1 then replicate 9 0 @ [1] else if i = 3 then [3, 0] else []),
     d_abs = (\<lambda>_. \<lparr>abs_value = 0, minimum = 0, maximum = 255, fuzz = 0, flat = 15\<rparr>), d_effects = Some 0,
     d_stack = replicate 20 0\<rparr>"

theorem device_is_mirrored_witness:
  "\<exists>s self self'. client_new [10, 0, 0, 2] 40000 True [] = Some (Some self) \<and>
     evdev_send_metadata joystick packet_socket_new = Some s \<and>
     client_loop \<lparr>ff_type = 0, ff_id = 0, direction = 0, trigger_button = 0, trigger_interval = 0, replay_length = 0,
       replay_delay = 0, ff_u = Rumble 0 0\<rparr> (Suc (length (written s)))
       (self\<lparr>socket := packet_socket_new\<lparr>arrived := written s\<rparr>\<rparr>) = Some self' \<and>
     take 3 (name (dev_info self')) = [74, 111, 121] \<and> ev_syn_bit self'"
proof -
  obtain self where self: "client_new [10, 0, 0, 2] 40000 True [] = Some (Some self)"
    by (simp add: client_new_def set_phys_total Let_def)
  have ok: "device_ok joystick" by (auto simp: device_ok_def joystick_def)
  have f: "d_name joystick = Some [74, 111, 121, 0]" "d_phys joystick = Some [117, 115, 98, 0]"
    "d_id joystick = Some [3, 0x046D, 0xC215, 0x0110]" "d_effects joystick = Some 0" "d_bits joystick 0 = [0x0B]"
    by (simp_all add: joystick_def)
  have cs: "c_string [74, 111, 121, 0] = [74, 111, 121]" by (simp add: c_string_def)
  have b: "test_bit 0 [0x0B]" by (simp add: test_bit_def)
  have len: "length [74, 111, 121 :: byte] = 3" by simp
  have l: "length (c_string [74, 111, 121, 0]) < 80" "d_bits joystick 0 \<noteq> []" by (simp_all add: cs f(5))
  let ?g = "\<lparr>ff_type = 0, ff_id = 0, direction = 0, trigger_button = 0, trigger_interval = 0, replay_length = 0,
    replay_delay = 0, ff_u = Rumble 0 0\<rparr>"
  obtain s self' where m: "evdev_send_metadata joystick packet_socket_new = Some s"
    "client_loop ?g (Suc (length (written s))) (self\<lparr>socket := packet_socket_new\<lparr>arrived := written s\<rparr>\<rparr>) = Some self'"
    "take 3 (name (dev_info self')) = [74, 111, 121]" "ev_syn_bit self'"
    using device_is_mirrored [OF ok f(1) l(1) f(2-4) l(2) self, of ?g] b unfolding cs f(5) len by blast
  show ?thesis
    by (intro exI [of _ s] exI [of _ self] exI [of _ self'] conjI) (rule self m)+
qed

text \<open>An event read from the device is written to its copy: for an event that is not of the kinds that only go to
  devices, \<^verbatim>\<open>evdev_send_event\<close> appends one packet to what the client has to send, and that packet makes the server
  write the same event to uinput, followed by a synchronization event when the device sends
  none of its own.\<close>

lemma event_is_mirrored:
  assumes "buffer_inv s" "write_room s = []" "length stack \<ge> 16" "\<not> is_output_event ev" "device_created self"
  shows "\<exists>s' content. evdev_send_event evbits stack (ReadEvent ev) s = Some (0, s') \<and>
     outgoing s' = outgoing s @ encode (IPIPE_EVENT, content) \<and>
     (\<exists>self'. client_received_packet garbage IPIPE_EVENT content self = Some self' \<and>
        uinput self' = uinput self @ WriteEvent ev #
          (if ev_syn_bit self then []
           else [WriteEvent (ev\<lparr>ev_type := EV_SYN, ev_code := 0, ev_value := 0\<rparr>)]))"
proof -
  define c where "c = hton_input_event ev (take 16 stack)"
  have st: "length (take 16 stack) = 16" using assms(3) by simp
  have c: "length c = 16" "ntoh_input_event c = ev"
    using event_roundtrip [OF st] st by (simp_all add: c_def)
  obtain s1 where s1: "packet_socket_write IPIPE_EVENT c s = Some s1" "buffer_inv s1"
    "outgoing s1 = outgoing s @ encode (IPIPE_EVENT, c)" "write_room s1 = []"
    using write_refines [OF assms(1) _ assms(2), of "(IPIPE_EVENT, c)"] c(1) by (auto simp: sendable_def)
  define s2 where "s2 = (if test_bit 0 evbits then (if ev_type ev = EV_SYN then packet_socket_flush s1 else s1)
    else packet_socket_flush s1)"
  have "evdev_send_event evbits stack (ReadEvent ev) s = Some (0, s2)"
    using assms(4) s1(1) by (simp add: evdev_send_event_def c_def [symmetric] s2_def Let_def)
  moreover have "outgoing s2 = outgoing s @ encode (IPIPE_EVENT, c)"
    using flush_outgoing [OF s1(4,2)] s1(3) by (simp add: s2_def)
  moreover have "client_received_packet garbage IPIPE_EVENT c self = Some (received_event c self)"
    by (simp add: client_received_packet_def)
  moreover have "uinput (received_event c self) = uinput self @ WriteEvent ev #
      (if ev_syn_bit self then [] else [WriteEvent (ev\<lparr>ev_type := EV_SYN, ev_code := 0, ev_value := 0\<rparr>)])"
    using c assms(5) by (simp add: received_event_def Let_def)
  ultimately show ?thesis by blast
qed

lemma event_is_mirrored_witness:
  "\<exists>s' content self'. evdev_send_event [3] (replicate 16 0) (ReadEvent \<lparr>tv_sec = 1, tv_usec = 2, ev_type = EV_KEY, ev_code = 30,
       ev_value = 1\<rparr>) packet_socket_new = Some (0, s') \<and>
     client_received_packet \<lparr>ff_type = 0, ff_id = 0, direction = 0, trigger_button = 0, trigger_interval = 0,
       replay_length = 0, replay_delay = 0, ff_u = Rumble 0 0\<rparr> IPIPE_EVENT content (client0\<lparr>device_created := True\<rparr>)
       = Some self' \<and>
     hd (uinput self') = WriteEvent \<lparr>tv_sec = 1, tv_usec = 2, ev_type = EV_KEY, ev_code = 30, ev_value = 1\<rparr>"
proof -
  let ?ev = "\<lparr>tv_sec = 1, tv_usec = 2, ev_type = EV_KEY, ev_code = 30, ev_value = 1\<rparr>"
  have a: "\<not> is_output_event ?ev" "16 \<le> length (replicate 16 (0 :: byte))" "device_created (client0\<lparr>device_created := True\<rparr>)"
    by (simp_all add: is_output_event_def)
  have e: "uinput (client0\<lparr>device_created := True\<rparr>) = []" by (simp add: client0_def)
  from event_is_mirrored [OF new_socket(1,2) a(2,1,3)] show ?thesis unfolding e by fastforce
qed

text \<open>A rumble effect, and a connection that has just been opened.\<close>

definition ff_effect0 :: "u16 \<Rightarrow> ff_effect" where
  "ff_effect0 i = \<lparr>ff_type = 0x50, ff_id = i, direction = 0, trigger_button = 0, trigger_interval = 0, replay_length = 100,
     replay_delay = 0, ff_u = Rumble 0x4000 0x8000\<rparr>"

definition connection0 :: connection where
  "connection0 = \<lparr>c_socket = packet_socket_new, c_evdev = [], c_evbits = []\<rparr>"



end
