(* ===== verification/Ipipe_Poll.thy ===== *)
theory Ipipe_Poll
  imports Ipipe_Client Ipipe_Serve
begin

text \<open>
  The receive loops of inputpipe end: each packet that \<^verbatim>\<open>packet_socket_read\<close> returns takes bytes from the stream,
  so the loops of \<^verbatim>\<open>client_poll\<close> and \<^verbatim>\<open>connection_poll\<close> read no more packets than bytes have arrived, however
  these are cut into packets, and the fuel of their models never runs out.
\<close>

text \<open>A header that waits for its content announces some.\<close>

definition header_ok :: "packet_socket \<Rightarrow> bool" where
  "header_ok s \<longleftrightarrow> (received_header s \<longrightarrow> ntohs (drop 2 (pkt_header s)) \<noteq> 0)"

lemma read_content_progress:
  assumes "read_content s = (t, c, s')"
  shows "header_ok s' \<and> (t \<noteq> 0 \<longrightarrow> length (arrived s') + unat (ntohs (drop 2 (pkt_header s))) = length (arrived s))"
  using assms by (auto simp: read_content_def fread1_def header_ok_def Let_def unat_eq_0 split: if_splits)

lemma read_progress:
  assumes "packet_socket_read s = (t, c, s')" "header_ok s"
  shows "header_ok s' \<and> (t \<noteq> 0 \<longrightarrow> length (arrived s') < length (arrived s))"
proof (cases "received_header s")
  case True
  then have "0 < unat (ntohs (drop 2 (pkt_header s)))" using assms(2) by (simp add: header_ok_def unat_gt_0)
  with True read_content_progress [of s t c s'] assms(1) show ?thesis by (auto simp: packet_socket_read_def)
next
  case False
  show ?thesis
  proof (cases "4 \<le> length (arrived s)")
    case True
    let ?s = "s\<lparr>arrived := drop 4 (arrived s), pkt_header := take 4 (arrived s), received_header := True\<rparr>"
    have "read_content ?s = (t, c, s')" using assms(1) False True by (simp add: packet_socket_read_def fread1_def)
    from read_content_progress [OF this] True show ?thesis by auto
  qed (use assms(1) False in \<open>auto simp: packet_socket_read_def fread1_def header_ok_def\<close>)
qed

text \<open>What both loops are: packets are read and handled, until none is left, by a handler that leaves the incoming side
  of the socket alone.\<close>

locale receive_loop =
  fixes sock :: "'s \<Rightarrow> packet_socket"
    and put_sock :: "packet_socket \<Rightarrow> 's \<Rightarrow> 's"
    and handle :: "u16 \<Rightarrow> byte list \<Rightarrow> 's \<Rightarrow> 's option"
    and loop :: "nat \<Rightarrow> 's \<Rightarrow> 's option"
  assumes sock_put: "sock (put_sock p s) = p"
    and handle_in: "handle t c s = Some s' \<Longrightarrow>
      arrived (sock s') = arrived (sock s) \<and> pkt_header (sock s') = pkt_header (sock s) \<and>
      received_header (sock s') = received_header (sock s)"
    and loop_step: "packet_socket_read (sock s) = (t, c, p) \<Longrightarrow>
      loop (Suc fuel) s = (if t = 0 then Some (put_sock p s) else Option.bind (handle t c (put_sock p s)) (loop fuel))"
begin

lemma loop_ends:
  assumes "header_ok (sock s)" "length (arrived (sock s)) \<le> n" "length (arrived (sock s)) \<le> m"
  shows "loop (Suc n) s = loop (Suc m) s \<and> (\<forall>s'. loop (Suc n) s = Some s' \<longrightarrow> header_ok (sock s'))"
  using assms
proof (induction n arbitrary: s m)
  case 0
  obtain t c p where r: "packet_socket_read (sock s) = (t, c, p)" by (cases "packet_socket_read (sock s)")
  then have "t = 0" "header_ok p" using read_progress [OF r 0(1)] 0(2) by auto
  then show ?case by (simp add: loop_step [OF r] sock_put)
next
  case (Suc n)
  obtain t c p where r: "packet_socket_read (sock s) = (t, c, p)" by (cases "packet_socket_read (sock s)")
  note g = read_progress [OF r Suc.prems(1)]
  show ?case
  proof (cases "t = 0")
    case True
    then show ?thesis using g by (simp add: loop_step [OF r] sock_put)
  next
    case False
    then obtain k where k: "m = Suc k" using g Suc.prems(3) by (cases m) auto
    show ?thesis
    proof (cases "handle t c (put_sock p s)")
      case (Some x)
      have "arrived (sock x) = arrived p" "header_ok (sock x)"
        using handle_in [OF Some] g by (simp_all add: sock_put header_ok_def)
      then have "loop (Suc n) x = loop (Suc k) x \<and> (\<forall>s'. loop (Suc n) x = Some s' \<longrightarrow> header_ok (sock s'))"
        using Suc.IH [of x k] g False k Suc.prems(2,3) by simp
      then show ?thesis using False k by (simp add: loop_step [OF r] Some)
    qed (simp add: loop_step [OF r] False)
  qed
qed

end

lemma server_handler_in:
  assumes "client_received_packet garbage t c self = Some self'"
  shows "socket self' = socket self"
proof -
  have "map_option (\<lambda>x. x\<lparr>socket := socket self\<rparr>) (client_received_packet garbage t c self) = Some self'"
    using received_packet_socket [of garbage t c "socket self" self] assms by simp
  then show ?thesis by auto
qed

interpretation server_loop: receive_loop socket "\<lambda>p. socket_update (\<lambda>_. p)" "client_received_packet garbage" "client_loop garbage"
  for garbage
proof unfold_locales
  show "socket (self\<lparr>socket := p\<rparr>) = p" for self :: client and p by simp
qed (auto dest: server_handler_in simp: Let_def)

text \<open>Writing a packet leaves the incoming side alone.\<close>

lemma flush_in:
  "arrived (packet_socket_flush s) = arrived s" "pkt_header (packet_socket_flush s) = pkt_header s"
  "received_header (packet_socket_flush s) = received_header s"
  by (simp_all add: packet_socket_flush_def Let_def)

lemma write_in:
  assumes "packet_socket_write t c s = Some s'"
  shows "arrived s' = arrived s \<and> pkt_header s' = pkt_header s \<and> received_header s' = received_header s"
  using assms by (auto simp: packet_socket_write_def buffer_copy_def flush_in Let_def split: if_splits bind_splits)

lemma connection_handler_in:
  assumes "connection_received_packet sff rmff garbage stack t c self = Some self'"
  shows "arrived (c_socket self') = arrived (c_socket self) \<and> pkt_header (c_socket self') = pkt_header (c_socket self) \<and>
    received_header (c_socket self') = received_header (c_socket self)"
  using assms
  by (auto simp: connection_received_packet_def flush_in Let_def dest!: write_in
      split: if_splits bind_splits prod.splits)

interpretation conn_loop: receive_loop c_socket "\<lambda>p. c_socket_update (\<lambda>_. p)"
  "connection_received_packet sff rmff garbage stack" "connection_loop (connection_received_packet sff rmff garbage stack)"
  for sff rmff garbage stack
proof unfold_locales
  show "c_socket (self\<lparr>c_socket := p\<rparr>) = p" for self :: connection and p by simp
next
  show "arrived (c_socket self') = arrived (c_socket self) \<and> pkt_header (c_socket self') = pkt_header (c_socket self) \<and>
      received_header (c_socket self') = received_header (c_socket self)"
    if "connection_received_packet sff rmff garbage stack t c self = Some self'" for t c self self'
    by (rule connection_handler_in [OF that])
qed (simp add: Let_def)

text \<open>C31: The receive loops end on every stream: whatever bytes have arrived, whole packets or not, the loops of
  \<^verbatim>\<open>client_poll\<close> and \<^verbatim>\<open>connection_poll\<close> do at most one round more than bytes have arrived (any larger number
  of rounds gives the same), and leave the socket ready for the next poll: a header that waits for its content
  announces some.\<close>

theorem receive_loops_end:
  assumes "header_ok (socket self)" "length (arrived (socket self)) \<le> n" "header_ok (c_socket con)"
    "length (arrived (c_socket con)) \<le> m"
  shows "(client_loop garbage (Suc n) self = client_loop garbage (Suc (length (arrived (socket self)))) self \<and>
       (\<forall>self'. client_loop garbage (Suc n) self = Some self' \<longrightarrow> header_ok (socket self'))) \<and>
     (let received = connection_received_packet sff rmff garbage stack in
       connection_loop received (Suc m) con = connection_loop received (Suc (length (arrived (c_socket con)))) con \<and>
       (\<forall>con'. connection_loop received (Suc m) con = Some con' \<longrightarrow> header_ok (c_socket con')))"
  using server_loop.loop_ends [OF assms(1,2) order_refl, of garbage]
    conn_loop.loop_ends [OF assms(3,4) order_refl, of sff rmff garbage stack]
  unfolding Let_def by (rule conjI)

theorem receive_loops_end_witness:
  "let g = \<lparr>ff_type = 0, ff_id = 0, direction = 0, trigger_button = 0, trigger_interval = 0, replay_length = 0,
         replay_delay = 0, ff_u = Rumble 0 0\<rparr>;
       s = packet_socket_new\<lparr>arrived := [2, 1, 0, 5, 65]\<rparr>;
       con = \<lparr>c_socket = s, c_evdev = [], c_evbits = []\<rparr>;
       received = connection_received_packet (\<lambda>e. (0, 0, e)) (\<lambda>_. 0) g (replicate 48 0)
   in client_loop g (Suc 9) (client0\<lparr>socket := s\<rparr>) = client_loop g (Suc 5) (client0\<lparr>socket := s\<rparr>) \<and>
     connection_loop received (Suc 7) con = connection_loop received (Suc 5) con"
proof -
  let ?s = "packet_socket_new\<lparr>arrived := [2, 1, 0, 5, 65]\<rparr>"
  let ?con = "\<lparr>c_socket = ?s, c_evdev = [], c_evbits = []\<rparr>"
  have a: "header_ok (socket (client0\<lparr>socket := ?s\<rparr>))" "length (arrived (socket (client0\<lparr>socket := ?s\<rparr>))) \<le> 9"
    "header_ok (c_socket ?con)" "length (arrived (c_socket ?con)) \<le> 7"
    and l: "length (arrived (socket (client0\<lparr>socket := ?s\<rparr>))) = 5" "length (arrived (c_socket ?con)) = 5"
    by (simp_all add: header_ok_def packet_socket_new_def)
  from receive_loops_end [OF a] show ?thesis unfolding l Let_def by blast
qed

end
