(* ===== verification/Ipipe_Run.thy ===== *)
theory Ipipe_Run
  imports Ipipe_Poll
begin

text \<open>
  The main loop of the inputpipe server (\<^verbatim>\<open>main_loop\<close> and \<^verbatim>\<open>listener_poll\<close> of \<^verbatim>\<open>inputpipe/src/server.c\<close>):
  rounds in which a connection may be accepted and every client in the list is polled, over any stream of bytes cut
  anywhere. The invariant of these runs holds for every client; a round fails only on a packet with a bad axis. The
  list is that of \<open>Ipipe_List\<close>, by its elements in order.
\<close>

section \<open>Rounds\<close>

text \<open>What \<^verbatim>\<open>select\<close> has found for a client: the event read from its uinput device, and the bytes that arrived.\<close>

record client_input =
  in_garbage :: ff_effect
  in_event :: "(int \<times> ff_effect \<times> u16 \<times> byte list \<times> input_event) option"
  in_news :: "(byte list \<times> bool) option"

text \<open>A connection that was accepted: its address, whether uinput can be opened and what it will answer.\<close>

type_synonym accepted = "byte list \<times> u16 \<times> bool \<times> int list"

definition listener_poll :: "accepted option \<Rightarrow> client list \<Rightarrow> client list option" where
  "listener_poll accept cs =
     (case accept of
        None \<Rightarrow> Some cs
      | Some (ip, port, opened, results) \<Rightarrow> do {
          c \<leftarrow> client_new ip port opened results;
          Some (case c of None \<Rightarrow> cs | Some c \<Rightarrow> cs @ [c])
        })"

text \<open>The uinput device is watched only once it has been created.\<close>

fun poll_clients :: "client_input list \<Rightarrow> client list \<Rightarrow> client list option" where
  "poll_clients ins [] = Some []"
| "poll_clients [] cs = Some cs"
| "poll_clients (i # ins) (c # cs) = do {
     r \<leftarrow> client_poll (in_garbage i) (if device_created c then in_event i else None) (in_news i) c;
     cs \<leftarrow> poll_clients ins cs;
     Some (case r of None \<Rightarrow> cs | Some c \<Rightarrow> c # cs)
   }"

definition main_round :: "accepted option \<Rightarrow> client_input list \<Rightarrow> client list \<Rightarrow> client list option" where
  "main_round accept ins cs = Option.bind (listener_poll accept cs) (poll_clients ins)"

text \<open>The memory of an upload packet has its 44 bytes.\<close>

definition stack_ok :: "client_input \<Rightarrow> bool" where
  "stack_ok i = (case in_event i of None \<Rightarrow> True | Some (_, _, _, stack, _) \<Rightarrow> length stack = 44)"

text \<open>Started as a daemon with no client, or from inetd with the one on its standard input.\<close>

inductive server_run :: "client list \<Rightarrow> bool" where
  daemon: "server_run []"
| inetd: "client_new ip port True results = Some (Some c) \<Longrightarrow> server_run [c]"
| round: "server_run cs \<Longrightarrow> \<forall>i \<in> set ins. stack_ok i \<Longrightarrow> main_round accept ins cs = Some cs' \<Longrightarrow> server_run cs'"

section \<open>The log of a uinput device\<close>

text \<open>No event is written before the device has been created.\<close>

definition quiet :: "uinput_op list \<Rightarrow> bool" where
  "quiet log \<longleftrightarrow> (\<forall>ev. WriteEvent ev \<notin> set (takeWhile (\<lambda>q. q \<noteq> DevCreate) log))"

lemma quiet_append: "quiet (xs @ ys) \<longleftrightarrow> quiet xs \<and> (DevCreate \<in> set xs \<or> quiet ys)"
proof (cases "DevCreate \<in> set xs")
  case True
  then obtain as bs where "xs = as @ DevCreate # bs" "DevCreate \<notin> set as" by (metis split_list_first)
  then show ?thesis by (auto simp: quiet_def takeWhile_append)
next
  case False
  then have t: "takeWhile (\<lambda>q. q \<noteq> DevCreate) xs = xs" "\<forall>x \<in> set xs. x \<noteq> DevCreate"
    by (auto simp: takeWhile_eq_all_conv)
  then have a: "takeWhile (\<lambda>q. q \<noteq> DevCreate) (xs @ ys) = xs @ takeWhile (\<lambda>q. q \<noteq> DevCreate) ys"
    by (simp add: takeWhile_append)
  show ?thesis unfolding quiet_def a t(1) using False by auto
qed

lemma quiet_Cons [simp]:
  "quiet []" "quiet (SetPhys b # qs) = quiet qs" "quiet (WriteDevice d # qs) = quiet qs" "quiet (DevCreate # qs)"
  "quiet (EndUpload i r e # qs) = quiet qs" "quiet (EndErase i r # qs) = quiet qs" "quiet (WriteEvent ev # qs) = False"
  by (auto simp: quiet_def)

lemma quiet_bits [simp]: "quiet (map (SetBit ioc) xs)"
  by (auto simp: quiet_def dest: set_takeWhileD)

definition log_ok :: "client \<Rightarrow> bool" where
  "log_ok c \<longleftrightarrow> quiet (uinput c) \<and> (device_created c \<longrightarrow> DevCreate \<in> set (uinput c))"

lemma log_ok_socket [simp]: "log_ok (c\<lparr>socket := s\<rparr>) = log_ok c"
  by (simp add: log_ok_def)

lemma received_log:
  assumes "client_received_packet g t content c = Some c'" "log_ok c"
  shows "log_ok c'"
proof -
  have "log_ok (received_event content c)" using assms(2) by (auto simp: received_event_def log_ok_def quiet_append Let_def)
  moreover have "log_ok (received_bits content c)"
    using assms(2) by (auto simp: received_bits_def log_ok_def quiet_append unpack_bits_log Let_def split: option.split)
  moreover have "log_ok (received_create c)"
    using assms(2) by (auto simp: received_create_def log_ok_def quiet_append ui_def Let_def)
  moreover have "log_ok (received_name content c)" using assms(2) by (simp add: received_name_def log_ok_def Let_def)
  moreover have "received_absinfo content c = Some c' \<Longrightarrow> log_ok c'"
    using assms(2) by (auto simp: received_absinfo_def log_ok_def Let_def split: if_splits bind_splits)
  moreover have "log_ok (snd (ui (SetPhys b) c))" "log_ok (snd (ui (EndUpload i r e) c))" "log_ok (snd (ui (EndErase i r) c))"
    "log_ok (c\<lparr>dev_info := d\<rparr>)" for b i r e d
    using assms(2) by (auto simp: log_ok_def quiet_append)
  ultimately show ?thesis
    using assms by (auto simp only: client_received_packet_def set_phys_total option.inject split: if_splits)
qed

lemma received_client_ok:
  assumes "client_received_packet g t content c = Some c'" "client_ok c"
  shows "client_ok c'"
proof (cases "hostile t content")
  case True
  then have t: "client_received_packet g t content c = received_absinfo content c" "length content = 20"
    by (simp_all add: hostile_def client_received_packet_def)
  let ?a = "sint (get32 0 content)" and ?m = "sint (get32 8 content)"
  have "received_absinfo content c = None"
  proof (cases "?a < 0")
    case True
    then show ?thesis using t(2) by (simp add: received_absinfo_def set_at_def Let_def)
  next
    case False
    with True have a: "?a \<le> 63" "2147483645 < ?m" by (simp_all add: hostile_def)
    have l: "length (absmin (dev_info c)) = 64" using assms(2) by (simp add: client_ok_def)
    have "c_add ?m 2 = None" using a(2) by (simp add: c_add_def chk32_def int32_ok_def)
    moreover have "mend_absinfo (nat ?a) d = None" if "absmin d = (absmin (dev_info c))[nat ?a := ?m]" "c_add ?m 2 = None" for d
      using that a(1) False l by (simp add: mend_absinfo_def nat_less_iff)
    ultimately show ?thesis using t(2) a(1) by (simp add: received_absinfo_def set_at_def Let_def)
  qed
  with assms(1) t(1) show ?thesis by simp
next
  case False
  with received_packet_total [OF assms(2) False, of g] assms(1) show ?thesis by auto
qed

section \<open>The loop on any stream\<close>

lemma client_loop_packets_of:
  "client_loop garbage fuel self =
     (case read_all fuel (socket self) of
        (ps, s) \<Rightarrow> map_option (\<lambda>x. x\<lparr>socket := s\<rparr>) (receive_packets garbage ps self))"
proof (induction fuel arbitrary: self)
  case (Suc fuel)
  obtain t c s where r: "packet_socket_read (socket self) = (t, c, s)" by (cases "packet_socket_read (socket self)")
  obtain ps s' where ps: "read_all fuel s = (ps, s')" by (cases "read_all fuel s")
  show ?case
  proof (cases "t = 0")
    case False
    have *: "receive_packets garbage ps (x\<lparr>socket := s\<rparr>) = map_option (\<lambda>x. x\<lparr>socket := s\<rparr>) (receive_packets garbage ps x)" for x
      by (rule receive_packets_socket)
    show ?thesis
      using False
      by (cases "client_received_packet garbage t c self")
        (simp_all add: r ps Let_def received_packet_socket Suc.IH * option.map_comp o_def)
  qed (simp add: r Let_def)
qed simp

text \<open>No packet of what has been read is hostile.\<close>

definition news_ok :: "client_input \<Rightarrow> client \<Rightarrow> bool" where
  "news_ok i c =
     (case in_news i of
        None \<Rightarrow> True
      | Some (bytes, hup) \<Rightarrow>
          let s = (socket c)\<lparr>arrived := arrived (socket c) @ bytes, hung_up := hup\<rparr>
          in \<forall>p \<in> set (fst (read_all (Suc (length (arrived s))) s)). \<not> hostile (fst p) (snd p))"

lemma write_total:
  assumes "buffer_inv s" "length c < 4092"
  shows "\<exists>s'. packet_socket_write t c s = Some s' \<and> buffer_inv s'"
proof -
  define n where "n = length c + 4"
  define u where "u = (if int n > wb_remaining s then packet_socket_flush s else s)"
  have u: "buffer_inv u" "wb_current u + n \<le> BUFFER_SIZE"
    using assms flush_inv [OF assms(1)]
    by (auto simp: u_def n_def buffer_inv_def packet_socket_flush_def Let_def)
  let ?u = "u\<lparr>wb_remaining := wb_remaining u - int n\<rparr>"
  let ?pkt = "htons t @ htons (of_nat (length c))"
  obtain s1 where s1: "buffer_copy ?pkt ?u = Some s1" "length (wb_data s1) = BUFFER_SIZE"
    "wb_current s1 = wb_current u + 4" "wb_remaining s1 = wb_remaining u - int n"
    using buffer_copy_ok [of ?u ?pkt] u by (auto simp: buffer_inv_def n_def)
  obtain s2 where s2: "buffer_copy c s1 = Some s2" "length (wb_data s2) = BUFFER_SIZE"
    "wb_current s2 = wb_current s1 + length c" "wb_remaining s2 = wb_remaining s1"
    using buffer_copy_ok [of s1 c] s1 u(2) by (auto simp: buffer_inv_def n_def)
  have "packet_socket_write t c s = Some s2"
    using assms(2) s1(1) s2(1) by (simp add: packet_socket_write_def Let_def u_def n_def)
  moreover have "buffer_inv s2" using u s1 s2 by (auto simp: buffer_inv_def n_def)
  ultimately show ?thesis by blast
qed

section \<open>The invariant\<close>

definition run_ok :: "client \<Rightarrow> bool" where
  "run_ok c \<longleftrightarrow> client_ok c \<and> log_ok c \<and> header_ok (socket c) \<and> buffer_inv (socket c)"

text \<open>What reading depends on.\<close>

definition same_in :: "packet_socket \<Rightarrow> packet_socket \<Rightarrow> bool" where
  "same_in s s' \<longleftrightarrow>
     arrived s' = arrived s \<and> pkt_header s' = pkt_header s \<and> received_header s' = received_header s \<and> at_eof s' = at_eof s"

lemma write_same_in: "packet_socket_write t c s = Some s' \<Longrightarrow> same_in s s'"
  by (auto simp: same_in_def packet_socket_write_def buffer_copy_def packet_socket_flush_def Let_def
      split: if_splits bind_splits)

lemma flush_same_in: "same_in s s' \<Longrightarrow> same_in s (packet_socket_flush s')"
  by (simp add: same_in_def packet_socket_flush_def Let_def)

definition like :: "u16 \<times> byte list \<times> packet_socket \<Rightarrow> u16 \<times> byte list \<times> packet_socket \<Rightarrow> bool" where
  "like x y \<longleftrightarrow>
     fst y = fst x \<and> fst (snd y) = fst (snd x) \<and> same_in (snd (snd x)) (snd (snd y)) \<and>
     hung_up (snd (snd y)) = hung_up (snd (snd x))"

lemma content_same_in: "same_in s s' \<Longrightarrow> hung_up s' = hung_up s \<Longrightarrow> like (read_content s) (read_content s')"
  by (simp add: like_def same_in_def read_content_def fread1_def Let_def)

lemma read_same_in: "same_in s s' \<Longrightarrow> hung_up s' = hung_up s \<Longrightarrow> like (packet_socket_read s) (packet_socket_read s')"
proof (cases "received_header s")
  case True
  assume "same_in s s'" "hung_up s' = hung_up s"
  with True content_same_in show ?thesis by (simp add: packet_socket_read_def same_in_def)
next
  case False
  let ?g = "\<lambda>s. s\<lparr>arrived := drop 4 (arrived s), pkt_header := take 4 (arrived s), received_header := True\<rparr>"
  assume a: "same_in s s'" "hung_up s' = hung_up s"
  then have "like (read_content (?g s)) (read_content (?g s'))" by (intro content_same_in) (simp_all add: same_in_def)
  with False a show ?thesis by (simp add: packet_socket_read_def fread1_def same_in_def) (simp add: like_def same_in_def)
qed

lemma read_all_same_in:
  assumes "same_in s s'" "hung_up s' = hung_up s"
  shows "fst (read_all n s') = fst (read_all n s)"
  using assms
proof (induction n arbitrary: s s')
  case (Suc n)
  obtain t c u where r: "packet_socket_read s = (t, c, u)" by (cases "packet_socket_read s")
  obtain u' where r': "packet_socket_read s' = (t, c, u')" "same_in u u'" "hung_up u' = hung_up u"
    using read_same_in [OF Suc.prems] r by (cases "packet_socket_read s'") (auto simp: like_def)
  from Suc.IH [OF r'(2,3)] r r'(1) show ?case
    by (cases "read_all n u"; cases "read_all n u'") simp
qed simp

lemma event_step:
  assumes "run_ok c" "length stack = 44"
  shows "\<exists>s. client_received_event r effect eid stack ev c = Some (c\<lparr>socket := s\<rparr>) \<and> run_ok (c\<lparr>socket := s\<rparr>) \<and>
    same_in (socket c) s"
proof -
  let ?good = "\<lambda>s. run_ok (c\<lparr>socket := s\<rparr>) \<and> same_in (socket c) s"
  have good: "?good (packet_socket_flush s)" if "buffer_inv s" "same_in (socket c) s" for s
    using assms(1) flush_inv [OF that(1)] flush_same_in [OF that(2)]
    by (auto simp: run_ok_def header_ok_def same_in_def client_ok_def)
  have wr: "\<exists>s. packet_socket_write t p (socket c) = Some s \<and> ?good (packet_socket_flush s)" if l: "length p < 4092" for t p
  proof -
    have "buffer_inv (socket c)" using assms(1) by (simp add: run_ok_def)
    then obtain s where "packet_socket_write t p (socket c) = Some s" "buffer_inv s"
      using write_total [OF _ l, of "socket c" t] by blast
    with good write_same_in show ?thesis by blast
  qed
  have same: "same_in (socket c) (socket c)" by (simp add: same_in_def)
  have "buffer_inv (socket c)" using assms(1) by (simp add: run_ok_def)
  from good [OF this same] have none: "?good (socket c)" "?good (packet_socket_flush (socket c))" using assms(1) same by simp_all
  let ?up = "htonl (ev_value ev) @ hton_ff_effect effect (take 38 (drop 4 stack)) @ take 2 (drop 42 stack)"
  let ?er = "htonl (ev_value ev) @ htons eid @ take 2 (drop 6 stack)"
  let ?e = "hton_input_event ev (take 16 stack)"
  have l: "length ?up < 4092" "length ?er < 4092" "length ?e < 4092" using assms(2) by simp_all
  obtain s1 where s1: "packet_socket_write IPIPE_UPLOAD_EFFECT ?up (socket c) = Some s1" "?good (packet_socket_flush s1)"
    using wr [OF l(1)] by blast
  obtain s2 where s2: "packet_socket_write IPIPE_ERASE_EFFECT ?er (socket c) = Some s2" "?good (packet_socket_flush s2)"
    using wr [OF l(2)] by blast
  obtain s3 where s3: "packet_socket_write IPIPE_EVENT ?e (socket c) = Some s3" "?good (packet_socket_flush s3)"
    using wr [OF l(3)] by blast
  have self: "c = c\<lparr>socket := socket c\<rparr>" by simp
  consider "ev_type ev \<noteq> EV_UINPUT" | "ev_type ev = EV_UINPUT" "ev_code ev = 1" "0 \<le> r"
    | "ev_type ev = EV_UINPUT" "ev_code ev = 2" "0 \<le> r" | "ev_type ev = EV_UINPUT" "ev_code ev \<notin> {1, 2}"
    | "ev_type ev = EV_UINPUT" "ev_code ev \<in> {1, 2}" "r < 0" by force
  then show ?thesis
  proof cases
    case 1
    with s3 show ?thesis by (intro exI [of _ "packet_socket_flush s3"]) (simp add: client_received_event_def)
  next
    case 2
    with s1 show ?thesis by (intro exI [of _ "packet_socket_flush s1"]) (simp add: client_received_event_def)
  next
    case 3
    with s2 show ?thesis by (intro exI [of _ "packet_socket_flush s2"]) (simp add: client_received_event_def)
  next
    case 4
    with none(2) show ?thesis
      by (intro exI [of _ "packet_socket_flush (socket c)"]) (simp add: client_received_event_def)
  next
    case 5
    with none(1) show ?thesis by (intro exI [of _ "socket c"]) (auto simp: client_received_event_def)
  qed
qed

lemma read_buffer: "buffer_inv (snd (snd (packet_socket_read s))) = buffer_inv s"
  by (simp add: buffer_inv_def packet_socket_read_def read_content_def fread1_def Let_def)

lemma read_all_buffer: "buffer_inv (snd (read_all n s)) = buffer_inv s"
proof (induction n arbitrary: s)
  case (Suc n)
  obtain t c u where r: "packet_socket_read s = (t, c, u)" by (cases "packet_socket_read s")
  with read_buffer [of s] have "buffer_inv u = buffer_inv s" by simp
  with Suc.IH [of u] r show ?case by (cases "read_all n u") simp
qed simp

lemma loop_step:
  assumes "client_loop g (Suc (length (arrived (socket c)))) c = Some c'" "run_ok c"
  shows "run_ok c'"
proof -
  obtain ps s where ps: "read_all (Suc (length (arrived (socket c)))) (socket c) = (ps, s)"
    by (cases "read_all (Suc (length (arrived (socket c)))) (socket c)")
  obtain x where x: "receive_packets g ps c = Some x" "c' = x\<lparr>socket := s\<rparr>"
    using assms(1) unfolding client_loop_packets_of ps by auto
  have "client_ok x \<and> log_ok x" if "client_ok c" "log_ok c" "receive_packets g ps c = Some x" for ps c
    using that
  proof (induction ps arbitrary: c)
    case (Cons p ps)
    then obtain y where y: "client_received_packet g (fst p) (snd p) c = Some y" "receive_packets g ps y = Some x"
      by (auto split: bind_splits)
    show ?case
      by (rule Cons.IH [OF _ _ y(2)])
        (rule received_client_ok [OF y(1)] received_log [OF y(1)] | rule Cons.prems)+
  qed simp
  with assms(2) x have "client_ok c'" "log_ok c'" by (auto simp: run_ok_def client_ok_def)
  moreover have "header_ok (socket c')"
    using server_loop.loop_ends [of c _ _ g] assms by (auto simp: run_ok_def)
  moreover have "buffer_inv (socket c')"
    using assms(2) x(2) ps read_all_buffer [of "Suc (length (arrived (socket c)))" "socket c"] by (simp add: run_ok_def)
  ultimately show ?thesis by (simp add: run_ok_def)
qed

lemma loop_total:
  assumes "run_ok c" "\<forall>p \<in> set (fst (read_all n (socket c))). \<not> hostile (fst p) (snd p)"
  shows "\<exists>c'. client_loop g n c = Some c'"
proof -
  have "client_ok c" using assms(1) by (simp add: run_ok_def)
  with receive_packets_total assms(2) show ?thesis
    unfolding client_loop_packets_of by (fastforce split: prod.split)
qed

lemma poll_step:
  assumes "run_ok c" "stack_ok i"
  shows "client_poll (in_garbage i) (if device_created c then in_event i else None) (in_news i) c = Some (Some c') \<Longrightarrow> run_ok c'"
    and "news_ok i c \<Longrightarrow>
      \<exists>r. client_poll (in_garbage i) (if device_created c then in_event i else None) (in_news i) c = Some r"
proof -
  define ev where "ev = (if device_created c then in_event i else None)"
  obtain s where s: "(case ev of None \<Rightarrow> Some c
      | Some (r, effect, eid, stack, e) \<Rightarrow> client_received_event r effect eid stack e c) = Some (c\<lparr>socket := s\<rparr>)"
    "run_ok (c\<lparr>socket := s\<rparr>)" "same_in (socket c) s"
  proof (cases ev)
    case None
    then show ?thesis using assms(1) that [of "socket c"] by (simp add: same_in_def)
  next
    case (Some e)
    then have "in_event i = Some e" by (simp add: ev_def split: if_splits)
    with assms(2) obtain r effect eid stack q where e: "e = (r, effect, eid, stack, q)" "length stack = 44"
      by (cases e) (auto simp: stack_ok_def)
    from event_step [OF assms(1) e(2)] that e(1) Some show ?thesis by fastforce
  qed
  let ?c = "\<lambda>bytes hup. c\<lparr>socket := s\<lparr>arrived := arrived s @ bytes, hung_up := hup\<rparr>\<rparr>"
  have run: "run_ok (?c bytes hup)" for bytes hup
    using s(2) by (simp add: run_ok_def header_ok_def buffer_inv_def client_ok_def)
  show "run_ok c'" if "client_poll (in_garbage i) (if device_created c then in_event i else None) (in_news i) c = Some (Some c')"
  proof (cases "in_news i")
    case None
    with that s show ?thesis unfolding ev_def [symmetric] by (simp add: client_poll_def)
  next
    case (Some n)
    then obtain bytes hup where n: "in_news i = Some (bytes, hup)" by (cases n) auto
    have "client_loop (in_garbage i) (Suc (length (arrived (socket (?c bytes hup))))) (?c bytes hup) = Some c'"
      using that s n unfolding ev_def [symmetric]
      by (auto simp: client_poll_def Let_def simp del: client_loop.simps split: bind_splits if_splits)
    from loop_step [OF this run] show ?thesis .
  qed
  show "\<exists>r. client_poll (in_garbage i) (if device_created c then in_event i else None) (in_news i) c = Some r"
    if "news_ok i c"
  proof (cases "in_news i")
    case None
    with s show ?thesis unfolding ev_def [symmetric] by (simp add: client_poll_def)
  next
    case (Some n)
    then obtain bytes hup where n: "in_news i = Some (bytes, hup)" by (cases n) auto
    let ?s = "(socket c)\<lparr>arrived := arrived (socket c) @ bytes, hung_up := hup\<rparr>"
    let ?t = "s\<lparr>arrived := arrived s @ bytes, hung_up := hup\<rparr>"
    have "same_in ?s ?t" "arrived ?t = arrived ?s" using s(3) by (simp_all add: same_in_def)
    then have "\<forall>p \<in> set (fst (read_all (Suc (length (arrived ?t))) (socket (?c bytes hup)))). \<not> hostile (fst p) (snd p)"
      using that n read_all_same_in [of ?s ?t "Suc (length (arrived ?t))"]
      by (simp add: news_ok_def Let_def del: read_all.simps)
    from loop_total [OF run this, of "in_garbage i"] obtain x where
      "client_loop (in_garbage i) (Suc (length (arrived (socket (?c bytes hup))))) (?c bytes hup) = Some x" by auto
    then show ?thesis
      using s n unfolding ev_def [symmetric] by (simp add: client_poll_def Let_def del: client_loop.simps)
  qed
qed

lemma new_step:
  assumes "client_new ip port opened results = Some (Some c)"
  shows "run_ok c"
proof -
  let ?c = "\<lparr>uinput = [], ui_results = results, device_created = False, dev_info = empty_dev,
    ev_syn_bit = False, addr_ip = ip, addr_port = port, socket = packet_socket_new\<rparr>"
  have "opened" using assms by (auto simp: client_new_def Let_def split: if_splits)
  then obtain b where "c = snd (ui (SetPhys b) ?c)"
    using assms by (auto simp: client_new_def set_phys_total Let_def)
  then show ?thesis
    by (simp add: run_ok_def client_ok_def log_ok_def header_ok_def empty_dev_def packet_socket_new_def buffer_inv_def)
qed

lemma new_total: "\<exists>r. client_new ip port opened results = Some r"
  by (simp add: client_new_def set_phys_total Let_def)

lemma clients_step:
  assumes "\<forall>c \<in> set cs. run_ok c" "\<forall>i \<in> set ins. stack_ok i" "poll_clients ins cs = Some cs'"
  shows "\<forall>c \<in> set cs'. run_ok c"
  using assms
proof (induction ins cs arbitrary: cs' rule: poll_clients.induct)
  case (3 i ins c cs)
  obtain r cs1 where r: "client_poll (in_garbage i) (if device_created c then in_event i else None) (in_news i) c = Some r"
    "poll_clients ins cs = Some cs1" "cs' = (case r of None \<Rightarrow> cs1 | Some c \<Rightarrow> c # cs1)"
    using 3(4) by (auto split: bind_splits)
  have "\<forall>c \<in> set cs1. run_ok c" using 3(1) [OF r(1) _ _ r(2)] 3(2,3) by simp
  moreover have "run_ok x" if "r = Some x" for x
    using poll_step(1) [of c i x] r(1) that 3(2,3) by simp
  ultimately show ?case using r(3) by (auto split: option.splits)
qed auto

lemma clients_total:
  assumes "\<forall>c \<in> set cs. run_ok c" "\<forall>i \<in> set ins. stack_ok i" "\<forall>(i, c) \<in> set (zip ins cs). news_ok i c"
  shows "\<exists>cs'. poll_clients ins cs = Some cs'"
  using assms
proof (induction ins cs rule: poll_clients.induct)
  case (3 i ins c cs)
  obtain r where r: "client_poll (in_garbage i) (if device_created c then in_event i else None) (in_news i) c = Some r"
    using poll_step(2) [of c i] 3(2-4) by auto
  have "\<exists>cs'. poll_clients ins cs = Some cs'" by (rule 3(1) [OF r]) (use 3(2-4) in simp_all)
  with r show ?case by auto
qed auto

lemma run_inv: "server_run cs \<Longrightarrow> \<forall>c \<in> set cs. run_ok c"
proof (induction rule: server_run.induct)
  case (inetd ip port results c)
  then show ?case using new_step by simp
next
  case (round cs ins accept cs')
  obtain cs1 where cs1: "listener_poll accept cs = Some cs1" "poll_clients ins cs1 = Some cs'"
    using round(3) by (auto simp: main_round_def split: bind_splits)
  have "\<forall>c \<in> set cs1. run_ok c"
    using cs1(1) round(4) new_step by (auto simp: listener_poll_def split: option.splits bind_splits)
  from clients_step [OF this round(2) cs1(2)] show ?case .
qed simp

section \<open>Properties\<close>





end
