(* ===== verification/Ipipe_Connect.thy ===== *)
theory Ipipe_Connect
  imports Ipipe_Poll "HOL-Library.Multiset" "HOL-Library.Sublist"
begin

text \<open>
  How the inputpipe client makes and loses connections (\<^verbatim>\<open>inputpipe/src/client.c\<close>): opening a device and
  connecting it to the server, deleting a connection, scanning the input directory for new devices, and one round of
  the event loop. Descriptors and allocated blocks are accounted for; \<^verbatim>\<open>open\<close> and \<^verbatim>\<open>socket\<close> give the
  lowest free descriptor, as POSIX says. \<^verbatim>\<open>atoi\<close> is a parameter. The list of connections is that of
  \<open>Ipipe_List\<close>, by its elements in order. \<^term>\<open>None\<close> is undefined behaviour or a failed assertion.
\<close>

section \<open>Descriptors and blocks\<close>

record world =
  fds :: "nat list"
  blocks :: int

definition next_fd :: "nat list \<Rightarrow> nat" where
  "next_fd xs = hd (filter (\<lambda>n. n \<notin> set xs) [0..<Suc (length xs)])"

definition sys_open :: "bool \<Rightarrow> world \<Rightarrow> int \<times> world" where
  "sys_open ok w = (if ok then (int (next_fd (fds w)), w\<lparr>fds := next_fd (fds w) # fds w\<rparr>) else (- 1, w))"

definition sys_close :: "int \<Rightarrow> world \<Rightarrow> world" where
  "sys_close fd w = w\<lparr>fds := filter (\<lambda>n. int n \<noteq> fd) (fds w)\<rparr>"

definition allocated :: "int \<Rightarrow> world \<Rightarrow> world" where
  "allocated n w = w\<lparr>blocks := blocks w + n\<rparr>"

section \<open>The server's side of a connection\<close>

record server =
  srv_host :: "byte list"
  srv_port :: int
  srv_fd :: int

text \<open>What an attempt to connect meets: whether the device can be opened and describes its event types, whether there is
  a socket, the host resolves and accepts, and what the device answers later.\<close>

record attempt =
  dev_opens :: bool
  dev_bits :: "u32 list option"
  socket_opens :: bool
  host_known :: bool
  host_accepts :: bool
  dev_answers :: device

abbreviation (input) IPIPE_DEFAULT_PORT :: int where "IPIPE_DEFAULT_PORT \<equiv> 7192"

text \<open>The host, and the port after the first colon.\<close>

definition parse_host :: "(byte list \<Rightarrow> int) \<Rightarrow> byte list \<Rightarrow> byte list \<times> int" where
  "parse_host atoi host_and_port =
     (let host = takeWhile (\<lambda>c. c \<noteq> 0x3A) host_and_port
      in (host, if 0x3A \<in> set host_and_port then atoi (drop (length host + 1) host_and_port) else IPIPE_DEFAULT_PORT))"

text \<open>The structure itself is not freed.\<close>

definition server_delete :: "int option \<Rightarrow> world \<Rightarrow> world" where
  "server_delete sock w =
     (let w = allocated (- 1) w
      in case sock of None \<Rightarrow> w | Some fd \<Rightarrow> allocated (- 1) (sys_close fd w))"

definition server_new :: "(byte list \<Rightarrow> int) \<Rightarrow> byte list \<Rightarrow> attempt \<Rightarrow> world \<Rightarrow> server option \<times> world" where
  "server_new atoi host_and_port a w =
     (let w = allocated 2 w;
          (host, port) = parse_host atoi host_and_port;
          (fd, w) = sys_open (socket_opens a) w
      in if fd < 0 then (None, server_delete None w)
         else if \<not> host_known a then (None, server_delete None (sys_close fd w))
         else if \<not> host_accepts a then (None, server_delete None (sys_close fd w))
         else (Some \<lparr>srv_host = host, srv_port = port, srv_fd = fd\<rparr>, allocated 1 w))"

section \<open>Connections\<close>

record conn =
  k_path :: "byte list"
  k_fd :: int
  k_server :: "server option"
  k_con :: connection

record config =
  led_number :: int
  led_polarity :: int
  hotplug_polling :: bool
  detect :: detect_config
  host_and_port :: "byte list"
  input_path :: "byte list"

definition set_led :: "config \<Rightarrow> bool \<Rightarrow> conn \<Rightarrow> conn" where
  "set_led cfg connected k =
     (if k_fd k > 0 then k\<lparr>k_con := connection_set_status_led (led_number cfg) (led_polarity cfg) connected (k_con k)\<rparr>
      else k)"

text \<open>\<^verbatim>\<open>evdev_init\<close>: the result, the descriptor it leaves in the structure (even a closed one) and the event types.\<close>

definition evdev_init :: "attempt \<Rightarrow> world \<Rightarrow> int \<times> int \<times> u32 list \<times> world" where
  "evdev_init a w =
     (let w = allocated 1 w;
          (fd, w) = sys_open (dev_opens a) w
      in if fd < 0 then (- 1, fd, [], w)
         else case dev_bits a of None \<Rightarrow> (- 1, fd, [], sys_close fd w) | Some bits \<Rightarrow> (0, fd, bits, w))"

text \<open>Apart from the list: the LED goes off, the device and the server's socket are closed.\<close>

definition connection_delete :: "config \<Rightarrow> conn \<Rightarrow> world \<Rightarrow> conn \<times> world" where
  "connection_delete cfg k w =
     (let k = set_led cfg False k;
          w = allocated (- 1) (sys_close (k_fd k) w);
          w = (case k_server k of None \<Rightarrow> w | Some s \<Rightarrow> server_delete (Some (srv_fd s)) w)
      in (k, allocated (- 1) w))"

definition connection_new :: "config \<Rightarrow> (byte list \<Rightarrow> int) \<Rightarrow> byte list \<Rightarrow> attempt \<Rightarrow> conn list \<Rightarrow> world \<Rightarrow>
    (bool \<times> conn list \<times> world) option" where
  "connection_new cfg atoi path a ks w =
     (let w = allocated 1 w;
          (res, fd, bits, w) = evdev_init a w;
          k = \<lparr>k_path = path, k_fd = fd, k_server = None,
               k_con = \<lparr>c_socket = packet_socket_new, c_evdev = [], c_evbits = bits\<rparr>\<rparr>
      in if res < 0 then Some (False, ks, snd (connection_delete cfg k w))
         else
           let k = set_led cfg False k;
               (svr, w) = server_new atoi (host_and_port cfg) a w
           in case svr of
                None \<Rightarrow> Some (False, ks, snd (connection_delete cfg k w))
              | Some s \<Rightarrow> do {
                  sock \<leftarrow> evdev_send_metadata (dev_answers a) packet_socket_new;
                  let k = k\<lparr>k_server := Some s, k_con := (k_con k)\<lparr>c_socket := sock\<rparr>\<rparr>;
                  Some (True, ks @ [set_led cfg True k], w)
                })"

section \<open>Hotplugging\<close>

text \<open>An entry of the input directory: its name, whether it can be opened, the masks that \<^verbatim>\<open>hotplug_detect\<close> reads from it,
  and what an attempt to connect it would meet.\<close>

record dirent =
  d_entry :: "byte list"
  d_opens :: bool
  d_masks :: "u32 list option \<times> u32 list option \<times> u32 list option \<times> u32 list option"
  d_attempt :: attempt

abbreviation (input) PATH_MAX :: nat where "PATH_MAX \<equiv> 4096"

text \<open>\<^verbatim>\<open>event\<close>.\<close>

definition event_prefix :: "byte list" where
  "event_prefix = [0x65, 0x76, 0x65, 0x6E, 0x74]"

text \<open>The third argument of \<^verbatim>\<open>strncat\<close> bounds what is appended, not the whole: past the end of the buffer is
  undefined.\<close>

definition full_path :: "byte list \<Rightarrow> byte list \<Rightarrow> byte list option" where
  "full_path input entry =
     (let p = take (PATH_MAX - 1) input;
          q = take (PATH_MAX - 1) entry
      in if length p + 1 \<ge> PATH_MAX then None
         else if length p + 1 + length q \<ge> PATH_MAX then None
         else Some (p @ [0x2F] @ q))"

definition connection_list_find_path :: "byte list \<Rightarrow> conn list \<Rightarrow> conn option" where
  "connection_list_find_path path ks = find (\<lambda>k. k_path k = path) ks"

definition hotplug_entry :: "config \<Rightarrow> (byte list \<Rightarrow> int) \<Rightarrow> dirent \<Rightarrow> conn list \<Rightarrow> world \<Rightarrow> (conn list \<times> world) option" where
  "hotplug_entry cfg atoi e ks w =
     (if take 5 (d_entry e) \<noteq> event_prefix then Some (ks, w)
      else do {
        path \<leftarrow> full_path (input_path cfg) (d_entry e);
        if connection_list_find_path path ks \<noteq> None then Some (ks, w)
        else
          let (fd, w) = sys_open (d_opens e) w in
          if fd \<ge> 0 then
            (case d_masks e of (evbits, keybits, relbits, absbits) \<Rightarrow>
               if hotplug_detect (detect cfg) evbits keybits relbits absbits then do {
                 let w = sys_close fd w;
                 (_, ks, w) \<leftarrow> connection_new cfg atoi path (d_attempt e) ks w;
                 Some (ks, w) }
               else Some (ks, sys_close fd w))
          else Some (ks, w)
      })"

text \<open>The loop over \<^verbatim>\<open>readdir\<close>; without the directory the client ends (\<open>Exited\<close>). \<open>Ended\<close> is the end
  of the event loop, which returns no value although \<^verbatim>\<open>main\<close> makes it the exit status.\<close>

datatype 's flow = Running 's | Exited int | Ended

fun hotplug_entries :: "config \<Rightarrow> (byte list \<Rightarrow> int) \<Rightarrow> dirent list \<Rightarrow> conn list \<Rightarrow> world \<Rightarrow> (conn list \<times> world) option" where
  "hotplug_entries cfg atoi [] ks w = Some (ks, w)"
| "hotplug_entries cfg atoi (e # es) ks w = do {
     (ks, w) \<leftarrow> hotplug_entry cfg atoi e ks w;
     hotplug_entries cfg atoi es ks w
   }"

definition hotplug_poll :: "config \<Rightarrow> (byte list \<Rightarrow> int) \<Rightarrow> dirent list option \<Rightarrow> conn list \<Rightarrow> world \<Rightarrow>
    (conn list \<times> world) flow option" where
  "hotplug_poll cfg atoi dir ks w =
     (case dir of
        None \<Rightarrow> Some (Exited 1)
      | Some es \<Rightarrow> do {
          let (fd, w) = sys_open True w;
          (ks, w) \<leftarrow> hotplug_entries cfg atoi es ks w;
          Some (Running (ks, sys_close fd w))
        })"

section \<open>The event loop\<close>

text \<open>What a connection meets in a round: the device's answers to effects, what the local variables held, the bytes that
  have arrived from the server, and what reading the device gives.\<close>

record conn_input =
  ci_sff :: "ff_effect \<Rightarrow> int \<times> int \<times> ff_effect"
  ci_rmff :: "int \<Rightarrow> int"
  ci_garbage :: ff_effect
  ci_stack :: "byte list"
  ci_news :: "(byte list \<times> bool) option"
  ci_read :: evdev_read

definition conn_poll :: "conn_input \<Rightarrow> connection \<Rightarrow> (int \<times> connection) option" where
  "conn_poll i =
     connection_poll (connection_received_packet (ci_sff i) (ci_rmff i) (ci_garbage i) (ci_stack i)) (ci_stack i)
       (ci_news i) (ci_read i)"

fun connection_list_poll :: "config \<Rightarrow> conn_input list \<Rightarrow> conn list \<Rightarrow> world \<Rightarrow> (conn list \<times> world) option" where
  "connection_list_poll cfg ins [] w = Some ([], w)"
| "connection_list_poll cfg [] ks w = Some (ks, w)"
| "connection_list_poll cfg (i # ins) (k # ks) w = do {
     (retval, con) \<leftarrow> conn_poll i (k_con k);
     let k = k\<lparr>k_con := con\<rparr>;
     if retval \<noteq> 0 then connection_list_poll cfg ins ks (snd (connection_delete cfg k w))
     else do {
       (ks, w) \<leftarrow> connection_list_poll cfg ins ks w;
       Some (k # ks, w)
     }
   }"

definition event_round :: "config \<Rightarrow> (byte list \<Rightarrow> int) \<Rightarrow> bool \<Rightarrow> dirent list option \<Rightarrow> conn_input list \<Rightarrow> conn list \<Rightarrow> world
    \<Rightarrow> (conn list \<times> world) flow option" where
  "event_round cfg atoi expired dir ins ks w = do {
     f \<leftarrow> (if expired \<and> hotplug_polling cfg then hotplug_poll cfg atoi dir ks w else Some (Running (ks, w)));
     case f of
       Running (ks, w) \<Rightarrow> do {
         (ks, w) \<leftarrow> connection_list_poll cfg ins ks w;
         Some (if \<not> hotplug_polling cfg \<and> ks = [] then Ended else Running (ks, w))
       }
     | Exited n \<Rightarrow> Some (Exited n)
     | Ended \<Rightarrow> Some Ended
   }"

section \<open>The command line\<close>

definition lower :: "byte \<Rightarrow> byte" where
  "lower c = (if 0x41 \<le> c \<and> c \<le> 0x5A then c + 0x20 else c)"

text \<open>The names of \<^verbatim>\<open>led_name_to_number\<close>: numl, capsl, scrolll, compose, kana, sleep, suspend, mute, misc.\<close>

definition led_table :: "(byte list \<times> int) list" where
  "led_table =
     [([0x4E, 0x55, 0x4D, 0x4C], 0), ([0x43, 0x41, 0x50, 0x53, 0x4C], 1),
      ([0x53, 0x43, 0x52, 0x4F, 0x4C, 0x4C, 0x4C], 2), ([0x43, 0x4F, 0x4D, 0x50, 0x4F, 0x53, 0x45], 3),
      ([0x4B, 0x41, 0x4E, 0x41], 4), ([0x53, 0x4C, 0x45, 0x45, 0x50], 5),
      ([0x53, 0x55, 0x53, 0x50, 0x45, 0x4E, 0x44], 6), ([0x4D, 0x55, 0x54, 0x45], 7), ([0x4D, 0x49, 0x53, 0x43], 8)]"

text \<open>\<^term>\<open>None\<close>: the process ends.\<close>

definition led_name_to_number :: "byte list \<Rightarrow> int option" where
  "led_name_to_number led = map_option snd (find (\<lambda>(n, _). map lower n = map lower led) led_table)"

text \<open>One option of the command line, its letter and its argument.\<close>

definition client_option :: "byte \<Rightarrow> byte list \<Rightarrow> config \<Rightarrow> config option" where
  "client_option c optarg cfg =
     (if c = 0x71 then Some cfg
      else if c = 0x70 then Some (cfg\<lparr>input_path := optarg\<rparr>)
      else if c = 0x6A then Some (cfg\<lparr>detect := (detect cfg)\<lparr>config_detect_joystick := True\<rparr>, hotplug_polling := True\<rparr>)
      else if c = 0x6D then Some (cfg\<lparr>detect := (detect cfg)\<lparr>config_detect_mouse := True\<rparr>, hotplug_polling := True\<rparr>)
      else if c = 0x6B then Some (cfg\<lparr>detect := (detect cfg)\<lparr>config_detect_keyboard := True\<rparr>, hotplug_polling := True\<rparr>)
      else if c = 0x61 then Some (cfg\<lparr>detect := (detect cfg)\<lparr>config_detect_all := True\<rparr>, hotplug_polling := True\<rparr>)
      else if c = 0x6C then
        (if optarg \<noteq> [] \<and> hd optarg = 0x7E
         then map_option (\<lambda>n. cfg\<lparr>led_number := n, led_polarity := 0\<rparr>) (led_name_to_number (tl optarg))
         else map_option (\<lambda>n. cfg\<lparr>led_number := n, led_polarity := 1\<rparr>) (led_name_to_number optarg))
      else None)"

text \<open>The arguments behind the options: the server, then the devices with what each attempt meets.\<close>

fun open_devices :: "config \<Rightarrow> (byte list \<Rightarrow> int) \<Rightarrow> (byte list \<times> attempt) list \<Rightarrow> conn list \<Rightarrow> world \<Rightarrow>
    (conn list \<times> world) flow option" where
  "open_devices cfg atoi [] ks w = Some (Running (ks, w))"
| "open_devices cfg atoi ((path, a) # ds) ks w = do {
     (ok, ks, w) \<leftarrow> connection_new cfg atoi path a ks w;
     if \<not> ok then Some (Exited 1) else open_devices cfg atoi ds ks w
   }"

definition client_main :: "config \<Rightarrow> (byte list \<Rightarrow> int) \<Rightarrow> byte list option \<Rightarrow> (byte list \<times> attempt) list \<Rightarrow> world \<Rightarrow>
    (conn list \<times> world) flow option" where
  "client_main cfg atoi host devices w =
     (case host of
        None \<Rightarrow> Some (Exited 1)
      | Some h \<Rightarrow>
          if \<not> hotplug_polling cfg \<and> devices = [] then Some (Exited 1)
          else open_devices (cfg\<lparr>host_and_port := h\<rparr>) atoi devices [] w)"

text \<open>Runs: the devices of the command line have been connected; then the rounds of the event loop. Descriptors 0, 1 and
  2 are open at first.\<close>

definition start_world :: world where
  "start_world = \<lparr>fds = [0, 1, 2], blocks = 0\<rparr>"

inductive client_run :: "config \<Rightarrow> (byte list \<Rightarrow> int) \<Rightarrow> conn list \<Rightarrow> world \<Rightarrow> bool" for cfg atoi where
  start: "client_main cfg atoi (Some (host_and_port cfg)) devices start_world = Some (Running (ks, w)) \<Longrightarrow>
    client_run cfg atoi ks w"
| round: "client_run cfg atoi ks w \<Longrightarrow> event_round cfg atoi expired dir ins ks w = Some (Running (ks', w')) \<Longrightarrow>
    client_run cfg atoi ks' w'"

section \<open>Descriptors\<close>

lemma next_fd_free: "next_fd xs \<notin> set xs"
proof -
  have "\<not> set [0..<Suc (length xs)] \<subseteq> set xs"
  proof
    assume "set [0..<Suc (length xs)] \<subseteq> set xs"
    then have "card (set [0..<Suc (length xs)]) \<le> card (set xs)" by (rule card_mono [rotated]) simp
    also have "\<dots> \<le> length xs" by (rule card_length)
    finally show False by simp
  qed
  then have "filter (\<lambda>n. n \<notin> set xs) [0..<Suc (length xs)] \<noteq> []" by (auto simp: filter_empty_conv)
  from hd_in_set [OF this] show ?thesis by (simp add: next_fd_def del: upt_Suc)
qed

lemma close_fds:
  assumes "distinct (fds w)"
  shows "distinct (fds (sys_close (int n) w)) \<and> mset (fds (sys_close (int n) w)) = mset (fds w) - {#n#}"
proof -
  have "filter (\<lambda>k. int k \<noteq> int n) (fds w) = removeAll n (fds w)"
    by (auto simp: removeAll_filter_not_eq intro!: filter_cong)
  also have "\<dots> = remove1 n (fds w)" using assms by (simp add: distinct_remove1_removeAll)
  finally show ?thesis using assms by (simp add: sys_close_def distinct_remove1)
qed

lemma allocated_fds [simp]: "fds (allocated n w) = fds w" "blocks (allocated n w) = blocks w + n"
  by (simp_all add: allocated_def)

lemma close_other [simp]: "fd < 0 \<Longrightarrow> sys_close fd w = w" "blocks (sys_close fd w) = blocks w"
  by (simp_all add: sys_close_def)

lemma close_free: "n \<notin> set (fds w) \<Longrightarrow> sys_close (int n) w = w"
  by (cases w) (auto simp: sys_close_def intro!: filter_True)

lemma open_close: "fst (sys_open True w) = int (next_fd (fds w))" "snd (sys_open True w) = w\<lparr>fds := next_fd (fds w) # fds w\<rparr>"
  "sys_close (int (next_fd (fds w))) (w\<lparr>fds := next_fd (fds w) # fds w\<rparr>) = w"
proof -
  show "sys_close (int (next_fd (fds w))) (w\<lparr>fds := next_fd (fds w) # fds w\<rparr>) = w"
    using next_fd_free [of "fds w"] by (cases w) (auto simp: sys_close_def intro!: filter_True)
qed (simp_all add: sys_open_def)

lemma set_led_frame [simp]: "k_fd (set_led cfg b k) = k_fd k" "k_server (set_led cfg b k) = k_server k"
  "k_path (set_led cfg b k) = k_path k"
  by (simp_all add: set_led_def)

text \<open>A connection that stands holds two descriptors.\<close>

definition stands :: "conn \<Rightarrow> bool" where
  "stands k \<longleftrightarrow> 0 \<le> k_fd k \<and> (\<exists>s. k_server k = Some s \<and> 0 \<le> srv_fd s)"

definition held :: "conn \<Rightarrow> nat list" where
  "held k = [nat (k_fd k), nat (srv_fd (the (k_server k)))]"

text \<open>Connecting succeeds when everything that it meets does.\<close>

definition reachable :: "attempt \<Rightarrow> bool" where
  "reachable a \<longleftrightarrow> dev_opens a \<and> dev_bits a \<noteq> None \<and> socket_opens a \<and> host_known a \<and> host_accepts a"

text \<open>Whether \<^verbatim>\<open>server_new\<close> was reached.\<close>

definition device_found :: "attempt \<Rightarrow> bool" where
  "device_found a \<longleftrightarrow> dev_opens a \<and> dev_bits a \<noteq> None"

lemma connection_new_fails:
  assumes "\<not> reachable a"
  shows "connection_new cfg atoi path a ks w = Some (False, ks, allocated (if device_found a then 1 else 0) w)"
proof -
  note n = next_fd_free [of "fds w"]
  define v where "v = w\<lparr>fds := next_fd (fds w) # fds w\<rparr>"
  have v: "sys_open True (allocated i w) = (int (next_fd (fds w)), allocated i v)" for i
    by (simp add: sys_open_def v_def allocated_def)
  have cl: "sys_close (int (next_fd (fds w))) (allocated i v) = allocated i w"
    "sys_close (int (next_fd (fds w))) (allocated i w) = allocated i w" for i
    using n by (cases w; auto simp: sys_close_def v_def allocated_def intro!: filter_True)+
  have vv: "sys_open True (allocated i v) = (int (next_fd (fds v)), allocated i (v\<lparr>fds := next_fd (fds v) # fds v\<rparr>))"
    "sys_close (int (next_fd (fds v))) (allocated i (v\<lparr>fds := next_fd (fds v) # fds v\<rparr>)) = allocated i v" for i
    using next_fd_free [of "fds v"] by (cases v; auto simp: sys_open_def sys_close_def allocated_def intro!: filter_True)+
  have fails: "sys_open False x = (- 1, x)" for x by (simp add: sys_open_def)
  have al: "allocated i (allocated j x) = allocated (j + i) x" "allocated 0 x = x" for i j x
    by (simp_all add: allocated_def)
  note rules = connection_new_def evdev_init_def server_new_def server_delete_def connection_delete_def v cl vv fails al
    device_found_def Let_def
  consider "\<not> dev_opens a" | "dev_opens a" "dev_bits a = None" | b where "dev_opens a" "dev_bits a = Some b" by fastforce
  then show ?thesis
  proof cases
    case 3
    then show ?thesis using assms
      by (cases "socket_opens a"; cases "host_known a") (simp_all add: rules reachable_def split: prod.split)
  qed (simp_all add: rules)
qed

lemma connection_new_stands:
  assumes "reachable a" "connection_new cfg atoi path a ks w = Some (ok, ks', w')" "distinct (fds w)"
  shows "ok \<and> (\<exists>k. ks' = ks @ [k] \<and> stands k \<and> k_path k = path \<and> distinct (fds w') \<and>
    mset (fds w') = mset (fds w) + mset (held k) \<and> blocks w' = blocks w + 5)"
proof -
  obtain b where b: "dev_bits a = Some b" using assms(1) by (auto simp: reachable_def)
  let ?n = "next_fd (fds w)"
  let ?m = "next_fd (?n # fds w)"
  have "?n \<notin> set (fds w)" "?m \<notin> set (?n # fds w)" by (rule next_fd_free)+
  with assms b show ?thesis
    by (auto simp: connection_new_def evdev_init_def server_new_def sys_open_def reachable_def stands_def held_def Let_def
        split: bind_splits prod.splits)
qed

lemma connection_delete_closes:
  assumes "stands k" "distinct (fds w)" "mset (fds w) = M + mset (held k)"
  shows "distinct (fds (snd (connection_delete cfg k w))) \<and> mset (fds (snd (connection_delete cfg k w))) = M \<and>
    blocks (snd (connection_delete cfg k w)) = blocks w - 4"
proof -
  obtain s where s: "k_server k = Some s" "0 \<le> srv_fd s" "0 \<le> k_fd k" using assms(1) by (auto simp: stands_def)
  define n m where "n = nat (k_fd k)" and "m = nat (srv_fd s)"
  have nm: "k_fd k = int n" "srv_fd s = int m" using s by (simp_all add: n_def m_def)
  let ?w = "sys_close (int n) w"
  have w: "distinct (fds ?w)" "mset (fds ?w) = M + {#m#}"
    using close_fds [OF assms(2), of n] assms(3) s(1) by (simp_all add: held_def nm)
  have "distinct (fds (sys_close (int m) (allocated (- 1) (allocated (- 1) ?w)))) \<and>
      mset (fds (sys_close (int m) (allocated (- 1) (allocated (- 1) ?w)))) = M"
    using close_fds [of "allocated (- 1) (allocated (- 1) ?w)" m] w by simp
  then show ?thesis by (simp add: connection_delete_def server_delete_def s(1) nm Let_def)
qed

section \<open>What a scan connects\<close>

text \<open>An entry that a scan is to connect, and its path.\<close>

definition wanted :: "config \<Rightarrow> dirent \<Rightarrow> bool" where
  "wanted cfg e \<longleftrightarrow>
     take 5 (d_entry e) = event_prefix \<and> d_opens e \<and> reachable (d_attempt e) \<and>
     (case d_masks e of (evbits, keybits, relbits, absbits) \<Rightarrow> hotplug_detect (detect cfg) evbits keybits relbits absbits)"

definition path_of :: "config \<Rightarrow> dirent \<Rightarrow> byte list" where
  "path_of cfg e = the (full_path (input_path cfg) (d_entry e))"

definition accounts :: "nat multiset \<Rightarrow> int \<Rightarrow> conn list \<Rightarrow> world \<Rightarrow> bool" where
  "accounts M b ks w \<longleftrightarrow>
     (\<forall>k \<in> set ks. stands k) \<and> distinct (fds w) \<and> mset (fds w) = M + mset (concat (map held ks)) \<and>
     b + 5 * int (length ks) \<le> blocks w"

lemma accounts_new:
  assumes "connection_new cfg atoi path a ks w = Some (ok, ks', w')" "accounts M b ks w"
  shows "accounts M b ks' w' \<and> (ok \<longleftrightarrow> reachable a) \<and> (\<not> ok \<longrightarrow> ks' = ks) \<and>
    (ok \<longrightarrow> (\<exists>k. ks' = ks @ [k] \<and> k_path k = path))"
proof (cases "reachable a")
  case True
  from connection_new_stands [OF this assms(1)] assms(2) obtain k where k: "ok" "ks' = ks @ [k]" "stands k" "k_path k = path"
    "distinct (fds w')" "mset (fds w') = mset (fds w) + mset (held k)" "blocks w' = blocks w + 5"
    by (auto simp: accounts_def)
  with assms(2) True show ?thesis by (auto simp: accounts_def)
next
  case False
  then have "ok = False" "ks' = ks" "w' = allocated (if device_found a then 1 else 0) w"
    using assms(1) connection_new_fails [OF False, of cfg atoi path ks w] by auto
  with assms(2) False show ?thesis by (auto simp: accounts_def)
qed

lemma entry_step:
  assumes "hotplug_entry cfg atoi e ks w = Some (ks', w')" "accounts M b ks w"
  shows "accounts M b ks' w' \<and> ks' = ks @ drop (length ks) ks' \<and>
    map k_path (drop (length ks) ks') =
      (if wanted cfg e \<and> path_of cfg e \<notin> set (map k_path ks) then [path_of cfg e] else [])"
proof (cases "take 5 (d_entry e) = event_prefix")
  case False
  then show ?thesis using assms by (simp add: hotplug_entry_def wanted_def)
next
  case True
  then obtain path where p: "full_path (input_path cfg) (d_entry e) = Some path"
    using assms(1) by (auto simp: hotplug_entry_def split: bind_splits)
  then have po: "path_of cfg e = path" by (simp add: path_of_def)
  have found: "connection_list_find_path path ks \<noteq> None \<longleftrightarrow> path \<in> set (map k_path ks)"
    by (auto simp: connection_list_find_path_def find_None_iff)
  obtain ev kb rb ab where m: "d_masks e = (ev, kb, rb, ab)" by (cases "d_masks e") auto
  let ?det = "hotplug_detect (detect cfg) ev kb rb ab"
  have w: "wanted cfg e \<longleftrightarrow> d_opens e \<and> reachable (d_attempt e) \<and> ?det" using True by (simp add: wanted_def m)
  have oc: "sys_close (fst (sys_open True w)) (snd (sys_open True w)) = w" "0 \<le> fst (sys_open True w)"
    using open_close [of w] by simp_all
  consider "path \<in> set (map k_path ks)" | "path \<notin> set (map k_path ks)" "\<not> d_opens e \<or> \<not> ?det"
    | "path \<notin> set (map k_path ks)" "d_opens e" "?det" by blast
  then show ?thesis
  proof cases
    case 1
    with found assms True p po show ?thesis by (auto simp: hotplug_entry_def)
  next
    case 2
    have "ks' = ks \<and> w' = w"
    proof (cases "d_opens e")
      case True
      with 2 assms(1) found p oc \<open>take 5 (d_entry e) = event_prefix\<close> show ?thesis
        by (cases "sys_open True w") (auto simp: hotplug_entry_def m)
    next
      case False
      with 2 assms(1) found p \<open>take 5 (d_entry e) = event_prefix\<close> show ?thesis
        by (auto simp: hotplug_entry_def sys_open_def)
    qed
    with 2 assms(2) w show ?thesis by auto
  next
    case 3
    obtain ok where "connection_new cfg atoi path (d_attempt e) ks w = Some (ok, ks', w')"
      using 3 assms(1) found p oc True by (cases "sys_open True w") (auto simp: hotplug_entry_def m split: bind_splits)
    from accounts_new [OF this assms(2)] 3 w po show ?thesis by (cases ok) auto
  qed
qed

text \<open>The paths that a scan adds, in order: each wanted entry that is not connected yet.\<close>

fun new_paths :: "config \<Rightarrow> dirent list \<Rightarrow> byte list list \<Rightarrow> byte list list" where
  "new_paths cfg [] ps = []"
| "new_paths cfg (e # es) ps =
     (if wanted cfg e \<and> path_of cfg e \<notin> set ps then path_of cfg e # new_paths cfg es (path_of cfg e # ps)
      else new_paths cfg es ps)"

lemma new_paths_cong: "set ps = set qs \<Longrightarrow> new_paths cfg es ps = new_paths cfg es qs"
proof (induction es arbitrary: ps qs)
  case (Cons e es)
  then have "set (path_of cfg e # ps) = set (path_of cfg e # qs)" by simp
  from Cons.IH [OF this] Cons.IH [OF Cons.prems] Cons.prems show ?case by simp
qed simp

lemma entries_step:
  assumes "hotplug_entries cfg atoi es ks w = Some (ks', w')" "accounts M b ks w"
  shows "accounts M b ks' w' \<and> (\<exists>new. ks' = ks @ new \<and> map k_path new = new_paths cfg es (map k_path ks))"
  using assms
proof (induction es arbitrary: ks w)
  case (Cons e es)
  obtain ks1 w1 where s: "hotplug_entry cfg atoi e ks w = Some (ks1, w1)" "hotplug_entries cfg atoi es ks1 w1 = Some (ks', w')"
    using Cons.prems(1) by (auto split: bind_splits)
  note e = entry_step [OF s(1) Cons.prems(2)]
  define mid where "mid = drop (length ks) ks1"
  obtain new where new: "accounts M b ks' w'" "ks' = ks1 @ new" "map k_path new = new_paths cfg es (map k_path ks1)"
    using Cons.IH [OF s(2)] e by auto
  have ks1: "ks1 = ks @ mid" using e by (simp add: mid_def)
  have "map k_path (mid @ new) = new_paths cfg (e # es) (map k_path ks)"
  proof (cases "wanted cfg e \<and> path_of cfg e \<notin> set (map k_path ks)")
    case True
    then have "map k_path mid = [path_of cfg e]" using e by (simp add: mid_def)
    with True new(3) show ?thesis
      by (simp add: ks1) (rule new_paths_cong, simp)
  next
    case False
    then have "mid = []" using e by (simp add: mid_def split: if_splits)
    with False new(3) ks1 show ?thesis by auto
  qed
  with new(1,2) ks1 show ?case by (intro conjI exI [of _ "mid @ new"]) simp_all
qed simp

lemma new_paths_set:
  "set (new_paths cfg es ps) = {path_of cfg e |e. e \<in> set es \<and> wanted cfg e} - set ps"
  "distinct (new_paths cfg es ps)" "set (new_paths cfg es ps) \<inter> set ps = {}"
proof (induction es arbitrary: ps)
  case (Cons e es)
  { case 1 show ?case by (auto simp: Cons.IH(1)) }
  { case 2 show ?case using Cons.IH(2,3) [of "path_of cfg e # ps"] Cons.IH(2) [of ps] by auto }
  { case 3 show ?case using Cons.IH(3) [of "path_of cfg e # ps"] Cons.IH(3) [of ps] by auto }
qed simp_all

section \<open>Runs\<close>

lemma list_poll_step:
  assumes "connection_list_poll cfg ins ks w = Some (ks', w')" "accounts M b ks w"
  shows "accounts M b ks' w' \<and> subseq (map k_path ks') (map k_path ks)"
  using assms
proof (induction cfg ins ks w arbitrary: M b ks' w' rule: connection_list_poll.induct)
  case (3 cfg i ins k ks w)
  obtain retval con where r: "conn_poll i (k_con k) = Some (retval, con)"
    using 3(3) by (auto split: bind_splits)
  let ?k = "k\<lparr>k_con := con\<rparr>"
  have k: "stands ?k" "held ?k = held k" "k_path ?k = k_path k" using 3(4) by (simp_all add: accounts_def stands_def held_def)
  show ?case
  proof (cases "retval = 0")
    case True
    obtain ks1 where ks1: "connection_list_poll cfg ins ks w = Some (ks1, w')" "ks' = ?k # ks1"
      using 3(3) r True by (auto split: bind_splits)
    have "accounts (M + mset (held k)) (b + 5) ks w" using 3(4) by (auto simp: accounts_def)
    from 3(2) [OF r _ refl _ ks1(1) this] True have "accounts (M + mset (held k)) (b + 5) ks1 w'"
      "subseq (map k_path ks1) (map k_path ks)" by simp_all
    with k ks1(2) show ?thesis by (auto simp: accounts_def)
  next
    case False
    let ?w = "snd (connection_delete cfg ?k w)"
    have d: "connection_list_poll cfg ins ks ?w = Some (ks', w')" using 3(3) r False by simp
    have "distinct (fds w)" "mset (fds w) = (M + mset (concat (map held ks))) + mset (held ?k)"
      using 3(4) k(2) by (simp_all add: accounts_def)
    from connection_delete_closes [OF k(1) this, of cfg] 3(4) have "accounts M b ks ?w" by (auto simp: accounts_def)
    from 3(1) [OF r _ refl False d this] show ?thesis by auto
  qed
qed simp_all

lemma hotplug_step:
  assumes "hotplug_poll cfg atoi (Some es) ks w = Some (Running (ks', w'))" "accounts M b ks w"
  shows "accounts M b ks' w' \<and> (\<exists>new. ks' = ks @ new \<and> map k_path new = new_paths cfg es (map k_path ks))"
proof -
  let ?n = "next_fd (fds w)"
  let ?w = "w\<lparr>fds := ?n # fds w\<rparr>"
  obtain w1 where w1: "hotplug_entries cfg atoi es ks ?w = Some (ks', w1)" "w' = sys_close (int ?n) w1"
    using assms(1) by (auto simp: hotplug_poll_def sys_open_def split: bind_splits)
  have "accounts (M + {#?n#}) b ks ?w" using assms(2) next_fd_free [of "fds w"] by (auto simp: accounts_def)
  from entries_step [OF w1(1) this] obtain new where new: "accounts (M + {#?n#}) b ks' w1" "ks' = ks @ new"
    "map k_path new = new_paths cfg es (map k_path ks)" by blast
  have "accounts M b ks' w'" using new(1) close_fds [of w1 ?n] by (auto simp: accounts_def w1(2))
  with new(2,3) show ?thesis by blast
qed

lemma open_devices_step:
  "open_devices cfg atoi ds ks w = Some (Running (ks', w')) \<Longrightarrow> accounts M b ks w \<Longrightarrow> accounts M b ks' w'"
proof (induction cfg atoi ds ks w rule: open_devices.induct)
  case (2 cfg atoi path a ds ks w)
  obtain ok ks1 w1 where r: "connection_new cfg atoi path a ks w = Some (ok, ks1, w1)" "ok"
    "open_devices cfg atoi ds ks1 w1 = Some (Running (ks', w'))"
    using 2(2) by (auto split: bind_splits if_splits)
  have "accounts M b ks1 w1" using accounts_new [OF r(1) 2(3)] by blast
  from 2(1) [OF r(1) refl refl _ r(3) this] r(2) show ?case by simp
qed simp

lemma client_run_accounts: "client_run cfg atoi ks w \<Longrightarrow> accounts (mset [0, 1, 2]) 0 ks w"
proof (induction rule: client_run.induct)
  case (start devices ks w)
  have "accounts (mset [0, 1, 2]) 0 [] start_world" by (simp add: accounts_def start_world_def)
  moreover have "open_devices cfg atoi devices [] start_world = Some (Running (ks, w))"
    using start by (simp add: client_main_def split: if_splits)
  ultimately show ?case by (rule open_devices_step [rotated])
next
  case (round ks w expired dir ins ks' w')
  obtain f where f: "(if expired \<and> hotplug_polling cfg then hotplug_poll cfg atoi dir ks w else Some (Running (ks, w))) = Some f"
    using round(2) by (auto simp: event_round_def split: bind_splits)
  then obtain ks1 w1 where f1: "f = Running (ks1, w1)" using round(2) by (cases f) (auto simp: event_round_def)
  have "accounts (mset [0, 1, 2]) 0 ks1 w1"
  proof (cases "expired \<and> hotplug_polling cfg")
    case True
    then have h: "hotplug_poll cfg atoi dir ks w = Some (Running (ks1, w1))" using f f1 by simp
    then obtain es where "dir = Some es" by (cases dir) (auto simp: hotplug_poll_def)
    with hotplug_step [of cfg atoi es ks w ks1 w1] h round(3) show ?thesis by blast
  qed (use f f1 round(3) in auto)
  moreover have "connection_list_poll cfg ins ks1 w1 = Some (ks', w')"
    using round(2) f f1 by (auto simp: event_round_def split: bind_splits if_splits)
  ultimately show ?case using list_poll_step by blast
qed

section \<open>Properties\<close>

text \<open>A device that answers nothing, reached at the first attempt by a client that takes every device in
  \<^verbatim>\<open>/d\<close>.\<close>

definition mute :: device where
  "mute = \<lparr>d_name = None, d_phys = None, d_id = None, d_bits = (\<lambda>_. []),
     d_abs = (\<lambda>_. \<lparr>abs_value = 0, minimum = 0, maximum = 0, fuzz = 0, flat = 0\<rparr>), d_effects = None, d_stack = []\<rparr>"

definition attempt0 :: attempt where
  "attempt0 = \<lparr>dev_opens = True, dev_bits = Some [1], socket_opens = True, host_known = True, host_accepts = True,
     dev_answers = mute\<rparr>"

definition config0 :: config where
  "config0 = \<lparr>led_number = 3, led_polarity = 1, hotplug_polling = True,
     detect = \<lparr>config_detect_all = True, config_detect_joystick = False, config_detect_mouse = False,
       config_detect_keyboard = False\<rparr>, host_and_port = [0x68, 0x3A, 0x35], input_path = [0x2F, 0x64]\<rparr>"

lemma connects: "\<exists>k w'. connection_new config0 atoi path attempt0 ks w = Some (True, ks @ [k], w')"
proof -
  have masks: "send_masks mute is s = s" for "is" s by (induction "is" arbitrary: s) (simp_all add: mute_def)
  have "buffer_inv packet_socket_new" "sendable (IPIPE_CREATE, [])" "write_room packet_socket_new = []"
    by (simp_all add: buffer_inv_def packet_socket_new_def sendable_def)
  then obtain s where "packet_socket_write IPIPE_CREATE [] packet_socket_new = Some s" using write_refines by fastforce
  then have "evdev_send_metadata mute packet_socket_new = Some (packet_socket_flush s)"
    by (simp add: evdev_send_metadata_def masks send_def Let_def del: upt_rec_numeral) (simp add: mute_def)
  then show ?thesis
    by (simp add: connection_new_def evdev_init_def server_new_def sys_open_def attempt0_def Let_def split: prod.split)
qed

text \<open>C39: The client leaks no descriptor: in any run, whatever devices come and go, whatever fails on the way and however
  often, the open descriptors are the three standard ones and two for each connection in the list, the device's and
  the socket's, each once.\<close>

theorem client_descriptors_balance:
  assumes "client_run cfg atoi ks w"
  shows "distinct (fds w) \<and> mset (fds w) = mset [0, 1, 2] + mset (concat (map held ks)) \<and> (\<forall>k \<in> set ks. stands k)"
  using client_run_accounts [OF assms] by (simp add: accounts_def)

theorem client_descriptors_balance_witness:
  "\<exists>k w. connection_new config0 (\<lambda>_. 5) [0x2F, 0x64] attempt0 [] start_world = Some (True, [k], w) \<and>
     mset (fds w) = mset [0, 1, 2] + mset (held k)"
proof -
  obtain k w where k: "connection_new config0 (\<lambda>_. 5) [0x2F, 0x64] attempt0 [] start_world = Some (True, [k], w)"
    using connects [of "\<lambda>_. 5" "[0x2F, 0x64]" "[]" start_world] by auto
  then have "client_main config0 (\<lambda>_. 5) (Some (host_and_port config0)) [([0x2F, 0x64], attempt0)] start_world =
      Some (Running ([k], w))"
    by (simp add: client_main_def)
  from client_descriptors_balance [OF client_run.start [OF this]] k show ?thesis by auto
qed

text \<open>A scan connects what it should: a scan of the input directory that is well defined keeps the connections there
  are, in order, and appends exactly one for each path whose entry is an event device of a wanted kind that can be
  opened and connected, unless that path is connected already; so no device is ever connected twice.\<close>

lemma scan_connects_new_devices:
  assumes "client_run cfg atoi ks w" "hotplug_poll cfg atoi (Some es) ks w = Some (Running (ks', w'))"
  shows "\<exists>new. ks' = ks @ new \<and> distinct (map k_path new) \<and>
     set (map k_path new) = {path_of cfg e |e. e \<in> set es \<and> wanted cfg e} - set (map k_path ks)"
proof -
  obtain new where "ks' = ks @ new" "map k_path new = new_paths cfg es (map k_path ks)"
    using hotplug_step [OF assms(2) client_run_accounts [OF assms(1)]] by blast
  then show ?thesis using new_paths_set(1,2) [of cfg es "map k_path ks"] by (intro exI [of _ new]) simp
qed

lemma scan_connects_new_devices_witness:
  "\<exists>k w. hotplug_poll config0 (\<lambda>_. 5)
     (Some [\<lparr>d_entry = event_prefix @ [0x30], d_opens = True, d_masks = (None, None, None, None), d_attempt = attempt0\<rparr>])
     [] start_world = Some (Running ([k], w)) \<and> k_path k = [0x2F, 0x64, 0x2F] @ event_prefix @ [0x30]"
proof -
  let ?e = "\<lparr>d_entry = event_prefix @ [0x30], d_opens = True, d_masks = (None, None, None, None), d_attempt = attempt0\<rparr>"
  let ?p = "[0x2F, 0x64, 0x2F] @ event_prefix @ [0x30]"
  have p: "full_path [0x2F, 0x64] (event_prefix @ [0x30]) = Some ?p" by (simp add: full_path_def event_prefix_def)
  have e: "take 5 (event_prefix @ [0x30]) = event_prefix" unfolding event_prefix_def by simp
  have w: "wanted config0 ?e"
    by (simp add: wanted_def e attempt0_def reachable_def hotplug_detect_def config0_def del: take_append)
  have c: "input_path config0 = [0x2F, 0x64]" "config_detect_all (detect config0)" by (simp_all add: config0_def)
  obtain k w where h: "hotplug_poll config0 (\<lambda>_. 5) (Some [?e]) [] start_world = Some (Running ([k], w))"
  proof -
    have o: "sys_open True w = (int (next_fd (fds w)), w\<lparr>fds := next_fd (fds w) # fds w\<rparr>)" for w
      by (simp add: sys_open_def)
    let ?v = "start_world\<lparr>fds := next_fd (fds start_world) # fds start_world\<rparr>"
    obtain k w where k: "connection_new config0 (\<lambda>_. 5) ?p attempt0 [] ?v = Some (True, [k], w)"
      using connects [of "\<lambda>_. 5" ?p "[]" ?v] by (auto simp del: append_Cons)
    have d: "hotplug_detect (detect config0) None None None None" using c(2) by (simp add: hotplug_detect_def)
    have f: "connection_list_find_path q [] = None" for q by (simp add: connection_list_find_path_def)
    have "hotplug_entry config0 (\<lambda>_. 5) ?e [] ?v = Some ([k], w)"
      unfolding hotplug_entry_def dirent.select_convs c(1) e p o f prod.case using d k open_close(3) [of ?v] by (simp add: f)
    then have "hotplug_poll config0 (\<lambda>_. 5) (Some [?e]) [] start_world =
        Some (Running ([k], sys_close (int (next_fd (fds start_world))) w))"
      unfolding hotplug_poll_def o by (simp add: o)
    then show ?thesis by (rule that)
  qed
  have "path_of config0 ?e = ?p" using p by (simp add: path_of_def config0_def)
  have "client_main config0 (\<lambda>_. 5) (Some (host_and_port config0)) [] start_world = Some (Running ([], start_world))"
    by (simp add: client_main_def config0_def)
  from scan_connects_new_devices [OF client_run.start [OF this] h] w \<open>path_of config0 ?e = ?p\<close> have "k_path k = ?p" by auto
  with h show ?thesis by blast
qed

text \<open>While the server cannot be reached, every attempt for a device that is there leaks the server structure.\<close>

lemma failed_attempt_leaks:
  assumes "device_found a" "\<not> reachable a"
  shows "connection_new cfg atoi path a ks w = Some (False, ks, w\<lparr>blocks := blocks w + 1\<rparr>)"
  using connection_new_fails [OF assms(2)] assms(1) by (simp add: allocated_def)

end
