(* ===== verification/Gchub_Dev.thy ===== *)
theory Gchub_Dev
  imports Usb_Chardev
begin

text \<open>
  The Linux driver of the Gamecube controller hub (\<^verbatim>\<open>wasabi/devices/gchub/kernel/gchub.c\<close>, in its Linux 2.6 form): the
  structures, the packets from the hub, calibration, registration of input devices, and the outputs (rumble motors and
  LEDs) with the request that carries them. A function has the name it has in the code.

  Each section of the code that holds a spin lock is a definition of its own, so that \<open>Gchub_Sync\<close> can interleave
  them; here the handlers are composed of them the way the code composes them.

  Values of the C type \<^verbatim>\<open>int\<close> that only hold bytes and their differences are \<^typ>\<open>int\<close>s, and flags are
  \<^typ>\<open>bool\<close>s. The input core and the USB core are the kernel's: calls into the first are logged, and whether the second
  takes a request is a field of the state.
\<close>

section \<open>Structures\<close>

record gchub_controller_status =
  st_buttons :: int
  st_joystick :: "int \<times> int"
  st_cstick :: "int \<times> int"
  st_triggers :: "int \<times> int"

record gchub_controller_outputs =
  o_rumble :: int
  o_led_color :: int
  o_dirty :: bool

text \<open>\<^verbatim>\<open>struct ff_effect\<close> of the kernel: the driver reads its type and its id, and stores the rest.\<close>

record uploaded_effect =
  e_type :: u16
  e_id :: int
  e_rest :: "byte list"

record gchub_ff_effect =
  fe_effect :: uploaded_effect
  fe_owner :: int
  fe_flags :: u32

text \<open>\<open>callbacks\<close>: whether \<^verbatim>\<open>dev.event\<close> and the other callbacks are set; \<open>led_misc\<close>: the bit of \<^verbatim>\<open>LED_MISC\<close> in
  \<^verbatim>\<open>dev.led\<close>.\<close>

record gchub_controller =
  callbacks :: bool
  led_misc :: bool
  attached :: int
  dev_registered :: bool
  reg_in_progress :: bool
  calibration_valid :: bool
  ff_effects :: "gchub_ff_effect list"
  current_status :: gchub_controller_status
  calibration_status :: gchub_controller_status
  outputs :: gchub_controller_outputs

text \<open>What the input core is told about a port.\<close>

datatype hub_key = BTN_A | BTN_B | BTN_X | BTN_Y | BTN_Z | BTN_TL | BTN_TR | BTN_START
datatype hub_axis = ABS_X | ABS_Y | ABS_Z | ABS_RX | ABS_RY | ABS_RZ | ABS_HAT0X | ABS_HAT0Y
datatype hub_input = Register | Unregister | Key hub_key bool | Abs hub_axis int | Syn

text \<open>The work that is scheduled: \<^verbatim>\<open>reg_work\<close> or \<^verbatim>\<open>unreg_work\<close> of a port.\<close>

datatype hub_work = RegWork nat | UnregWork nat

text \<open>\<open>usb_up\<close>: whether the USB core takes a request that is submitted now; \<open>urb_busy\<close>: the output request is on its
  way; \<open>urb_log\<close>: the requests that were taken, each as \<^verbatim>\<open>wValue\<close> and \<^verbatim>\<open>wIndex\<close>.\<close>

record gchub_dev =
  ports :: "nat \<Rightarrow> gchub_controller"
  out_status_in_progress :: bool
  out_status_pending_sync :: bool
  out_status_request :: "u16 \<times> u16"
  usb_up :: bool
  urb_busy :: bool
  urb_log :: "(u16 \<times> u16) list"
  works :: "hub_work list"
  input_log :: "(nat \<times> hub_input) list"

definition NUM_PORTS :: nat where "NUM_PORTS = 4"
definition EFFECTS_MAX :: nat where "EFFECTS_MAX = 8"
definition LED_OFF :: int where "LED_OFF = 0"
definition LED_RED :: int where "LED_RED = 1"
definition LED_GREEN :: int where "LED_GREEN = 2"
definition CONTROLLER_RETRY_ATTEMPTS :: int where "CONTROLLER_RETRY_ATTEMPTS = 5"

lemmas hub_consts = NUM_PORTS_def EFFECTS_MAX_def LED_OFF_def LED_RED_def LED_GREEN_def
  CONTROLLER_RETRY_ATTEMPTS_def

text \<open>The loops \<^verbatim>\<open>for (i=0; i<NUM_PORTS; i++)\<close> run over this list.\<close>

definition all_ports :: "nat list" where "all_ports = [0..<NUM_PORTS]"

lemma all_ports_eq: "all_ports = [0, 1, 2, 3]"
  by (simp add: all_ports_def NUM_PORTS_def upt_rec)

lemma set_all_ports [simp]: "p \<in> set all_ports \<longleftrightarrow> p < 4"
  by (auto simp: all_ports_def NUM_PORTS_def)

definition GCHUB_BUTTON_DPAD_LEFT :: int where "GCHUB_BUTTON_DPAD_LEFT = 0x0001"
definition GCHUB_BUTTON_DPAD_RIGHT :: int where "GCHUB_BUTTON_DPAD_RIGHT = 0x0002"
definition GCHUB_BUTTON_DPAD_DOWN :: int where "GCHUB_BUTTON_DPAD_DOWN = 0x0004"
definition GCHUB_BUTTON_DPAD_UP :: int where "GCHUB_BUTTON_DPAD_UP = 0x0008"
definition GCHUB_BUTTON_Z :: int where "GCHUB_BUTTON_Z = 0x0010"
definition GCHUB_BUTTON_R :: int where "GCHUB_BUTTON_R = 0x0020"
definition GCHUB_BUTTON_L :: int where "GCHUB_BUTTON_L = 0x0040"
definition GCHUB_BUTTON_A :: int where "GCHUB_BUTTON_A = 0x0100"
definition GCHUB_BUTTON_B :: int where "GCHUB_BUTTON_B = 0x0200"
definition GCHUB_BUTTON_X :: int where "GCHUB_BUTTON_X = 0x0400"
definition GCHUB_BUTTON_Y :: int where "GCHUB_BUTTON_Y = 0x0800"
definition GCHUB_BUTTON_START :: int where "GCHUB_BUTTON_START = 0x1000"

lemmas hub_buttons = GCHUB_BUTTON_DPAD_LEFT_def GCHUB_BUTTON_DPAD_RIGHT_def GCHUB_BUTTON_DPAD_DOWN_def
  GCHUB_BUTTON_DPAD_UP_def GCHUB_BUTTON_Z_def GCHUB_BUTTON_R_def GCHUB_BUTTON_L_def GCHUB_BUTTON_A_def
  GCHUB_BUTTON_B_def GCHUB_BUTTON_X_def GCHUB_BUTTON_Y_def GCHUB_BUTTON_START_def

definition upd_port :: "nat \<Rightarrow> (gchub_controller \<Rightarrow> gchub_controller) \<Rightarrow> gchub_dev \<Rightarrow> gchub_dev" where
  "upd_port p f dev = dev\<lparr>ports := (ports dev)(p := f (ports dev p))\<rparr>"

definition tell :: "nat \<Rightarrow> hub_input list \<Rightarrow> gchub_dev \<Rightarrow> gchub_dev" where
  "tell p es dev = dev\<lparr>input_log := input_log dev @ map (Pair p) es\<rparr>"

section \<open>Outputs\<close>

definition port_set_rumble :: "int \<Rightarrow> gchub_controller \<Rightarrow> gchub_controller" where
  "port_set_rumble r ctl =
     (if o_rumble (outputs ctl) \<noteq> r
      then ctl\<lparr>outputs := (outputs ctl)\<lparr>o_rumble := r, o_dirty := True\<rparr>\<rparr> else ctl)"

definition port_set_led :: "int \<Rightarrow> gchub_controller \<Rightarrow> gchub_controller" where
  "port_set_led color ctl =
     (let ctl = (if color = LED_GREEN then ctl\<lparr>led_misc := False\<rparr>
                 else if color = LED_RED then ctl\<lparr>led_misc := True\<rparr> else ctl)
      in if o_led_color (outputs ctl) \<noteq> color
         then ctl\<lparr>outputs := (outputs ctl)\<lparr>o_led_color := color, o_dirty := True\<rparr>\<rparr> else ctl)"

definition controller_set_rumble :: "nat \<Rightarrow> int \<Rightarrow> gchub_dev \<Rightarrow> gchub_dev" where
  "controller_set_rumble p r = upd_port p (port_set_rumble r)"

definition controller_set_led :: "nat \<Rightarrow> int \<Rightarrow> gchub_dev \<Rightarrow> gchub_dev" where
  "controller_set_led p color = upd_port p (port_set_led color)"

text \<open>The two fields of the request, from the copies of the outputs that were taken.\<close>

definition rumble_bits :: "gchub_controller_outputs list \<Rightarrow> u16" where
  "rumble_bits os =
     (let b = 0;
          b = (if o_rumble (os ! 0) \<noteq> 0 then b OR 0x01 else b);
          b = (if o_rumble (os ! 1) \<noteq> 0 then b OR 0x02 else b);
          b = (if o_rumble (os ! 2) \<noteq> 0 then b OR 0x04 else b)
      in if o_rumble (os ! 3) \<noteq> 0 then b OR 0x08 else b)"

definition led_bits :: "gchub_controller_outputs list \<Rightarrow> u16" where
  "led_bits os =
     (let red = (\<lambda>i. o_led_color (os ! i) AND LED_RED \<noteq> 0);
          green = (\<lambda>i. o_led_color (os ! i) AND LED_GREEN \<noteq> 0);
          b = 0;
          b = (if red 0 then b OR 0x80 else b);
          b = (if red 1 then b OR 0x20 else b);
          b = (if red 2 then b OR 0x08 else b);
          b = (if red 3 then b OR 0x02 else b);
          b = (if green 0 then b OR 0x40 else b);
          b = (if green 1 then b OR 0x10 else b);
          b = (if green 2 then b OR 0x04 else b)
      in if green 3 then b OR 0x01 else b)"

text \<open>The section of \<^verbatim>\<open>gchub_fill_output_request\<close> that holds a port's lock: a copy of its outputs, whose dirty flag
  is cleared. (The flag in the copy is never read; the code leaves it unset.)\<close>

definition take_outputs :: "nat \<Rightarrow> gchub_dev \<Rightarrow> gchub_controller_outputs \<times> gchub_dev" where
  "take_outputs p dev =
     (outputs (ports dev p),
      upd_port p (\<lambda>ctl. ctl\<lparr>outputs := (outputs ctl)\<lparr>o_dirty := False\<rparr>\<rparr>) dev)"

fun take_all :: "nat list \<Rightarrow> gchub_controller_outputs list \<Rightarrow> gchub_dev \<Rightarrow>
    gchub_controller_outputs list \<times> gchub_dev" where
  "take_all [] os dev = (os, dev)"
| "take_all (p # ps) os dev = (let (o', dev) = take_outputs p dev in take_all ps (os @ [o']) dev)"

definition write_request :: "gchub_controller_outputs list \<Rightarrow> gchub_dev \<Rightarrow> gchub_dev" where
  "write_request os dev = dev\<lparr>out_status_request := (rumble_bits os, led_bits os)\<rparr>"

definition gchub_fill_output_request :: "gchub_dev \<Rightarrow> gchub_dev" where
  "gchub_fill_output_request dev = (let (os, dev) = take_all all_ports [] dev in write_request os dev)"

text \<open>\<^verbatim>\<open>usb_submit_urb\<close> fails when the host cannot take the URB, or when it is still active; the driver ignores the
  result.\<close>

definition submit_out_status :: "gchub_dev \<Rightarrow> gchub_dev" where
  "submit_out_status dev =
     (if usb_up dev \<and> \<not> urb_busy dev
      then dev\<lparr>urb_busy := True, urb_log := urb_log dev @ [out_status_request dev]\<rparr> else dev)"

text \<open>The section of \<^verbatim>\<open>gchub_sync_output_status\<close> that holds \<^verbatim>\<open>out_status_lock\<close>: whether this caller has to send
  the request.\<close>

definition claim_request :: "gchub_dev \<Rightarrow> bool \<times> gchub_dev" where
  "claim_request dev =
     (if out_status_in_progress dev then (False, dev\<lparr>out_status_pending_sync := True\<rparr>)
      else (True, dev\<lparr>out_status_in_progress := True\<rparr>))"

definition gchub_sync_output_status :: "gchub_dev \<Rightarrow> gchub_dev" where
  "gchub_sync_output_status dev =
     (let dirty = length (filter (\<lambda>i. o_dirty (outputs (ports dev i))) all_ports)
      in if dirty = 0 then dev
         else let (mine, dev) = claim_request dev
              in if mine then submit_out_status (gchub_fill_output_request dev) else dev)"

text \<open>The section of \<^verbatim>\<open>gchub_out_request_irq\<close> that holds the lock: whether another request has to follow.\<close>

definition finish_request :: "gchub_dev \<Rightarrow> bool \<times> gchub_dev" where
  "finish_request dev =
     (if out_status_pending_sync dev then (True, dev\<lparr>out_status_pending_sync := False\<rparr>)
      else (False, dev\<lparr>out_status_pending_sync := False, out_status_in_progress := False\<rparr>))"

definition gchub_out_request_irq :: "bool \<Rightarrow> gchub_dev \<Rightarrow> gchub_dev" where
  "gchub_out_request_irq ok dev =
     (if \<not> ok then dev\<lparr>out_status_pending_sync := False, out_status_in_progress := False\<rparr>
      else let (more, dev) = finish_request dev
           in if more then submit_out_status (gchub_fill_output_request dev) else dev)"

section \<open>Registration\<close>

text \<open>The ranges that \<^verbatim>\<open>controller_init_inputdev\<close> declares: \<^verbatim>\<open>absmin\<close>, \<^verbatim>\<open>absmax\<close>, \<^verbatim>\<open>absflat\<close>, \<^verbatim>\<open>absfuzz\<close>.\<close>

fun axis_range :: "hub_axis \<Rightarrow> int \<times> int \<times> int \<times> int" where
  "axis_range ABS_X = (-128, 127, 10, 2)"
| "axis_range ABS_Y = (-128, 127, 10, 2)"
| "axis_range ABS_RX = (-128, 127, 10, 2)"
| "axis_range ABS_RY = (-128, 127, 10, 2)"
| "axis_range ABS_HAT0X = (-1, 1, 0, 0)"
| "axis_range ABS_HAT0Y = (-1, 1, 0, 0)"
| "axis_range ABS_Z = (-256, 255, 10, 2)"
| "axis_range ABS_RZ = (-256, 255, 10, 2)"

definition controller_init_inputdev :: "gchub_controller \<Rightarrow> gchub_controller" where
  "controller_init_inputdev ctl = ctl\<lparr>callbacks := True, led_misc := False\<rparr>"

definition controller_attach :: "nat \<Rightarrow> gchub_dev \<Rightarrow> gchub_dev" where
  "controller_attach p dev =
     (let dev = upd_port p controller_init_inputdev dev;
          dev = tell p [Register] dev;
          dev = upd_port p (\<lambda>ctl. ctl\<lparr>dev_registered := True, calibration_valid := False, reg_in_progress := False\<rparr>) dev;
          dev = controller_set_led p LED_GREEN dev;
          dev = controller_set_rumble p 0 dev
      in gchub_sync_output_status dev)"

definition controller_detach :: "nat \<Rightarrow> gchub_dev \<Rightarrow> gchub_dev" where
  "controller_detach p dev =
     (let dev = upd_port p (\<lambda>ctl. ctl\<lparr>callbacks := False\<rparr>) dev;
          dev = tell p [Unregister] dev;
          dev = upd_port p (\<lambda>ctl. ctl\<lparr>dev_registered := False, reg_in_progress := False\<rparr>) dev;
          dev = controller_set_rumble p 0 dev;
          dev = controller_set_led p LED_OFF dev
      in gchub_sync_output_status dev)"

fun do_work :: "hub_work \<Rightarrow> gchub_dev \<Rightarrow> gchub_dev" where
  "do_work (RegWork p) dev = controller_attach p dev"
| "do_work (UnregWork p) dev = controller_detach p dev"

definition schedule_work :: "hub_work \<Rightarrow> gchub_dev \<Rightarrow> gchub_dev" where
  "schedule_work w dev = dev\<lparr>works := works dev @ [w]\<rparr>"

section \<open>Reports\<close>

definition gchub_buttons_to_axis :: "int \<Rightarrow> int \<Rightarrow> int \<Rightarrow> int" where
  "gchub_buttons_to_axis buttons neg_mask pos_mask =
     (let x = 0;
          x = (if buttons AND neg_mask \<noteq> 0 then x - 1 else x)
      in if buttons AND pos_mask \<noteq> 0 then x + 1 else x)"

definition controller_status_diff :: "gchub_controller_status \<Rightarrow> gchub_controller_status \<Rightarrow> gchub_controller_status" where
  "controller_status_diff a b =
     \<lparr>st_buttons = st_buttons a,
      st_joystick = (fst (st_joystick a) - fst (st_joystick b), snd (st_joystick a) - snd (st_joystick b)),
      st_cstick = (fst (st_cstick a) - fst (st_cstick b), snd (st_cstick a) - snd (st_cstick b)),
      st_triggers = (fst (st_triggers a) - fst (st_triggers b), snd (st_triggers a) - snd (st_triggers b))\<rparr>"

text \<open>\<^verbatim>\<open>input_report_key\<close> makes one bit of its value.\<close>

definition controller_report_status :: "gchub_controller_status \<Rightarrow> hub_input list" where
  "controller_report_status status =
     (let key = (\<lambda>k m. Key k (st_buttons status AND m \<noteq> 0))
      in [key BTN_Z GCHUB_BUTTON_Z, key BTN_TR GCHUB_BUTTON_R, key BTN_TL GCHUB_BUTTON_L, key BTN_A GCHUB_BUTTON_A,
          key BTN_B GCHUB_BUTTON_B, key BTN_X GCHUB_BUTTON_X, key BTN_Y GCHUB_BUTTON_Y,
          key BTN_START GCHUB_BUTTON_START,
          Abs ABS_X (fst (st_joystick status)), Abs ABS_Y (- snd (st_joystick status)),
          Abs ABS_Z (fst (st_triggers status)), Abs ABS_RZ (snd (st_triggers status)),
          Abs ABS_RX (fst (st_cstick status)), Abs ABS_RY (- snd (st_cstick status)),
          Abs ABS_HAT0X (gchub_buttons_to_axis (st_buttons status) GCHUB_BUTTON_DPAD_LEFT GCHUB_BUTTON_DPAD_RIGHT),
          Abs ABS_HAT0Y (gchub_buttons_to_axis (st_buttons status) GCHUB_BUTTON_DPAD_UP GCHUB_BUTTON_DPAD_DOWN),
          Syn])"

text \<open>\<^verbatim>\<open>controller_sync\<close>: first the section that holds \<^verbatim>\<open>reg_lock\<close> and schedules the work, then the report.\<close>

definition sync_registration :: "nat \<Rightarrow> gchub_dev \<Rightarrow> gchub_dev" where
  "sync_registration p dev =
     (let ctl = ports dev p
      in if \<not> reg_in_progress ctl
         then if attached ctl \<noteq> 0 \<and> \<not> dev_registered ctl
              then schedule_work (RegWork p) (upd_port p (\<lambda>ctl. ctl\<lparr>reg_in_progress := True\<rparr>) dev)
              else if dev_registered ctl \<and> attached ctl = 0
              then schedule_work (UnregWork p) (upd_port p (\<lambda>ctl. ctl\<lparr>reg_in_progress := True\<rparr>) dev)
              else dev
         else dev)"

definition calibrate :: "gchub_controller \<Rightarrow> gchub_controller" where
  "calibrate ctl =
     (if \<not> calibration_valid ctl then ctl\<lparr>calibration_status := current_status ctl, calibration_valid := True\<rparr> else ctl)"

definition sync_report :: "nat \<Rightarrow> gchub_dev \<Rightarrow> gchub_dev" where
  "sync_report p dev =
     (if dev_registered (ports dev p) \<and> attached (ports dev p) \<noteq> 0
      then let dev = upd_port p calibrate dev;
               calibrated = controller_status_diff (current_status (ports dev p)) (calibration_status (ports dev p))
           in tell p (controller_report_status calibrated) dev
      else dev)"

definition controller_sync :: "nat \<Rightarrow> gchub_dev \<Rightarrow> gchub_dev" where
  "controller_sync p dev = sync_report p (sync_registration p dev)"

section \<open>Packets from the hub\<close>

definition calibration_buttons :: "int \<Rightarrow> bool" where
  "calibration_buttons buttons \<longleftrightarrow>
     buttons AND GCHUB_BUTTON_X \<noteq> 0 \<and> buttons AND GCHUB_BUTTON_Y \<noteq> 0 \<and> buttons AND GCHUB_BUTTON_START \<noteq> 0"

definition port_silent :: "gchub_controller \<Rightarrow> gchub_controller" where
  "port_silent ctl =
     (if calibration_buttons (st_buttons (current_status ctl)) then ctl\<lparr>calibration_valid := False\<rparr>
      else if attached ctl > 0 then ctl\<lparr>attached := attached ctl - 1\<rparr>
      else ctl\<lparr>attached := 0\<rparr>)"

definition port_analog :: "byte list \<Rightarrow> gchub_controller \<Rightarrow> gchub_controller" where
  "port_analog packet ctl =
     ctl\<lparr>attached := CONTROLLER_RETRY_ATTEMPTS,
         current_status := (current_status ctl)
           \<lparr>st_joystick := (uint (packet ! 1), uint (packet ! 2)),
            st_cstick := (uint (packet ! 3), uint (packet ! 4)),
            st_triggers := (uint (packet ! 5), uint (packet ! 6))\<rparr>\<rparr>"

definition port_buttons :: "byte list \<Rightarrow> gchub_controller \<Rightarrow> gchub_controller" where
  "port_buttons packet ctl =
     ctl\<lparr>attached := CONTROLLER_RETRY_ATTEMPTS,
         current_status := (current_status ctl)
           \<lparr>st_buttons := push_bit 8 (uint (packet ! 1)) OR uint (packet ! 2)\<rparr>\<rparr>"

definition packet_port :: "byte list \<Rightarrow> nat" where "packet_port packet = unat (packet ! 0 AND 0x03)"
definition packet_type :: "byte list \<Rightarrow> byte" where "packet_type packet = packet ! 0 AND 0x70"
definition packet_sync :: "byte list \<Rightarrow> bool" where "packet_sync packet \<longleftrightarrow> packet ! 0 AND 0x80 \<noteq> 0"

definition port_update :: "byte list \<Rightarrow> gchub_controller \<Rightarrow> gchub_controller" where
  "port_update packet =
     (if packet_type packet = 0x10 then port_silent
      else if packet_type packet = 0x20 then port_analog packet
      else if packet_type packet = 0x30 then port_buttons packet
      else id)"

definition gchub_process_status :: "byte list \<Rightarrow> gchub_dev \<Rightarrow> gchub_dev" where
  "gchub_process_status packet dev =
     (let port = packet_port packet;
          dev = upd_port port (port_update packet) dev
      in if packet_sync packet then controller_sync port dev else dev)"

text \<open>The completion of the interrupt URB, with its status (an error number is negative) and the data that arrived: whether
  the URB was submitted again, and the state.\<close>

definition GCHUB_PACKET_SIZE :: nat where "GCHUB_PACKET_SIZE = 8"

definition gchub_irq :: "int \<Rightarrow> byte list \<Rightarrow> gchub_dev \<Rightarrow> bool \<times> gchub_dev" where
  "gchub_irq status irq_data dev =
     (if status \<noteq> 0 \<or> length irq_data \<noteq> GCHUB_PACKET_SIZE then (False, dev)
      else (True, gchub_process_status irq_data dev))"

section \<open>Events from the input core\<close>

definition controller_ff_event :: "nat \<Rightarrow> int \<Rightarrow> int \<Rightarrow> gchub_dev \<Rightarrow> int \<times> gchub_dev" where
  "controller_ff_event p code v dev = (0, gchub_sync_output_status (controller_set_rumble p v dev))"

definition controller_led_event :: "nat \<Rightarrow> int \<Rightarrow> int \<Rightarrow> gchub_dev \<Rightarrow> int \<times> gchub_dev" where
  "controller_led_event p code v dev =
     (if attached (ports dev p) = 0 then (0, dev)
      else (0, gchub_sync_output_status
                 (controller_set_led p (if led_misc (ports dev p) then LED_RED else LED_GREEN) dev)))"

definition EV_LED_type :: int where "EV_LED_type = 0x11"
definition EV_FF_type :: int where "EV_FF_type = 0x15"

definition controller_event :: "nat \<Rightarrow> int \<Rightarrow> int \<Rightarrow> int \<Rightarrow> gchub_dev \<Rightarrow> int \<times> gchub_dev" where
  "controller_event p typ code v dev =
     (if typ = EV_FF_type then controller_ff_event p code v dev
      else if typ = EV_LED_type then controller_led_event p code v dev
      else (- EINVAL, dev))"

section \<open>What an operation leaves alone\<close>

lemma ports_upd_port [simp]: "ports (upd_port p f dev) q = (if q = p then f (ports dev p) else ports dev q)"
  by (simp add: upd_port_def)

lemma upd_port_frame [simp]:
  "out_status_in_progress (upd_port p f dev) = out_status_in_progress dev"
  "out_status_pending_sync (upd_port p f dev) = out_status_pending_sync dev"
  "out_status_request (upd_port p f dev) = out_status_request dev"
  "usb_up (upd_port p f dev) = usb_up dev" "urb_busy (upd_port p f dev) = urb_busy dev"
  "urb_log (upd_port p f dev) = urb_log dev" "works (upd_port p f dev) = works dev"
  "input_log (upd_port p f dev) = input_log dev"
  by (simp_all add: upd_port_def)

lemma tell_frame [simp]:
  "ports (tell p es dev) = ports dev" "works (tell p es dev) = works dev"
  "out_status_in_progress (tell p es dev) = out_status_in_progress dev"
  "out_status_pending_sync (tell p es dev) = out_status_pending_sync dev"
  "urb_busy (tell p es dev) = urb_busy dev" "usb_up (tell p es dev) = usb_up dev"
  "input_log (tell p es dev) = input_log dev @ map (Pair p) es"
  by (simp_all add: tell_def)

end
