(* ===== verification/Gchub_Effects.thy ===== *)
theory Gchub_Effects
  imports Gchub_Dev
begin

text \<open>
  The force feedback effects of a port of the Gamecube controller hub (\<^verbatim>\<open>gchub.c\<close>): eight slots, each marked as used in
  its flags and owned by the process that filled it. The operations refine a finite map from ids to owners and effects.

  \<open>pid\<close> is \<^verbatim>\<open>current->pid\<close>. An operation gives its return value and the state; \<^term>\<open>None\<close> is undefined
  behaviour.
\<close>

abbreviation (input) ENOSPC :: int where "ENOSPC \<equiv> 28"
abbreviation (input) EACCES :: int where "EACCES \<equiv> 13"

definition EFFECT_USED :: nat where "EFFECT_USED = 2"

text \<open>The bitmap \<^verbatim>\<open>ffbit\<close> has the bits up to \<^verbatim>\<open>FF_MAX\<close>, of which the driver has set \<^verbatim>\<open>FF_RUMBLE\<close>.\<close>

definition FF_RUMBLE_bit :: nat where "FF_RUMBLE_bit = 0x50"
definition FF_MAX :: nat where "FF_MAX = 0x7f"

definition test_ffbit :: "u16 \<Rightarrow> bool option" where
  "test_ffbit typ = (if unat typ > FF_MAX then None else Some (unat typ = FF_RUMBLE_bit))"

definition effect_used :: "gchub_ff_effect \<Rightarrow> bool" where
  "effect_used f \<longleftrightarrow> bit (fe_flags f) EFFECT_USED"

definition CHECK_OWNERSHIP :: "int \<Rightarrow> gchub_ff_effect \<Rightarrow> bool" where
  "CHECK_OWNERSHIP pid f \<longleftrightarrow> pid = 0 \<or> fe_owner f = pid"

definition EFFECT_CHECK_ID :: "int \<Rightarrow> bool" where
  "EFFECT_CHECK_ID n \<longleftrightarrow> n \<ge> 0 \<and> n < int EFFECTS_MAX"

definition EFFECT_CHECK_OWNERSHIP :: "int \<Rightarrow> int \<Rightarrow> gchub_controller \<Rightarrow> bool" where
  "EFFECT_CHECK_OWNERSHIP pid n ctl \<longleftrightarrow>
     effect_used (ff_effects ctl ! nat n) \<and> CHECK_OWNERSHIP pid (ff_effects ctl ! nat n)"

text \<open>The loop that looks for a free slot: the index at which it ends.\<close>

fun free_slot :: "gchub_ff_effect list \<Rightarrow> nat" where
  "free_slot [] = 0"
| "free_slot (f # fs) = (if \<not> effect_used f then 0 else Suc (free_slot fs))"

definition store_effect :: "int \<Rightarrow> nat \<Rightarrow> uploaded_effect \<Rightarrow> gchub_controller \<Rightarrow> gchub_controller" where
  "store_effect pid n effect ctl =
     ctl\<lparr>ff_effects := (ff_effects ctl)[n :=
       \<lparr>fe_effect = effect, fe_owner = pid, fe_flags = set_bit EFFECT_USED 0\<rparr>]\<rparr>"

text \<open>The result: the return value, the caller's effect, and the port.\<close>

definition controller_upload_effect :: "int \<Rightarrow> uploaded_effect \<Rightarrow> gchub_controller \<Rightarrow>
    (int \<times> uploaded_effect \<times> gchub_controller) option" where
  "controller_upload_effect pid effect ctl =
     do {
       known \<leftarrow> test_ffbit (e_type effect);
       Some (if \<not> known then (- EINVAL, effect, ctl)
             else if e_id effect = -1
             then (let n = free_slot (ff_effects ctl)
                   in if n \<ge> EFFECTS_MAX then (- ENOSPC, effect, ctl)
                      else let effect = effect\<lparr>e_id := int n\<rparr>
                           in (0, effect, store_effect pid n effect ctl))
             else if \<not> EFFECT_CHECK_ID (e_id effect) then (- EINVAL, effect, ctl)
             else if \<not> EFFECT_CHECK_OWNERSHIP pid (e_id effect) ctl then (- EACCES, effect, ctl)
             else (0, effect, store_effect pid (nat (e_id effect)) effect ctl))
     }"

definition clear_slot :: "gchub_ff_effect \<Rightarrow> gchub_ff_effect" where
  "clear_slot f = f\<lparr>fe_flags := 0\<rparr>"

definition controller_erase_effect :: "int \<Rightarrow> int \<Rightarrow> gchub_controller \<Rightarrow> int \<times> gchub_controller" where
  "controller_erase_effect pid n ctl =
     (if \<not> EFFECT_CHECK_ID n then (- EINVAL, ctl)
      else if \<not> EFFECT_CHECK_OWNERSHIP pid n ctl then (- EACCES, ctl)
      else (0, ctl\<lparr>ff_effects := (ff_effects ctl)[nat n := clear_slot (ff_effects ctl ! nat n)]\<rparr>))"

text \<open>\<^verbatim>\<open>controller_flush\<close> visits every slot.\<close>

definition controller_flush :: "int \<Rightarrow> gchub_controller \<Rightarrow> int \<times> gchub_controller" where
  "controller_flush pid ctl =
     (0, ctl\<lparr>ff_effects := map (\<lambda>f. if fe_owner f = pid \<and> effect_used f then clear_slot f else f) (ff_effects ctl)\<rparr>)"

section \<open>The abstract slots\<close>

text \<open>Which ids are taken, by whom and for what.\<close>

type_synonym slots = "nat \<rightharpoonup> int \<times> uploaded_effect"

definition slots_of :: "gchub_controller \<Rightarrow> slots" where
  "slots_of ctl = (\<lambda>i. if i < length (ff_effects ctl) \<and> effect_used (ff_effects ctl ! i)
                       then Some (fe_owner (ff_effects ctl ! i), fe_effect (ff_effects ctl ! i)) else None)"

definition may_change :: "int \<Rightarrow> nat \<Rightarrow> slots \<Rightarrow> bool" where
  "may_change pid i m \<longleftrightarrow> (\<exists>o' e. m i = Some (o', e) \<and> (pid = 0 \<or> o' = pid))"

text \<open>An upload with id -1 takes the least free id; with the id of an effect it replaces that effect, if the caller owns
  it.\<close>

definition slots_upload :: "int \<Rightarrow> uploaded_effect \<Rightarrow> slots \<Rightarrow> int \<times> uploaded_effect \<times> slots \<Rightarrow> bool" where
  "slots_upload pid e m r \<longleftrightarrow>
     (if unat (e_type e) \<noteq> FF_RUMBLE_bit then r = (- EINVAL, e, m)
      else if e_id e = -1
      then if {..<8} \<subseteq> dom m then r = (- ENOSPC, e, m)
           else \<exists>i<8. m i = None \<and> {..<i} \<subseteq> dom m \<and>
                  r = (0, e\<lparr>e_id := int i\<rparr>, m(i \<mapsto> (pid, e\<lparr>e_id := int i\<rparr>)))
      else if e_id e \<notin> {0..<8} then r = (- EINVAL, e, m)
      else if \<not> may_change pid (nat (e_id e)) m then r = (- EACCES, e, m)
      else r = (0, e, m(nat (e_id e) \<mapsto> (pid, e))))"

definition slots_erase :: "int \<Rightarrow> int \<Rightarrow> slots \<Rightarrow> int \<times> slots" where
  "slots_erase pid n m =
     (if n \<notin> {0..<8} then (- EINVAL, m)
      else if \<not> may_change pid (nat n) m then (- EACCES, m)
      else (0, m(nat n := None)))"

definition slots_flush :: "int \<Rightarrow> slots \<Rightarrow> slots" where
  "slots_flush pid m = (\<lambda>i. case m i of Some (o', e) \<Rightarrow> if o' = pid then None else Some (o', e) | None \<Rightarrow> None)"

section \<open>Refinement\<close>

lemma effect_used_cleared [simp]: "\<not> effect_used (clear_slot f)"
  by (simp add: effect_used_def clear_slot_def)

lemma effect_used_stored [simp]:
  "effect_used \<lparr>fe_effect = e, fe_owner = p, fe_flags = 2 ^ EFFECT_USED\<rparr>"
  by (simp add: effect_used_def EFFECT_USED_def)

lemma free_slot_le: "free_slot fs \<le> length fs"
  by (induction fs) auto

lemma free_slot_free: "free_slot fs < length fs \<Longrightarrow> \<not> effect_used (fs ! free_slot fs)"
  by (induction fs) auto

lemma free_slot_before: "i < free_slot fs \<Longrightarrow> effect_used (fs ! i)"
  by (induction fs arbitrary: i) (auto simp: nth_Cons split: nat.splits if_splits)

lemma slots_of_store:
  "n < length (ff_effects ctl) \<Longrightarrow> slots_of (store_effect pid n e ctl) = (slots_of ctl)(n \<mapsto> (pid, e))"
  by (auto simp: slots_of_def store_effect_def nth_list_update fun_eq_iff)

lemma slots_of_clear:
  "n < length (ff_effects ctl) \<Longrightarrow>
   slots_of (ctl\<lparr>ff_effects := (ff_effects ctl)[n := clear_slot (ff_effects ctl ! n)]\<rparr>) = (slots_of ctl)(n := None)"
  by (auto simp: slots_of_def nth_list_update fun_eq_iff)

lemma may_change_iff:
  "length (ff_effects ctl) = 8 \<Longrightarrow> n \<in> {0..<8} \<Longrightarrow>
   may_change pid (nat n) (slots_of ctl) \<longleftrightarrow> EFFECT_CHECK_OWNERSHIP pid n ctl"
  by (auto simp: may_change_def slots_of_def EFFECT_CHECK_OWNERSHIP_def CHECK_OWNERSHIP_def)

lemma upload_refines_free:
  assumes len: "length (ff_effects ctl) = 8"
  defines "i \<equiv> free_slot (ff_effects ctl)"
  shows "i \<ge> 8 \<longleftrightarrow> {..<8} \<subseteq> dom (slots_of ctl)" "{..<i} \<subseteq> dom (slots_of ctl)"
    "i < 8 \<Longrightarrow> slots_of ctl i = None"
proof -
  have le: "i \<le> 8"
    using free_slot_le [of "ff_effects ctl"] len by (simp add: i_def)
  show before: "{..<i} \<subseteq> dom (slots_of ctl)"
    using le len free_slot_before by (auto simp: slots_of_def i_def dom_def)
  show none: "slots_of ctl i = None" if "i < 8"
    using that len free_slot_free [of "ff_effects ctl"] by (simp add: slots_of_def i_def)
  show "i \<ge> 8 \<longleftrightarrow> {..<8} \<subseteq> dom (slots_of ctl)"
    using le before none by (cases "i < 8") auto
qed

lemma upload_refines:
  assumes len: "length (ff_effects ctl) = 8"
    and r: "controller_upload_effect pid e ctl = Some (ret, e', ctl')"
  shows "slots_upload pid e (slots_of ctl) (ret, e', slots_of ctl')" "length (ff_effects ctl') = 8"
proof -
  note free = upload_refines_free [OF len]
  show "length (ff_effects ctl') = 8"
    using r len by (auto simp: controller_upload_effect_def store_effect_def Let_def bind_eq_Some_conv split: if_splits)
  consider (unknown) "unat (e_type e) \<noteq> FF_RUMBLE_bit" | (fresh) "unat (e_type e) = FF_RUMBLE_bit" "e_id e = -1"
    | (old) "unat (e_type e) = FF_RUMBLE_bit" "e_id e \<noteq> -1"
    by blast
  then show "slots_upload pid e (slots_of ctl) (ret, e', slots_of ctl')"
  proof cases
    case unknown
    then show ?thesis
      using r by (auto simp: controller_upload_effect_def test_ffbit_def slots_upload_def bind_eq_Some_conv split: if_splits)
  next
    case fresh
    have known: "test_ffbit (e_type e) = Some True"
      using fresh by (simp add: test_ffbit_def FF_MAX_def FF_RUMBLE_bit_def)
    show ?thesis
    proof (cases "free_slot (ff_effects ctl) \<ge> 8")
      case True
      then show ?thesis
        using r free fresh known by (simp add: controller_upload_effect_def slots_upload_def Let_def EFFECTS_MAX_def)
    next
      case False
      let ?i = "free_slot (ff_effects ctl)"
      have "(ret, e', slots_of ctl') = (0, e\<lparr>e_id := int ?i\<rparr>, (slots_of ctl)(?i \<mapsto> (pid, e\<lparr>e_id := int ?i\<rparr>)))"
        using r False fresh known len slots_of_store [of ?i ctl]
        by (auto simp: controller_upload_effect_def Let_def EFFECTS_MAX_def)
      moreover have "?i < 8 \<and> slots_of ctl ?i = None \<and> {..<?i} \<subseteq> dom (slots_of ctl)"
        using False free by simp
      moreover have "\<not> {..<8} \<subseteq> dom (slots_of ctl)"
        using False free(1) by simp
      ultimately show ?thesis
        unfolding slots_upload_def using fresh by auto
    qed
  next
    case old
    then show ?thesis
      using r len
      by (auto simp: controller_upload_effect_def test_ffbit_def slots_upload_def bind_eq_Some_conv EFFECT_CHECK_ID_def
          EFFECTS_MAX_def may_change_iff slots_of_store split: if_splits)
  qed
qed

lemma erase_refines:
  assumes len: "length (ff_effects ctl) = 8"
  shows "slots_erase pid n (slots_of ctl) =
           (fst (controller_erase_effect pid n ctl), slots_of (snd (controller_erase_effect pid n ctl)))"
    "length (ff_effects (snd (controller_erase_effect pid n ctl))) = 8"
  using len may_change_iff [OF len, of n pid] slots_of_clear [of "nat n" ctl]
  by (auto simp: slots_erase_def controller_erase_effect_def EFFECT_CHECK_ID_def EFFECTS_MAX_def)

lemma flush_refines:
  "slots_of (snd (controller_flush pid ctl)) = slots_flush pid (slots_of ctl)"
  "length (ff_effects (snd (controller_flush pid ctl))) = length (ff_effects ctl)"
  by (auto simp: controller_flush_def slots_flush_def slots_of_def fun_eq_iff)

section \<open>What the processes can do to each other\<close>

datatype effect_op = UploadOp uploaded_effect | EraseOp int | FlushOp

fun do_effect :: "int \<times> effect_op \<Rightarrow> gchub_controller \<Rightarrow> gchub_controller option" where
  "do_effect (pid, UploadOp e) ctl = map_option (\<lambda>(ret, e', ctl'). ctl') (controller_upload_effect pid e ctl)"
| "do_effect (pid, EraseOp n) ctl = Some (snd (controller_erase_effect pid n ctl))"
| "do_effect (pid, FlushOp) ctl = Some (snd (controller_flush pid ctl))"

fun do_effects :: "(int \<times> effect_op) list \<Rightarrow> gchub_controller \<Rightarrow> gchub_controller option" where
  "do_effects [] ctl = Some ctl"
| "do_effects (c # cs) ctl = do { ctl \<leftarrow> do_effect c ctl; do_effects cs ctl }"

lemma do_effect_protects:
  assumes len: "length (ff_effects ctl) = 8" and mine: "slots_of ctl i = Some (me, e)"
    and other: "pid \<noteq> 0" "pid \<noteq> me" and r: "do_effect (pid, c) ctl = Some ctl'"
  shows "length (ff_effects ctl') = 8 \<and> slots_of ctl' i = Some (me, e)"
proof (cases c)
  case (UploadOp u)
  then obtain ret u' where "controller_upload_effect pid u ctl = Some (ret, u', ctl')"
    using r by auto
  from upload_refines [OF len this] show ?thesis
    using mine other by (auto simp: slots_upload_def may_change_def split: if_splits)
next
  case (EraseOp n)
  then have "slots_of ctl' = snd (slots_erase pid n (slots_of ctl))" "length (ff_effects ctl') = 8"
    using r erase_refines [OF len, of pid n] by simp_all
  then show ?thesis
    using mine other by (auto simp: slots_erase_def may_change_def)
next
  case FlushOp
  then show ?thesis
    using r flush_refines [of pid ctl] mine other len by (auto simp: slots_flush_def)
qed

lemma effects_protected:
  assumes "length (ff_effects ctl) = 8" "slots_of ctl i = Some (me, e)"
    and "\<And>pid c. (pid, c) \<in> set cs \<Longrightarrow> pid \<noteq> 0 \<and> pid \<noteq> me" and "do_effects cs ctl = Some ctl'"
  shows "slots_of ctl' i = Some (me, e)"
  using assms
proof (induction cs arbitrary: ctl)
  case (Cons c cs)
  then show ?case
    using do_effect_protects [of ctl i me e "fst c" "snd c"]
    by (cases c) (fastforce simp: bind_eq_Some_conv)
qed simp

text \<open>The type of an effect comes from the caller unchecked, so that a type above \<^verbatim>\<open>FF_MAX\<close> makes the driver read behind
  its bitmap.\<close>

lemma effect_type_unchecked: "controller_upload_effect pid e ctl = None \<longleftrightarrow> unat (e_type e) > 127"
  by (auto simp: controller_upload_effect_def test_ffbit_def FF_MAX_def)


section \<open>The contract\<close>


definition free_slots :: gchub_controller where
  "free_slots = \<lparr>callbacks = True, led_misc = False, attached = 5, dev_registered = True, reg_in_progress = False,
     calibration_valid = True,
     ff_effects = replicate 8 \<lparr>fe_effect = \<lparr>e_type = 0, e_id = 0, e_rest = []\<rparr>, fe_owner = 0, fe_flags = 0\<rparr>,
     current_status = \<lparr>st_buttons = 0, st_joystick = (0, 0), st_cstick = (0, 0), st_triggers = (0, 0)\<rparr>,
     calibration_status = \<lparr>st_buttons = 0, st_joystick = (0, 0), st_cstick = (0, 0), st_triggers = (0, 0)\<rparr>,
     outputs = \<lparr>o_rumble = 0, o_led_color = 2, o_dirty = False\<rparr>\<rparr>"


end
