(* ===== verification/Gchub_Sync.thy ===== *)
theory Gchub_Sync
  imports Gchub_Dev "HOL-Library.Multiset"
begin

text \<open>
  The output protocol of the Gamecube controller hub (\<^verbatim>\<open>gchub.c\<close>) when everything runs at once: any number of
  threads set rumble motors and LEDs and call \<^verbatim>\<open>gchub_sync_output_status\<close>, while the completion of the request
  interrupts them. A thread is what is left of its call. One step is a section that holds a spin lock, the reading of one
  dirty flag (which takes no lock), the writing of the request, or its submission; each step is the definition of
  \<open>Gchub_Dev\<close> for it.
\<close>

section \<open>Threads\<close>

datatype output_op = SetRumble nat int | SetLed nat int

fun do_output :: "output_op \<Rightarrow> gchub_dev \<Rightarrow> gchub_dev" where
  "do_output (SetRumble p r) dev = controller_set_rumble p r dev"
| "do_output (SetLed p color) dev = controller_set_led p color dev"

fun output_port :: "output_op \<Rightarrow> nat" where
  "output_port (SetRumble p r) = p"
| "output_port (SetLed p color) = p"

text \<open>\<open>Calling\<close>: outputs still to be set before the synchronisation; \<open>Looking p d\<close>: its loop at port \<open>p\<close> with \<open>d\<close> dirty
  ports counted; \<open>Claiming\<close>: before the lock; \<open>Filling p os\<close>: the loop that copies the outputs; \<open>Writing\<close>,
  \<open>Submitting\<close>: before the request is written, and before it is submitted.\<close>

datatype thread =
    Calling "output_op list"
  | Looking nat nat
  | Claiming
  | Filling nat "gchub_controller_outputs list"
  | Writing "gchub_controller_outputs list"
  | Submitting

fun thread_step :: "thread \<Rightarrow> gchub_dev \<Rightarrow> thread option \<times> gchub_dev" where
  "thread_step (Calling []) dev = (Some (Looking 0 0), dev)"
| "thread_step (Calling (c # cs)) dev = (Some (Calling cs), do_output c dev)"
| "thread_step (Looking p d) dev =
     (if p < NUM_PORTS
      then (Some (Looking (Suc p) (if o_dirty (outputs (ports dev p)) then Suc d else d)), dev)
      else (if d = 0 then None else Some Claiming, dev))"
| "thread_step Claiming dev =
     (let (mine, dev) = claim_request dev in (if mine then Some (Filling 0 []) else None, dev))"
| "thread_step (Filling p os) dev =
     (if p < NUM_PORTS
      then let (o', dev) = take_outputs p dev in (Some (Filling (Suc p) (os @ [o'])), dev)
      else (Some (Writing os), dev))"
| "thread_step (Writing os) dev = (Some Submitting, write_request os dev)"
| "thread_step Submitting dev = (None, submit_out_status dev)"

section \<open>The system\<close>

text \<open>\<open>shown\<close>: the request that the hub has carried out last.\<close>

record hub_sys =
  hub :: gchub_dev
  threads :: "thread multiset"
  shown :: "u16 \<times> u16"

text \<open>A call comes in; a thread makes a step; the request completes, with success or not; the USB core begins or ceases to
  take requests.\<close>

datatype hub_event = Enter "output_op list" | Run thread | Done bool | Usb bool

fun hub_step :: "hub_event \<Rightarrow> hub_sys \<Rightarrow> hub_sys option" where
  "hub_step (Enter ops) s =
     (if \<forall>c \<in> set ops. output_port c < NUM_PORTS then Some (s\<lparr>threads := add_mset (Calling ops) (threads s)\<rparr>) else None)"
| "hub_step (Run t) s =
     (if t \<in># threads s
      then let (t', dev) = thread_step t (hub s)
           in Some (s\<lparr>hub := dev, threads := (threads s - {#t#}) + (case t' of Some u \<Rightarrow> {#u#} | None \<Rightarrow> {#})\<rparr>)
      else None)"
| "hub_step (Done ok) s =
     (if \<not> urb_busy (hub s) then None
      else let dev = (hub s)\<lparr>urb_busy := False\<rparr>
           in if \<not> ok
              then Some (s\<lparr>hub := dev\<lparr>out_status_pending_sync := False, out_status_in_progress := False\<rparr>\<rparr>)
              else let (more, dev) = finish_request dev
                   in Some (s\<lparr>hub := dev, threads := threads s + (if more then {#Filling 0 []#} else {#}),
                              shown := out_status_request dev\<rparr>))"
| "hub_step (Usb up) s = Some (s\<lparr>hub := (hub s)\<lparr>usb_up := up\<rparr>\<rparr>)"

fun hub_run :: "hub_event list \<Rightarrow> hub_sys \<Rightarrow> hub_sys option" where
  "hub_run [] s = Some s"
| "hub_run (e # es) s = (case hub_step e s of Some s' \<Rightarrow> hub_run es s' | None \<Rightarrow> None)"

text \<open>The probe has initialised the structure, which marks every port's outputs as dirty, and calls
  \<^verbatim>\<open>gchub_sync_output_status\<close>.\<close>

definition hub_start :: "hub_sys \<Rightarrow> bool" where
  "hub_start s \<longleftrightarrow> threads s = {#Calling []#} \<and> (\<forall>p<NUM_PORTS. o_dirty (outputs (ports (hub s) p))) \<and>
     \<not> out_status_in_progress (hub s) \<and> \<not> out_status_pending_sync (hub s) \<and> \<not> urb_busy (hub s) \<and> usb_up (hub s)"

lemma hub_run_append: "hub_run (es @ fs) s = (case hub_run es s of Some t \<Rightarrow> hub_run fs t | None \<Rightarrow> None)"
  by (induction es arbitrary: s) (auto split: option.splits)

lemma hub_run_induct [consumes 1, case_names nil step]:
  assumes "hub_run es s = Some s'" and "I s"
    and "\<And>e s s'. e \<in> set es \<Longrightarrow> I s \<Longrightarrow> hub_step e s = Some s' \<Longrightarrow> I s'"
  shows "I s'"
  using assms
proof (induction es arbitrary: s)
  case (Cons e es)
  obtain t where t: "hub_step e s = Some t" "hub_run es t = Some s'"
    using Cons.prems(1) by (auto split: option.splits)
  show ?case
    using Cons.IH [OF t(2)] Cons.prems(2,3) t(1) by (meson list.set_intros)
qed simp

section \<open>One request at a time\<close>

fun busy :: "thread \<Rightarrow> bool" where
  "busy (Filling p os) \<longleftrightarrow> True"
| "busy (Writing os) \<longleftrightarrow> True"
| "busy Submitting \<longleftrightarrow> True"
| "busy _ \<longleftrightarrow> False"

text \<open>How many are between claiming the request and its completion.\<close>

definition owners :: "hub_sys \<Rightarrow> nat" where
  "owners s = size (filter_mset busy (threads s)) + of_bool (urb_busy (hub s))"

lemma sections_frame [simp]:
  "urb_busy (do_output c dev) = urb_busy dev" "out_status_in_progress (do_output c dev) = out_status_in_progress dev"
  "out_status_pending_sync (do_output c dev) = out_status_pending_sync dev"
  "usb_up (do_output c dev) = usb_up dev" "urb_log (do_output c dev) = urb_log dev"
  "out_status_request (do_output c dev) = out_status_request dev"
  by (cases c; simp add: controller_set_rumble_def controller_set_led_def)+

lemmas sections = claim_request_def take_outputs_def write_request_def submit_out_status_def finish_request_def

text \<open>The invariant of every run, failures included: whoever owns the request has it claimed, alone, and a request on
  its way is the one that was submitted.\<close>

definition exclusive :: "hub_sys \<Rightarrow> bool" where
  "exclusive s \<longleftrightarrow> owners s \<le> of_bool (out_status_in_progress (hub s)) \<and>
     (urb_busy (hub s) \<longrightarrow> urb_log (hub s) \<noteq> [] \<and> out_status_request (hub s) = last (urb_log (hub s)))"

lemma split_thread:
  assumes "t \<in># threads s"
  obtains M where "threads s = add_mset t M"
  using assms by (metis mset_add)

lemma none_busy: "\<forall>x. x \<in># M \<longrightarrow> \<not> busy x \<Longrightarrow> size (filter_mset busy M) \<le> n"
  by (induction M) auto

lemma exclusive_start: "hub_start s \<Longrightarrow> exclusive s"
  by (simp add: hub_start_def exclusive_def owners_def)

lemma exclusive_step:
  assumes "exclusive s" "hub_step e s = Some s'"
  shows "exclusive s'"
proof (cases e)
  case (Run t)
  then obtain M where M: "threads s = add_mset t M"
    using assms(2) by (auto split: if_splits elim: split_thread)
  show ?thesis
    using assms M Run
    by (cases "(t, hub s)" rule: thread_step.cases)
      (auto simp: exclusive_def owners_def sections Let_def of_bool_def intro: none_busy split: if_splits)
next
  case (Done ok)
  then show ?thesis
    using assms by (auto simp: exclusive_def owners_def sections Let_def of_bool_def split: if_splits)
qed (use assms in \<open>auto simp: exclusive_def owners_def of_bool_def split: if_splits\<close>)


lemma exclusive_run: "hub_start s \<Longrightarrow> hub_run es s = Some s' \<Longrightarrow> exclusive s'"
  by (erule hub_run_induct) (auto intro: exclusive_start exclusive_step)

section \<open>Every run settles\<close>

text \<open>The work that is left: what each thread still has to do, and what the completion of the request and the request
  that may follow it still take.\<close>

fun thread_work :: "thread \<Rightarrow> nat" where
  "thread_work (Calling cs) = 15 + length cs"
| "thread_work (Looking p d) = 10 + (4 - p)"
| "thread_work Claiming = 9"
| "thread_work (Filling p os) = 4 + (4 - p)"
| "thread_work (Writing os) = 3"
| "thread_work Submitting = 2"

definition work_left :: "hub_sys \<Rightarrow> nat" where
  "work_left s = sum_mset (image_mset thread_work (threads s)) + of_bool (urb_busy (hub s)) +
     8 * of_bool (out_status_pending_sync (hub s))"

text \<open>The steps of the driver and of the request it has sent, as opposed to new calls.\<close>

fun internal :: "hub_event \<Rightarrow> bool" where
  "internal (Run t) \<longleftrightarrow> True"
| "internal (Done ok) \<longleftrightarrow> True"
| "internal _ \<longleftrightarrow> False"

definition settled :: "hub_sys \<Rightarrow> bool" where
  "settled s \<longleftrightarrow> threads s = {#} \<and> \<not> urb_busy (hub s)"

lemma work_decreases:
  assumes "internal e" "hub_step e s = Some s'"
  shows "work_left s' < work_left s"
proof (cases e)
  case (Run t)
  then obtain M where M: "threads s = add_mset t M"
    using assms(2) by (auto split: if_splits elim: split_thread)
  show ?thesis
    using assms M Run
    by (cases "(t, hub s)" rule: thread_step.cases)
      (auto simp: work_left_def sections NUM_PORTS_def Let_def of_bool_def split: if_splits)
next
  case (Done ok)
  then show ?thesis
    using assms by (auto simp: work_left_def sections Let_def of_bool_def split: if_splits)
qed (use assms in auto)

lemma internal_run_bounded:
  "hub_run es s = Some s' \<Longrightarrow> (\<And>e. e \<in> set es \<Longrightarrow> internal e) \<Longrightarrow> length es + work_left s' \<le> work_left s"
proof (induction es arbitrary: s)
  case (Cons e es)
  obtain t where t: "hub_step e s = Some t" "hub_run es t = Some s'"
    using Cons.prems(1) by (auto split: option.splits)
  have "work_left t < work_left s"
    using t(1) Cons.prems(2) by (intro work_decreases) auto
  moreover have "length es + work_left s' \<le> work_left t"
    using t(2) Cons.prems(2) by (intro Cons.IH) auto
  ultimately show ?case
    by simp
qed simp

lemma unsettled_steps: "\<not> settled s \<Longrightarrow> \<exists>e s'. internal e \<and> e \<noteq> Done False \<and> hub_step e s = Some s'"
proof (cases "urb_busy (hub s)")
  case True
  then show ?thesis
    by (intro exI [of _ "Done True"]) (simp add: Let_def split: prod.splits)
next
  case False
  moreover assume "\<not> settled s"
  ultimately obtain t where "t \<in># threads s"
    by (auto simp: settled_def)
  then show ?thesis
    by (intro exI [of _ "Run t"]) (simp split: prod.splits)
qed


section \<open>No update is lost\<close>

text \<open>What the hub shows at a port, as \<^verbatim>\<open>gchub_protocol.h\<close> lays out the two fields: rumble, red, green. And what the
  driver wants it to show.\<close>

definition port_view :: "u16 \<times> u16 \<Rightarrow> nat \<Rightarrow> bool \<times> bool \<times> bool" where
  "port_view r p = (bit (fst r) p, bit (snd r) (7 - 2 * p), bit (snd r) (6 - 2 * p))"

definition view_of :: "gchub_controller_outputs \<Rightarrow> bool \<times> bool \<times> bool" where
  "view_of o' = (o_rumble o' \<noteq> 0, o_led_color o' AND LED_RED \<noteq> 0, o_led_color o' AND LED_GREEN \<noteq> 0)"

abbreviation wanted_view :: "gchub_dev \<Rightarrow> nat \<Rightarrow> bool \<times> bool \<times> bool" where
  "wanted_view dev p \<equiv> view_of (outputs (ports dev p))"

lemma port_cases:
  assumes "p < 4"
  obtains "p = 0" | "p = 1" | "p = 2" | "p = (3::nat)"
  using assms by linarith

lemma request_shows:
  assumes "p < 4"
  shows "port_view (rumble_bits os, led_bits os) p = view_of (os ! p)"
  using assms
  by (cases rule: port_cases)
    (simp_all add: port_view_def view_of_def rumble_bits_def led_bits_def Let_def bit_or_iff)


text \<open>A thread that will still take the outputs of port \<open>p\<close>, or see to it that they are taken.\<close>

fun covers :: "nat \<Rightarrow> thread \<Rightarrow> bool" where
  "covers p (Calling cs) \<longleftrightarrow> True"
| "covers p (Looking q d) \<longleftrightarrow> d > 0 \<or> q \<le> p"
| "covers p Claiming \<longleftrightarrow> True"
| "covers p (Filling q os) \<longleftrightarrow> q \<le> p"
| "covers p _ \<longleftrightarrow> False"

text \<open>What the hub will show at port \<open>p\<close> once the request that the thread works on is carried out.\<close>

fun carries :: "hub_sys \<Rightarrow> nat \<Rightarrow> thread \<Rightarrow> bool \<times> bool \<times> bool" where
  "carries s p (Filling q os) = (if p < q then view_of (os ! p) else port_view (shown s) p)"
| "carries s p (Writing os) = view_of (os ! p)"
| "carries s p Submitting = port_view (out_status_request (hub s)) p"
| "carries s p _ = wanted_view (hub s) p"

definition will_show :: "hub_sys \<Rightarrow> nat \<Rightarrow> bool" where
  "will_show s p \<longleftrightarrow>
     (if urb_busy (hub s) then port_view (out_status_request (hub s)) p = wanted_view (hub s) p
      else if filter_mset busy (threads s) \<noteq> {#}
      then \<forall>t \<in># filter_mset busy (threads s). carries s p t = wanted_view (hub s) p
      else port_view (shown s) p = wanted_view (hub s) p)"

fun filled :: "thread \<Rightarrow> bool" where
  "filled (Filling q os) \<longleftrightarrow> length os = q"
| "filled _ \<longleftrightarrow> True"

text \<open>The invariant of runs without failures.\<close>

definition delivering :: "hub_sys \<Rightarrow> bool" where
  "delivering s \<longleftrightarrow> owners s = of_bool (out_status_in_progress (hub s)) \<and> usb_up (hub s) \<and>
     (out_status_pending_sync (hub s) \<longrightarrow> out_status_in_progress (hub s)) \<and> (\<forall>t \<in># threads s. filled t) \<and>
     (\<forall>p<4. if o_dirty (outputs (ports (hub s) p))
            then out_status_pending_sync (hub s) \<or> (\<exists>t \<in># threads s. covers p t)
            else will_show s p)"

fun clean :: "hub_event \<Rightarrow> bool" where
  "clean (Done ok) \<longleftrightarrow> ok"
| "clean (Usb up) \<longleftrightarrow> up"
| "clean _ \<longleftrightarrow> True"

lemma delivering_start: "hub_start s \<Longrightarrow> delivering s"
  by (simp add: hub_start_def delivering_def owners_def NUM_PORTS_def)

lemma owner_alone:
  assumes "owners s = of_bool b" "threads s = add_mset t M" "busy t"
  shows "b" "\<not> urb_busy (hub s)" "filter_mset busy M = {#}"
proof -
  have "Suc (size (filter_mset busy M) + of_bool (urb_busy (hub s))) = of_bool b"
    using assms by (simp add: owners_def)
  moreover have "of_bool b \<le> (1::nat)"
    by simp
  ultimately have "size (filter_mset busy M) = 0 \<and> \<not> urb_busy (hub s) \<and> b"
    by (cases "urb_busy (hub s)"; cases b) auto
  then show "b" "\<not> urb_busy (hub s)" "filter_mset busy M = {#}"
    by auto
qed

lemma will_show_owner:
  assumes "owners s = of_bool b" "threads s = add_mset t M" "busy t"
  shows "will_show s p \<longleftrightarrow> carries s p t = wanted_view (hub s) p"
  using owner_alone [OF assms] assms(2,3) by (auto simp: will_show_def)

lemma will_show_idle:
  assumes "owners s = of_bool b" "\<not> b"
  shows "will_show s p \<longleftrightarrow> port_view (shown s) p = wanted_view (hub s) p"
  using assms by (simp add: owners_def will_show_def)

lemma will_show_cong:
  assumes "urb_busy (hub s') = urb_busy (hub s)" "out_status_request (hub s') = out_status_request (hub s)"
    and "shown s' = shown s" "wanted_view (hub s') p = wanted_view (hub s) p"
    and "filter_mset busy (threads s') = filter_mset busy (threads s)"
  shows "will_show s' p \<longleftrightarrow> will_show s p"
proof -
  have carry: "carries s' p t = carries s p t" for t
    using assms(1-4) by (cases t) auto
  show ?thesis
    unfolding will_show_def carry assms ..
qed

lemma owners_cong:
  assumes "urb_busy (hub s') = urb_busy (hub s)" "filter_mset busy (threads s') = filter_mset busy (threads s)"
  shows "owners s' = owners s"
  unfolding owners_def assms ..

text \<open>The parts of the invariant, as rules.\<close>

lemma deliveringI:
  assumes "owners s = of_bool (out_status_in_progress (hub s))" "usb_up (hub s)"
    and "out_status_pending_sync (hub s) \<Longrightarrow> out_status_in_progress (hub s)"
    and "\<And>t. t \<in># threads s \<Longrightarrow> filled t"
    and "\<And>p. p < 4 \<Longrightarrow> o_dirty (outputs (ports (hub s) p)) \<Longrightarrow> \<not> out_status_pending_sync (hub s) \<Longrightarrow>
         \<exists>t \<in># threads s. covers p t"
    and "\<And>p. p < 4 \<Longrightarrow> \<not> o_dirty (outputs (ports (hub s) p)) \<Longrightarrow> will_show s p"
  shows "delivering s"
  using assms by (auto simp: delivering_def)

lemma deliveringD:
  assumes "delivering s"
  shows "owners s = of_bool (out_status_in_progress (hub s))" "usb_up (hub s)"
    "out_status_pending_sync (hub s) \<Longrightarrow> out_status_in_progress (hub s)" "\<And>t. t \<in># threads s \<Longrightarrow> filled t"
    "\<And>p. p < 4 \<Longrightarrow> o_dirty (outputs (ports (hub s) p)) \<Longrightarrow> \<not> out_status_pending_sync (hub s) \<Longrightarrow>
         \<exists>t \<in># threads s. covers p t"
    "\<And>p. p < 4 \<Longrightarrow> \<not> o_dirty (outputs (ports (hub s) p)) \<Longrightarrow> will_show s p"
  using assms by (auto simp: delivering_def)

lemma do_output_clean:
  assumes "\<not> o_dirty (outputs (ports (do_output c dev) p))"
  shows "\<not> o_dirty (outputs (ports dev p)) \<and> wanted_view (do_output c dev) p = wanted_view dev p"
  using assms
  by (cases c) (auto simp: controller_set_rumble_def controller_set_led_def port_set_rumble_def port_set_led_def Let_def
      split: if_splits)

lemma delivering_calling:
  assumes I: "delivering s" and M: "threads s = add_mset (Calling cs) M"
    and s': "s' = s\<lparr>hub := dev, threads := add_mset t M\<rparr>"
    and dev: "(dev, t) = (case cs of [] \<Rightarrow> (hub s, Looking 0 0) | c # cs \<Rightarrow> (do_output c (hub s), Calling cs))"
  shows "delivering s'"
proof (rule deliveringI)
  note D = deliveringD [OF I]
  have "owners s' = owners s"
    using dev by (intro owners_cong) (auto simp: s' M split: list.splits)
  then show "owners s' = of_bool (out_status_in_progress (hub s'))" "usb_up (hub s')"
    "out_status_pending_sync (hub s') \<Longrightarrow> out_status_in_progress (hub s')"
    "\<And>u. u \<in># threads s' \<Longrightarrow> filled u" "\<And>p. \<exists>u \<in># threads s'. covers p u"
    using D(1-4) dev by (auto simp: s' M split: list.splits)
  fix p assume p: "p < 4" "\<not> o_dirty (outputs (ports (hub s') p))"
  have "\<not> o_dirty (outputs (ports (hub s) p)) \<and> wanted_view (hub s') p = wanted_view (hub s) p"
    using p dev do_output_clean by (auto simp: s' split: list.splits)
  moreover have "will_show s' p \<longleftrightarrow> will_show s p" if "wanted_view (hub s') p = wanted_view (hub s) p"
    using that dev by (intro will_show_cong) (auto simp: s' M split: list.splits)
  ultimately show "will_show s' p"
    using D(6) p by blast
qed

lemma delivering_looking:
  assumes I: "delivering s" and M: "threads s = add_mset (Looking q d) M"
    and r: "thread_step (Looking q d) (hub s) = (t, dev)"
    and s': "s' = s\<lparr>hub := dev, threads := M + (case t of Some u \<Rightarrow> {#u#} | None \<Rightarrow> {#})\<rparr>"
  shows "delivering s'"
proof (rule deliveringI)
  note D = deliveringD [OF I]
  have dev: "dev = hub s" and t: "t = None \<or> (\<exists>u. t = Some u \<and> \<not> busy u \<and> filled u)"
    using r by (auto simp: NUM_PORTS_def split: if_splits)
  have "owners s' = owners s"
    using t by (intro owners_cong) (auto simp: s' dev M)
  then show "owners s' = of_bool (out_status_in_progress (hub s'))" "usb_up (hub s')"
    "out_status_pending_sync (hub s') \<Longrightarrow> out_status_in_progress (hub s')" "\<And>u. u \<in># threads s' \<Longrightarrow> filled u"
    using D(1-4) t by (auto simp: s' dev M)
  show "will_show s' p" if "p < 4" "\<not> o_dirty (outputs (ports (hub s') p))" for p
    using D(6) [of p] that t will_show_cong [of s' s p] by (auto simp: s' dev M)
  fix p assume p: "p < 4" "o_dirty (outputs (ports (hub s') p))" "\<not> out_status_pending_sync (hub s')"
  then obtain u where u: "u \<in># threads s" "covers p u"
    using D(5) by (auto simp: s' dev)
  show "\<exists>u \<in># threads s'. covers p u"
  proof (cases "u \<in># M")
    case False
    then have "covers p (Looking q d)"
      using u M by auto
    then show ?thesis
      using r p by (auto simp: s' dev NUM_PORTS_def not_less_eq_eq le_less split: if_splits)
  qed (use u s' in auto)
qed


lemma delivering_claiming:
  assumes I: "delivering s" and M: "threads s = add_mset Claiming M"
    and s': "s' = s\<lparr>hub := snd (claim_request (hub s)),
                   threads := M + (if fst (claim_request (hub s)) then {#Filling 0 []#} else {#})\<rparr>"
  shows "delivering s'"
proof (cases "out_status_in_progress (hub s)")
  case True
  note D = deliveringD [OF I]
  have "owners s' = owners s"
    using True by (intro owners_cong) (auto simp: s' M claim_request_def)
  moreover have "will_show s' p" if "p < 4" "\<not> o_dirty (outputs (ports (hub s') p))" for p
    using D(6) [of p] that True will_show_cong [of s' s p] by (auto simp: s' M claim_request_def)
  ultimately show ?thesis
    using D(1-4) True by (intro deliveringI) (auto simp: s' M claim_request_def)
next
  case False
  note D = deliveringD [OF I]
  have own: "owners s' = 1"
    using D(1) False by (simp add: s' owners_def M claim_request_def)
  have "will_show s' p" if "p < 4" "\<not> o_dirty (outputs (ports (hub s') p))" for p
  proof -
    have "port_view (shown s) p = wanted_view (hub s) p"
      using D(6) [of p] that will_show_idle [OF D(1), of p] False by (simp add: s' claim_request_def)
    then show ?thesis
      using own will_show_owner [of s' True "Filling 0 []" M p] False by (simp add: s' claim_request_def)
  qed
  then show ?thesis
    using D(2-4) False own by (intro deliveringI) (auto simp: s' M claim_request_def)
qed

text \<open>The owner of the request goes on: what its next state has to keep.\<close>

lemma delivering_owner:
  assumes I: "delivering s" and M: "threads s = add_mset t M" and t: "busy t" and v: "busy v" "filled v"
    and s': "s' = s\<lparr>hub := dev, threads := add_mset v M\<rparr>"
    and same: "out_status_in_progress dev = out_status_in_progress (hub s)"
      "out_status_pending_sync dev = out_status_pending_sync (hub s)" "urb_busy dev = urb_busy (hub s)"
      "usb_up dev = usb_up (hub s)"
    and dirty: "\<And>p. p < 4 \<Longrightarrow> o_dirty (outputs (ports dev p)) \<Longrightarrow>
      o_dirty (outputs (ports (hub s) p)) \<and> (covers p t \<longrightarrow> covers p v)"
    and carry: "\<And>p. p < 4 \<Longrightarrow> \<not> o_dirty (outputs (ports dev p)) \<Longrightarrow>
      (\<not> o_dirty (outputs (ports (hub s) p)) \<Longrightarrow> carries s p t = wanted_view (hub s) p) \<Longrightarrow>
      carries s' p v = wanted_view dev p"
  shows "delivering s'"
proof -
  note D = deliveringD [OF I] and alone = owner_alone [OF deliveringD(1) [OF I] M t]
  have own: "owners s' = of_bool (out_status_in_progress (hub s'))"
    using alone v same by (simp add: s' owners_def)
  show ?thesis
  proof (rule deliveringI)
    show "owners s' = of_bool (out_status_in_progress (hub s'))"
      by (rule own)
    show "usb_up (hub s')" "out_status_pending_sync (hub s') \<Longrightarrow> out_status_in_progress (hub s')"
      "\<And>x. x \<in># threads s' \<Longrightarrow> filled x"
      using D(2-4) same v by (auto simp: s' M)
    fix p :: nat assume p: "p < 4"
    show "\<exists>x \<in># threads s'. covers p x"
      if "o_dirty (outputs (ports (hub s') p))" "\<not> out_status_pending_sync (hub s')"
      using D(5) [OF p] that dirty [OF p] same by (auto simp: s' M)
    assume "\<not> o_dirty (outputs (ports (hub s') p))"
    then have "carries s' p v = wanted_view (hub s') p"
      using carry [OF p] D(6) [OF p] will_show_owner [OF D(1) M t] by (simp add: s')
    then show "will_show s' p"
      using will_show_owner [OF own, of v M p] v by (simp add: s')
  qed
qed

lemma delivering_filling:
  assumes I: "delivering s" and M: "threads s = add_mset (Filling q os) M"
    and s': "s' = s\<lparr>hub := snd (take_outputs q (hub s)),
                   threads := add_mset (Filling (Suc q) (os @ [fst (take_outputs q (hub s))])) M\<rparr>"
  shows "delivering s'"
proof (rule delivering_owner [OF I M _ _ _ s'])
  have len: "length os = q"
    using deliveringD(4) [OF I] M by force
  then show "filled (Filling (Suc q) (os @ [fst (take_outputs q (hub s))]))"
    by simp
  fix p :: nat
  show "carries s' p (Filling (Suc q) (os @ [fst (take_outputs q (hub s))])) = wanted_view (snd (take_outputs q (hub s))) p"
    if "\<not> o_dirty (outputs (ports (snd (take_outputs q (hub s))) p))"
      "\<not> o_dirty (outputs (ports (hub s) p)) \<Longrightarrow> carries s p (Filling q os) = wanted_view (hub s) p"
    using that len by (cases "p = q") (auto simp: s' take_outputs_def nth_append view_of_def split: if_splits)
qed (auto simp: take_outputs_def split: if_splits)

lemma delivering_filled:
  assumes I: "delivering s" and M: "threads s = add_mset (Filling q os) M" and q: "\<not> q < 4"
    and s': "s' = s\<lparr>hub := hub s, threads := add_mset (Writing os) M\<rparr>"
  shows "delivering s'"
  by (rule delivering_owner [OF I M _ _ _ s']) (use q in auto)

lemma delivering_writing:
  assumes I: "delivering s" and M: "threads s = add_mset (Writing os) M"
    and s': "s' = s\<lparr>hub := write_request os (hub s), threads := add_mset Submitting M\<rparr>"
  shows "delivering s'"
  by (rule delivering_owner [OF I M _ _ _ s']) (auto simp: s' write_request_def request_shows)

lemma delivering_submitting:
  assumes I: "delivering s" and M: "threads s = add_mset Submitting M"
    and s': "s' = s\<lparr>hub := submit_out_status (hub s), threads := M\<rparr>"
  shows "delivering s'"
proof (rule deliveringI)
  note D = deliveringD [OF I] and alone = owner_alone [OF deliveringD(1) [OF I] M]
  show "owners s' = of_bool (out_status_in_progress (hub s'))" "usb_up (hub s')"
    "out_status_pending_sync (hub s') \<Longrightarrow> out_status_in_progress (hub s')" "\<And>u. u \<in># threads s' \<Longrightarrow> filled u"
    using D(1-4) alone by (auto simp: s' M owners_def submit_out_status_def)
  fix p :: nat assume p: "p < 4"
  show "\<exists>u \<in># threads s'. covers p u"
    if "o_dirty (outputs (ports (hub s') p))" "\<not> out_status_pending_sync (hub s')"
    using D(5) [OF p] that by (auto simp: s' M submit_out_status_def split: if_splits)
  assume "\<not> o_dirty (outputs (ports (hub s') p))"
  then have "carries s p Submitting = wanted_view (hub s) p"
    using D(6) [OF p] will_show_owner [OF D(1) M] by (simp add: s' submit_out_status_def split: if_splits)
  then show "will_show s' p"
    using D(2) alone by (simp add: s' will_show_def submit_out_status_def)
qed

lemma delivering_done:
  assumes I: "delivering s" and step: "hub_step (Done True) s = Some s'"
  shows "delivering s'"
proof -
  note D = deliveringD [OF I]
  have urb: "urb_busy (hub s)"
    using step by (simp split: if_splits)
  then have none: "filter_mset busy (threads s) = {#}" and prog: "out_status_in_progress (hub s)"
    using D(1) by (auto simp: owners_def of_bool_def split: if_splits)
  have req: "port_view (out_status_request (hub s)) p = wanted_view (hub s) p" if "p < 4" "\<not> o_dirty (outputs (ports (hub s) p))" for p
    using D(6) [OF that] urb by (simp add: will_show_def)
  show ?thesis
  proof (cases "out_status_pending_sync (hub s)")
    case True
    then have s': "s' = s\<lparr>hub := (hub s)\<lparr>urb_busy := False, out_status_pending_sync := False\<rparr>,
        threads := add_mset (Filling 0 []) (threads s), shown := out_status_request (hub s)\<rparr>"
      using step urb by (simp add: finish_request_def)
    show ?thesis
      using D(2,4) none prog req by (intro deliveringI) (auto simp: s' owners_def will_show_def)
  next
    case False
    then have s': "s' = s\<lparr>hub := (hub s)\<lparr>urb_busy := False, out_status_pending_sync := False,
        out_status_in_progress := False\<rparr>, shown := out_status_request (hub s)\<rparr>"
      using step urb by (simp add: finish_request_def)
    show ?thesis
      using D(2,4,5) none req False by (intro deliveringI) (auto simp: s' owners_def will_show_def)
  qed
qed


lemma delivering_run_step:
  assumes I: "delivering s" and step: "hub_step (Run t) s = Some s'"
  shows "delivering s'"
proof -
  obtain M where M: "threads s = add_mset t M"
    using step by (auto split: if_splits elim: split_thread)
  obtain u dev where r: "thread_step t (hub s) = (u, dev)"
    by fastforce
  have s': "s' = s\<lparr>hub := dev, threads := M + (case u of Some v \<Rightarrow> {#v#} | None \<Rightarrow> {#})\<rparr>"
    using step M r by simp
  show ?thesis
  proof (cases t)
    case (Calling cs)
    obtain v where "u = Some v" "(dev, v) = (case cs of [] \<Rightarrow> (hub s, Looking 0 0) | c # cs \<Rightarrow> (do_output c (hub s), Calling cs))"
      using r Calling by (cases cs) auto
    then show ?thesis
      using delivering_calling [OF I] M Calling s' by simp
  next
    case (Looking q d)
    then show ?thesis
      using delivering_looking [OF I] M r s' by blast
  next
    case Claiming
    then have "s' = s\<lparr>hub := snd (claim_request (hub s)),
        threads := M + (if fst (claim_request (hub s)) then {#Filling 0 []#} else {#})\<rparr>"
      using r s' by (auto split: prod.splits if_splits)
    then show ?thesis
      using delivering_claiming [OF I] M Claiming by blast
  next
    case (Filling q os)
    then show ?thesis
      using delivering_filling [OF I, of q os M] delivering_filled [OF I, of q os M] M r s'
      by (auto simp: NUM_PORTS_def split: prod.splits if_splits)
  next
    case (Writing os)
    then show ?thesis
      using delivering_writing [OF I] M r s' by auto
  next
    case Submitting
    then show ?thesis
      using delivering_submitting [OF I] M r s' by auto
  qed
qed

lemma delivering_step:
  assumes I: "delivering s" and e: "clean e" and step: "hub_step e s = Some s'"
  shows "delivering s'"
proof (cases e)
  case (Enter ops)
  note D = deliveringD [OF I]
  have s': "s' = s\<lparr>threads := add_mset (Calling ops) (threads s)\<rparr>"
    using step Enter by (simp split: if_splits)
  have "owners s' = owners s"
    by (rule owners_cong) (simp_all add: s')
  moreover have "will_show s' p \<longleftrightarrow> will_show s p" for p
    by (rule will_show_cong) (simp_all add: s')
  ultimately show ?thesis
    using D by (intro deliveringI) (auto simp: s')
next
  case (Usb up)
  then have "s' = s\<lparr>hub := (hub s)\<lparr>usb_up := True\<rparr>\<rparr>"
    using step e by simp
  moreover have "(hub s)\<lparr>usb_up := True\<rparr> = hub s"
    using deliveringD(2) [OF I] by (cases "hub s") simp
  ultimately have "s' = s"
    by (cases s) simp
  with I show ?thesis
    by (simp only:)
next
  case (Run t)
  then show ?thesis
    using delivering_run_step [OF I] step by blast
next
  case (Done ok)
  then show ?thesis
    using delivering_done [OF I, of s'] step e by (simp del: hub_step.simps)
qed

lemma delivering_run:
  assumes "hub_start s" "hub_run es s = Some s'" "\<And>e. e \<in> set es \<Longrightarrow> clean e"
  shows "delivering s'"
  using assms(2) delivering_start [OF assms(1)]
  by (rule hub_run_induct) (use assms(3) delivering_step in blast)

lemma settled_delivered:
  assumes "delivering s" "settled s" "p < 4"
  shows "port_view (shown s) p = wanted_view (hub s) p" "\<not> o_dirty (outputs (ports (hub s) p))"
proof -
  note D = deliveringD [OF assms(1)]
  have idle: "\<not> out_status_in_progress (hub s)"
    using D(1) assms(2) by (cases "out_status_in_progress (hub s)") (auto simp: settled_def owners_def)
  then show clean: "\<not> o_dirty (outputs (ports (hub s) p))"
    using D(3) D(5) [OF assms(3)] assms(2) by (auto simp: settled_def)
  show "port_view (shown s) p = wanted_view (hub s) p"
    using D(6) [OF assms(3) clean] will_show_idle [OF D(1) idle] by simp
qed

text \<open>The steps of a state come to rest, without a failure.\<close>

lemma settles: "\<exists>es s'. (\<forall>e \<in> set es. internal e \<and> clean e) \<and> hub_run es s = Some s' \<and> settled s'"
proof (induction "work_left s" arbitrary: s rule: less_induct)
  case less
  show ?case
  proof (cases "settled s")
    case True
    then show ?thesis
      by (intro exI [of _ "[]"]) simp
  next
    case False
    then obtain e t where e: "internal e" "e \<noteq> Done False" "hub_step e s = Some t"
      using unsettled_steps by blast
    then obtain es s' where "\<forall>e \<in> set es. internal e \<and> clean e" "hub_run es t = Some s'" "settled s'"
      using less [OF work_decreases] by blast
    moreover have "clean e"
      using e by (cases e) auto
    ultimately show ?thesis
      using e by (intro exI [of _ "e # es"] exI [of _ s']) auto
  qed
qed

section \<open>A thread by itself\<close>

text \<open>The driver's handlers run a thread to its end in one go: the interleaved steps are the same functions.\<close>

fun alone :: "nat \<Rightarrow> thread option \<times> gchub_dev \<Rightarrow> thread option \<times> gchub_dev" where
  "alone (Suc n) (Some t, dev) = alone n (thread_step t dev)"
| "alone n r = r"

lemma alone_None [simp]: "alone n (None, dev) = (None, dev)"
  by (cases n) auto

lemma alone_calling: "alone (length cs + n) (Some (Calling cs), dev) = alone n (Some (Calling []), fold do_output cs dev)"
  by (induction cs arbitrary: dev) auto

lemma alone_filling:
  "alone 7 (Some (Filling 0 []), dev) = (None, submit_out_status (gchub_fill_output_request dev))"
  by (simp add: eval_nat_numeral NUM_PORTS_def gchub_fill_output_request_def all_ports_eq split: prod.splits)

lemma alone_sync:
  "alone 14 (Some (Calling []), dev) = (None, gchub_sync_output_status dev)"
proof -
  let ?d = "\<lambda>i. o_dirty (outputs (ports dev i))"
  have "alone 14 (Some (Calling []), dev) =
      alone 9 (Some (Looking 4 (length (filter ?d all_ports))), dev)"
    by (simp add: eval_nat_numeral NUM_PORTS_def all_ports_eq)
  also have "\<dots> = (if length (filter ?d all_ports) = 0 then (None, dev) else alone 7 (thread_step Claiming dev))"
    by (simp add: eval_nat_numeral NUM_PORTS_def)
  also have "\<dots> = (None, gchub_sync_output_status dev)"
    by (cases "claim_request dev") (simp add: gchub_sync_output_status_def Let_def alone_filling)
  finally show ?thesis .
qed

lemma handlers_run_threads:
  "alone (length cs + 14) (Some (Calling cs), dev) = (None, gchub_sync_output_status (fold do_output cs dev))"
  by (simp only: alone_calling alone_sync)


section \<open>A request that is not taken\<close>

text \<open>The driver ignores what \<^verbatim>\<open>usb_submit_urb\<close> returns. When it fails, no completion will come, but the request stays
  claimed.\<close>

definition wedged :: "hub_sys \<Rightarrow> bool" where
  "wedged s \<longleftrightarrow> out_status_in_progress (hub s) \<and> owners s = 0"

lemma wedged_step:
  assumes w: "wedged s" and step: "hub_step e s = Some s'"
  shows "wedged s' \<and> urb_log (hub s') = urb_log (hub s) \<and> shown s' = shown s"
proof (cases e)
  case (Run t)
  then obtain M where M: "threads s = add_mset t M"
    using step by (auto split: if_splits elim: split_thread)
  then have "\<not> busy t"
    using w by (auto simp: wedged_def owners_def)
  then show ?thesis
    using w step M Run
    by (cases "(t, hub s)" rule: thread_step.cases)
      (auto simp: wedged_def owners_def claim_request_def Let_def split: if_splits)
qed (use w step in \<open>auto simp: wedged_def owners_def split: if_splits\<close>)

lemma wedged_run:
  assumes "hub_run es s = Some s'" "wedged s"
  shows "wedged s' \<and> urb_log (hub s') = urb_log (hub s) \<and> shown s' = shown s"
proof -
  have "wedged s' \<and> urb_log (hub s') = urb_log (hub s) \<and> shown s' = shown s"
    by (rule hub_run_induct [OF assms(1)]) (use assms(2) wedged_step in auto)
  then show ?thesis .
qed

lemma submit_fails_wedged:
  assumes "exclusive s" "Submitting \<in># threads s" "\<not> usb_up (hub s)" "hub_step (Run Submitting) s = Some s'"
  shows "wedged s' \<and> urb_log (hub s') = urb_log (hub s) \<and> shown s' = shown s"
proof -
  obtain M where M: "threads s = add_mset Submitting M"
    using assms(2) by (auto elim: split_thread)
  then show ?thesis
    using assms by (auto simp: exclusive_def owners_def wedged_def submit_out_status_def of_bool_def split: if_splits)
qed

end
