(* ===== verification/Gchub_Run.thy ===== *)
theory Gchub_Run
  imports Gchub_Effects Gchub_Sync
begin

text \<open>
  The whole driver of the Gamecube controller hub (\<^verbatim>\<open>gchub.c\<close>): probing, the life of the ports under any sequence of
  packets, work and events, and disconnecting. Here a handler runs to its end; \<open>Gchub_Sync\<close> has the interleavings of
  the outputs.
\<close>

section \<open>What touches only the outputs\<close>

definition port_core :: "gchub_controller \<Rightarrow> bool \<times> int \<times> bool \<times> bool \<times> bool \<times> gchub_ff_effect list \<times>
    gchub_controller_status \<times> gchub_controller_status" where
  "port_core ctl = (callbacks ctl, attached ctl, dev_registered ctl, reg_in_progress ctl, calibration_valid ctl,
     ff_effects ctl, current_status ctl, calibration_status ctl)"

definition outputs_only :: "(gchub_dev \<Rightarrow> gchub_dev) \<Rightarrow> bool" where
  "outputs_only f \<longleftrightarrow>
     (\<forall>dev. works (f dev) = works dev \<and> input_log (f dev) = input_log dev \<and>
        (\<forall>p. port_core (ports (f dev) p) = port_core (ports dev p)))"

lemma outputs_only_fields:
  assumes "outputs_only f"
  shows "works (f dev) = works dev" "input_log (f dev) = input_log dev"
    "callbacks (ports (f dev) p) = callbacks (ports dev p)" "attached (ports (f dev) p) = attached (ports dev p)"
    "dev_registered (ports (f dev) p) = dev_registered (ports dev p)"
    "reg_in_progress (ports (f dev) p) = reg_in_progress (ports dev p)"
    "calibration_valid (ports (f dev) p) = calibration_valid (ports dev p)"
    "ff_effects (ports (f dev) p) = ff_effects (ports dev p)"
    "current_status (ports (f dev) p) = current_status (ports dev p)"
    "calibration_status (ports (f dev) p) = calibration_status (ports dev p)"
  using assms by (simp_all add: outputs_only_def port_core_def)

lemma outputs_only_comp: "outputs_only f \<Longrightarrow> outputs_only g \<Longrightarrow> outputs_only (\<lambda>dev. f (g dev))"
  by (simp add: outputs_only_def)

lemma outputs_only_if: "outputs_only f \<Longrightarrow> outputs_only g \<Longrightarrow> outputs_only (\<lambda>dev. if P dev then f dev else g dev)"
  by (simp add: outputs_only_def)

lemma outputs_only_set:
  "outputs_only (controller_set_rumble p r)" "outputs_only (controller_set_led p color)"
  by (simp_all add: outputs_only_def controller_set_rumble_def controller_set_led_def port_set_rumble_def port_set_led_def Let_def
      port_core_def)

lemma outputs_only_take: "outputs_only (\<lambda>dev. snd (take_outputs p dev))"
  by (simp add: outputs_only_def take_outputs_def port_core_def)

lemma outputs_only_take_all: "outputs_only (\<lambda>dev. snd (take_all ps os dev))"
proof (induction ps arbitrary: os)
  case (Cons p ps)
  have "take_all (p # ps) os dev = take_all ps (os @ [fst (take_outputs p dev)]) (snd (take_outputs p dev))" for dev
    by (simp split: prod.splits)
  then show ?case
    using Cons outputs_only_take [of p] by (simp add: outputs_only_def)
qed (simp add: outputs_only_def)

lemma outputs_only_fill: "outputs_only gchub_fill_output_request"
proof -
  have "gchub_fill_output_request dev = write_request (fst (take_all all_ports [] dev)) (snd (take_all all_ports [] dev))" for dev
    by (simp add: gchub_fill_output_request_def split: prod.splits)
  then show ?thesis
    using outputs_only_take_all [of all_ports "[]"] by (simp add: outputs_only_def write_request_def)
qed

lemma outputs_only_submit: "outputs_only submit_out_status"
  by (simp add: outputs_only_def submit_out_status_def)

lemma outputs_only_send: "outputs_only (\<lambda>dev. submit_out_status (gchub_fill_output_request dev))"
  by (rule outputs_only_comp [OF outputs_only_submit outputs_only_fill])

lemma outputs_only_sync: "outputs_only gchub_sync_output_status"
  using outputs_only_send by (simp add: outputs_only_def gchub_sync_output_status_def claim_request_def Let_def)

lemma outputs_only_irq: "outputs_only (gchub_out_request_irq ok)"
  using outputs_only_send by (simp add: outputs_only_def gchub_out_request_irq_def finish_request_def Let_def)

lemmas output_frame [simp] =
  outputs_only_fields [OF outputs_only_set(1)] outputs_only_fields [OF outputs_only_set(2)]
  outputs_only_fields [OF outputs_only_sync] outputs_only_fields [OF outputs_only_irq]

section \<open>Events\<close>

text \<open>What can happen to the driver: a packet, the first of the scheduled work, an event that the input core passes on
  (which has set \<open>led_misc\<close> before it), an effect operation of a process, the completion of the output request, and the
  USB core. The input core calls a port only while its callbacks are set.\<close>

datatype driver_event =
    Packet int "byte list"
  | Work
  | Event nat int int int bool
  | Effect nat int effect_op
  | OutDone bool
  | UsbState bool

fun driver_step :: "driver_event \<Rightarrow> gchub_dev \<Rightarrow> gchub_dev option" where
  "driver_step (Packet status data) dev = Some (snd (gchub_irq status data dev))"
| "driver_step Work dev =
     (case works dev of [] \<Rightarrow> None | w # ws \<Rightarrow> Some (do_work w (dev\<lparr>works := ws\<rparr>)))"
| "driver_step (Event p typ code v led) dev =
     (if p < NUM_PORTS \<and> callbacks (ports dev p)
      then Some (snd (controller_event p typ code v
             (if typ = EV_LED_type then upd_port p (\<lambda>ctl. ctl\<lparr>led_misc := led\<rparr>) dev else dev)))
      else None)"
| "driver_step (Effect p pid c) dev =
     (if p < NUM_PORTS \<and> callbacks (ports dev p)
      then map_option (\<lambda>ctl. upd_port p (\<lambda>_. ctl) dev) (do_effect (pid, c) (ports dev p))
      else None)"
| "driver_step (OutDone ok) dev =
     (if urb_busy dev then Some (gchub_out_request_irq ok (dev\<lparr>urb_busy := False\<rparr>)) else None)"
| "driver_step (UsbState up) dev = Some (dev\<lparr>usb_up := up\<rparr>)"

fun driver_run :: "driver_event list \<Rightarrow> gchub_dev \<Rightarrow> gchub_dev option" where
  "driver_run [] dev = Some dev"
| "driver_run (e # es) dev = (case driver_step e dev of Some dev' \<Rightarrow> driver_run es dev' | None \<Rightarrow> None)"

text \<open>What \<^verbatim>\<open>controller_init\<close> makes of a port: zero, with dirty outputs.\<close>

definition status0 :: gchub_controller_status where
  "status0 = \<lparr>st_buttons = 0, st_joystick = (0, 0), st_cstick = (0, 0), st_triggers = (0, 0)\<rparr>"

definition effect0 :: gchub_ff_effect where
  "effect0 = \<lparr>fe_effect = \<lparr>e_type = 0, e_id = 0, e_rest = []\<rparr>, fe_owner = 0, fe_flags = 0\<rparr>"

definition controller_init :: gchub_controller where
  "controller_init =
     \<lparr>callbacks = False, led_misc = False, attached = 0, dev_registered = False, reg_in_progress = False,
      calibration_valid = False, ff_effects = replicate EFFECTS_MAX effect0, current_status = status0,
      calibration_status = status0, outputs = \<lparr>o_rumble = 0, o_led_color = 0, o_dirty = True\<rparr>\<rparr>"

lemma driver_run_induct [consumes 1, case_names nil step]:
  assumes "driver_run es dev = Some dev'" and "I dev"
    and "\<And>e dev dev'. e \<in> set es \<Longrightarrow> I dev \<Longrightarrow> driver_step e dev = Some dev' \<Longrightarrow> I dev'"
  shows "I dev'"
  using assms
proof (induction es arbitrary: dev)
  case (Cons e es)
  obtain d where d: "driver_step e dev = Some d" "driver_run es d = Some dev'"
    using Cons.prems(1) by (auto split: option.splits)
  show ?case
    using Cons.IH [OF d(2)] Cons.prems(2,3) d(1) by (meson list.set_intros)
qed simp


section \<open>The invariant of a port\<close>

definition is_byte :: "int \<Rightarrow> bool" where
  "is_byte x \<longleftrightarrow> 0 \<le> x \<and> x < 256"

fun bytes2 :: "int \<times> int \<Rightarrow> bool" where
  "bytes2 (x, y) \<longleftrightarrow> is_byte x \<and> is_byte y"

definition status_ok :: "gchub_controller_status \<Rightarrow> bool" where
  "status_ok st \<longleftrightarrow> 0 \<le> st_buttons st \<and> st_buttons st < 65536 \<and> bytes2 (st_joystick st) \<and> bytes2 (st_cstick st) \<and>
     bytes2 (st_triggers st)"

text \<open>Whether the input core has the device registered after these calls; \<^term>\<open>None\<close> when a device is registered twice,
  or unregistered or reported to while it is not registered.\<close>

fun registered_after :: "bool \<Rightarrow> hub_input list \<Rightarrow> bool option" where
  "registered_after b [] = Some b"
| "registered_after b (Register # es) = (if b then None else registered_after True es)"
| "registered_after b (Unregister # es) = (if b then registered_after False es else None)"
| "registered_after b (e # es) = (if b then registered_after b es else None)"

lemma registered_after_append:
  "registered_after b (xs @ ys) = (case registered_after b xs of Some c \<Rightarrow> registered_after c ys | None \<Rightarrow> None)"
  by (induction b xs rule: registered_after.induct) auto

definition port_log :: "nat \<Rightarrow> gchub_dev \<Rightarrow> hub_input list" where
  "port_log p dev = map snd (filter (\<lambda>e. fst e = p) (input_log dev))"

lemma port_log_tell [simp]: "port_log p (tell q es dev) = port_log p dev @ (if p = q then es else [])"
  by (auto simp: port_log_def filter_map o_def)

lemma port_log_cong: "input_log dev' = input_log dev \<Longrightarrow> port_log p dev' = port_log p dev"
  by (simp add: port_log_def)

fun work_port :: "hub_work \<Rightarrow> nat" where
  "work_port (RegWork p) = p"
| "work_port (UnregWork p) = p"

definition port_works :: "nat \<Rightarrow> gchub_dev \<Rightarrow> hub_work list" where
  "port_works p dev = filter (\<lambda>w. work_port w = p) (works dev)"

text \<open>A port, given the work that is scheduled for it and what the input core was told about it: at most one piece of work
  is under way, the one that the state of the device calls for.\<close>

definition ctl_ok :: "nat \<Rightarrow> hub_work list \<Rightarrow> hub_input list \<Rightarrow> gchub_controller \<Rightarrow> bool" where
  "ctl_ok p ws es ctl \<longleftrightarrow>
     0 \<le> attached ctl \<and> attached ctl \<le> CONTROLLER_RETRY_ATTEMPTS \<and> callbacks ctl = dev_registered ctl \<and>
     length (ff_effects ctl) = EFFECTS_MAX \<and> status_ok (current_status ctl) \<and> status_ok (calibration_status ctl) \<and>
     ws = (if reg_in_progress ctl then [(if dev_registered ctl then UnregWork p else RegWork p)] else []) \<and>
     registered_after False es = Some (dev_registered ctl)"

definition port_ok :: "gchub_dev \<Rightarrow> nat \<Rightarrow> bool" where
  "port_ok dev p \<longleftrightarrow> ctl_ok p (port_works p dev) (port_log p dev) (ports dev p)"

lemma port_ok_cong:
  assumes "port_core (ports dev' p) = port_core (ports dev p)" "works dev' = works dev" "input_log dev' = input_log dev"
  shows "port_ok dev' p \<longleftrightarrow> port_ok dev p"
  using assms by (simp add: port_ok_def ctl_ok_def port_core_def port_works_def port_log_def)

lemma port_ok_outputs: "outputs_only f \<Longrightarrow> port_ok (f dev) p \<longleftrightarrow> port_ok dev p"
  by (rule port_ok_cong) (simp_all add: outputs_only_def)

lemmas port_ok_output [simp] =
  port_ok_outputs [OF outputs_only_set(1)] port_ok_outputs [OF outputs_only_set(2)]
  port_ok_outputs [OF outputs_only_sync] port_ok_outputs [OF outputs_only_irq]

lemma is_byte_uint [simp]: "is_byte (uint (b :: byte))"
  by (simp add: is_byte_def)

lemma buttons_range: "0 \<le> push_bit 8 (uint (a :: byte)) OR uint (b :: byte)" "push_bit 8 (uint (a :: byte)) OR uint (b :: byte) < 65536"
  using pack16_range [of b a] by (simp_all add: pack16_def or.commute)

lemma port_update_ok:
  assumes "0 \<le> attached ctl" "attached ctl \<le> CONTROLLER_RETRY_ATTEMPTS" "status_ok (current_status ctl)"
  shows "0 \<le> attached (port_update packet ctl)" "attached (port_update packet ctl) \<le> CONTROLLER_RETRY_ATTEMPTS"
    "status_ok (current_status (port_update packet ctl))"
  using assms buttons_range [of "packet ! 1" "packet ! 2"]
  by (auto simp: port_update_def port_silent_def port_analog_def port_buttons_def CONTROLLER_RETRY_ATTEMPTS_def status_ok_def)

lemma port_update_frame [simp]:
  "callbacks (port_update packet ctl) = callbacks ctl" "dev_registered (port_update packet ctl) = dev_registered ctl"
  "reg_in_progress (port_update packet ctl) = reg_in_progress ctl" "ff_effects (port_update packet ctl) = ff_effects ctl"
  "calibration_status (port_update packet ctl) = calibration_status ctl" "outputs (port_update packet ctl) = outputs ctl"
  by (simp_all add: port_update_def port_silent_def port_analog_def port_buttons_def)

lemma packet_port_lt: "packet_port packet < 4"
proof -
  have "packet ! 0 AND 3 \<le> (3 :: byte)"
    by (rule word_and_le1)
  then show ?thesis
    by (simp add: packet_port_def word_le_nat_alt)
qed

lemma port_ok_upd:
  assumes "port_ok dev p" "ctl_ok p (port_works p dev) (port_log p dev) (ports dev p) \<Longrightarrow>
    ctl_ok p (port_works p dev) (port_log p dev) (f (ports dev p))"
  shows "port_ok (upd_port q f dev) p"
  using assms by (auto simp: port_ok_def port_works_def port_log_def)

lemma port_ok_packet: "port_ok dev p \<Longrightarrow> port_ok (upd_port q (port_update packet) dev) p"
  by (rule port_ok_upd) (simp_all add: ctl_ok_def port_update_ok)

lemma port_ok_registration: "port_ok dev p \<Longrightarrow> port_ok (sync_registration q dev) p"
  by (cases "p = q")
    (simp_all add: port_ok_def ctl_ok_def sync_registration_def schedule_work_def port_works_def port_log_def Let_def)

lemma report_while_registered: "registered_after b (controller_report_status st) = (if b then Some True else None)"
  by (simp add: controller_report_status_def Let_def)

lemma port_ok_report: "port_ok dev p \<Longrightarrow> port_ok (sync_report q dev) p"
proof -
  assume ok: "port_ok dev p"
  then have "port_ok (upd_port q calibrate dev) p"
    by (rule port_ok_upd) (simp add: ctl_ok_def calibrate_def)
  then show "port_ok (sync_report q dev) p"
    using ok by (auto simp: sync_report_def port_ok_def ctl_ok_def port_works_def Let_def registered_after_append
        report_while_registered calibrate_def)
qed

lemma port_ok_process: "port_ok dev p \<Longrightarrow> port_ok (gchub_process_status packet dev) p"
  by (simp add: gchub_process_status_def controller_sync_def Let_def port_ok_packet port_ok_registration port_ok_report)

lemma port_ok_attach:
  assumes "port_ok (dev\<lparr>works := RegWork q # works dev\<rparr>) p"
  shows "port_ok (controller_attach q dev) p"
  using assms
  by (auto simp: controller_attach_def port_ok_def ctl_ok_def port_works_def Let_def controller_init_inputdev_def
      registered_after_append port_log_def filter_map o_def split: if_splits)

lemma port_ok_detach:
  assumes "port_ok (dev\<lparr>works := UnregWork q # works dev\<rparr>) p"
  shows "port_ok (controller_detach q dev) p"
  using assms
  by (auto simp: controller_detach_def port_ok_def ctl_ok_def port_works_def Let_def
      registered_after_append port_log_def filter_map o_def split: if_splits)


lemma do_effect_frame:
  assumes "do_effect c ctl = Some ctl'" "length (ff_effects ctl) = 8"
  shows "length (ff_effects ctl') = 8 \<and> ctl' = ctl\<lparr>ff_effects := ff_effects ctl'\<rparr>"
proof -
  obtain pid d where c: "c = (pid, d)"
    by fastforce
  show ?thesis
  proof (cases d)
    case (UploadOp e)
    then show ?thesis
      using assms c
      by (auto simp: controller_upload_effect_def store_effect_def bind_eq_Some_conv Let_def split: if_splits)
  qed (use assms c in \<open>auto simp: controller_erase_effect_def controller_flush_def\<close>)
qed

lemma port_ok_effect:
  assumes "port_ok dev p" "port_ok dev q" "do_effect c (ports dev q) = Some ctl"
  shows "port_ok (upd_port q (\<lambda>_. ctl) dev) p"
proof -
  have len: "length (ff_effects (ports dev q)) = 8"
    using assms(2) by (simp add: port_ok_def ctl_ok_def EFFECTS_MAX_def)
  note frame = do_effect_frame [OF assms(3) len]
  have same: "callbacks ctl = callbacks (ports dev q)" "attached ctl = attached (ports dev q)"
    "dev_registered ctl = dev_registered (ports dev q)" "reg_in_progress ctl = reg_in_progress (ports dev q)"
    "current_status ctl = current_status (ports dev q)" "calibration_status ctl = calibration_status (ports dev q)"
    by (subst frame [THEN conjunct2], simp)+
  show ?thesis
  proof (cases "p = q")
    case True
    then show ?thesis
      using assms(1) frame by (simp add: port_ok_def ctl_ok_def port_works_def port_log_def same EFFECTS_MAX_def)
  qed (use assms(1) in \<open>simp add: port_ok_def port_works_def port_log_def\<close>)
qed

lemma port_ok_event:
  assumes "port_ok dev p"
  shows "port_ok (snd (controller_event q typ code v dev)) p"
  using assms by (simp add: controller_event_def controller_ff_event_def controller_led_event_def)

lemma port_ok_led: "port_ok dev p \<Longrightarrow> port_ok (upd_port q (\<lambda>ctl. ctl\<lparr>led_misc := l\<rparr>) dev) p"
  by (rule port_ok_upd) (simp_all add: ctl_ok_def)

lemma port_ok_frame [simp]:
  "port_ok (dev\<lparr>urb_busy := b\<rparr>) p \<longleftrightarrow> port_ok dev p" "port_ok (dev\<lparr>usb_up := b\<rparr>) p \<longleftrightarrow> port_ok dev p"
  by (simp_all add: port_ok_def port_works_def port_log_def)

lemma port_ok_work:
  assumes "port_ok dev p" "works dev = w # ws"
  shows "port_ok (do_work w (dev\<lparr>works := ws\<rparr>)) p"
proof -
  have whole: "dev\<lparr>works := w # ws\<rparr> = dev"
    using assms(2) by (cases dev) simp
  show ?thesis
  proof (cases w)
    case (RegWork q)
    then show ?thesis
      using port_ok_attach [of q "dev\<lparr>works := ws\<rparr>" p] whole assms(1) by simp
  next
    case (UnregWork q)
    then show ?thesis
      using port_ok_detach [of q "dev\<lparr>works := ws\<rparr>" p] whole assms(1) by simp
  qed
qed

definition driver_ok :: "gchub_dev \<Rightarrow> bool" where
  "driver_ok dev \<longleftrightarrow> (\<forall>p<NUM_PORTS. port_ok dev p)"

lemma driver_ok_step:
  assumes ok: "driver_ok dev" and step: "driver_step e dev = Some dev'"
  shows "driver_ok dev'"
  unfolding driver_ok_def
proof (intro allI impI)
  fix p assume "p < NUM_PORTS"
  then have p: "port_ok dev p"
    using ok by (simp add: driver_ok_def)
  show "port_ok dev' p"
  proof (cases e)
    case (Packet status irq_data)
    then show ?thesis
      using p step by (auto simp: gchub_irq_def port_ok_process)
  next
    case Work
    then show ?thesis
      using p step by (auto simp: port_ok_work split: list.splits)
  next
    case (Event q ty n v led)
    then show ?thesis
      using p step by (auto intro: port_ok_event port_ok_led split: if_splits)
  next
    case (Effect q pid c)
    then show ?thesis
      using p ok step by (auto simp: driver_ok_def intro: port_ok_effect split: if_splits)
  qed (use p step in \<open>auto split: if_splits\<close>)
qed

end
