(* ===== verification/Gchub_Usb.thy ===== *)
theory Gchub_Usb
  imports Gchub_Run
begin

text \<open>
  Probing and disconnecting the Gamecube controller hub (\<^verbatim>\<open>gchub.c\<close>), with everything that is allocated on the way,
  and the properties of the whole driver: what is registered when, how glitches are filtered, and what is left when the
  hub is unplugged.
\<close>

section \<open>Probe and disconnect\<close>

datatype hub_resource = DevMem | Name nat | Phys nat | IrqData | IrqUrb | OutUrb

text \<open>The outcomes of the allocations still to come, and what is allocated.\<close>

type_synonym allocs = "bool list \<times> hub_resource set"

fun allocate :: "hub_resource \<Rightarrow> allocs \<Rightarrow> bool \<times> allocs" where
  "allocate r ([], R) = (False, ([], R))"
| "allocate r (ok # oks, R) = (ok, (oks, if ok then insert r R else R))"

text \<open>The loop over \<^verbatim>\<open>controller_init\<close>, whose two strings are allocated.\<close>

fun init_ports :: "nat list \<Rightarrow> gchub_dev \<times> allocs \<Rightarrow> int \<times> gchub_dev \<times> allocs" where
  "init_ports [] (dev, al) = (0, dev, al)"
| "init_ports (p # ps) (dev, al) =
     (let dev = upd_port p (\<lambda>_. controller_init) dev;
          (ok, al) = allocate (Name p) al
      in if \<not> ok then (- ENOMEM, dev, al)
         else let (ok, al) = allocate (Phys p) al
              in if \<not> ok then (- ENOMEM, dev, al) else init_ports ps (dev, al))"

text \<open>\<^verbatim>\<open>flush_scheduled_work\<close> runs what is scheduled; the work does not schedule any itself.\<close>

fun flush_works :: "hub_work list \<Rightarrow> gchub_dev \<Rightarrow> gchub_dev" where
  "flush_works [] dev = dev"
| "flush_works (w # ws) dev = flush_works ws (do_work w (dev\<lparr>works := ws\<rparr>))"

definition flush_scheduled_work :: "gchub_dev \<Rightarrow> gchub_dev" where
  "flush_scheduled_work dev = flush_works (works dev) dev"

definition controller_delete :: "nat \<Rightarrow> gchub_dev \<times> hub_resource set \<Rightarrow> gchub_dev \<times> hub_resource set" where
  "controller_delete p = (\<lambda>(dev, R).
     let dev = flush_scheduled_work dev;
         dev = (if dev_registered (ports dev p) then controller_detach p dev else dev)
     in (dev, R - {Name p} - {Phys p}))"

definition gchub_delete :: "gchub_dev \<times> hub_resource set \<Rightarrow> gchub_dev \<times> hub_resource set" where
  "gchub_delete = (\<lambda>(dev, R).
     let R = R - {IrqUrb};
         R = R - {IrqData};
         (dev, R) = fold controller_delete all_ports (dev, R);
         R = R - {OutUrb}
     in (dev, R - {DevMem}))"

text \<open>The structure after \<^verbatim>\<open>memset\<close>.\<close>

definition zero_port :: gchub_controller where
  "zero_port = controller_init\<lparr>outputs := \<lparr>o_rumble = 0, o_led_color = 0, o_dirty = False\<rparr>\<rparr>"

definition zero_dev :: "bool \<Rightarrow> gchub_dev" where
  "zero_dev up =
     \<lparr>ports = (\<lambda>_. zero_port), out_status_in_progress = False, out_status_pending_sync = False,
      out_status_request = (0, 0), usb_up = up, urb_busy = False, urb_log = [], works = [], input_log = []\<rparr>"

definition GCHUB_VENDOR_ID :: u16 where "GCHUB_VENDOR_ID = 0xE461"
definition GCHUB_PRODUCT_ID :: u16 where "GCHUB_PRODUCT_ID = 0x000A"

text \<open>The result: the return value, the device when there is one, and what is allocated.\<close>

definition gchub_probe :: "u16 \<Rightarrow> u16 \<Rightarrow> bool \<Rightarrow> bool list \<Rightarrow> int \<times> gchub_dev option \<times> hub_resource set" where
  "gchub_probe vendor product up oks =
     (if vendor \<noteq> GCHUB_VENDOR_ID \<or> product \<noteq> GCHUB_PRODUCT_ID then (- ENODEV, None, {})
      else let (ok, al) = allocate DevMem (oks, {}); error = (\<lambda>ret dev R. (ret, None, snd (gchub_delete (dev, R))))
      in if \<not> ok then (- ENOMEM, None, snd al)
      else let (ret, dev, al) = init_ports all_ports (zero_dev up, al)
      in if ret \<noteq> 0 then error ret dev (snd al)
      else let (ok, al) = allocate IrqData al
      in if \<not> ok then error (- ENOMEM) dev (snd al)
      else let (ok, al) = allocate IrqUrb al
      in if \<not> ok then error (- ENOMEM) dev (snd al)
      else let (ok, al) = allocate OutUrb al
      in if \<not> ok then error (- ENOMEM) dev (snd al)
      else (0, Some (gchub_sync_output_status dev), snd al))"

definition gchub_disconnect :: "gchub_dev \<times> hub_resource set \<Rightarrow> gchub_dev \<times> hub_resource set" where
  "gchub_disconnect s = gchub_delete s"

section \<open>What is left\<close>

lemma do_work_works [simp]: "works (do_work w dev) = works dev"
  by (cases w) (simp_all add: controller_attach_def controller_detach_def Let_def)

lemma flush_works_ok:
  assumes "works dev = ws" "port_ok dev p"
  shows "works (flush_works ws dev) = [] \<and> port_ok (flush_works ws dev) p"
  using assms
proof (induction ws arbitrary: dev)
  case (Cons w ws)
  then show ?case
    using port_ok_work [OF Cons.prems(2,1)] by simp
qed simp

lemma flush_ok:
  assumes "port_ok dev p"
  shows "works (flush_scheduled_work dev) = []" "port_ok (flush_scheduled_work dev) p"
  using flush_works_ok [OF refl assms] by (simp_all add: flush_scheduled_work_def)

lemma port_ok_quiet_detach:
  assumes "works dev = []" "port_ok dev p" "dev_registered (ports dev p)"
  shows "port_ok (controller_detach p dev) p" "\<not> dev_registered (ports (controller_detach p dev) p)"
  using assms
  by (auto simp: controller_detach_def port_ok_def ctl_ok_def port_works_def Let_def port_log_def filter_map o_def
      registered_after_append)

lemma detach_other:
  assumes "q \<noteq> p"
  shows "port_ok (controller_detach p dev) q = port_ok dev q"
    "dev_registered (ports (controller_detach p dev) q) = dev_registered (ports dev q)"
  using assms
  by (auto simp: controller_detach_def port_ok_def ctl_ok_def port_works_def Let_def port_log_def filter_map o_def)

text \<open>Deleting a port leaves no work, and this port unregistered.\<close>

lemma controller_delete_ok:
  assumes "driver_ok dev" "p < NUM_PORTS"
  shows "driver_ok (fst (controller_delete p (dev, R)))" "works (fst (controller_delete p (dev, R))) = []"
    "\<not> dev_registered (ports (fst (controller_delete p (dev, R))) p)"
proof -
  let ?d = "flush_scheduled_work dev"
  have flushed: "works ?d = []" "\<And>q. q < NUM_PORTS \<Longrightarrow> port_ok ?d q"
    using assms flush_ok by (auto simp: driver_ok_def)
  have eq: "fst (controller_delete p (dev, R)) = (if dev_registered (ports ?d p) then controller_detach p ?d else ?d)"
    by (simp add: controller_delete_def Let_def)
  have "port_ok (fst (controller_delete p (dev, R))) q" if "q < NUM_PORTS" for q
    unfolding eq using flushed that port_ok_quiet_detach [OF flushed(1)] detach_other by (cases "q = p") auto
  then show "driver_ok (fst (controller_delete p (dev, R)))"
    by (simp add: driver_ok_def)
  show "works (fst (controller_delete p (dev, R))) = []" "\<not> dev_registered (ports (fst (controller_delete p (dev, R))) p)"
    unfolding eq using flushed assms(2) port_ok_quiet_detach [OF flushed(1)]
    by (auto simp: controller_detach_def Let_def)
qed

lemma controller_delete_again:
  assumes "works dev = []" "\<not> dev_registered (ports dev q)"
  shows "\<not> dev_registered (ports (fst (controller_delete p (dev, R))) q)"
  using assms by (simp add: controller_delete_def flush_scheduled_work_def Let_def controller_detach_def)


lemma delete_ports_ok:
  assumes "driver_ok dev" "set ps \<subseteq> {..<NUM_PORTS}" "\<And>q. q \<in> D \<Longrightarrow> \<not> dev_registered (ports dev q)"
    and "D \<noteq> {} \<Longrightarrow> works dev = []"
  shows "driver_ok (fst (fold controller_delete ps (dev, R))) \<and>
    (\<forall>q \<in> D \<union> set ps. \<not> dev_registered (ports (fst (fold controller_delete ps (dev, R))) q)) \<and>
    (ps \<noteq> [] \<longrightarrow> works (fst (fold controller_delete ps (dev, R))) = [])"
  using assms
proof (induction ps arbitrary: dev R D)
  case (Cons p ps)
  obtain d R' where d: "controller_delete p (dev, R) = (d, R')"
    by fastforce
  have p: "p < NUM_PORTS"
    using Cons.prems(2) by simp
  have "driver_ok d" "works d = []" "\<not> dev_registered (ports d p)"
    using controller_delete_ok [OF Cons.prems(1) p, of R] d by simp_all
  moreover have "\<not> dev_registered (ports d q)" if "q \<in> D" for q
    using controller_delete_again [of dev q p R] Cons.prems(3,4) that d by auto
  ultimately have "driver_ok (fst (fold controller_delete ps (d, R'))) \<and>
    (\<forall>q \<in> insert p D \<union> set ps. \<not> dev_registered (ports (fst (fold controller_delete ps (d, R'))) q)) \<and>
    (ps \<noteq> [] \<longrightarrow> works (fst (fold controller_delete ps (d, R'))) = [])"
    using Cons.prems(2) by (intro Cons.IH) auto
  then show ?case
    using d \<open>works d = []\<close> by (cases ps) auto
qed auto

lemma delete_resources: "snd (gchub_delete (dev, R)) = R - {IrqUrb, IrqData, OutUrb, DevMem}
    - Name ` {..<NUM_PORTS} - Phys ` {..<NUM_PORTS}"
proof -
  have fold: "snd (fold controller_delete ps (d, S)) = S - Name ` set ps - Phys ` set ps" for ps d S
    by (induction ps arbitrary: d S) (auto simp: controller_delete_def Let_def)
  show ?thesis
    using fold [of all_ports dev "R - {IrqUrb} - {IrqData}"]
    by (auto simp: gchub_delete_def Let_def all_ports_def split: prod.splits)
qed

lemma all_resources: "R \<subseteq> {IrqUrb, IrqData, OutUrb, DevMem} \<union> Name ` {..<NUM_PORTS} \<union> Phys ` {..<NUM_PORTS} \<Longrightarrow>
    snd (gchub_delete (dev, R)) = {}"
  unfolding delete_resources by blast

lemma gchub_delete_ok:
  assumes "driver_ok dev"
  shows "driver_ok (fst (gchub_delete (dev, R)))" "works (fst (gchub_delete (dev, R))) = []"
    "p < NUM_PORTS \<Longrightarrow> \<not> dev_registered (ports (fst (gchub_delete (dev, R))) p)"
proof -
  have sub: "set all_ports \<subseteq> {..<NUM_PORTS}" "all_ports \<noteq> []"
    by (auto simp: all_ports_def NUM_PORTS_def)
  have eq: "fst (gchub_delete (dev, R)) = fst (fold controller_delete all_ports (dev, R - {IrqUrb} - {IrqData}))"
    by (simp add: gchub_delete_def Let_def split: prod.splits)
  show "driver_ok (fst (gchub_delete (dev, R)))" "works (fst (gchub_delete (dev, R))) = []"
    "p < NUM_PORTS \<Longrightarrow> \<not> dev_registered (ports (fst (gchub_delete (dev, R))) p)"
    using delete_ports_ok [OF assms sub(1), of "{}" "R - {IrqUrb} - {IrqData}"] sub(2)
    by (auto simp: eq NUM_PORTS_def)
qed

section \<open>What a probe makes\<close>

definition all_hub_resources :: "hub_resource set" where
  "all_hub_resources = {IrqUrb, IrqData, OutUrb, DevMem} \<union> Name ` {..<NUM_PORTS} \<union> Phys ` {..<NUM_PORTS}"

lemma allocate_subset:
  assumes "allocate r al = (ok, al')" "snd al \<subseteq> all_hub_resources" "r \<in> all_hub_resources"
  shows "snd al' \<subseteq> all_hub_resources"
  using assms by (cases "(r, al)" rule: allocate.cases) (auto split: if_splits)

lemma init_ports_subset:
  assumes "init_ports ps (dev, al) = (ret, dev', al')" "snd al \<subseteq> all_hub_resources" "set ps \<subseteq> {..<NUM_PORTS}"
  shows "snd al' \<subseteq> all_hub_resources"
  using assms
proof (induction ps arbitrary: dev al)
  case (Cons p ps)
  have in_all: "Name p \<in> all_hub_resources" "Phys p \<in> all_hub_resources"
    using Cons.prems(3) by (auto simp: all_hub_resources_def)
  obtain ok1 al1 where a1: "allocate (Name p) al = (ok1, al1)"
    by (cases "allocate (Name p) al")
  obtain ok2 al2 where a2: "allocate (Phys p) al1 = (ok2, al2)"
    by (cases "allocate (Phys p) al1")
  have s1: "snd al1 \<subseteq> all_hub_resources"
    by (rule allocate_subset [OF a1 Cons.prems(2) in_all(1)])
  have s2: "snd al2 \<subseteq> all_hub_resources"
    by (rule allocate_subset [OF a2 s1 in_all(2)])
  show ?case
    using Cons.prems s1 s2 Cons.IH [of _ al2] by (auto simp: a1 a2 Let_def split: if_splits)
qed auto


lemma init_ports_dev:
  assumes "init_ports ps (dev, al) = (ret, dev', al')"
  shows "ret = 0 \<Longrightarrow> p \<in> set ps \<or> ports dev p = controller_init \<Longrightarrow> ports dev' p = controller_init"
    "works dev' = works dev" "input_log dev' = input_log dev"
proof -
  have "(ret = 0 \<and> (p \<in> set ps \<or> ports dev p = controller_init) \<longrightarrow> ports dev' p = controller_init) \<and>
      works dev' = works dev \<and> input_log dev' = input_log dev"
    using assms
  proof (induction ps arbitrary: dev al)
    case (Cons p ps)
    then show ?case
      by (cases "allocate (Name p) al"; cases "allocate (Phys p) (snd (allocate (Name p) al))")
        (force simp: Let_def split: if_splits)
  qed auto
  then show "ret = 0 \<Longrightarrow> p \<in> set ps \<or> ports dev p = controller_init \<Longrightarrow> ports dev' p = controller_init"
    "works dev' = works dev" "input_log dev' = input_log dev"
    by blast+
qed

lemma init_ports_ret: "init_ports ps (dev, al) = (ret, r) \<Longrightarrow> ret = 0 \<or> ret < 0"
proof (induction ps arbitrary: dev al)
  case (Cons p ps)
  then show ?case
    by (cases "allocate (Name p) al"; cases "allocate (Phys p) (snd (allocate (Name p) al))")
      (force simp: Let_def split: if_splits)
qed auto

lemma allocate_failed: "allocate r (oks, R) = (False, al) \<Longrightarrow> snd al = R"
  by (cases oks) auto

text \<open>A probe that succeeds: every port as \<^verbatim>\<open>controller_init\<close> leaves it, apart from its outputs.\<close>

lemma probe_result:
  assumes probe: "gchub_probe vendor product up oks = (ret, r, R)"
  shows "R \<subseteq> all_hub_resources" "r = None \<Longrightarrow> ret < 0 \<and> R = {}"
    "r = Some dev \<Longrightarrow> ret = 0 \<and> works dev = [] \<and> input_log dev = [] \<and>
       (\<forall>p<NUM_PORTS. port_core (ports dev p) = port_core controller_init)"
proof -
  obtain ok1 al1 where a1: "allocate DevMem (oks, {}) = (ok1, al1)"
    by (cases "allocate DevMem (oks, {})")
  obtain e d al2 where ip: "init_ports all_ports (zero_dev up, al1) = (e, d, al2)"
    by (cases "init_ports all_ports (zero_dev up, al1)") auto
  obtain ok3 al3 where a3: "allocate IrqData al2 = (ok3, al3)" by (cases "allocate IrqData al2")
  obtain ok4 al4 where a4: "allocate IrqUrb al3 = (ok4, al4)" by (cases "allocate IrqUrb al3")
  obtain ok5 al5 where a5: "allocate OutUrb al4 = (ok5, al5)" by (cases "allocate OutUrb al4")
  have known: "DevMem \<in> all_hub_resources" "IrqData \<in> all_hub_resources" "IrqUrb \<in> all_hub_resources"
    "OutUrb \<in> all_hub_resources"
    by (simp_all add: all_hub_resources_def)
  have s1: "snd al1 \<subseteq> all_hub_resources"
    using allocate_subset [OF a1] known by simp
  have s2: "snd al2 \<subseteq> all_hub_resources"
    by (rule init_ports_subset [OF ip s1]) (auto simp: all_ports_def)
  note s3 = allocate_subset [OF a3 s2 known(2)]
  note s4 = allocate_subset [OF a4 s3 known(3)]
  note s5 = allocate_subset [OF a5 s4 known(4)]
  have none: "snd (gchub_delete (d, S)) = {}" if "S \<subseteq> all_hub_resources" for S
    using that by (simp add: all_resources all_hub_resources_def)
  have d: "works d = []" "input_log d = []" "e = 0 \<Longrightarrow> p < NUM_PORTS \<Longrightarrow> ports d p = controller_init" for p
    using init_ports_dev [OF ip] by (simp_all add: zero_dev_def NUM_PORTS_def)
  have ret: "e = 0 \<or> e < 0"
    by (rule init_ports_ret [OF ip])
  show "R \<subseteq> all_hub_resources" "r = None \<Longrightarrow> ret < 0 \<and> R = {}"
    using probe s1 s5 none s2 s3 s4 ret allocate_failed [of DevMem oks "{}" al1] a1
    by (auto simp: gchub_probe_def a1 ip a3 a4 a5 Let_def split: if_splits)
  show "r = Some dev \<Longrightarrow> ret = 0 \<and> works dev = [] \<and> input_log dev = [] \<and>
       (\<forall>p<NUM_PORTS. port_core (ports dev p) = port_core controller_init)"
    using probe d
    by (auto simp: gchub_probe_def a1 ip a3 a4 a5 Let_def port_core_def split: if_splits)
qed

end
