(* ===== verification/Gchub_Props.thy ===== *)
theory Gchub_Props
  imports Gchub_Usb
begin

text \<open>
  The properties of the Gamecube controller hub's driver (\<^verbatim>\<open>gchub.c\<close>): the filter against glitches as a function of
  the packets that arrived, the reports and their ranges, the life of the input devices, and the outputs.
\<close>

section \<open>The driver from its probe on\<close>

lemma init_port_ok: "port_core (ports dev p) = port_core controller_init \<Longrightarrow> works dev = [] \<Longrightarrow> input_log dev = [] \<Longrightarrow>
    port_ok dev p"
  by (simp add: port_ok_def ctl_ok_def port_core_def controller_init_def port_works_def port_log_def status_ok_def
      status0_def is_byte_def CONTROLLER_RETRY_ATTEMPTS_def)

lemma hub_probe_ok: "gchub_probe vendor product up oks = (ret, Some dev, R) \<Longrightarrow> driver_ok dev"
  using probe_result(3) [of vendor product up oks ret "Some dev" R dev] init_port_ok by (auto simp: driver_ok_def)

lemma driver_ok_run: "driver_run es dev = Some dev' \<Longrightarrow> driver_ok dev \<Longrightarrow> driver_ok dev'"
  by (erule driver_run_induct) (auto intro: driver_ok_step)

section \<open>Glitches\<close>

text \<open>The packets that the driver takes for port \<open>p\<close>, in the order of their arrival.\<close>

fun hub_packet :: "nat \<Rightarrow> driver_event \<Rightarrow> byte list list" where
  "hub_packet p (Packet status data) =
     (if status = 0 \<and> length data = GCHUB_PACKET_SIZE \<and> packet_port data = p then [data] else [])"
| "hub_packet p _ = []"

definition hub_packets :: "nat \<Rightarrow> driver_event list \<Rightarrow> byte list list" where
  "hub_packets p es = concat (map (hub_packet p) es)"

definition is_silence :: "byte list \<Rightarrow> bool" where "is_silence d \<longleftrightarrow> packet_type d = 0x10"
definition is_data :: "byte list \<Rightarrow> bool" where "is_data d \<longleftrightarrow> packet_type d = 0x20 \<or> packet_type d = 0x30"

text \<open>The buttons of the last packet that carries buttons.\<close>

definition last_buttons :: "byte list list \<Rightarrow> int" where
  "last_buttons ds =
     (case rev (filter (\<lambda>d. packet_type d = 0x30) ds) of d # _ \<Rightarrow> pack16 (d ! 2) (d ! 1) | [] \<Rightarrow> 0)"

text \<open>How many disconnect packets came since the last packet with data.\<close>

definition silent_run :: "byte list list \<Rightarrow> nat" where
  "silent_run ds = length (filter is_silence (takeWhile (\<lambda>d. \<not> is_data d) (rev ds)))"

definition still_attached :: "byte list list \<Rightarrow> int" where
  "still_attached ds =
     (if \<not> (\<exists>d \<in> set ds. is_data d) then 0
      else if calibration_buttons (last_buttons ds) then CONTROLLER_RETRY_ATTEMPTS
      else CONTROLLER_RETRY_ATTEMPTS - min CONTROLLER_RETRY_ATTEMPTS (int (silent_run ds)))"

definition port_counts :: "byte list list \<Rightarrow> gchub_controller \<Rightarrow> bool" where
  "port_counts ds ctl \<longleftrightarrow> attached ctl = still_attached ds \<and> st_buttons (current_status ctl) = last_buttons ds"

lemma last_buttons_snoc: "last_buttons (ds @ [d]) = (if packet_type d = 0x30 then pack16 (d ! 2) (d ! 1) else last_buttons ds)"
  by (simp add: last_buttons_def)

lemma silent_run_snoc: "silent_run (ds @ [d]) = (if is_data d then 0 else if is_silence d then Suc (silent_run ds) else silent_run ds)"
  by (simp add: silent_run_def)

lemma no_calibration_yet: "\<not> (\<exists>d \<in> set ds. is_data d) \<Longrightarrow> \<not> calibration_buttons (last_buttons ds)"
proof -
  assume none: "\<not> (\<exists>d \<in> set ds. is_data d)"
  then have "filter (\<lambda>d. packet_type d = 0x30) ds = []"
    by (auto simp: is_data_def filter_empty_conv)
  then show ?thesis
    by (simp add: last_buttons_def calibration_buttons_def)
qed

lemma packet_types: "is_silence d \<Longrightarrow> \<not> is_data d"
  by (simp add: is_silence_def is_data_def)

lemma port_counts_update:
  assumes "port_counts ds ctl"
  shows "port_counts (ds @ [d]) (port_update d ctl)"
proof -
  consider (silence) "packet_type d = 0x10" | (analog) "packet_type d = 0x20" | (buttons) "packet_type d = 0x30"
    | (other) "packet_type d \<notin> {0x10, 0x20, 0x30}"
    by auto
  then show ?thesis
  proof cases
    case silence
    then show ?thesis
      using assms no_calibration_yet [of ds]
      by (auto simp: port_counts_def port_update_def port_silent_def still_attached_def last_buttons_snoc silent_run_snoc
          is_silence_def is_data_def CONTROLLER_RETRY_ATTEMPTS_def)
  next
    case analog
    then show ?thesis
      using assms
      by (auto simp: port_counts_def port_update_def port_analog_def still_attached_def last_buttons_snoc silent_run_snoc
          is_data_def CONTROLLER_RETRY_ATTEMPTS_def)
  next
    case buttons
    then show ?thesis
      using assms
      by (auto simp: port_counts_def port_update_def port_buttons_def still_attached_def last_buttons_snoc silent_run_snoc
          is_data_def CONTROLLER_RETRY_ATTEMPTS_def pack16_def or.commute)
  next
    case other
    then show ?thesis
      using assms
      by (auto simp: port_counts_def port_update_def still_attached_def last_buttons_snoc silent_run_snoc
          is_silence_def is_data_def)
  qed
qed


lemma sync_keeps_counts [simp]:
  "attached (ports (controller_sync q dev) p) = attached (ports dev p)"
  "current_status (ports (controller_sync q dev) p) = current_status (ports dev p)"
  by (simp_all add: controller_sync_def sync_report_def sync_registration_def schedule_work_def calibrate_def Let_def)

lemma work_keeps_counts [simp]:
  "attached (ports (do_work w dev) p) = attached (ports dev p)"
  "current_status (ports (do_work w dev) p) = current_status (ports dev p)"
  by (cases w; simp add: controller_attach_def controller_detach_def controller_init_inputdev_def Let_def)+

lemma event_keeps_counts [simp]:
  "attached (ports (snd (controller_event q typ c v dev)) p) = attached (ports dev p)"
  "current_status (ports (snd (controller_event q typ c v dev)) p) = current_status (ports dev p)"
  by (simp_all add: controller_event_def controller_ff_event_def controller_led_event_def)

lemma effect_keeps_counts:
  assumes "do_effect c ctl = Some ctl'" "length (ff_effects ctl) = 8"
  shows "attached ctl' = attached ctl" "current_status ctl' = current_status ctl"
  by (subst do_effect_frame [OF assms, THEN conjunct2], simp)+

lemma port_counts_step:
  assumes counts: "port_counts ds (ports dev p)" and ok: "driver_ok dev" and step: "driver_step e dev = Some dev'"
  shows "port_counts (ds @ hub_packet p e) (ports dev' p)"
proof (cases e)
  case (Packet status irq_data)
  let ?new = "status = 0 \<and> length irq_data = GCHUB_PACKET_SIZE"
  have dev': "dev' = (if ?new then gchub_process_status irq_data dev else dev)"
    using step Packet by (auto simp: gchub_irq_def)
  show ?thesis
  proof (cases "?new \<and> packet_port irq_data = p")
    case True
    then have "port_counts (ds @ [irq_data]) (ports dev' p)"
      using port_counts_update [OF counts, of irq_data] dev'
      by (simp add: gchub_process_status_def Let_def port_counts_def)
    then show ?thesis
      using Packet True by simp
  next
    case False
    then show ?thesis
      using counts dev' Packet by (auto simp: gchub_process_status_def Let_def port_counts_def)
  qed
next
  case (Effect q pid c)
  then obtain ctl where q: "q < NUM_PORTS" "do_effect (pid, c) (ports dev q) = Some ctl"
      "dev' = upd_port q (\<lambda>_. ctl) dev"
    using step by (auto split: if_splits)
  moreover have "length (ff_effects (ports dev q)) = 8"
    using ok q(1) by (simp add: driver_ok_def port_ok_def ctl_ok_def EFFECTS_MAX_def)
  ultimately show ?thesis
    using counts Effect effect_keeps_counts [of "(pid, c)" "ports dev q" ctl] by (auto simp: port_counts_def)
qed (use counts step in \<open>auto simp: port_counts_def split: if_splits list.splits\<close>)

lemma port_counts_run:
  "driver_run es dev = Some dev' \<Longrightarrow> driver_ok dev \<Longrightarrow> port_counts ds (ports dev p) \<Longrightarrow>
   port_counts (ds @ hub_packets p es) (ports dev' p)"
proof (induction es arbitrary: dev ds)
  case (Cons e es)
  obtain d where d: "driver_step e dev = Some d" "driver_run es d = Some dev'"
    using Cons.prems(1) by (auto split: option.splits)
  have "port_counts ((ds @ hub_packet p e) @ hub_packets p es) (ports dev' p)"
    using d(2) driver_ok_step [OF Cons.prems(2) d(1)] port_counts_step [OF Cons.prems(3,2) d(1)]
    by (rule Cons.IH)
  then show ?case
    by (simp add: hub_packets_def)
qed (simp add: hub_packets_def)

lemma port_counts_init: "port_core (ports dev p) = port_core controller_init \<Longrightarrow> port_counts [] (ports dev p)"
  by (simp add: port_counts_def port_core_def controller_init_def still_attached_def last_buttons_def status0_def)

text \<open>C10: Glitches are filtered. In any run from a successful probe - whatever packets, work, events, effects and
  completions come in whatever order - the count that decides whether the controller of a port is present is a function of
  the packets for that port alone: nothing before the first packet with data; then the number of attempts, five, less the
  disconnect packets since the last packet with data; and five, however many disconnect packets come, while the last
  buttons seen were X, Y and Start together (the combination that makes a controller fall silent to recalibrate). So a
  controller is gone only after five disconnect packets in a row.\<close>

theorem attachment_counts_silence:
  assumes "gchub_probe vendor product up oks = (ret, Some dev, R)" "driver_run es dev = Some dev'" "p < NUM_PORTS"
  shows "attached (ports dev' p) = still_attached (hub_packets p es) \<and>
    (attached (ports dev' p) = 0 \<longleftrightarrow>
      \<not> (\<exists>d \<in> set (hub_packets p es). is_data d) \<or>
      5 \<le> silent_run (hub_packets p es) \<and> \<not> calibration_buttons (last_buttons (hub_packets p es)))"
proof -
  have core: "port_core (ports dev p) = port_core controller_init"
    using probe_result(3) [OF assms(1) refl] assms(3) by simp
  have "port_counts ([] @ hub_packets p es) (ports dev' p)"
    using port_counts_run [OF assms(2) hub_probe_ok [OF assms(1)] port_counts_init [OF core]] .
  then have "attached (ports dev' p) = still_attached (hub_packets p es)"
    by (simp add: port_counts_def)
  then show ?thesis
    by (auto simp: still_attached_def CONTROLLER_RETRY_ATTEMPTS_def min_def)
qed

text \<open>The runs that the examples below use: a probe with every allocation in order.\<close>

definition hub0 :: gchub_dev where
  "hub0 = the (fst (snd (gchub_probe 0xE461 0x000A True (replicate 12 True))))"

definition silent_packet :: "byte list" where "silent_packet = [0x91, 0, 0, 0, 0, 0, 0, 0]"
definition analog_packet :: "byte list" where "analog_packet = [0xA1, 120, 130, 128, 127, 10, 0, 0]"


lemma some_the: "\<not> Option.is_none x \<Longrightarrow> x = Some (the x)"
  by (cases x) simp_all

lemma hub0_probe: "gchub_probe 0xE461 0x000A True (replicate 12 True) =
    (0, Some hub0, snd (snd (gchub_probe 0xE461 0x000A True (replicate 12 True))))"
proof -
  have "fst (gchub_probe 0xE461 0x000A True (replicate 12 True)) = 0"
    "\<not> Option.is_none (fst (snd (gchub_probe 0xE461 0x000A True (replicate 12 True))))"
    by code_simp+
  then show ?thesis
    unfolding hub0_def by (metis option.exhaust_sel is_none_simps(1) prod.collapse)
qed

definition silent_events :: "driver_event list" where
  "silent_events = [Packet 0 analog_packet, Work] @ replicate 5 (Packet 0 silent_packet)"

lemma silent_run_exists: "driver_run silent_events hub0 = Some (the (driver_run silent_events hub0))"
  by (rule some_the) code_simp

theorem attachment_counts_silence_witness:
  "attached (ports (the (driver_run silent_events hub0)) 1) = 0 \<and> silent_run (hub_packets 1 silent_events) = 5"
proof -
  have "silent_run (hub_packets 1 silent_events) = 5"
    "\<not> calibration_buttons (last_buttons (hub_packets 1 silent_events))"
    by code_simp+
  then show ?thesis
    using attachment_counts_silence [OF hub0_probe silent_run_exists, of 1] by (simp add: NUM_PORTS_def)
qed


section \<open>The input devices\<close>

lemma port_log_ok: "driver_ok dev \<Longrightarrow> p < NUM_PORTS \<Longrightarrow>
    registered_after False (port_log p dev) = Some (dev_registered (ports dev p))"
  by (simp add: driver_ok_def port_ok_def ctl_ok_def)


definition plug_events :: "driver_event list" where
  "plug_events = [Packet 0 analog_packet, Packet 0 analog_packet]"


text \<open>A packet that ends the description of a controller, with no work under way: then work is scheduled, or the device is
  registered exactly when the controller is there.\<close>

lemma sync_settles_registration:
  "reg_in_progress (ports (controller_sync p dev) p) \<or>
   dev_registered (ports (controller_sync p dev) p) = (attached (ports (controller_sync p dev) p) \<noteq> 0)"
  by (auto simp: controller_sync_def sync_report_def sync_registration_def schedule_work_def calibrate_def Let_def)




section \<open>Reports\<close>

text \<open>The values that the axes can take: the difference of two bytes, and a direction of the pad. Those of the triggers and
  of the pad are in the range that was declared for them.\<close>

fun report_ok :: "hub_input \<Rightarrow> bool" where
  "report_ok (Abs a v) \<longleftrightarrow> (let (lo, hi, flat, fuzz) = axis_range a
     in - 255 \<le> v \<and> v \<le> 255 \<and> (a \<in> {ABS_Z, ABS_RZ, ABS_HAT0X, ABS_HAT0Y} \<longrightarrow> lo \<le> v \<and> v \<le> hi))"
| "report_ok _ \<longleftrightarrow> True"

lemma byte_diff: "is_byte x \<Longrightarrow> is_byte y \<Longrightarrow> - 255 \<le> x - y" "is_byte x \<Longrightarrow> is_byte y \<Longrightarrow> x - y \<le> 255"
  by (simp_all add: is_byte_def)

lemma trigger_diff: "is_byte x \<Longrightarrow> is_byte y \<Longrightarrow> - 256 \<le> x - y"
  by (simp add: is_byte_def)

lemma pad_range: "- 1 \<le> gchub_buttons_to_axis x m n" "gchub_buttons_to_axis x m n \<le> 1"
    "- 255 \<le> gchub_buttons_to_axis x m n" "gchub_buttons_to_axis x m n \<le> 255"
  by (simp_all add: gchub_buttons_to_axis_def Let_def)

lemma report_status_ok:
  assumes "status_ok a" "status_ok b" "e \<in> set (controller_report_status (controller_status_diff a b))"
  shows "report_ok e"
proof -
  obtain j1 j2 c1 c2 t1 t2 where a: "st_joystick a = (j1, j2)" "st_cstick a = (c1, c2)" "st_triggers a = (t1, t2)"
    by (metis surj_pair)
  obtain k1 k2 d1 d2 u1 u2 where b: "st_joystick b = (k1, k2)" "st_cstick b = (d1, d2)" "st_triggers b = (u1, u2)"
    by (metis surj_pair)
  have bytes: "is_byte j1" "is_byte j2" "is_byte c1" "is_byte c2" "is_byte t1" "is_byte t2"
    "is_byte k1" "is_byte k2" "is_byte d1" "is_byte d2" "is_byte u1" "is_byte u2"
    using assms(1,2) by (simp_all add: status_ok_def a b)
  have "list_all report_ok (controller_report_status (controller_status_diff a b))"
    by (simp add: controller_report_status_def controller_status_diff_def Let_def a b bytes byte_diff trigger_diff
        pad_range)
  then show ?thesis
    using assms(3) by (simp add: list_all_iff)
qed

definition hub_log_ok :: "gchub_dev \<Rightarrow> bool" where
  "hub_log_ok dev \<longleftrightarrow> (\<forall>(p, e) \<in> set (input_log dev). report_ok e)"

lemma hub_log_ok_cong: "input_log dev' = input_log dev \<Longrightarrow> hub_log_ok dev' = hub_log_ok dev"
  by (simp add: hub_log_ok_def)

lemma hub_log_ok_tell: "hub_log_ok (tell p es dev) \<longleftrightarrow> hub_log_ok dev \<and> (\<forall>e \<in> set es. report_ok e)"
  by (auto simp: hub_log_ok_def)

lemma hub_log_ok_sync:
  assumes "hub_log_ok dev" "port_ok dev p"
  shows "hub_log_ok (controller_sync p dev)"
proof -
  let ?d = "sync_registration p dev"
  have ok: "port_ok ?d p"
    by (rule port_ok_registration [OF assms(2)])
  have log: "hub_log_ok ?d"
    using assms(1) by (simp add: hub_log_ok_def sync_registration_def schedule_work_def Let_def)
  have st: "status_ok (current_status (calibrate (ports ?d p)))" "status_ok (calibration_status (calibrate (ports ?d p)))"
    using ok by (simp_all add: port_ok_def ctl_ok_def calibrate_def)
  show ?thesis
    using log report_status_ok [OF st]
    by (simp add: controller_sync_def sync_report_def Let_def hub_log_ok_tell hub_log_ok_cong [of "upd_port p calibrate ?d" ?d])
qed

lemma hub_log_ok_step:
  assumes ok: "driver_ok dev" and log: "hub_log_ok dev" and step: "driver_step e dev = Some dev'"
  shows "hub_log_ok dev'"
proof (cases e)
  case (Packet status irq_data)
  let ?p = "packet_port irq_data" and ?d = "upd_port (packet_port irq_data) (port_update irq_data) dev"
  have "port_ok ?d ?p"
    using ok packet_port_lt [of irq_data] by (intro port_ok_packet) (simp add: driver_ok_def NUM_PORTS_def)
  moreover have "hub_log_ok ?d"
    using log by (simp add: hub_log_ok_def)
  ultimately have "hub_log_ok (gchub_process_status irq_data dev)"
    using hub_log_ok_sync by (simp add: gchub_process_status_def Let_def)
  then show ?thesis
    using step log Packet by (auto simp: gchub_irq_def split: if_splits)
next
  case Work
  then obtain w ws where w: "works dev = w # ws" "dev' = do_work w (dev\<lparr>works := ws\<rparr>)"
    using step by (auto split: list.splits)
  then show ?thesis
    using log by (cases w) (auto simp: hub_log_ok_def controller_attach_def controller_detach_def Let_def)
qed (use log step in \<open>auto simp: hub_log_ok_def controller_event_def controller_ff_event_def controller_led_event_def
  split: if_splits\<close>)

lemma hub_log_ok_run:
  assumes "driver_run es dev = Some dev'" "driver_ok dev" "hub_log_ok dev"
  shows "hub_log_ok dev'"
proof -
  have "driver_ok dev' \<and> hub_log_ok dev'"
    by (rule driver_run_induct [OF assms(1)]) (use assms driver_ok_step hub_log_ok_step in blast)+
  then show ?thesis ..
qed

text \<open>C33: The values stay what their types promise. In any run from a successful probe every port keeps its eight effect slots,
  bytes in its axes, sixteen bits of buttons and a count between 0 and 5, and every value that is reported of an axis is
  within 255 of zero; those of the triggers and of the direction pad are within the ranges that were declared for them.\<close>

theorem port_values_well_formed:
  assumes "gchub_probe vendor product up oks = (ret, Some dev, R)" "driver_run es dev = Some dev'" "p < NUM_PORTS"
  shows "length (ff_effects (ports dev' p)) = EFFECTS_MAX \<and> status_ok (current_status (ports dev' p)) \<and>
    status_ok (calibration_status (ports dev' p)) \<and> attached (ports dev' p) \<in> {0..CONTROLLER_RETRY_ATTEMPTS} \<and>
    list_all report_ok (port_log p dev')"
proof -
  have "driver_ok dev'"
    using driver_ok_run [OF assms(2) hub_probe_ok [OF assms(1)]] .
  moreover have "hub_log_ok dev'"
    using hub_log_ok_run [OF assms(2) hub_probe_ok [OF assms(1)]] probe_result(3) [OF assms(1) refl] by (simp add: hub_log_ok_def)
  then have "list_all report_ok (port_log p dev')"
    by (auto simp: hub_log_ok_def port_log_def list_all_iff)
  ultimately show ?thesis
    using assms(3) by (simp add: driver_ok_def port_ok_def ctl_ok_def)
qed

definition stick_events :: "driver_event list" where
  "stick_events = [Packet 0 analog_packet, Work, Packet 0 analog_packet, Packet 0 [0xA1, 0, 0, 128, 127, 10, 0, 0]]"

theorem port_values_well_formed_witness:
  "list_all report_ok (port_log 1 (the (driver_run stick_events hub0))) \<and>
   (1, Abs ABS_Y 130) \<in> set (input_log (the (driver_run stick_events hub0)))"
proof -
  have run: "driver_run stick_events hub0 = Some (the (driver_run stick_events hub0))"
    by (rule some_the) code_simp
  have "List.member (input_log (the (driver_run stick_events hub0))) (1, Abs ABS_Y 130)"
    by code_simp
  then show ?thesis
    using port_values_well_formed [OF hub0_probe run, of 1] by (simp add: NUM_PORTS_def)
qed

text \<open>That report is outside the range declared for a stick, which ends at 127: a stick that rests at 130 and is pushed all
  the way is reported at 130.\<close>

lemma stick_out_of_range: "\<exists>v. (1, Abs ABS_Y v) \<in> set (input_log (the (driver_run stick_events hub0))) \<and>
    fst (snd (axis_range ABS_Y)) < v"
proof -
  have "List.member (input_log (the (driver_run stick_events hub0))) (1, Abs ABS_Y 130)"
    by code_simp
  then show ?thesis
    by (intro exI [of _ 130]) simp
qed

text \<open>The first report after the calibration was dropped is centred, and it is taken as the new calibration.\<close>

lemma first_report_centred:
  assumes "dev_registered (ports dev p)" "attached (ports dev p) \<noteq> 0" "\<not> calibration_valid (ports dev p)"
    and "a \<in> {ABS_X, ABS_Y, ABS_Z, ABS_RX, ABS_RY, ABS_RZ}"
  shows "Abs a 0 \<in> snd ` set (drop (length (input_log dev)) (input_log (sync_report p dev))) \<and>
    calibration_status (ports (sync_report p dev) p) = current_status (ports dev p)"
  using assms
  by (auto simp: sync_report_def calibrate_def Let_def controller_report_status_def controller_status_diff_def)


section \<open>Outputs\<close>

lemma settled_if_stuck: "\<not> (\<exists>e t. internal e \<and> hub_step e s = Some t) \<Longrightarrow> settled s"
  using unsettled_steps by blast

lemma settled_stuck: "settled s \<Longrightarrow> \<not> (\<exists>e t. internal e \<and> hub_step e s = Some t)"
proof
  assume "settled s" "\<exists>e t. internal e \<and> hub_step e s = Some t"
  then obtain e t where "settled s" "internal e" "hub_step e s = Some t"
    by blast
  then show False
    by (cases e) (simp_all add: settled_def)
qed

text \<open>C3: No update of an output is lost, in any interleaving. Let any number of threads set rumble motors and LEDs and
  synchronise them, with their steps and the completions of the requests interleaved in any way, and let requests be taken
  and carried out. Then from any state that is reached the driver comes to rest, in at most \<open>work_left\<close> steps
  whichever of them is taken next; and where it rests, the hub shows at every port what was set last: the rumble motor
  on or off, and the colour of the LED.\<close>

theorem outputs_reach_the_hub:
  assumes "hub_start s0" "hub_run es s0 = Some s" "\<And>e. e \<in> set es \<Longrightarrow> clean e"
  shows "(\<forall>fs s'. (\<forall>e \<in> set fs. internal e) \<and> hub_run fs s = Some s' \<longrightarrow> length fs \<le> work_left s) \<and>
    (\<forall>fs s' p. (\<forall>e \<in> set fs. internal e \<and> clean e) \<and> hub_run fs s = Some s' \<and>
       \<not> (\<exists>e t. internal e \<and> hub_step e s' = Some t) \<and> p < NUM_PORTS \<longrightarrow>
       port_view (shown s') p = view_of (outputs (ports (hub s') p)))"
proof (intro conjI allI impI; elim conjE)
  show "length fs \<le> work_left s" if "\<forall>e \<in> set fs. internal e" "hub_run fs s = Some s'" for fs s'
    using internal_run_bounded [OF that(2)] that(1) by auto
next
  fix fs s' p
  assume fs: "\<forall>e \<in> set fs. internal e \<and> clean e" "hub_run fs s = Some s'" and p: "p < NUM_PORTS"
    and stuck: "\<not> (\<exists>e t. internal e \<and> hub_step e s' = Some t)"
  have "hub_run (es @ fs) s0 = Some s'"
    using assms(2) fs(2) by (simp add: hub_run_append)
  then have "delivering s'"
    using assms(3) fs(1) by (intro delivering_run [OF assms(1)]) auto
  then show "port_view (shown s') p = view_of (outputs (ports (hub s') p))"
    using settled_delivered(1) settled_if_stuck [OF stuck] p by (simp add: NUM_PORTS_def)
qed

definition start0 :: hub_sys where
  "start0 = \<lparr>hub = (zero_dev True)\<lparr>ports := (\<lambda>_. controller_init)\<rparr>, threads = {#Calling []#}, shown = (0xFFFF, 0xFFFF)\<rparr>"

lemma start0_ok: "hub_start start0"
  by (simp add: start0_def hub_start_def zero_dev_def controller_init_def)

text \<open>The request that the probe sends is overtaken: a second thread turns on a motor while the first is about to submit it,
  and its synchronisation finds the request claimed.\<close>

definition copies :: "nat \<Rightarrow> gchub_controller_outputs list" where
  "copies k = replicate k (outputs controller_init)"

definition first_request :: "hub_event list" where
  "first_request = Run (Calling []) # map (\<lambda>k. Run (Looking k k)) [0..<5] @ Run Claiming #
     map (\<lambda>k. Run (Filling k (copies k))) [0..<5] @ [Run (Writing (copies 4))]"

definition overtaken :: "hub_event list" where
  "overtaken = first_request @ [Enter [SetRumble 1 1], Run (Calling [SetRumble 1 1]), Run Submitting, Run (Calling []),
     Run (Looking 0 0), Run (Looking 1 0)] @ map (\<lambda>k. Run (Looking k 1)) [2..<5] @ [Run Claiming]"

text \<open>What then follows by itself.\<close>

definition after_overtaken :: "hub_event list" where
  "after_overtaken =
     (let off = (outputs controller_init)\<lparr>o_dirty := False\<rparr>; on = off\<lparr>o_rumble := 1, o_dirty := True\<rparr>;
          os = [off, on, off, off]
      in Done True # map (\<lambda>k. Run (Filling k (take k os))) [0..<5] @ [Run (Writing os), Run Submitting, Done True])"

lemma overtaken_runs: "hub_run overtaken start0 = Some (the (hub_run overtaken start0))"
  by (rule some_the) code_simp

lemma overtaken_clean: "e \<in> set overtaken \<Longrightarrow> clean e"
proof -
  have "list_all clean overtaken"
    by code_simp
  then show "e \<in> set overtaken \<Longrightarrow> clean e"
    by (simp add: list_all_iff)
qed

lemma after_overtaken_runs:
  "hub_run after_overtaken (the (hub_run overtaken start0)) =
     Some (the (hub_run after_overtaken (the (hub_run overtaken start0))))"
  by (rule some_the) code_simp

theorem outputs_reach_the_hub_witness:
  "port_view (shown (the (hub_run after_overtaken (the (hub_run overtaken start0))))) 1 = (True, False, False)"
proof -
  let ?s = "the (hub_run overtaken start0)" and ?t = "the (hub_run after_overtaken (the (hub_run overtaken start0)))"
  have "list_all (\<lambda>e. internal e \<and> clean e) after_overtaken"
    by code_simp
  then have fs: "\<forall>e \<in> set after_overtaken. internal e \<and> clean e"
    by (simp add: list_all_iff)
  have "settled ?t"
    by code_simp
  then have "port_view (shown ?t) 1 = view_of (outputs (ports (hub ?t) 1))"
    using outputs_reach_the_hub [OF start0_ok overtaken_runs overtaken_clean] fs after_overtaken_runs settled_stuck [of ?t]
    by (simp add: NUM_PORTS_def)
  also have "\<dots> = (True, False, False)"
    by code_simp
  finally show ?thesis .
qed

text \<open>C21: One request at a time. In any interleaving, with any failures of the USB core, at most one thread is between claiming
  the output request and its submission, and none while the request is on its way; and the request that is on its way is
  the one that was submitted: nobody writes to it.\<close>

theorem one_request_at_a_time:
  assumes "hub_start s0" "hub_run es s0 = Some s"
  shows "size (filter_mset busy (threads s)) + (if urb_busy (hub s) then 1 else 0) \<le> 1 \<and>
    (urb_busy (hub s) \<longrightarrow> out_status_request (hub s) = last (urb_log (hub s)))"
  using exclusive_run [OF assms] by (auto simp: exclusive_def owners_def of_bool_def intro: none_busy split: if_splits)

theorem one_request_at_a_time_witness:
  "out_status_request (hub (the (hub_run overtaken start0))) = last (urb_log (hub (the (hub_run overtaken start0)))) \<and>
   urb_busy (hub (the (hub_run overtaken start0)))"
proof -
  have "urb_busy (hub (the (hub_run overtaken start0)))"
    by code_simp
  then show ?thesis
    using one_request_at_a_time [OF start0_ok overtaken_runs] by simp
qed

text \<open>C29: A submission that fails stops the outputs for good. The driver does not look at what \<^verbatim>\<open>usb_submit_urb\<close> returns. If
  the request is submitted while the USB core does not take it, it stays claimed although no completion will come: from
  then on, whatever is called and even when the USB core takes requests again, no request is ever sent, and the hub keeps
  showing what it showed.\<close>

theorem failed_submission_wedges:
  assumes "hub_start s0" "hub_run es s0 = Some s" "Submitting \<in># threads s" "\<not> usb_up (hub s)"
    and "hub_run (Run Submitting # fs) s = Some s'"
  shows "urb_log (hub s') = urb_log (hub s) \<and> shown s' = shown s \<and> out_status_in_progress (hub s')"
proof -
  obtain t where t: "hub_step (Run Submitting) s = Some t" "hub_run fs t = Some s'"
    using assms(5) by (auto simp del: hub_step.simps split: option.splits)
  have "wedged t \<and> urb_log (hub t) = urb_log (hub s) \<and> shown t = shown s"
    using submit_fails_wedged [OF exclusive_run [OF assms(1,2)] assms(3,4) t(1)] .
  then show ?thesis
    using wedged_run [OF t(2)] by (simp add: wedged_def)
qed

definition unplugged_request :: "hub_event list" where "unplugged_request = first_request @ [Usb False]"

definition later_calls :: "hub_event list" where
  "later_calls = [Usb True, Enter [SetLed 0 1], Run (Calling [SetLed 0 1]), Run (Calling []), Run (Looking 0 0)] @
     map (\<lambda>k. Run (Looking k 1)) [1..<5] @ [Run Claiming]"

theorem failed_submission_wedges_witness:
  "urb_log (hub (the (hub_run (Run Submitting # later_calls) (the (hub_run unplugged_request start0))))) = []"
proof -
  let ?s = "the (hub_run unplugged_request start0)"
  have run: "hub_run unplugged_request start0 = Some ?s"
    by (rule some_the) code_simp
  have late: "hub_run (Run Submitting # later_calls) ?s = Some (the (hub_run (Run Submitting # later_calls) ?s))"
    by (rule some_the) code_simp
  have "Submitting \<in># threads ?s" "\<not> usb_up (hub ?s)" "urb_log (hub ?s) = []"
    by code_simp+
  then show ?thesis
    using failed_submission_wedges [OF start0_ok run _ _ late] by simp
qed

text \<open>A transfer that fails loses its update: the dirty flags were cleared when the request was filled, so that the driver rests
  while the hub does not show what was set.\<close>

lemma failed_transfer_lost:
  "settled (the (hub_run (first_request @ [Run Submitting, Done False]) start0)) \<and>
   \<not> o_dirty (outputs (ports (hub (the (hub_run (first_request @ [Run Submitting, Done False]) start0))) 0)) \<and>
   port_view (shown (the (hub_run (first_request @ [Run Submitting, Done False]) start0))) 0 \<noteq>
     view_of (outputs (ports (hub (the (hub_run (first_request @ [Run Submitting, Done False]) start0))) 0))"
  by (intro conjI; code_simp)

end
