(* ===== verification/Unicone_Sha1.thy ===== *)
theory Unicone_Sha1
  imports Prelude
begin

text \<open>
  The SHA-1 implementation that the Unicone library uses to tell versions of firmware and bitstreams apart
  (\<^verbatim>\<open>wasabi/devices/unicone/src/sha1.c\<close>, \<^verbatim>\<open>sha1.h\<close>): a context that takes any number of pieces of any length, with an
  internal buffer of two blocks, a 64-bit count in two words, and rounds over a circular message schedule of 16 words.

  The host is little-endian. A \<^verbatim>\<open>size_t\<close> is a \<^typ>\<open>nat\<close>, the length of the list that is given; the buffer is a list of 128
  bytes.
\<close>

section \<open>Words\<close>

definition rol :: "u32 \<Rightarrow> nat \<Rightarrow> u32" where
  "rol x n = (push_bit n x OR drop_bit (32 - n) x)"

definition NOTSWAP :: "u32 \<Rightarrow> u32" where
  "NOTSWAP n = (push_bit 24 n OR push_bit 8 (n AND 0xff00) OR (drop_bit 8 n AND 0xff00) OR drop_bit 24 n)"

text \<open>A word of the host in memory, least significant byte first.\<close>

definition load_word :: "byte list \<Rightarrow> u32" where
  "load_word bs = (ucast (bs ! 0) OR push_bit 8 (ucast (bs ! 1)) OR push_bit 16 (ucast (bs ! 2)) OR
     push_bit 24 (ucast (bs ! 3)))"

definition store_word :: "u32 \<Rightarrow> byte list" where
  "store_word w = [ucast w, ucast (drop_bit 8 w), ucast (drop_bit 16 w), ucast (drop_bit 24 w)]"

text \<open>\<^verbatim>\<open>memcpy\<close> into a buffer at an offset.\<close>

definition copy_to :: "nat \<Rightarrow> byte list \<Rightarrow> byte list \<Rightarrow> byte list" where
  "copy_to i bs buf = take i buf @ bs @ drop (i + length bs) buf"

section \<open>The context\<close>

type_synonym chain = "u32 \<times> u32 \<times> u32 \<times> u32 \<times> u32"

record sha_ctx =
  sha_chain :: chain
  sha_total :: "u32 \<times> u32"
  sha_buflen :: nat
  sha_buf :: "byte list"

definition sha_init_ctx :: "byte list \<Rightarrow> sha_ctx" where
  "sha_init_ctx junk =
     \<lparr>sha_chain = (0x67452301, 0xefcdab89, 0x98badcfe, 0x10325476, 0xc3d2e1f0), sha_total = (0, 0), sha_buflen = 0,
      sha_buf = junk\<rparr>"

definition sha_read_ctx :: "sha_ctx \<Rightarrow> byte list" where
  "sha_read_ctx ctx =
     (let (a, b, c, d, e) = sha_chain ctx
      in store_word (NOTSWAP a) @ store_word (NOTSWAP b) @ store_word (NOTSWAP c) @ store_word (NOTSWAP d) @
         store_word (NOTSWAP e))"

text \<open>\<^verbatim>\<open>total[0] += len; if (total[0] < len) ++total[1];\<close>\<close>

definition add_total :: "nat \<Rightarrow> u32 \<times> u32 \<Rightarrow> u32 \<times> u32" where
  "add_total len t =
     (let t0 = fst t + of_nat len in (t0, if t0 < of_nat len then snd t + 1 else snd t))"

section \<open>Blocks\<close>

definition F1 :: "u32 \<Rightarrow> u32 \<Rightarrow> u32 \<Rightarrow> u32" where "F1 b c d = d XOR (b AND (c XOR d))"
definition F2 :: "u32 \<Rightarrow> u32 \<Rightarrow> u32 \<Rightarrow> u32" where "F2 b c d = b XOR c XOR d"
definition F3 :: "u32 \<Rightarrow> u32 \<Rightarrow> u32 \<Rightarrow> u32" where "F3 b c d = (b AND c) OR (d AND (b OR c))"
definition F4 :: "u32 \<Rightarrow> u32 \<Rightarrow> u32 \<Rightarrow> u32" where "F4 b c d = b XOR c XOR d"

text \<open>The function and the constant that the listing of the rounds has at round \<open>t\<close>.\<close>

definition round_F :: "nat \<Rightarrow> u32 \<Rightarrow> u32 \<Rightarrow> u32 \<Rightarrow> u32" where
  "round_F t = (if t < 20 then F1 else if t < 40 then F2 else if t < 60 then F3 else F4)"

definition round_K :: "nat \<Rightarrow> u32" where
  "round_K t = (if t < 20 then 0x5a827999 else if t < 40 then 0x6ed9eba1 else if t < 60 then 0x8f1bbcdc else 0xca62c1d6)"

text \<open>The macro \<^verbatim>\<open>M(I)\<close>: the next word of the schedule replaces the oldest of the sixteen.\<close>

definition next_word :: "nat \<Rightarrow> u32 list \<Rightarrow> u32 \<times> u32 list" where
  "next_word i x =
     (let tm = x ! (i mod 16) XOR x ! ((i - 14) mod 16) XOR x ! ((i - 8) mod 16) XOR x ! ((i - 3) mod 16);
          w = rol tm 1
      in (w, x[i mod 16 := w]))"

text \<open>The macro \<^verbatim>\<open>R\<close>: it changes its second and its fifth variable. The next round has the variables shifted by one place.\<close>

definition round_R :: "(u32 \<Rightarrow> u32 \<Rightarrow> u32 \<Rightarrow> u32) \<Rightarrow> u32 \<Rightarrow> u32 \<Rightarrow> chain \<Rightarrow> chain" where
  "round_R f k m = (\<lambda>(a, b, c, d, e). (a, rol b 30, c, d, e + (rol a 5 + f b c d + k + m)))"

definition sha_round :: "nat \<Rightarrow> u32 list \<times> chain \<Rightarrow> u32 list \<times> chain" where
  "sha_round t = (\<lambda>(x, v).
     let (m, x) = (if t < 16 then (x ! t, x) else next_word t x);
         (a, b, c, d, e) = round_R (round_F t) (round_K t) m v
     in (x, (e, a, b, c, d)))"

definition add_chain :: "chain \<Rightarrow> chain \<Rightarrow> chain" where
  "add_chain = (\<lambda>(a, b, c, d, e) (a', b', c', d', e'). (a + a', b + b', c + c', d + d', e + e'))"

text \<open>One turn of the loop of \<^verbatim>\<open>sha_process_block\<close>.\<close>

definition one_block :: "byte list \<Rightarrow> chain \<Rightarrow> chain" where
  "one_block bs h =
     (let x = map (\<lambda>t. NOTSWAP (load_word (take 4 (drop (4 * t) bs)))) [0..<16];
          (x, v) = fold sha_round [0..<80] (x, h)
      in add_chain h v)"

text \<open>The loop, for a length that is a multiple of 64, as it is assumed and as all callers give it.\<close>

fun block_loop :: "byte list \<Rightarrow> chain \<Rightarrow> chain" where
  "block_loop bs h = (if length bs < 64 then h else block_loop (drop 64 bs) (one_block (take 64 bs) h))"

declare block_loop.simps [simp del]

definition sha_process_block :: "byte list \<Rightarrow> sha_ctx \<Rightarrow> sha_ctx" where
  "sha_process_block bs ctx =
     ctx\<lparr>sha_total := add_total (length bs) (sha_total ctx), sha_chain := block_loop bs (sha_chain ctx)\<rparr>"

section \<open>Pieces\<close>

text \<open>\<^verbatim>\<open>n & ~63\<close>.\<close>

definition whole :: "nat \<Rightarrow> nat" where "whole n = n - n mod 64"

text \<open>The first part: something is in the buffer, and is joined with what comes.\<close>

definition join_buffer :: "byte list \<Rightarrow> sha_ctx \<Rightarrow> byte list \<times> sha_ctx" where
  "join_buffer bs ctx =
     (if sha_buflen ctx = 0 then (bs, ctx)
      else let left_over = sha_buflen ctx;
               add = (if 128 - left_over > length bs then length bs else 128 - left_over);
               ctx = ctx\<lparr>sha_buf := copy_to left_over (take add bs) (sha_buf ctx), sha_buflen := left_over + add\<rparr>;
               ctx = (if sha_buflen ctx > 64
                      then let ctx = sha_process_block (take (whole (sha_buflen ctx)) (sha_buf ctx)) ctx;
                               ctx = ctx\<lparr>sha_buflen := sha_buflen ctx mod 64\<rparr>
                           in ctx\<lparr>sha_buf := copy_to 0 (take (sha_buflen ctx) (drop (whole (left_over + add)) (sha_buf ctx)))
                                               (sha_buf ctx)\<rparr>
                      else ctx)
           in (drop add bs, ctx))"

text \<open>The second part: whole blocks, taken from where they are, or one by one through the buffer when they are not
  aligned.\<close>

fun unaligned_blocks :: "byte list \<Rightarrow> sha_ctx \<Rightarrow> byte list \<times> sha_ctx" where
  "unaligned_blocks bs ctx =
     (if length bs > 64
      then let ctx = ctx\<lparr>sha_buf := copy_to 0 (take 64 bs) (sha_buf ctx)\<rparr>
           in unaligned_blocks (drop 64 bs) (sha_process_block (take 64 (sha_buf ctx)) ctx)
      else (bs, ctx))"

declare unaligned_blocks.simps [simp del]

definition whole_blocks :: "bool \<Rightarrow> byte list \<Rightarrow> sha_ctx \<Rightarrow> byte list \<times> sha_ctx" where
  "whole_blocks unaligned bs ctx =
     (if length bs \<ge> 64
      then if unaligned then unaligned_blocks bs ctx
           else (drop (whole (length bs)) bs, sha_process_block (take (whole (length bs)) bs) ctx)
      else (bs, ctx))"

text \<open>The third part: the rest goes to the buffer.\<close>

definition keep_rest :: "byte list \<Rightarrow> sha_ctx \<Rightarrow> sha_ctx" where
  "keep_rest bs ctx =
     (if length bs > 0
      then let left_over = sha_buflen ctx;
               ctx = ctx\<lparr>sha_buf := copy_to left_over bs (sha_buf ctx)\<rparr>;
               left_over = left_over + length bs
           in if left_over \<ge> 64
              then let ctx = sha_process_block (take 64 (sha_buf ctx)) ctx;
                       left_over = left_over - 64
                   in ctx\<lparr>sha_buf := copy_to 0 (take left_over (drop 64 (sha_buf ctx))) (sha_buf ctx),
                          sha_buflen := left_over\<rparr>
              else ctx\<lparr>sha_buflen := left_over\<rparr>
      else ctx)"

definition sha_process_bytes :: "bool \<Rightarrow> byte list \<Rightarrow> sha_ctx \<Rightarrow> sha_ctx" where
  "sha_process_bytes unaligned bs ctx =
     (let (bs, ctx) = join_buffer bs ctx;
          (bs, ctx) = whole_blocks unaligned bs ctx
      in keep_rest bs ctx)"

definition fillbuf :: "byte list" where "fillbuf = 0x80 # replicate 63 0"

definition sha_finish_ctx :: "sha_ctx \<Rightarrow> byte list" where
  "sha_finish_ctx ctx =
     (let bytes = sha_buflen ctx;
          total = add_total bytes (sha_total ctx);
          pad = (if bytes \<ge> 56 then 64 + 56 - bytes else 56 - bytes);
          buf = copy_to bytes (take pad fillbuf) (sha_buf ctx);
          buf = copy_to (bytes + pad + 4) (store_word (NOTSWAP (push_bit 3 (fst total)))) buf;
          buf = copy_to (bytes + pad) (store_word (NOTSWAP (push_bit 3 (snd total) OR drop_bit 29 (fst total)))) buf;
          ctx = ctx\<lparr>sha_total := total, sha_buf := buf\<rparr>
      in sha_read_ctx (sha_process_block (take (bytes + pad + 8) buf) ctx))"

text \<open>\<open>junk\<close>: what is in the memory of the context before.\<close>

definition sha_buffer :: "bool \<Rightarrow> byte list \<Rightarrow> byte list \<Rightarrow> byte list" where
  "sha_buffer unaligned junk bs = sha_finish_ctx (sha_process_bytes unaligned bs (sha_init_ctx junk))"

section \<open>Streams\<close>

text \<open>A stream is what its successive reads find: \<^verbatim>\<open>fread\<close> gives at most the bytes that are asked for, fewer at the end of a
  piece, and sees the end of the file when it has run out of pieces before it had all it was asked for. An empty piece
  is an error, as is reading the end of a stream that is marked so.\<close>

type_synonym stream = "byte list list \<times> bool"

definition BLOCKSIZE :: nat where "BLOCKSIZE = 4096"

definition fread_bytes :: "nat \<Rightarrow> stream \<Rightarrow> byte list \<times> stream \<times> bool" where
  "fread_bytes n f = (case fst f of
       [] \<Rightarrow> ([], f, True)
     | p # ps \<Rightarrow> if n < length p then (take n p, (drop n p # ps, snd f), False)
                 else (p, (ps, snd f), length p < n \<and> ps = []))"

text \<open>The inner loop fills the block: an error, a full block, or the partial block at the end.\<close>

datatype filled_block = ReadError | Full "byte list" stream | Partial "byte list"

function fill_block :: "byte list \<Rightarrow> stream \<Rightarrow> filled_block" where
  "fill_block got f =
     (let (n, f', eof) = fread_bytes (BLOCKSIZE - length got) f;
          got' = got @ n
      in if length got' = BLOCKSIZE then Full got' f'
         else if n = [] then if snd f \<or> fst f \<noteq> [] then ReadError else Partial got'
         else if eof then Partial got'
         else fill_block got' f')"
  by auto
termination
  by (relation "measure (\<lambda>(got, f). length (fst f))")
    (auto simp: fread_bytes_def split: list.splits if_splits)

declare fill_block.simps [simp del]

definition stream_size :: "stream \<Rightarrow> nat" where "stream_size f = length (concat (fst f))"

lemma fread_size: "fread_bytes n f = (bs, f', eof) \<Longrightarrow> bs @ concat (fst f') = concat (fst f)"
  by (auto simp: fread_bytes_def split: list.splits if_splits)

lemma fill_block_content:
  "fill_block got f = Full bs f' \<Longrightarrow> bs @ concat (fst f') = got @ concat (fst f) \<and> length bs = BLOCKSIZE \<and> snd f' = snd f"
proof (induction got f rule: fill_block.induct)
  case (1 got f)
  obtain n f1 eof where r: "fread_bytes (BLOCKSIZE - length got) f = (n, f1, eof)"
    by (cases "fread_bytes (BLOCKSIZE - length got) f")
  have "snd f1 = snd f"
    using r by (auto simp: fread_bytes_def split: list.splits if_splits)
  moreover have "got @ concat (fst f) = (got @ n) @ concat (fst f1)"
    using fread_size [OF r] by simp
  ultimately show ?case
    using "1.prems" "1.IH" [OF refl r [symmetric] refl refl]
    by (auto simp: fill_block.simps [of got f] r Let_def split: if_splits)
qed

function stream_loop :: "bool \<Rightarrow> stream \<Rightarrow> sha_ctx \<Rightarrow> (byte list \<times> sha_ctx) option" where
  "stream_loop unaligned f ctx =
     (case fill_block [] f of
        ReadError \<Rightarrow> None
      | Partial bs \<Rightarrow> Some (bs, ctx)
      | Full bs f' \<Rightarrow> stream_loop unaligned f' (sha_process_block bs ctx))"
  by auto
termination
proof (relation "measure (\<lambda>(u, f, ctx). stream_size f)")
  fix u f ctx bs f'
  assume "fill_block [] f = Full bs f'"
  then have "bs @ concat (fst f') = concat (fst f) \<and> length bs = BLOCKSIZE"
    using fill_block_content [of "[]" f bs f'] by simp
  then have "length (concat (fst f)) = BLOCKSIZE + length (concat (fst f'))"
    by (metis length_append)
  then show "((u, f', sha_process_block bs ctx), u, f, ctx) \<in> measure (\<lambda>(u, f, ctx). stream_size f)"
    by (simp add: stream_size_def BLOCKSIZE_def)
qed simp

declare stream_loop.simps [simp del]

definition sha_stream :: "bool \<Rightarrow> byte list \<Rightarrow> stream \<Rightarrow> int \<times> byte list" where
  "sha_stream unaligned junk f =
     (case stream_loop unaligned f (sha_init_ctx junk) of
        None \<Rightarrow> (1, [])
      | Some (bs, ctx) \<Rightarrow> (0, sha_finish_ctx (if length bs > 0 then sha_process_bytes unaligned bs ctx else ctx)))"

end
