(* ===== verification/Unicone_Sha1_Spec.thy ===== *)
theory Unicone_Sha1_Spec
  imports Unicone_Sha1
begin

text \<open>
  SHA-1 as the standard (FIPS 180-1) states it - padding, message schedule, eighty rounds - and that the implementation in
  \<^verbatim>\<open>sha1.c\<close> computes it, for data of any length in pieces of any length.
\<close>

section \<open>The standard\<close>

text \<open>Big-endian words.\<close>

definition be_word :: "byte list \<Rightarrow> u32" where
  "be_word bs = (push_bit 24 (ucast (bs ! 0)) OR push_bit 16 (ucast (bs ! 1)) OR push_bit 8 (ucast (bs ! 2)) OR
     ucast (bs ! 3))"

definition be_bytes :: "u32 \<Rightarrow> byte list" where
  "be_bytes w = [ucast (drop_bit 24 w), ucast (drop_bit 16 w), ucast (drop_bit 8 w), ucast w]"

definition rotl :: "nat \<Rightarrow> u32 \<Rightarrow> u32" where
  "rotl n w = (push_bit n w OR drop_bit (32 - n) w)"

definition fips_f :: "nat \<Rightarrow> u32 \<Rightarrow> u32 \<Rightarrow> u32 \<Rightarrow> u32" where
  "fips_f t b c d =
     (if t \<le> 19 then (b AND c) OR (NOT b AND d)
      else if t \<le> 39 then b XOR c XOR d
      else if t \<le> 59 then (b AND c) OR (b AND d) OR (c AND d)
      else b XOR c XOR d)"

definition fips_k :: "nat \<Rightarrow> u32" where
  "fips_k t = (if t \<le> 19 then 0x5A827999 else if t \<le> 39 then 0x6ED9EBA1 else if t \<le> 59 then 0x8F1BBCDC else 0xCA62C1D6)"

text \<open>The message schedule of a block of 64 bytes.\<close>

fun schedule :: "byte list \<Rightarrow> nat \<Rightarrow> u32" where
  "schedule bs t =
     (if t < 16 then be_word (take 4 (drop (4 * t) bs))
      else rotl 1 (schedule bs (t - 3) XOR schedule bs (t - 8) XOR schedule bs (t - 14) XOR schedule bs (t - 16)))"

declare schedule.simps [simp del]

definition fips_step :: "byte list \<Rightarrow> nat \<Rightarrow> chain \<Rightarrow> chain" where
  "fips_step bs t = (\<lambda>(a, b, c, d, e).
     (rotl 5 a + fips_f t b c d + e + schedule bs t + fips_k t, a, rotl 30 b, c, d))"

definition compress :: "byte list \<Rightarrow> chain \<Rightarrow> chain" where
  "compress bs h = add_chain h (fold (fips_step bs) [0..<80] h)"

fun hash_blocks :: "byte list \<Rightarrow> chain \<Rightarrow> chain" where
  "hash_blocks bs h = (if length bs < 64 then h else hash_blocks (drop 64 bs) (compress (take 64 bs) h))"

declare hash_blocks.simps [simp del]

text \<open>A 1 bit, zeros up to eight bytes before the end of a block, and the length in bits in two words.\<close>

definition pad_message :: "byte list \<Rightarrow> byte list" where
  "pad_message m = m @ [0x80] @ replicate ((119 - length m mod 64) mod 64) 0 @
     be_bytes (of_nat (8 * length m div 2 ^ 32)) @ be_bytes (of_nat (8 * length m))"

definition initial_chain :: chain where
  "initial_chain = (0x67452301, 0xEFCDAB89, 0x98BADCFE, 0x10325476, 0xC3D2E1F0)"

definition digest :: "chain \<Rightarrow> byte list" where
  "digest = (\<lambda>(a, b, c, d, e). be_bytes a @ be_bytes b @ be_bytes c @ be_bytes d @ be_bytes e)"

definition sha1 :: "byte list \<Rightarrow> byte list" where
  "sha1 m = digest (hash_blocks (pad_message m) initial_chain)"

section \<open>Words\<close>

lemma bit_ff00: "bit (0xff00 :: u32) n \<longleftrightarrow> 8 \<le> n \<and> n < 16"
proof -
  have "(0xff00 :: u32) = push_bit 8 (mask 8)"
    by (simp add: mask_eq_exp_minus_1 push_bit_eq_mult)
  then have "bit (0xff00 :: u32) n \<longleftrightarrow> bit (push_bit 8 (mask 8) :: u32) n"
    by simp
  also have "\<dots> \<longleftrightarrow> 8 \<le> n \<and> n < 16"
    unfolding bit_push_bit_iff bit_mask_iff by auto
  finally show ?thesis .
qed

lemma bit_u32_high: "32 \<le> n \<Longrightarrow> \<not> bit (w :: u32) n"
  using bit_imp_le_length [of w n] by auto

lemma bit_byte_high: "8 \<le> n \<Longrightarrow> \<not> bit (w :: byte) n"
  using bit_imp_le_length [of w n] by auto

lemma byte_of_bit:
  assumes "n < 32"
  obtains "n < 8" | "8 \<le> n" "n < 16" | "16 \<le> n" "n < 24" | "24 \<le> n" "n < (32 :: nat)"
  using assms by linarith

lemma bit_NOTSWAP:
  assumes "n < 32"
  shows "bit (NOTSWAP w) n \<longleftrightarrow>
    (if n < 8 then bit w (24 + n) else if n < 16 then bit w (8 + n) else if n < 24 then bit w (n - 8) else bit w (n - 24))"
  using assms unfolding NOTSWAP_def bit_or_iff bit_push_bit_iff bit_and_iff bit_drop_bit_eq o_def bit_ff00
  by (cases rule: byte_of_bit) (auto simp: bit_u32_high)

lemma bit_load_word:
  assumes "n < 32"
  shows "bit (load_word bs) n \<longleftrightarrow> bit (bs ! (n div 8)) (n mod 8)"
  using assms
proof (cases rule: byte_of_bit)
  case 1
  then show ?thesis
    by (auto simp: load_word_def bit_or_iff bit_push_bit_iff bit_ucast_iff)
next
  case 2
  then have "n div 8 = 1" "n mod 8 = n - 8"
    by (auto simp: mod_if div_if)
  then show ?thesis
    using 2 by (auto simp: load_word_def bit_or_iff bit_push_bit_iff bit_ucast_iff bit_byte_high)
next
  case 3
  then have "n div 8 = 2" "n mod 8 = n - 16"
    by (auto simp: mod_if div_if)
  then show ?thesis
    using 3 by (auto simp: load_word_def bit_or_iff bit_push_bit_iff bit_ucast_iff bit_byte_high)
next
  case 4
  then have "n div 8 = 3" "n mod 8 = n - 24"
    by (auto simp: mod_if div_if)
  then show ?thesis
    using 4 by (auto simp: load_word_def bit_or_iff bit_push_bit_iff bit_ucast_iff bit_byte_high)
qed

lemma bit_be_word:
  assumes "n < 32"
  shows "bit (be_word bs) n \<longleftrightarrow>
    (if n < 8 then bit (bs ! 3) n else if n < 16 then bit (bs ! 2) (n - 8) else if n < 24 then bit (bs ! 1) (n - 16)
     else bit (bs ! 0) (n - 24))"
  using assms
  by (cases rule: byte_of_bit)
    (auto simp: be_word_def bit_or_iff bit_push_bit_iff bit_ucast_iff bit_byte_high)

lemma swapped_load: "NOTSWAP (load_word bs) = be_word bs"
proof (rule bit_word_eqI)
  fix n assume "n < LENGTH(32)"
  then have n: "n < 32"
    by simp
  then show "bit (NOTSWAP (load_word bs)) n = bit (be_word bs) n"
  proof (cases rule: byte_of_bit)
    case 1
    then have "(24 + n) div 8 = 3" "(24 + n) mod 8 = n"
      by presburger+
    then show ?thesis
      using 1 by (simp add: bit_NOTSWAP bit_load_word bit_be_word)
  next
    case 2
    then have "(8 + n) div 8 = 2" "(8 + n) mod 8 = n - 8"
      by presburger+
    then show ?thesis
      using 2 by (simp add: bit_NOTSWAP bit_load_word bit_be_word)
  next
    case 3
    then have "(n - 8) div 8 = 1" "(n - 8) mod 8 = n - 16"
      by (auto simp: mod_if div_if)
    then show ?thesis
      using 3 by (simp add: bit_NOTSWAP bit_load_word bit_be_word)
  next
    case 4
    then have "(n - 24) div 8 = 0" "(n - 24) mod 8 = n - 24"
      by auto
    then show ?thesis
      using 4 by (simp add: bit_NOTSWAP bit_load_word bit_be_word)
  qed
qed

lemma swapped_store: "store_word (NOTSWAP w) = be_bytes w"
proof -
  have "ucast (NOTSWAP w) = (ucast (drop_bit 24 w) :: byte)" "ucast (drop_bit 8 (NOTSWAP w)) = (ucast (drop_bit 16 w) :: byte)"
    "ucast (drop_bit 16 (NOTSWAP w)) = (ucast (drop_bit 8 w) :: byte)" "ucast (drop_bit 24 (NOTSWAP w)) = (ucast w :: byte)"
    by (rule bit_word_eqI; simp add: bit_NOTSWAP bit_drop_bit_eq bit_ucast_iff)+
  then show ?thesis
    by (simp add: store_word_def be_bytes_def)
qed

lemma rol_eq: "rol w n = rotl n w"
  by (simp add: rol_def rotl_def)

section \<open>Rounds\<close>

lemma round_F_eq: "round_F t b c d = fips_f t b c d"
proof -
  have "F1 b c d = (b AND c) OR (NOT b AND d)"
    by (rule bit_word_eqI) (auto simp: F1_def bit_or_iff bit_and_iff bit_xor_iff bit_not_iff)
  moreover have "F3 b c d = (b AND c) OR (b AND d) OR (c AND d)"
    by (rule bit_word_eqI) (auto simp: F3_def bit_or_iff bit_and_iff)
  ultimately show ?thesis
    by (auto simp: round_F_def fips_f_def F2_def F4_def)
qed

lemma round_K_eq: "round_K t = fips_k t"
  by (auto simp: round_K_def fips_k_def)

text \<open>The circular schedule: it holds the last sixteen words.\<close>

definition holds_schedule :: "byte list \<Rightarrow> nat \<Rightarrow> u32 list \<Rightarrow> bool" where
  "holds_schedule bs t x \<longleftrightarrow> length x = 16 \<and> (\<forall>j. max 16 t - 16 \<le> j \<and> j < max 16 t \<longrightarrow> x ! (j mod 16) = schedule bs j)"

lemma mod16_other: "t - 16 \<le> j \<Longrightarrow> j < t \<Longrightarrow> j \<noteq> t - 16 \<Longrightarrow> 16 \<le> t \<Longrightarrow> j mod 16 \<noteq> t mod (16::nat)"
proof
  assume a: "t - 16 \<le> j" "j < t" "j \<noteq> t - 16" "16 \<le> t" "j mod 16 = t mod 16"
  then have "16 dvd t - j"
    using mod_eq_dvd_iff_nat [of j t 16] by simp
  then obtain k where "t - j = 16 * k"
    by (elim dvdE)
  moreover have "0 < t - j" "t - j < 16"
    using a by linarith+
  ultimately show False
    by (cases k) auto
qed

lemma next_word_schedule:
  assumes h: "holds_schedule bs t x" and t: "16 \<le> t"
  shows "fst (next_word t x) = schedule bs t" "holds_schedule bs (Suc t) (snd (next_word t x))"
proof -
  have len: "length x = 16" and x: "\<And>j. t - 16 \<le> j \<Longrightarrow> j < t \<Longrightarrow> x ! (j mod 16) = schedule bs j"
    using h t by (auto simp: holds_schedule_def max_def split: if_splits)
  have "(t - 16) mod 16 = t mod 16"
    using t by (metis le_add_diff_inverse2 mod_add_self2)
  then have old: "x ! (t mod 16) = schedule bs (t - 16)"
    using x [of "t - 16"] t by simp
  have "x ! ((t - 14) mod 16) = schedule bs (t - 14)" "x ! ((t - 8) mod 16) = schedule bs (t - 8)"
    "x ! ((t - 3) mod 16) = schedule bs (t - 3)"
    using x t by simp_all
  then show w: "fst (next_word t x) = schedule bs t"
    using old t by (simp add: next_word_def Let_def rol_eq schedule.simps [of bs t] ac_simps)
  have "snd (next_word t x) ! (j mod 16) = schedule bs j" if "Suc t - 16 \<le> j" "j < Suc t" for j
  proof (cases "j = t")
    case True
    then show ?thesis
      using w len by (simp add: next_word_def Let_def)
  next
    case False
    then have "j mod 16 \<noteq> t mod 16"
      using mod16_other [of t j] that t by linarith
    then show ?thesis
      using x [of j] that False by (simp add: next_word_def Let_def)
  qed
  then show "holds_schedule bs (Suc t) (snd (next_word t x))"
    using len t by (simp add: holds_schedule_def next_word_def Let_def max_def)
qed


lemma sha_round_step:
  assumes "holds_schedule bs t x"
  shows "snd (sha_round t (x, v)) = fips_step bs t v" "holds_schedule bs (Suc t) (fst (sha_round t (x, v)))"
proof -
  obtain a b c d e where v: "v = (a, b, c, d, e)"
    by (metis prod.exhaust)
  have word: "fst (if t < 16 then (x ! t, x) else next_word t x) = schedule bs t"
    "holds_schedule bs (Suc t) (snd (if t < 16 then (x ! t, x) else next_word t x))"
    using assms next_word_schedule [of bs t x]
    by (auto simp: holds_schedule_def max_def not_less_eq_eq split: if_splits)
  then show "snd (sha_round t (x, v)) = fips_step bs t v" "holds_schedule bs (Suc t) (fst (sha_round t (x, v)))"
    by (cases "if t < 16 then (x ! t, x) else next_word t x"; simp add: sha_round_def round_R_def fips_step_def v Let_def rol_eq
        round_F_eq round_K_eq ac_simps)+
qed

lemma rounds_eq:
  assumes "holds_schedule bs 0 x"
  shows "snd (fold sha_round [0..<t] (x, h)) = fold (fips_step bs) [0..<t] h \<and>
    holds_schedule bs t (fst (fold sha_round [0..<t] (x, h)))"
proof (induction t)
  case (Suc t)
  obtain y v where "fold sha_round [0..<t] (x, h) = (y, v)"
    by (cases "fold sha_round [0..<t] (x, h)")
  then show ?case
    using Suc sha_round_step [of bs t y v] by simp
qed (use assms in simp)

lemma one_block_eq: "one_block bs h = compress bs h"
proof -
  let ?x = "map (\<lambda>t. NOTSWAP (load_word (take 4 (drop (4 * t) bs)))) [0..<16]"
  have "schedule bs j = be_word (take 4 (drop (4 * j) bs))" if "j < 16" for j
    using that by (simp add: schedule.simps)
  then have "holds_schedule bs 0 ?x"
    by (simp add: holds_schedule_def swapped_load del: upt_rec_numeral)
  then have "snd (fold sha_round [0..<80] (?x, h)) = fold (fips_step bs) [0..<80] h"
    using rounds_eq by blast
  then show ?thesis
    unfolding one_block_def compress_def Let_def split_beta by (rule arg_cong)
qed

lemma block_loop_eq: "block_loop bs h = hash_blocks bs h"
proof (induction bs h rule: block_loop.induct)
  case (1 bs h)
  then show ?case
    by (subst block_loop.simps, subst hash_blocks.simps) (simp add: one_block_eq)
qed

lemma hash_blocks_append:
  "length xs mod 64 = 0 \<Longrightarrow> hash_blocks (xs @ ys) h = hash_blocks ys (hash_blocks xs h)"
proof (induction xs h rule: hash_blocks.induct)
  case (1 xs h)
  show ?case
  proof (cases "length xs < 64")
    case True
    then have "xs = []"
      using 1(2) by simp
    then show ?thesis
      by (simp add: hash_blocks.simps [of "[]"])
  next
    case False
    then have "length (drop 64 xs) mod 64 = 0"
      using 1(2) by (simp add: mod_if)
    then show ?thesis
      using 1(1) False by (simp add: hash_blocks.simps [of "xs @ ys"] hash_blocks.simps [of xs h])
  qed
qed

section \<open>The count\<close>

definition count_of :: "nat \<Rightarrow> u32 \<times> u32" where
  "count_of n = (of_nat n, of_nat (n div 2 ^ 32))"

lemma add_total_count:
  assumes "k < 2 ^ 32"
  shows "add_total k (count_of n) = count_of (n + k)"
proof -
  have k: "unat (of_nat k :: u32) = k"
    using assms by (simp add: unat_of_nat take_bit_eq_mod)
  have nk: "unat (of_nat (n + k) :: u32) = (n + k) mod 2 ^ 32"
    by (simp add: unat_of_nat take_bit_eq_mod del: of_nat_add)
  have small: "k div 2 ^ 32 = 0" "k mod 2 ^ 32 = k" "n mod 2 ^ 32 < 2 ^ 32"
    using assms by simp_all
  have sum: "(n + k) mod 2 ^ 32 = (if 2 ^ 32 \<le> n mod 2 ^ 32 + k then n mod 2 ^ 32 + k - 2 ^ 32 else n mod 2 ^ 32 + k)"
  proof -
    have "n mod 2 ^ 32 + k - 2 ^ 32 < 2 ^ 32"
      using assms small(3) by linarith
    then show ?thesis
      by (subst mod_add_left_eq [symmetric]) (simp add: le_mod_geq)
  qed
  have carry: "(of_nat (n + k) :: u32) < of_nat k \<longleftrightarrow> 2 ^ 32 \<le> n mod 2 ^ 32 + k"
    unfolding word_less_nat_alt k nk sum using assms small(3) by auto
  have "(n mod 2 ^ 32 + k) div 2 ^ 32 = (if 2 ^ 32 \<le> n mod 2 ^ 32 + k then 1 else 0)"
    using assms small(3) by (simp add: div_if)
  then have "(n + k) div 2 ^ 32 = n div 2 ^ 32 + (if 2 ^ 32 \<le> n mod 2 ^ 32 + k then 1 else 0)"
    using small by (simp add: div_add1_eq [of n k])
  then show ?thesis
    using carry by (simp add: add_total_def count_of_def Let_def)
qed


text \<open>The length in bits, from the count in bytes.\<close>

lemma bit_length_words:
  "push_bit 3 (fst (count_of n)) = of_nat (8 * n)"
  "push_bit 3 (snd (count_of n)) OR drop_bit 29 (fst (count_of n)) = of_nat (8 * n div 2 ^ 32)"
proof -
  show "push_bit 3 (fst (count_of n)) = of_nat (8 * n)"
    by (simp add: count_of_def push_bit_eq_mult)
  show "push_bit 3 (snd (count_of n)) OR drop_bit 29 (fst (count_of n)) = of_nat (8 * n div 2 ^ 32)"
  proof (rule bit_word_eqI)
    fix i assume "i < LENGTH(32)"
    then have i: "i < 32"
      by simp
    have shift: "8 * n div 2 ^ 32 = drop_bit 29 n"
      by (simp add: drop_bit_eq_div)
    have high: "n div 4294967296 = drop_bit 32 n"
      by (simp add: drop_bit_eq_div)
    have "bit (push_bit 3 (snd (count_of n)) OR drop_bit 29 (fst (count_of n))) i \<longleftrightarrow>
        3 \<le> i \<and> bit n (32 + (i - 3)) \<or> i < 3 \<and> bit n (29 + i)"
      using i high by (auto simp: count_of_def bit_or_iff bit_push_bit_iff bit_drop_bit_eq bit_of_nat_iff)
    also have "\<dots> \<longleftrightarrow> bit n (29 + i)"
      by auto
    also have "\<dots> \<longleftrightarrow> bit (of_nat (8 * n div 2 ^ 32) :: u32) i"
      using i unfolding shift by (simp add: bit_of_nat_iff bit_drop_bit_eq)
    finally show "bit (push_bit 3 (snd (count_of n)) OR drop_bit 29 (fst (count_of n))) i \<longleftrightarrow>
        bit (of_nat (8 * n div 2 ^ 32) :: u32) i" .
  qed
qed

section \<open>Pieces\<close>

text \<open>What a context stands for: a message, of which the last bytes - at most a block - are still in the buffer.\<close>

definition absorbed :: "byte list \<Rightarrow> sha_ctx \<Rightarrow> bool" where
  "absorbed m ctx \<longleftrightarrow>
     length (sha_buf ctx) = 128 \<and> sha_buflen ctx \<le> 64 \<and> sha_buflen ctx \<le> length m \<and>
     (length m - sha_buflen ctx) mod 64 = 0 \<and>
     take (sha_buflen ctx) (sha_buf ctx) = drop (length m - sha_buflen ctx) m \<and>
     sha_chain ctx = hash_blocks (take (length m - sha_buflen ctx) m) initial_chain \<and>
     sha_total ctx = count_of (length m - sha_buflen ctx)"

lemma absorbed_init: "length junk = 128 \<Longrightarrow> absorbed [] (sha_init_ctx junk)"
  by (simp add: absorbed_def sha_init_ctx_def hash_blocks.simps [of "[]"] initial_chain_def count_of_def)

text \<open>A context with nothing in its buffer.\<close>

definition absorbed_whole :: "byte list \<Rightarrow> sha_ctx \<Rightarrow> bool" where
  "absorbed_whole m ctx \<longleftrightarrow> length (sha_buf ctx) = 128 \<and> length m mod 64 = 0 \<and>
     sha_chain ctx = hash_blocks m initial_chain \<and> sha_total ctx = count_of (length m)"

lemma absorbed_split:
  "absorbed m ctx \<longleftrightarrow> sha_buflen ctx \<le> 64 \<and>
     (\<exists>w. m = w @ take (sha_buflen ctx) (sha_buf ctx) \<and> absorbed_whole w ctx)"
proof
  assume a: "absorbed m ctx"
  let ?w = "take (length m - sha_buflen ctx) m"
  have "m = ?w @ take (sha_buflen ctx) (sha_buf ctx)"
    using a by (simp add: absorbed_def)
  moreover have "absorbed_whole ?w ctx"
    using a by (simp add: absorbed_def absorbed_whole_def)
  moreover have "sha_buflen ctx \<le> 64"
    using a by (simp add: absorbed_def)
  ultimately show "sha_buflen ctx \<le> 64 \<and> (\<exists>w. m = w @ take (sha_buflen ctx) (sha_buf ctx) \<and> absorbed_whole w ctx)"
    by blast
next
  assume "sha_buflen ctx \<le> 64 \<and> (\<exists>w. m = w @ take (sha_buflen ctx) (sha_buf ctx) \<and> absorbed_whole w ctx)"
  then show "absorbed m ctx"
    by (auto simp: absorbed_def absorbed_whole_def)
qed

lemma process_block_whole:
  assumes "absorbed_whole w ctx" "length bs mod 64 = 0" "length bs < 2 ^ 32"
  shows "absorbed_whole (w @ bs) (sha_process_block bs ctx)"
  using assms
  by (simp add: absorbed_whole_def sha_process_block_def block_loop_eq hash_blocks_append add_total_count mod_add_eq [symmetric])

lemma absorbed_whole_cong: "sha_chain c = sha_chain d \<Longrightarrow> sha_total c = sha_total d \<Longrightarrow> length (sha_buf c) = length (sha_buf d) \<Longrightarrow>
    absorbed_whole w c \<longleftrightarrow> absorbed_whole w d"
  by (simp add: absorbed_whole_def)


lemma length_copy_to [simp]: "i + length bs \<le> length buf \<Longrightarrow> length (copy_to i bs buf) = length buf"
  by (simp add: copy_to_def)

lemma take_copy_to [simp]: "i + length bs \<le> length buf \<Longrightarrow> k = i + length bs \<Longrightarrow> take k (copy_to i bs buf) = take i buf @ bs"
  by (simp add: copy_to_def)

lemma whole_mod: "whole n mod 64 = 0" "whole n \<le> n" "n - whole n = n mod 64"
proof -
  show "whole n mod 64 = 0"
    by (simp add: whole_def minus_mod_eq_mult_div)
  have "n mod 64 \<le> n"
    by simp
  then show "whole n \<le> n" "n - whole n = n mod 64"
    by (auto simp: whole_def)
qed

lemma whole_split: "length buf \<ge> n \<Longrightarrow> take n buf = take (whole n) buf @ take (n mod 64) (drop (whole n) buf)"
proof -
  have "whole n + n mod 64 = n"
    using whole_mod(2,3) [of n] by linarith
  then show ?thesis
    by (metis take_add)
qed

lemma flush_buffer:
  assumes w: "absorbed_whole w ctx" and n: "64 < n" "n \<le> 128" and buf: "length buf = 128" and len: "sha_buflen ctx = n"
  defines "d \<equiv> sha_process_block (take (whole n) buf) (ctx\<lparr>sha_buf := buf\<rparr>)"
  shows "absorbed (w @ take n buf)
    (d\<lparr>sha_buflen := n mod 64, sha_buf := copy_to 0 (take (n mod 64) (drop (whole n) buf)) buf\<rparr>)" (is "absorbed _ ?e")
proof -
  have small: "whole n \<le> 128" "n mod 64 \<le> 128 - whole n" "n mod 64 < 64"
    using whole_mod(2,3) [of n] n by linarith+
  have "absorbed_whole w (ctx\<lparr>sha_buf := buf\<rparr>)"
    using w buf by (simp add: absorbed_whole_def)
  then have "absorbed_whole (w @ take (whole n) buf) d"
    unfolding d_def using small buf whole_mod(1) by (intro process_block_whole) auto
  then have "absorbed_whole (w @ take (whole n) buf) ?e"
    using small buf by (simp add: absorbed_whole_def d_def sha_process_block_def)
  moreover have "take n buf = take (whole n) buf @ take (sha_buflen ?e) (sha_buf ?e)"
    using whole_split [of n buf] n buf small by simp
  ultimately show ?thesis
    unfolding absorbed_split using small by (auto simp del: append_assoc simp: append_assoc [symmetric])
qed

lemma join_buffer_absorbs:
  assumes a: "absorbed m ctx" and r: "join_buffer bs ctx = (bs', ctx')"
  shows "\<exists>taken. bs = taken @ bs' \<and> absorbed (m @ taken) ctx' \<and> (bs' \<noteq> [] \<longrightarrow> sha_buflen ctx' = 0)"
proof (cases "sha_buflen ctx = 0")
  case True
  then show ?thesis
    using a r by (intro exI [of _ "[]"]) (auto simp: join_buffer_def)
next
  case False
  let ?L = "sha_buflen ctx"
  define add where "add = (if 128 - ?L > length bs then length bs else 128 - ?L)"
  define buf where "buf = copy_to ?L (take add bs) (sha_buf ctx)"
  obtain w where w: "m = w @ take ?L (sha_buf ctx)" "absorbed_whole w ctx" and L: "?L \<le> 64"
    using a absorbed_split by blast
  have add: "add \<le> length bs" "?L + add \<le> 128"
    using L by (auto simp: add_def)
  have len: "length (sha_buf ctx) = 128"
    using a by (simp add: absorbed_def)
  have buf: "length buf = 128" "take (?L + add) buf = take ?L (sha_buf ctx) @ take add bs"
    using add len by (simp_all add: buf_def min_absorb2)
  have bs': "bs' = drop add bs"
    using r False by (simp add: join_buffer_def Let_def add_def)
  have "absorbed (m @ take add bs) ctx' \<and> (bs' \<noteq> [] \<longrightarrow> sha_buflen ctx' = 0)"
  proof (cases "?L + add > 64")
    case True
    then have ctx': "ctx' = (sha_process_block (take (whole (?L + add)) buf) (ctx\<lparr>sha_buflen := ?L + add, sha_buf := buf\<rparr>))
        \<lparr>sha_buflen := (?L + add) mod 64, sha_buf := copy_to 0 (take ((?L + add) mod 64) (drop (whole (?L + add)) buf)) buf\<rparr>"
      using r False
      by (simp add: join_buffer_def Let_def sha_process_block_def flip: add_def buf_def)
    moreover have "absorbed_whole w (ctx\<lparr>sha_buflen := ?L + add\<rparr>)"
      using w(2) by (simp add: absorbed_whole_def)
    ultimately have "absorbed (w @ take (?L + add) buf) ctx'"
      using flush_buffer [of w "ctx\<lparr>sha_buflen := ?L + add\<rparr>" "?L + add" buf] True add buf(1) by simp
    moreover have "sha_buflen ctx' = 0" if "bs' \<noteq> []"
    proof -
      have "?L + add = 128"
        using that bs' L by (auto simp: add_def split: if_splits)
      then show ?thesis
        by (simp add: ctx')
    qed
    ultimately show ?thesis
      using w(1) buf(2) by simp
  next
    case short: False
    then have ctx': "ctx' = ctx\<lparr>sha_buf := buf, sha_buflen := ?L + add\<rparr>"
      using r False by (simp add: join_buffer_def Let_def flip: add_def buf_def)
    have "bs' = []"
      using short bs' L by (auto simp: add_def split: if_splits)
    moreover have "absorbed_whole w ctx'"
      using w(2) buf(1) by (simp add: absorbed_whole_def ctx')
    ultimately show ?thesis
      using w(1) buf(2) short absorbed_split [of "m @ take add bs" ctx'] by (simp add: ctx')
  qed
  then show ?thesis
    using bs' by (intro exI [of _ "take add bs"]) simp
qed


lemma unaligned_blocks_absorb:
  assumes "absorbed_whole w ctx" "unaligned_blocks bs ctx = (bs', ctx')"
  shows "\<exists>taken. bs = taken @ bs' \<and> absorbed_whole (w @ taken) ctx' \<and> length bs' \<le> 64 \<and> sha_buflen ctx' = sha_buflen ctx"
  using assms
proof (induction bs ctx arbitrary: w rule: unaligned_blocks.induct)
  case (1 bs ctx)
  show ?case
  proof (cases "length bs > 64")
    case True
    let ?c = "ctx\<lparr>sha_buf := copy_to 0 (take 64 bs) (sha_buf ctx)\<rparr>"
    have len: "length (sha_buf ctx) = 128"
      using "1.prems"(1) by (simp add: absorbed_whole_def)
    then have buf: "take 64 (sha_buf ?c) = take 64 bs" "absorbed_whole w ?c"
      using "1.prems"(1) True by (simp_all add: absorbed_whole_def)
    have "absorbed_whole (w @ take 64 bs) (sha_process_block (take 64 (sha_buf ?c)) ?c)"
      unfolding buf(1) using buf(2) True by (intro process_block_whole) simp_all
    moreover have "unaligned_blocks (drop 64 bs) (sha_process_block (take 64 (sha_buf ?c)) ?c) = (bs', ctx')"
      using "1.prems"(2) True by (simp add: unaligned_blocks.simps [of bs])
    ultimately obtain taken where t: "drop 64 bs = taken @ bs'" "absorbed_whole ((w @ take 64 bs) @ taken) ctx'" "length bs' \<le> 64"
        "sha_buflen ctx' = sha_buflen ctx"
      using "1.IH" [OF True refl] by (fastforce simp: sha_process_block_def)
    have "bs = (take 64 bs @ taken) @ bs'"
      using t(1) by (metis append_assoc append_take_drop_id)
    then show ?thesis
      using t by (intro exI [of _ "take 64 bs @ taken"]) simp
  next
    case False
    then show ?thesis
      using "1.prems" by (intro exI [of _ "[]"]) (simp add: unaligned_blocks.simps [of bs])
  qed
qed

lemma whole_blocks_absorb:
  assumes "absorbed_whole w ctx" "whole_blocks u bs ctx = (bs', ctx')" "length bs < 2 ^ 32"
  shows "\<exists>taken. bs = taken @ bs' \<and> absorbed_whole (w @ taken) ctx' \<and> length bs' \<le> 64 \<and> sha_buflen ctx' = sha_buflen ctx"
proof -
  consider (short) "length bs < 64" | (un) "64 \<le> length bs" u | (al) "64 \<le> length bs" "\<not> u"
    by linarith
  then show ?thesis
  proof cases
    case short
    then show ?thesis
      using assms by (intro exI [of _ "[]"]) (simp add: whole_blocks_def)
  next
    case un
    then show ?thesis
      using assms unaligned_blocks_absorb [OF assms(1), of bs bs' ctx'] by (simp add: whole_blocks_def)
  next
    case al
    have r: "bs' = drop (whole (length bs)) bs" "ctx' = sha_process_block (take (whole (length bs)) bs) ctx"
      using assms(2) al by (simp_all add: whole_blocks_def)
    have "length (take (whole (length bs)) bs) = whole (length bs)"
      using whole_mod(2) [of "length bs"] by simp
    then have "absorbed_whole (w @ take (whole (length bs)) bs) ctx'"
      unfolding r(2) using assms(1,3) whole_mod(1,2) [of "length bs"] by (intro process_block_whole) simp_all
    moreover have "length bs' \<le> 64"
      using whole_mod(3) [of "length bs"] by (simp add: r(1) less_imp_le)
    ultimately show ?thesis
      using r by (intro exI [of _ "take (whole (length bs)) bs"]) (simp add: sha_process_block_def)
  qed
qed

lemma keep_rest_absorbs:
  assumes "absorbed_whole w ctx" "sha_buflen ctx = 0" "length bs \<le> 64"
  shows "absorbed (w @ bs) (keep_rest bs ctx)"
proof -
  have len: "length (sha_buf ctx) = 128"
    using assms(1) by (simp add: absorbed_whole_def)
  consider (none) "bs = []" | (some) "bs \<noteq> []" "length bs < 64" | (block) "length bs = 64"
    using assms(3) by linarith
  then show ?thesis
  proof cases
    case none
    then show ?thesis
      using assms by (auto simp: keep_rest_def absorbed_split)
  next
    case some
    then have "keep_rest bs ctx = ctx\<lparr>sha_buf := copy_to 0 bs (sha_buf ctx), sha_buflen := length bs\<rparr>"
      using assms(2) by (simp add: keep_rest_def Let_def)
    then show ?thesis
      using some assms(1) len by (auto simp: absorbed_split absorbed_whole_def)
  next
    case block
    let ?c = "ctx\<lparr>sha_buf := copy_to 0 bs (sha_buf ctx)\<rparr>"
    have c: "take 64 (sha_buf ?c) = bs" "absorbed_whole w ?c"
      using block assms(1) len by (simp_all add: absorbed_whole_def)
    have "absorbed_whole (w @ bs) (sha_process_block bs ?c)"
      using c(2) block by (intro process_block_whole) simp_all
    moreover have "keep_rest bs ctx = (sha_process_block bs ?c)
        \<lparr>sha_buf := copy_to 0 (take 0 (drop 64 (sha_buf ?c))) (sha_buf ?c), sha_buflen := 0\<rparr>"
      using block assms(2) c(1) len by (simp add: keep_rest_def Let_def sha_process_block_def)
    ultimately show ?thesis
      using len block by (auto simp: absorbed_split absorbed_whole_def sha_process_block_def)
  qed
qed

lemma process_bytes_absorbs:
  assumes a: "absorbed m ctx" and len: "length bs < 2 ^ 32"
  shows "absorbed (m @ bs) (sha_process_bytes u bs ctx)"
proof -
  obtain b1 c1 where j: "join_buffer bs ctx = (b1, c1)"
    by (cases "join_buffer bs ctx")
  obtain b2 c2 where b: "whole_blocks u b1 c1 = (b2, c2)"
    by (cases "whole_blocks u b1 c1")
  obtain t1 where t1: "bs = t1 @ b1" "absorbed (m @ t1) c1" "b1 \<noteq> [] \<longrightarrow> sha_buflen c1 = 0"
    using join_buffer_absorbs [OF a j] by blast
  show ?thesis
  proof (cases "b1 = []")
    case True
    then show ?thesis
      using t1 j b by (simp add: sha_process_bytes_def whole_blocks_def keep_rest_def)
  next
    case False
    then have "absorbed_whole (m @ t1) c1" and empty: "sha_buflen c1 = 0"
      using t1 absorbed_split [of "m @ t1" c1] by auto
    moreover have "length b1 < 2 ^ 32"
      using len t1(1) by simp
    ultimately obtain t2 where t2: "b1 = t2 @ b2" "absorbed_whole ((m @ t1) @ t2) c2" "length b2 \<le> 64" "sha_buflen c2 = 0"
      using whole_blocks_absorb [OF _ b] by metis
    then have "absorbed (((m @ t1) @ t2) @ b2) (keep_rest b2 c2)"
      by (intro keep_rest_absorbs)
    then show ?thesis
      using t1(1) t2(1) j b by (simp add: sha_process_bytes_def)
  qed
qed


section \<open>The end\<close>

lemma take_fillbuf: "0 < k \<Longrightarrow> k \<le> 64 \<Longrightarrow> take k fillbuf = 0x80 # replicate (k - 1) 0"
  by (cases k) (simp_all add: fillbuf_def min_def)

lemma length_be_bytes [simp]: "length (be_bytes w) = 4"
  by (simp add: be_bytes_def)

text \<open>The last bytes: the padding and, out of order, the two words of the length.\<close>

lemma last_bytes:
  assumes "length buf = 128" "b + length p + 8 \<le> 128" "length lo = 4" "length hi = 4"
  shows "take (b + length p + 8) (copy_to (b + length p) hi (copy_to (b + length p + 4) lo (copy_to b p buf))) =
    take b buf @ p @ hi @ lo"
  using assms by (simp add: copy_to_def min_absorb2 ac_simps)

lemma sha_read_ctx_digest: "sha_read_ctx ctx = digest (sha_chain ctx)"
  by (simp add: sha_read_ctx_def digest_def swapped_store split: prod.splits)

lemma finish_ctx_digest:
  assumes a: "absorbed m ctx"
  shows "sha_finish_ctx ctx = sha1 m"
proof -
  let ?B = "sha_buflen ctx"
  define pad where "pad = (if ?B \<ge> 56 then 64 + 56 - ?B else 56 - ?B)"
  define p where "p = take pad fillbuf"
  obtain w where w: "m = w @ take ?B (sha_buf ctx)" "absorbed_whole w ctx" and B: "?B \<le> 64"
    using a absorbed_split by blast
  have len: "length (sha_buf ctx) = 128" and wm: "length w mod 64 = 0" and chain: "sha_chain ctx = hash_blocks w initial_chain"
    and tot: "sha_total ctx = count_of (length w)"
    using w(2) by (simp_all add: absorbed_whole_def)
  have mlen: "length m = length w + ?B"
    using w(1) len B by simp
  then have total: "add_total ?B (sha_total ctx) = count_of (length m)"
    using tot B by (simp add: add_total_count)
  have mmod: "length m mod 64 = ?B mod 64"
    using mlen wm by (simp add: mod_add_eq [symmetric])
  have pad: "0 < pad" "pad \<le> 64" "?B + pad + 8 \<le> 128" "(?B + pad + 8) mod 64 = 0" "(119 - length m mod 64) mod 64 = pad - 1"
  proof -
    consider "?B < 56" | "56 \<le> ?B" "?B < 64" | "?B = 64"
      using B by linarith
    then show "0 < pad" "pad \<le> 64" "?B + pad + 8 \<le> 128" "(?B + pad + 8) mod 64 = 0" "(119 - length m mod 64) mod 64 = pad - 1"
      by (cases; simp add: pad_def mmod le_mod_geq)+
  qed
  have p: "p = 0x80 # replicate ((119 - length m mod 64) mod 64) 0" "length p = pad"
    unfolding p_def pad(5) using take_fillbuf [OF pad(1,2)] pad(1) by simp_all
  let ?lo = "be_bytes (of_nat (8 * length m))" and ?hi = "be_bytes (of_nat (8 * length m div 2 ^ 32))"
  define buf where "buf = copy_to (?B + pad) ?hi (copy_to (?B + pad + 4) ?lo (copy_to ?B p (sha_buf ctx)))"
  have buf: "take (?B + pad + 8) buf = take ?B (sha_buf ctx) @ p @ ?hi @ ?lo"
    unfolding buf_def using last_bytes [of "sha_buf ctx" ?B p ?lo ?hi] len pad(3) p(2) by simp
  have msg: "w @ take (?B + pad + 8) buf = pad_message m"
    unfolding buf pad_message_def p(1) append_assoc [symmetric] w(1) [symmetric] by simp
  have "sha_finish_ctx ctx = sha_read_ctx (sha_process_block (take (?B + pad + 8) buf)
      (ctx\<lparr>sha_total := add_total ?B (sha_total ctx), sha_buf := buf\<rparr>))"
    unfolding sha_finish_ctx_def Let_def total swapped_store bit_length_words
    by (simp only: buf_def p_def pad_def)
  also have "\<dots> = digest (hash_blocks (take (?B + pad + 8) buf) (hash_blocks w initial_chain))"
    by (simp add: sha_read_ctx_digest sha_process_block_def block_loop_eq chain)
  also have "\<dots> = sha1 m"
    using hash_blocks_append [OF wm, of "take (?B + pad + 8) buf" initial_chain]
    by (simp only: sha1_def msg [symmetric])
  finally show ?thesis .
qed

lemma pieces_absorb:
  "absorbed m ctx \<Longrightarrow> \<forall>p \<in> set ps. length (snd p) < 2 ^ 32 \<Longrightarrow>
    absorbed (m @ concat (map snd ps)) (fold (\<lambda>(u, bs). sha_process_bytes u bs) ps ctx)"
proof (induction ps arbitrary: m ctx)
  case (Cons p ps)
  have "absorbed (m @ snd p) (sha_process_bytes (fst p) (snd p) ctx)"
    using Cons.prems by (intro process_bytes_absorbs) auto
  then show ?case
    using Cons.IH [of "m @ snd p"] Cons.prems by (simp add: case_prod_beta)
qed simp


end
