(* ===== verification/Unicone_Sha1_Props.thy ===== *)
theory Unicone_Sha1_Props
  imports Unicone_Sha1_Spec
begin

text \<open>
  What the SHA-1 code of \<^verbatim>\<open>wasabi/devices/unicone/src/sha1.c\<close> computes: the standard's digest of the concatenation of the pieces it
  is given, and of the contents of a stream, however the reads cut it. The standard's own first example is evaluated.
\<close>

section \<open>The standard's example\<close>

lemma upto_abc: "[0..<80] = [0..<16] @ [16..<32] @ [32..<48] @ [48..<64] @ [64..<(80::nat)]"
  by code_simp

lemma pad_abc: "pad_message [0x61, 0x62, 0x63] = [0x61, 0x62, 0x63, 0x80] @ replicate 52 0 @ [0, 0, 0, 0, 0, 0, 0, 0x18]"
  by (simp add: pad_message_def be_bytes_def) (simp add: eval_nat_numeral)?

lemma words_abc: "map (\<lambda>t. NOTSWAP (load_word (take 4 (drop (4 * t)
      ([0x61, 0x62, 0x63, 0x80] @ replicate 52 0 @ [0, 0, 0, 0, 0, 0, 0, 0x18]))))) [0..<16] =
    [0x61626380, 0, 0, 0, 0, 0, 0, 0, 0, 0, 0, 0, 0, 0, 0, 0x18]"
  by code_simp
lemma rounds_abc_0:
  "fold sha_round [0..<16]
    ([0x61626380, 0, 0, 0, 0, 0, 0, 0, 0, 0, 0, 0, 0, 0, 0, 0x18], (0x67452301,
      0xefcdab89, 0x98badcfe, 0x10325476, 0xc3d2e1f0)) =
    ([0x61626380, 0, 0, 0, 0, 0, 0, 0, 0, 0, 0, 0, 0, 0, 0, 0x18], (0x20bdd62f,
      0x196bee77, 0x644a3da5, 0x1181ed99, 0x18c623f9))"
  by code_simp

lemma rounds_abc_1:
  "fold sha_round [16..<32]
    ([0x61626380, 0, 0, 0, 0, 0, 0, 0, 0, 0, 0, 0, 0, 0, 0, 0x18], (0x20bdd62f,
      0x196bee77, 0x644a3da5, 0x1181ed99, 0x18c623f9)) =
    ([0xc2c4c700, 0, 0x30, 0x85898e01, 0, 0x60, 0xb131c03, 0x30, 0x85898ec1, 0x16263806, 0, 0x180,
      0x2c4c700c, 0xf0, 0x93afb507, 0x5898e048], (0x3b845d33, 0x1267b407, 0x717eebd7, 0xa0dc2d4b, 0xd2aa1365))"
  by code_simp

lemma rounds_abc_2:
  "fold sha_round [32..<48]
    ([0xc2c4c700, 0, 0x30, 0x85898e01, 0, 0x60, 0xb131c03, 0x30, 0x85898ec1, 0x16263806, 0, 0x180,
      0x2c4c700c, 0xf0, 0x93afb507, 0x5898e048], (0x3b845d33, 0x1267b407, 0x717eebd7, 0xa0dc2d4b, 0xd2aa1365)) =
    ([0x8e9a9202, 0x600, 0xb131c0f0, 0x16263bc6, 0x4ebed41e, 0x626380a1, 0x16263806, 0x18c0, 0xd2e138c4, 0xf00,
      0x3afb5079, 0x898e04e5, 0xe2ba3c2b, 0x60c0, 0x53a37cd, 0x74458547], (0xbead02ca, 0xa01b846c, 0x8714787c,
      0x503ca382, 0xfb86c6ab))"
  by code_simp

lemma rounds_abc_3:
  "fold sha_round [48..<64]
    ([0x8e9a9202, 0x600, 0xb131c0f0, 0x16263bc6, 0x4ebed41e, 0x626380a1, 0x16263806, 0x18c0, 0xd2e138c4, 0xf00,
      0x3afb5079, 0x898e04e5, 0xe2ba3c2b, 0x60c0, 0x53a37cd, 0x74458547], (0xbead02ca, 0xa01b846c, 0x8714787c,
      0x503ca382, 0xfb86c6ab)) =
    ([0xda9415ed, 0x26380a16, 0x626383a1, 0x4ebf54de, 0x3835b44b, 0xf600, 0x1e84c7a3, 0x98e04d98, 0x651d16a0,
      0x62658ca1, 0x458544d6, 0x44584cb7, 0x7ba06619, 0x6380aea2, 0xae55269, 0x627b49a1], (0x6b61c9e1, 0xb66c020b,
      0x9523272c, 0xf5d5b051, 0x8fd4b796))"
  by code_simp

lemma rounds_abc_4:
  "fold sha_round [64..<80]
    ([0xda9415ed, 0x26380a16, 0x626383a1, 0x4ebf54de, 0x3835b44b, 0xf600, 0x1e84c7a3, 0x98e04d98, 0x651d16a0,
      0x62658ca1, 0x458544d6, 0x44584cb7, 0x7ba06619, 0x6380aea2, 0xae55269, 0x627b49a1], (0x6b61c9e1, 0xb66c020b,
      0x9523272c, 0xf5d5b051, 0x8fd4b796)) =
    ([0x7cd45c9d, 0xf0000, 0xfb50753a, 0xec6765e8, 0xba3c2be2, 0x60c000, 0x3a37cd05, 0x458546f4, 0xb8599dd6,
      0x380a1a26, 0x1e02203, 0xe7cc3456, 0xe6e60b69, 0xf60a00, 0x5795ef4f, 0x822e0879], (0x42541b35, 0x5738d5e1,
      0x21834873, 0x681e6df6, 0xd8fdf6ad))"
  by code_simp

lemma rounds_abc:
  "fold sha_round [0..<80]
    ([0x61626380, 0, 0, 0, 0, 0, 0, 0, 0, 0, 0, 0, 0, 0, 0, 0x18], (0x67452301,
      0xefcdab89, 0x98badcfe, 0x10325476, 0xc3d2e1f0)) =
    ([0x7cd45c9d, 0xf0000, 0xfb50753a, 0xec6765e8, 0xba3c2be2, 0x60c000, 0x3a37cd05, 0x458546f4, 0xb8599dd6,
      0x380a1a26, 0x1e02203, 0xe7cc3456, 0xe6e60b69, 0xf60a00, 0x5795ef4f, 0x822e0879], (0x42541b35, 0x5738d5e1,
      0x21834873, 0x681e6df6, 0xd8fdf6ad))"
  unfolding upto_abc fold_append o_apply unfolding rounds_abc_0 unfolding rounds_abc_1 unfolding rounds_abc_2
  unfolding rounds_abc_3 by (rule rounds_abc_4)

lemma block_abc:
  "one_block (pad_message [0x61, 0x62, 0x63]) initial_chain = (0xA9993E36, 0x4706816A, 0xBA3E2571, 0x7850C26C, 0x9CD0D89D)"
  unfolding one_block_def Let_def pad_abc words_abc initial_chain_def rounds_abc
  by (simp add: add_chain_def)

lemma digest_abc: "digest (0xA9993E36, 0x4706816A, 0xBA3E2571, 0x7850C26C, 0x9CD0D89D) =
    [0xa9, 0x99, 0x3e, 0x36, 0x47, 0x06, 0x81, 0x6a, 0xba, 0x3e, 0x25, 0x71, 0x78, 0x50, 0xc2, 0x6c, 0x9c, 0xd0, 0xd8, 0x9d]"
  by code_simp

text \<open>The standard's first example.\<close>

lemma sha1_abc: "sha1 [0x61, 0x62, 0x63] =
    [0xa9, 0x99, 0x3e, 0x36, 0x47, 0x06, 0x81, 0x6a, 0xba, 0x3e, 0x25, 0x71, 0x78, 0x50, 0xc2, 0x6c, 0x9c, 0xd0, 0xd8, 0x9d]"
proof -
  have "length (pad_message [0x61, 0x62, 0x63]) = 64"
    by (simp add: pad_abc)
  then have "hash_blocks (pad_message [0x61, 0x62, 0x63]) initial_chain =
      (0xA9993E36, 0x4706816A, 0xBA3E2571, 0x7850C26C, 0x9CD0D89D)"
    using block_abc by (simp add: hash_blocks.simps [of "pad_message _"] hash_blocks.simps [of "[]"] one_block_eq)
  then show ?thesis
    unfolding sha1_def by (simp only: digest_abc)
qed

section \<open>Pieces\<close>

text \<open>C9: a context that was given any pieces, in any alignment, has the digest of all of them as one message.\<close>

theorem pieces_digest:
  assumes "length junk = 128" "\<forall>p \<in> set ps. length (snd p) < 2 ^ 32"
  shows "sha_finish_ctx (fold (\<lambda>(u, bs). sha_process_bytes u bs) ps (sha_init_ctx junk)) = sha1 (concat (map snd ps))"
  using pieces_absorb [OF absorbed_init [OF assms(1)] assms(2)] by (simp add: finish_ctx_digest)

theorem pieces_digest_witness:
  "sha_finish_ctx (fold (\<lambda>(u, bs). sha_process_bytes u bs) [(True, [0x61]), (False, []), (False, [0x62, 0x63])]
      (sha_init_ctx (replicate 128 0))) =
    [0xa9, 0x99, 0x3e, 0x36, 0x47, 0x06, 0x81, 0x6a, 0xba, 0x3e, 0x25, 0x71, 0x78, 0x50, 0xc2, 0x6c, 0x9c, 0xd0, 0xd8, 0x9d]"
  using pieces_digest [of "replicate 128 0" "[(True, [0x61]), (False, []), (False, [0x62, 0x63])]"]
  by (simp add: sha1_abc)

lemma buffer_digest: "length junk = 128 \<Longrightarrow> length bs < 2 ^ 32 \<Longrightarrow> sha_buffer u junk bs = sha1 bs"
  using process_bytes_absorbs [OF absorbed_init, of junk bs u] by (simp add: sha_buffer_def finish_ctx_digest)

lemma length_sha1 [simp]: "length (sha1 m) = 20"
  by (simp add: sha1_def digest_def split: prod.splits)

section \<open>Streams\<close>

lemma fread_good:
  assumes "fread_bytes n f = (bs, f', eof)" "0 < n" "[] \<notin> set (fst f)" "\<not> snd f"
  shows "[] \<notin> set (fst f') \<and> \<not> snd f' \<and> length bs \<le> n \<and> (bs = [] \<or> eof \<longrightarrow> fst f' = []) \<and> (bs = [] \<longrightarrow> fst f = [])"
  using assms by (cases f; cases "fst f") (auto simp: fread_bytes_def split: if_splits)

lemma fill_block_good:
  assumes "length got < BLOCKSIZE" "[] \<notin> set (fst f)" "\<not> snd f"
  shows "case fill_block got f of
      ReadError \<Rightarrow> False
    | Full bs f' \<Rightarrow> [] \<notin> set (fst f') \<and> \<not> snd f'
    | Partial bs \<Rightarrow> bs = got @ concat (fst f) \<and> length bs < BLOCKSIZE"
  using assms
proof (induction got f rule: fill_block.induct)
  case (1 got f)
  obtain n f1 eof where r: "fread_bytes (BLOCKSIZE - length got) f = (n, f1, eof)"
    by (cases "fread_bytes (BLOCKSIZE - length got) f")
  have g: "[] \<notin> set (fst f1)" "\<not> snd f1" "length n \<le> BLOCKSIZE - length got" "n = [] \<or> eof \<longrightarrow> fst f1 = []"
      "n = [] \<longrightarrow> fst f = []"
    using fread_good [OF r] "1.prems" by simp_all
  have content: "concat (fst f) = n @ concat (fst f1)"
    using fread_size [OF r] by simp
  show ?case
  proof (cases "length (got @ n) = BLOCKSIZE \<or> n = [] \<or> eof")
    case True
    then show ?thesis
      using r g content "1.prems" by (auto simp: fill_block.simps [of got f] Let_def)
  next
    case False
    then have "length (got @ n) < BLOCKSIZE"
      using g(3) "1.prems" by auto
    moreover have "fill_block got f = fill_block (got @ n) f1"
      using False r by (simp add: fill_block.simps [of got f] Let_def)
    ultimately show ?thesis
      using "1.IH" [OF refl r [symmetric] refl refl] False g content by (simp cong: filled_block.case_cong)
  qed
qed

lemma stream_loop_absorbs:
  assumes "absorbed m ctx" "sha_buflen ctx = 0" "[] \<notin> set (fst f)" "\<not> snd f"
  shows "\<exists>bs c taken. stream_loop u f ctx = Some (bs, c) \<and> concat (fst f) = taken @ bs \<and> absorbed (m @ taken) c \<and>
    length bs < BLOCKSIZE"
  using assms
proof (induction u f ctx arbitrary: m rule: stream_loop.induct)
  case (1 u f ctx)
  have good: "case fill_block [] f of ReadError \<Rightarrow> False | Full bs f' \<Rightarrow> [] \<notin> set (fst f') \<and> \<not> snd f'
      | Partial bs \<Rightarrow> bs = concat (fst f) \<and> length bs < BLOCKSIZE"
    using fill_block_good [of "[]" f, unfolded append_Nil] "1.prems" by (simp add: BLOCKSIZE_def)
  show ?case
  proof (cases "fill_block [] f")
    case ReadError
    then show ?thesis
      using good by simp
  next
    case (Partial bs)
    then show ?thesis
      using good "1.prems"
      by - (rule exI [of _ bs], rule exI [of _ ctx], rule exI [of _ "[]"], auto simp: stream_loop.simps [of u f])
  next
    case (Full bs f')
    have bs: "bs @ concat (fst f') = concat (fst f)" "length bs = BLOCKSIZE"
      using fill_block_content [OF Full] by simp_all
    have "absorbed_whole m ctx"
      using "1.prems"(1,2) by (auto simp: absorbed_split)
    then have "absorbed_whole (m @ bs) (sha_process_block bs ctx)"
      using bs(2) by (intro process_block_whole) (simp_all add: BLOCKSIZE_def)
    moreover have empty: "sha_buflen (sha_process_block bs ctx) = 0"
      using "1.prems"(2) by (simp add: sha_process_block_def)
    ultimately have "absorbed (m @ bs) (sha_process_block bs ctx)"
      by (auto simp: absorbed_split)
    then obtain bs' c taken where "stream_loop u f' (sha_process_block bs ctx) = Some (bs', c)"
        "concat (fst f') = taken @ bs'" "absorbed ((m @ bs) @ taken) c" "length bs' < BLOCKSIZE"
      using "1.IH" [OF Full _ empty] good Full by fastforce
    then show ?thesis
      using bs(1) Full
      by - (rule exI [of _ bs'], rule exI [of _ c], rule exI [of _ "bs @ taken"], simp add: stream_loop.simps [of u f])
  qed
qed

text \<open>hashing a stream gives the digest of its contents, wherever the reads of it stop short.\<close>

lemma stream_digest:
  assumes "length junk = 128" "[] \<notin> set pieces"
  shows "sha_stream unaligned junk (pieces, False) = (0, sha1 (concat pieces))"
proof -
  obtain bs c taken where r: "stream_loop unaligned (pieces, False) (sha_init_ctx junk) = Some (bs, c)" "concat pieces = taken @ bs"
      "absorbed taken c" "length bs < BLOCKSIZE"
    using stream_loop_absorbs [OF absorbed_init [OF assms(1)], of "(pieces, False)" unaligned] assms(2)
    by (auto simp: sha_init_ctx_def)
  moreover have "absorbed (taken @ bs) (sha_process_bytes unaligned bs c)"
    using r(3,4) by (intro process_bytes_absorbs) (simp_all add: BLOCKSIZE_def)
  ultimately show ?thesis
    by (auto simp: sha_stream_def finish_ctx_digest)
qed

lemma stream_digest_witness:
  "sha_stream True (replicate 128 0) ([[0x61, 0x62], [0x63]], False) =
    (0, [0xa9, 0x99, 0x3e, 0x36, 0x47, 0x06, 0x81, 0x6a, 0xba, 0x3e, 0x25, 0x71, 0x78, 0x50, 0xc2, 0x6c, 0x9c, 0xd0, 0xd8, 0x9d])"
  using stream_digest [of "replicate 128 0" "[[0x61, 0x62], [0x63]]" True] by (simp add: sha1_abc)

text \<open>A stream that fails before its end gives no digest.\<close>

lemma failing_stream: "sha_stream u junk ([], True) = (1, [])"
  by (simp add: sha_stream_def stream_loop.simps fill_block.simps fread_bytes_def BLOCKSIZE_def)

end
