(* ===== verification/Tusb_Usb.thy ===== *)
theory Tusb_Usb
  imports Prelude
begin

text \<open>
  The USB driver of the TUSB3410 firmware library (\<^verbatim>\<open>tusb/src/usb_driver.c\<close>): control requests on endpoint 0, answered in
  packets of up to 8 bytes, and the buffers of the bulk endpoints, which the controller fills by itself.

  The driver waits for the controller to take each packet; the wait is bounded and ends the same way when it fails, so it
  is not part of the model. Packets are what the controller is given, in order. An \<^verbatim>\<open>int\<close> of this compiler has 16 bits.
\<close>

record usb_ctrlrequest =
  bRequestType :: byte
  bRequest :: byte
  wValue :: u16
  wIndex :: u16
  wLength :: u16

record usb_descriptor_entry =
  ud_type :: byte
  ud_index :: byte
  ud_buffer :: "byte list"
  ud_length :: nat
  ud_language :: u16

text \<open>What the host gets for a request: the end of a request without data, packets, nothing because the endpoint stays
  stalled, or nothing because the handler does not return.\<close>

datatype reply = Acked | Packets "byte list list" | Stalled | Hung

section \<open>Endpoint 0\<close>

fun send_packets :: "byte list \<Rightarrow> byte list list" where
  "send_packets bs = (if length bs > 8 then take 8 bs # send_packets (drop 8 bs) else [bs])"

declare send_packets.simps [simp del]

definition usb_write_ep0_buffer :: "u16 \<Rightarrow> byte list \<Rightarrow> byte list list" where
  "usb_write_ep0_buffer len bs =
     (let explicit_stop = length bs < unat len;
          ps = send_packets (take (unat len) bs)
      in ps @ (if explicit_stop \<and> length (last ps) = 8 then [[]] else []))"

text \<open>The inner loop of \<^verbatim>\<open>usb_write_ep0_string_descriptor\<close>: a packet is filled with characters of 16 bits. Past its characters
  a string has its NUL.\<close>

function fill_packet :: "byte list \<Rightarrow> int \<Rightarrow> byte list \<Rightarrow> byte list \<times> int \<times> byte list" where
  "fill_packet packet remaining s =
     (if remaining > 0 \<and> length packet < 8
      then fill_packet (packet @ [case s of [] \<Rightarrow> 0 | c # _ \<Rightarrow> c, 0]) (remaining - 2) (tl s)
      else (packet, remaining, s))"
  by auto
termination
  by (relation "measure (\<lambda>(p, r, s). 8 - length p)") auto

declare fill_packet.simps [simp del]

lemma fill_packet_shrinks: "fill_packet packet remaining s = (p, r, s') \<Longrightarrow> r \<le> remaining"
proof (induction packet remaining s rule: fill_packet.induct)
  case (1 packet remaining s)
  then show ?case
    by (subst (asm) (2) fill_packet.simps) (fastforce split: if_splits)
qed

lemma fill_packet_progress:
  assumes "fill_packet packet remaining s = (p, r, s')" "length packet < 8" "0 < r"
  shows "r < remaining"
proof -
  have "0 < remaining"
    using fill_packet_shrinks [OF assms(1)] assms(3) by simp
  then have "fill_packet (packet @ [case s of [] \<Rightarrow> 0 | c # _ \<Rightarrow> c, 0]) (remaining - 2) (tl s) = (p, r, s')"
    using assms(1,2) by (subst (asm) fill_packet.simps) simp
  then show ?thesis
    using fill_packet_shrinks by fastforce
qed

definition USB_DT_STRING :: byte where "USB_DT_STRING = 3"

text \<open>The outer loop; the first packet begins with the header.\<close>

function string_packets :: "int \<Rightarrow> bool \<Rightarrow> int \<Rightarrow> byte list \<Rightarrow> byte list list" where
  "string_packets tot first remaining s =
     (case fill_packet (if first then [of_int tot, USB_DT_STRING] else []) remaining s of
        (p, r, s') \<Rightarrow> if r \<le> 0 then [p] else p # string_packets tot False r s')"
  by auto
termination
  by (relation "measure (\<lambda>(t, f, r, s). nat r)") (auto dest!: fill_packet_progress [OF sym] split: if_splits)

declare string_packets.simps [simp del]

definition usb_write_ep0_string_descriptor :: "u16 \<Rightarrow> byte list \<Rightarrow> byte list list" where
  "usb_write_ep0_string_descriptor len s =
     (let remaining_length = sint len;
          total_length = 2 + 2 * int (length s);
          explicit_stop = remaining_length > total_length;
          remaining_length = (if explicit_stop then total_length else remaining_length);
          ps = string_packets total_length True (remaining_length - 2) s
      in ps @ (if explicit_stop \<and> length (last ps) = 8 then [[]] else []))"

section \<open>Requests\<close>

definition USB_REQ_GET_STATUS :: byte where "USB_REQ_GET_STATUS = 0x00"
definition USB_REQ_SET_ADDRESS :: byte where "USB_REQ_SET_ADDRESS = 0x05"
definition USB_REQ_GET_DESCRIPTOR :: byte where "USB_REQ_GET_DESCRIPTOR = 0x06"
definition USB_REQ_SET_CONFIGURATION :: byte where "USB_REQ_SET_CONFIGURATION = 0x09"
definition USB_REQ_SET_INTERFACE :: byte where "USB_REQ_SET_INTERFACE = 0x0B"
definition USB_TYPE_MASK :: byte where "USB_TYPE_MASK = 0x60"
definition USB_TYPE_STANDARD :: byte where "USB_TYPE_STANDARD = 0x00"
definition USB_TYPE_VENDOR :: byte where "USB_TYPE_VENDOR = 0x40"

lemmas usb_requests = USB_REQ_GET_STATUS_def USB_REQ_SET_ADDRESS_def USB_REQ_GET_DESCRIPTOR_def
  USB_REQ_SET_CONFIGURATION_def USB_REQ_SET_INTERFACE_def USB_TYPE_MASK_def USB_TYPE_STANDARD_def USB_TYPE_VENDOR_def

text \<open>The table of descriptors ends with an entry of type 0, or with the list.\<close>

fun usb_handle_descriptor_request :: "usb_descriptor_entry list \<Rightarrow> usb_ctrlrequest \<Rightarrow> reply" where
  "usb_handle_descriptor_request [] req = Stalled"
| "usb_handle_descriptor_request (d # ds) req =
     (if ud_type d = 0 then Stalled
      else if ud_type d \<noteq> ucast (drop_bit 8 (wValue req)) then usb_handle_descriptor_request ds req
      else if ud_index d \<noteq> ucast (wValue req) then usb_handle_descriptor_request ds req
      else if ud_language d \<noteq> 0 \<and> ud_language d \<noteq> wIndex req then usb_handle_descriptor_request ds req
      else if ud_type d = USB_DT_STRING \<and> ud_length d = 0
      then Packets (usb_write_ep0_string_descriptor (wLength req) (takeWhile (\<lambda>c. c \<noteq> 0) (ud_buffer d)))
      else Packets (usb_write_ep0_buffer (wLength req) (take (ud_length d) (ud_buffer d))))"

text \<open>The address of the device is the register \<^verbatim>\<open>FUNADR\<close>.\<close>

definition usb_handle_standard_request :: "usb_descriptor_entry list \<Rightarrow> usb_ctrlrequest \<Rightarrow> byte \<Rightarrow> reply \<times> byte" where
  "usb_handle_standard_request ds req addr =
     (if bRequest req = USB_REQ_GET_STATUS then (Packets (usb_write_ep0_buffer (wLength req) [0, 0]), addr)
      else if bRequest req = USB_REQ_SET_ADDRESS then (Acked, ucast (wValue req))
      else if bRequest req = USB_REQ_GET_DESCRIPTOR then (usb_handle_descriptor_request ds req, addr)
      else if bRequest req = USB_REQ_SET_CONFIGURATION \<or> bRequest req = USB_REQ_SET_INTERFACE then (Acked, addr)
      else (Stalled, addr))"

text \<open>\<open>vendor\<close>: the application's handler of vendor requests.\<close>

definition usb_handle_setup ::
    "usb_descriptor_entry list \<Rightarrow> (usb_ctrlrequest \<Rightarrow> 's \<Rightarrow> reply \<times> 's) \<Rightarrow> usb_ctrlrequest \<Rightarrow> byte \<times> 's \<Rightarrow> reply \<times> byte \<times> 's" where
  "usb_handle_setup ds vendor req = (\<lambda>(addr, s).
     if bRequestType req AND USB_TYPE_MASK = USB_TYPE_STANDARD
     then let (r, addr) = usb_handle_standard_request ds req addr in (r, addr, s)
     else if bRequestType req AND USB_TYPE_MASK = USB_TYPE_VENDOR
     then let (r, s) = vendor req s in (r, addr, s)
     else (Stalled, addr, s))"

section \<open>Bulk endpoints\<close>

text \<open>The endpoint descriptor block of an OUT endpoint, and its buffer. The top bit of the count is set by the controller
  when it has filled the buffer.\<close>

record edb =
  x_count :: byte
  x_buffer :: "byte list"

definition usb_dma_setup :: "edb \<Rightarrow> edb" where "usb_dma_setup e = e\<lparr>x_count := 0\<rparr>"

definition usb_dma_unstall :: "edb \<Rightarrow> edb" where "usb_dma_unstall e = e\<lparr>x_count := 0x80\<rparr>"

definition usb_dma_status :: "edb \<Rightarrow> nat" where
  "usb_dma_status e =
     (if x_count e AND 0x80 \<noteq> 0 then let c = x_count e AND 0x7F in if c = 0 then 1 else unat c else 0)"

text \<open>The controller: a packet is taken when the buffer is free, and refused - the host will try again - when it is not.\<close>

definition dma_receive :: "byte list \<Rightarrow> edb \<Rightarrow> edb option" where
  "dma_receive bs e =
     (if x_count e AND 0x80 = 0 \<and> length bs \<le> length (x_buffer e)
      then Some (e\<lparr>x_count := 0x80 OR of_nat (length bs), x_buffer := bs @ drop (length bs) (x_buffer e)\<rparr>) else None)"

section \<open>What the host reads\<close>

text \<open>A control transfer ends for the host when it has the length that it asked for, or with a packet that is not full. It
  is not well-formed when it goes on or has not ended.\<close>

fun host_reads :: "nat \<Rightarrow> byte list list \<Rightarrow> byte list option" where
  "host_reads n [] = None"
| "host_reads n (p # ps) =
     (if length p > n \<or> length p > 8 then None
      else if length p = n \<or> length p < 8 then if ps = [] then Some p else None
      else map_option ((@) p) (host_reads (n - length p) ps))"

lemma send_packets_nonempty [simp]: "send_packets bs \<noteq> []"
  by (simp add: send_packets.simps [of bs])

lemma host_reads_packets:
  "length bs \<le> n \<Longrightarrow>
    host_reads n (send_packets bs @ (if length bs < n \<and> length (last (send_packets bs)) = 8 then [[]] else [])) = Some bs"
proof (induction bs arbitrary: n rule: send_packets.induct)
  case (1 bs)
  show ?case
  proof (cases "length bs > 8")
    case True
    then have "host_reads (n - 8) (send_packets (drop 8 bs) @
        (if length (drop 8 bs) < n - 8 \<and> length (last (send_packets (drop 8 bs))) = 8 then [[]] else [])) = Some (drop 8 bs)"
      using 1 by (intro "1.IH") auto
    moreover have "length bs < n \<longleftrightarrow> length (drop 8 bs) < n - 8"
      using True "1.prems" by auto
    ultimately show ?thesis
      using True "1.prems" by (simp add: send_packets.simps [of bs] min_def)
  next
    case False
    then show ?thesis
      using "1.prems" by (auto simp: send_packets.simps [of bs])
  qed
qed

lemma ep0_transfer: "host_reads (unat len) (usb_write_ep0_buffer len bs) = Some (take (unat len) bs)"
proof (cases "length bs < unat len")
  case True
  then show ?thesis
    using host_reads_packets [of bs "unat len"] by (simp add: usb_write_ep0_buffer_def Let_def)
next
  case False
  then show ?thesis
    using host_reads_packets [of "take (unat len) bs" "unat len"] by (simp add: usb_write_ep0_buffer_def Let_def)
qed


text \<open>A string descriptor: its length, its type, and characters of 16 bits.\<close>

definition string_descriptor :: "byte list \<Rightarrow> byte list" where
  "string_descriptor s = [of_nat (2 + 2 * length s), USB_DT_STRING] @ concat (map (\<lambda>c. [c, 0]) s)"

lemma length_wide [simp]: "length (concat (map (\<lambda>c. [c, 0 :: byte]) s)) = 2 * length s"
  by (induction s) auto

text \<open>The packets of a string: a filled packet and what is left of the string.\<close>

lemma fill_packet_wide:
  assumes "length packet \<le> 8" "even (length packet)" "k \<le> length s"
  shows "fill_packet packet (2 * int k) s =
    (let j = min k (4 - length packet div 2)
     in (packet @ concat (map (\<lambda>c. [c, 0]) (take j s)), 2 * int (k - j), drop j s))"
  using assms
proof (induction k arbitrary: packet s)
  case 0
  then show ?case
    by (simp add: fill_packet.simps)
next
  case (Suc k)
  then obtain c t where s: "s = c # t"
    by (cases s) auto
  show ?case
  proof (cases "length packet = 8")
    case True
    then show ?thesis
      by (simp add: fill_packet.simps)
  next
    case False
    then have l: "length packet + 2 \<le> 8" "length packet < 8"
      using Suc.prems by presburger+
    then have j: "min (Suc k) (4 - length packet div 2) = Suc (min k (4 - (length packet + 2) div 2))"
      by simp
    have "fill_packet packet (2 * int (Suc k)) s = fill_packet (packet @ [c, 0]) (2 * int k) t"
      using l by (subst fill_packet.simps) (simp add: s)
    then show ?thesis
      using Suc.IH [of "packet @ [c, 0]" t] Suc.prems l j by (simp add: s Let_def)
  qed
qed

lemma take_wide: "take (2 * j) (concat (map (\<lambda>c. [c, 0 :: byte]) s)) = concat (map (\<lambda>c. [c, 0]) (take j s))"
proof (induction j arbitrary: s)
  case (Suc j)
  then show ?case
    by (cases s) simp_all
qed simp

text \<open>Later packets: what the host reads of them.\<close>

lemma string_packets_rest:
  assumes "0 < k" "k \<le> length s" "2 * k \<le> n"
  shows "host_reads n (string_packets tot False (2 * int k) s @
      (if 2 * k < n \<and> length (last (string_packets tot False (2 * int k) s)) = 8 then [[]] else [])) =
    Some (concat (map (\<lambda>c. [c, 0]) (take k s)))"
  using assms
proof (induction k arbitrary: n s rule: less_induct)
  case (less k)
  let ?j = "min k 4"
  have f: "fill_packet [] (2 * int k) s = (concat (map (\<lambda>c. [c, 0]) (take ?j s)), 2 * int (k - ?j), drop ?j s)"
    using fill_packet_wide [of "[]" k s] less.prems by (simp add: Let_def)
  show ?case
  proof (cases "k \<le> 4")
    case True
    then show ?thesis
      using f less.prems by (auto simp: string_packets.simps [of tot False])
  next
    case False
    have ne: "string_packets tot False (2 * int (k - 4)) (drop 4 s) \<noteq> []"
      by (subst string_packets.simps) (auto split: prod.splits)
    have "string_packets tot False (2 * int k) s =
        concat (map (\<lambda>c. [c, 0]) (take 4 s)) # string_packets tot False (2 * int (k - 4)) (drop 4 s)"
      using f False by (simp add: string_packets.simps [of tot False "2 * int k"] min_def)
    moreover have "host_reads (n - 8) (string_packets tot False (2 * int (k - 4)) (drop 4 s) @
        (if 2 * (k - 4) < n - 8 \<and> length (last (string_packets tot False (2 * int (k - 4)) (drop 4 s))) = 8 then [[]] else [])) =
        Some (concat (map (\<lambda>c. [c, 0]) (take (k - 4) (drop 4 s))))"
      using less.prems False by (intro less.IH) auto
    moreover have "2 * (k - 4) < n - 8 \<longleftrightarrow> 2 * k < n" "take k s = take 4 s @ take (k - 4) (drop 4 s)"
      using False less.prems by (auto simp flip: take_add)
    ultimately show ?thesis
      using False less.prems ne by (simp add: min_def)
  qed
qed

text \<open>All packets, from the header on, when \<open>k\<close> characters are sent.\<close>

lemma string_packets_all:
  assumes "k \<le> length s" "2 + 2 * k \<le> n"
  shows "host_reads n (string_packets tot True (2 * int k) s @
      (if 2 + 2 * k < n \<and> length (last (string_packets tot True (2 * int k) s)) = 8 then [[]] else [])) =
    Some ([of_int tot, USB_DT_STRING] @ concat (map (\<lambda>c. [c, 0]) (take k s)))"
proof -
  let ?h = "[of_int tot, USB_DT_STRING]"
  let ?j = "min k 3"
  have f: "fill_packet ?h (2 * int k) s = (?h @ concat (map (\<lambda>c. [c, 0]) (take ?j s)), 2 * int (k - ?j), drop ?j s)"
    using fill_packet_wide [of ?h k s] assms by (simp add: Let_def)
  show ?thesis
  proof (cases "k \<le> 3")
    case True
    then show ?thesis
      using f assms by (auto simp: string_packets.simps [of tot True])
  next
    case False
    have ne: "string_packets tot False (2 * int (k - 3)) (drop 3 s) \<noteq> []"
      by (subst string_packets.simps) (auto split: prod.splits)
    have "string_packets tot True (2 * int k) s =
        (?h @ concat (map (\<lambda>c. [c, 0]) (take 3 s))) # string_packets tot False (2 * int (k - 3)) (drop 3 s)"
      using f False by (simp add: string_packets.simps [of tot True "2 * int k"] min_def)
    moreover have "host_reads (n - 8) (string_packets tot False (2 * int (k - 3)) (drop 3 s) @
        (if 2 * (k - 3) < n - 8 \<and> length (last (string_packets tot False (2 * int (k - 3)) (drop 3 s))) = 8 then [[]] else [])) =
        Some (concat (map (\<lambda>c. [c, 0]) (take (k - 3) (drop 3 s))))"
      using assms False by (intro string_packets_rest) auto
    moreover have "2 * (k - 3) < n - 8 \<longleftrightarrow> 2 + 2 * k < n" "take k s = take 3 s @ take (k - 3) (drop 3 s)"
      using False assms by (auto simp flip: take_add)
    ultimately show ?thesis
      using False assms ne by (simp add: min_def)
  qed
qed

lemma string_transfer_complete:
  assumes "2 \<le> unat len" "unat len < 2 ^ 15" "even (unat len) \<or> 2 + 2 * length s < unat len"
  shows "host_reads (unat len) (usb_write_ep0_string_descriptor len s) = Some (take (unat len) (string_descriptor s))"
proof -
  obtain n where n: "unat len = n"
    by simp
  have "sint len = int (unat len)"
    unfolding sint_uint uint_nat
    by (rule signed_take_bit_int_eq_self) (use assms(2) in \<open>simp_all del: of_nat_unat\<close>)
  then have sint: "sint len = int n"
    by (simp only: n)
  show ?thesis
  proof (cases "2 + 2 * length s < n")
    case True
    then show ?thesis
      using string_packets_all [of "length s" s n "2 + 2 * int (length s)"]
      by (simp add: usb_write_ep0_string_descriptor_def Let_def sint n string_descriptor_def algebra_simps)
  next
    case False
    then obtain j where "n = 2 * j"
      using assms(3) n by (auto elim: evenE)
    then obtain k where k: "n = 2 + 2 * k" "k \<le> length s"
      using assms(1) False n by (cases j) auto
    then show ?thesis
      using string_packets_all [of k s n "2 + 2 * int (length s)"] False take_wide [of k s]
      by (simp add: usb_write_ep0_string_descriptor_def Let_def sint n string_descriptor_def algebra_simps)
  qed
qed

text \<open>An odd length is overrun: the host asked for three bytes and is sent four.\<close>

lemma odd_string_length_overruns:
  "usb_write_ep0_string_descriptor 3 [0x41] = [[4, 3, 0x41, 0]]"
  "host_reads 3 (usb_write_ep0_string_descriptor 3 [0x41]) = None"
  by code_simp+

section \<open>Bulk endpoints\<close>

lemma dma_counts:
  assumes "0 < n" "n \<le> 64"
  shows "usb_dma_status (e\<lparr>x_count := 0x80 OR of_nat n\<rparr>) = n"
proof -
  have "\<forall>k \<in> set [1..<65]. usb_dma_status (\<lparr>x_count = 0x80 OR of_nat k, x_buffer = []\<rparr>) = k"
    by (simp add: usb_dma_status_def del: upt_rec_numeral) code_simp
  then show ?thesis
    using assms by (simp add: usb_dma_status_def)
qed

text \<open>A received packet is read back whole, and the endpoint is not free before it has been set up again.\<close>

lemma dma_roundtrip:
  assumes "dma_receive bs e = Some e'" "bs \<noteq> []" "length (x_buffer e) = 64"
  shows "take (usb_dma_status e') (x_buffer e') = bs \<and> dma_receive cs e' = None \<and> length (x_buffer e') = 64 \<and>
    usb_dma_status (usb_dma_setup e') = 0"
proof -
  have e': "e' = e\<lparr>x_count := 0x80 OR of_nat (length bs), x_buffer := bs @ drop (length bs) (x_buffer e)\<rparr>" "length bs \<le> 64"
    using assms(1,3) by (auto simp: dma_receive_def split: if_splits)
  have "usb_dma_status e' = length bs"
    using dma_counts [of "length bs" "e\<lparr>x_buffer := bs @ drop (length bs) (x_buffer e)\<rparr>"] assms(2) e'
    by (simp add: usb_dma_status_def)
  moreover have "x_count e' AND 0x80 \<noteq> 0"
    by (simp add: e'(1) bit.conj_disj_distrib2)
  ultimately show ?thesis
    using e' assms(3) by (simp add: dma_receive_def usb_dma_setup_def usb_dma_status_def)
qed

text \<open>An empty packet is taken for one byte, which is whatever the buffer had.\<close>

lemma empty_packet_is_a_byte: "x_count e = 0 \<Longrightarrow> map_option usb_dma_status (dma_receive [] e) = Some 1"
  by (simp add: dma_receive_def usb_dma_status_def)

end
