(* ===== verification/Unicone_Protocol.thy ===== *)
theory Unicone_Protocol
  imports Prelude
begin

text \<open>
  The numbers that the Unicone firmware and the host library share (\<^verbatim>\<open>wasabi/devices/unicone/include/unicone.h\<close>).
\<close>

definition UNICONE_REQ_FPGA_CONFIG_BEGIN :: byte where "UNICONE_REQ_FPGA_CONFIG_BEGIN = 0x11"
definition UNICONE_REQ_FPGA_CONFIG_END :: byte where "UNICONE_REQ_FPGA_CONFIG_END = 0x12"
definition UNICONE_REQ_FPGA_STATUS :: byte where "UNICONE_REQ_FPGA_STATUS = 0x13"
definition UNICONE_REQ_GET_FIRMWARE_STAMP :: byte where "UNICONE_REQ_GET_FIRMWARE_STAMP = 0x20"
definition UNICONE_REQ_GET_FPGA_STAMP :: byte where "UNICONE_REQ_GET_FPGA_STAMP = 0x21"
definition UNICONE_REQ_REBOOT :: byte where "UNICONE_REQ_REBOOT = 0x34"
definition UNICONE_REQ_SET_LED :: byte where "UNICONE_REQ_SET_LED = 0x35"
definition UNICONE_STATUS_OK :: byte where "UNICONE_STATUS_OK = 0"
definition UNICONE_STATUS_ERROR :: byte where "UNICONE_STATUS_ERROR = 1"
definition UNICONE_STATUS_IN_PROGRESS :: byte where "UNICONE_STATUS_IN_PROGRESS = 2"
definition UNICONE_I2C_LED :: byte where "UNICONE_I2C_LED = 0x21"
definition UNICONE_VENDOR_ID :: u16 where "UNICONE_VENDOR_ID = 0xE461"
definition UNICONE_PRODUCT_ID :: u16 where "UNICONE_PRODUCT_ID = 0x000C"
definition UNICONE_BOOTLOAD_VENDOR_ID :: u16 where "UNICONE_BOOTLOAD_VENDOR_ID = 0xE461"
definition UNICONE_BOOTLOAD_PRODUCT_ID :: u16 where "UNICONE_BOOTLOAD_PRODUCT_ID = 0x000B"
definition UNICONE_EP_BOOTLOAD :: int where "UNICONE_EP_BOOTLOAD = 1"
definition UNICONE_EP_FPGA_CONFIG :: int where "UNICONE_EP_FPGA_CONFIG = 1"
definition UNICONE_EP_FPGA_WRITE :: int where "UNICONE_EP_FPGA_WRITE = 2"

lemmas unicone_requests = UNICONE_REQ_FPGA_CONFIG_BEGIN_def UNICONE_REQ_FPGA_CONFIG_END_def UNICONE_REQ_FPGA_STATUS_def
  UNICONE_REQ_GET_FIRMWARE_STAMP_def UNICONE_REQ_GET_FPGA_STAMP_def UNICONE_REQ_REBOOT_def UNICONE_REQ_SET_LED_def

end
