(* ===== verification/Unicone_Firmware.thy ===== *)
theory Unicone_Firmware
  imports Tusb_Usb Unicone_Protocol
begin

text \<open>
  The firmware of the Unicone device (\<^verbatim>\<open>wasabi/devices/unicone/firmware/universal/fpga.c\<close>, \<^verbatim>\<open>main.c\<close>): it programs the FPGA from
  the data of one endpoint, turns the data of another into I2C writes, answers vendor requests and fades an LED.

  Its pins are a log of what is written to them, in order; the pin \<^verbatim>\<open>DONE\<close>, which the FPGA drives, is read through a
  function of that log. The I2C bus is a log as well. The endpoints have the 64 bytes of \<^verbatim>\<open>ep1_out_x\<close> and \<^verbatim>\<open>ep2_out_x\<close>.
\<close>

datatype pin = Din bool | Cclk bool | Program bool | Delay nat

datatype i2c = I2c_start byte | I2c_byte byte bool

record fpga_fw =
  fpga_version_stamp :: "byte list"
  config_in_progress :: bool
  reading_version_stamp :: bool
  version_stamp_index :: byte
  fw_pins :: "pin list"

record unicone_fw =
  fw_fpga :: fpga_fw
  led_brightness :: u16
  led_decay_rate :: u16
  prev_brightness :: u16
  fw_i2c :: "i2c list"
  ep1_out :: edb
  ep2_out :: edb

section \<open>The FPGA\<close>

definition drive :: "pin list \<Rightarrow> fpga_fw \<Rightarrow> fpga_fw" where
  "drive ps f = f\<lparr>fw_pins := fw_pins f @ ps\<rparr>"

definition fpga_init :: "fpga_fw \<Rightarrow> fpga_fw" where
  "fpga_init f = drive [Din False, Cclk False, Program False, Delay 10, Program True, Delay 100]
     (f\<lparr>fpga_version_stamp := replicate 20 0\<rparr>)"

text \<open>The bits of a byte go out from the left: the macro \<^verbatim>\<open>CLOCK_OUT_BIT\<close>, eight times.\<close>

definition CLOCK_OUT_BIT :: "byte \<Rightarrow> byte \<Rightarrow> pin list" where
  "CLOCK_OUT_BIT c m = [Din (c AND m \<noteq> 0), Cclk True, Cclk False]"

definition fpga_config_write_byte :: "byte \<Rightarrow> fpga_fw \<Rightarrow> fpga_fw" where
  "fpga_config_write_byte c f =
     drive (CLOCK_OUT_BIT c 0x80 @ CLOCK_OUT_BIT c 0x40 @ CLOCK_OUT_BIT c 0x20 @ CLOCK_OUT_BIT c 0x10 @
            CLOCK_OUT_BIT c 0x08 @ CLOCK_OUT_BIT c 0x04 @ CLOCK_OUT_BIT c 0x02 @ CLOCK_OUT_BIT c 0x01) f"

definition fpga_config_begin :: "fpga_fw \<Rightarrow> fpga_fw" where
  "fpga_config_begin f =
     fpga_init (f\<lparr>config_in_progress := True, reading_version_stamp := True, version_stamp_index := 0\<rparr>)"

text \<open>One turn of the loop for a write that may hold some of the stamp.\<close>

definition config_byte :: "byte \<Rightarrow> fpga_fw \<Rightarrow> fpga_fw" where
  "config_byte c f =
     (if reading_version_stamp f
      then let f = f\<lparr>fpga_version_stamp := (fpga_version_stamp f)[unat (version_stamp_index f) := c],
                     version_stamp_index := version_stamp_index f + 1\<rparr>
           in if version_stamp_index f = 20 then f\<lparr>reading_version_stamp := False\<rparr> else f
      else fpga_config_write_byte c f)"

definition fpga_config_write :: "byte list \<Rightarrow> fpga_fw \<Rightarrow> fpga_fw" where
  "fpga_config_write cfgdata f =
     (if \<not> config_in_progress f then f
      else if reading_version_stamp f then fold config_byte cfgdata f
      else fold fpga_config_write_byte cfgdata f)"

text \<open>\<open>done\<close>: the FPGA's pin \<^verbatim>\<open>DONE\<close>.\<close>

definition fpga_config_end :: "(pin list \<Rightarrow> bool) \<Rightarrow> fpga_fw \<Rightarrow> byte \<times> fpga_fw" where
  "fpga_config_end fpga_done f =
     (let f = f\<lparr>config_in_progress := False\<rparr>
      in if fpga_done (fw_pins f)
         then (UNICONE_STATUS_OK, drive [Din True, Delay 100, Din False] (fpga_config_write_byte 0 f))
         else (UNICONE_STATUS_ERROR, f))"

definition fpga_config_status :: "(pin list \<Rightarrow> bool) \<Rightarrow> fpga_fw \<Rightarrow> byte" where
  "fpga_config_status fpga_done f =
     (if config_in_progress f then UNICONE_STATUS_IN_PROGRESS
      else if fpga_done (fw_pins f) then UNICONE_STATUS_OK else UNICONE_STATUS_ERROR)"

section \<open>Requests\<close>

text \<open>A reboot does not return: the watchdog resets the processor while it waits.\<close>

definition vendor_request :: "(pin list \<Rightarrow> bool) \<Rightarrow> byte list \<Rightarrow> usb_ctrlrequest \<Rightarrow> unicone_fw \<Rightarrow> reply \<times> unicone_fw" where
  "vendor_request fpga_done firmware_version_stamp req fw =
     (let answer = \<lambda>bs. Packets (usb_write_ep0_buffer (wLength req) bs)
      in if bRequest req = UNICONE_REQ_FPGA_CONFIG_BEGIN then (Acked, fw\<lparr>fw_fpga := fpga_config_begin (fw_fpga fw)\<rparr>)
      else if bRequest req = UNICONE_REQ_FPGA_CONFIG_END
      then let (retval, f) = fpga_config_end fpga_done (fw_fpga fw) in (answer [retval], fw\<lparr>fw_fpga := f\<rparr>)
      else if bRequest req = UNICONE_REQ_FPGA_STATUS then (answer [fpga_config_status fpga_done (fw_fpga fw)], fw)
      else if bRequest req = UNICONE_REQ_GET_FIRMWARE_STAMP then (answer firmware_version_stamp, fw)
      else if bRequest req = UNICONE_REQ_GET_FPGA_STAMP then (answer (fpga_version_stamp (fw_fpga fw)), fw)
      else if bRequest req = UNICONE_REQ_REBOOT then (Hung, fw\<lparr>fw_fpga := fpga_init (fw_fpga fw)\<rparr>)
      else if bRequest req = UNICONE_REQ_SET_LED
      then (Acked, fw\<lparr>led_brightness := wValue req, led_decay_rate := wIndex req\<rparr>)
      else (Stalled, fw))"

section \<open>I2C\<close>

text \<open>The bytes of one write, the last of them marked.\<close>

definition i2c_write :: "byte \<Rightarrow> byte list \<Rightarrow> i2c list" where
  "i2c_write addr bs = I2c_start addr # map (\<lambda>b. I2c_byte b False) (butlast bs) @ [I2c_byte (last bs) True]"

function i2c_write_packets :: "byte list \<Rightarrow> i2c list" where
  "i2c_write_packets packets =
     (if length packets > 2
      then let wr_addr = packets ! 0; wr_len = unat (packets ! 1); packets = drop 2 packets
           in if wr_len > length packets \<or> wr_len < 1 then []
              else i2c_write wr_addr (take wr_len packets) @ i2c_write_packets (drop wr_len packets)
      else [])"
  by auto
termination
  by (relation "measure length") auto

declare i2c_write_packets.simps [simp del]

definition led_update :: "(pin list \<Rightarrow> bool) \<Rightarrow> unicone_fw \<Rightarrow> unicone_fw" where
  "led_update fpga_done fw =
     (let fw = fw\<lparr>led_brightness := if led_brightness fw > led_decay_rate fw then led_brightness fw - led_decay_rate fw else 0\<rparr>
      in if fpga_done (fw_pins (fw_fpga fw)) \<and> led_brightness fw \<noteq> prev_brightness fw
         then fw\<lparr>fw_i2c := fw_i2c fw @ i2c_write UNICONE_I2C_LED [ucast (drop_bit 8 (led_brightness fw)), ucast (led_brightness fw)],
                 prev_brightness := led_brightness fw\<rparr>
         else fw)"

section \<open>The main loop\<close>

text \<open>The state at the head of the loop, where the statics are zero. \<open>b1\<close>, \<open>b2\<close>: what is in the endpoint buffers.\<close>

definition unicone_boot :: "byte list \<Rightarrow> byte list \<Rightarrow> unicone_fw" where
  "unicone_boot b1 b2 =
     \<lparr>fw_fpga = fpga_init \<lparr>fpga_version_stamp = replicate 20 0, config_in_progress = False, reading_version_stamp = False,
                           version_stamp_index = 0, fw_pins = []\<rparr>,
      led_brightness = 0, led_decay_rate = 0, prev_brightness = 0, fw_i2c = [],
      ep1_out = usb_dma_setup (usb_dma_unstall \<lparr>x_count = 0, x_buffer = b1\<rparr>),
      ep2_out = usb_dma_setup (usb_dma_unstall \<lparr>x_count = 0, x_buffer = b2\<rparr>)\<rparr>"

definition check_ep1 :: "unicone_fw \<Rightarrow> unicone_fw" where
  "check_ep1 fw =
     (let c = usb_dma_status (ep1_out fw)
      in if c \<noteq> 0
         then fw\<lparr>fw_fpga := fpga_config_write (take c (x_buffer (ep1_out fw))) (fw_fpga fw), ep1_out := usb_dma_setup (ep1_out fw)\<rparr>
         else fw)"

definition check_ep2 :: "unicone_fw \<Rightarrow> unicone_fw" where
  "check_ep2 fw =
     (let c = usb_dma_status (ep2_out fw)
      in if c \<noteq> 0
         then fw\<lparr>fw_i2c := fw_i2c fw @ i2c_write_packets (take c (x_buffer (ep2_out fw))), ep2_out := usb_dma_setup (ep2_out fw)\<rparr>
         else fw)"

text \<open>The loop is the steps \<open>Poll\<close>, \<open>Check1\<close>, \<open>Check2\<close>, a hundred times, and then \<open>Led\<close>, again and again. Between any two of
  them the controller may take a packet into a buffer that is free, and the host may have sent a request, which the next
  \<open>Poll\<close> handles.\<close>

datatype fw_event = Poll "usb_ctrlrequest option" | Check1 | Check2 | Led | Fill1 "byte list" | Fill2 "byte list"

definition fw_step :: "(pin list \<Rightarrow> bool) \<Rightarrow> byte list \<Rightarrow> fw_event \<Rightarrow> unicone_fw \<Rightarrow> unicone_fw" where
  "fw_step dn stamp s fw = (case s of
       Poll r \<Rightarrow> (case r of None \<Rightarrow> fw | Some req \<Rightarrow> snd (vendor_request dn stamp req fw))
     | Check1 \<Rightarrow> check_ep1 fw
     | Check2 \<Rightarrow> check_ep2 fw
     | Led \<Rightarrow> led_update dn fw
     | Fill1 bs \<Rightarrow> (case dma_receive bs (ep1_out fw) of None \<Rightarrow> fw | Some e \<Rightarrow> fw\<lparr>ep1_out := e\<rparr>)
     | Fill2 bs \<Rightarrow> (case dma_receive bs (ep2_out fw) of None \<Rightarrow> fw | Some e \<Rightarrow> fw\<lparr>ep2_out := e\<rparr>))"

section \<open>What the FPGA sees\<close>

text \<open>The FPGA in slave serial mode: it is cleared by its program pin, and takes a bit at every rising edge of the clock.\<close>

fun fpga_sees :: "pin \<Rightarrow> bool \<times> bool \<times> bool list \<Rightarrow> bool \<times> bool \<times> bool list" where
  "fpga_sees (Din b) (d, c, bs) = (b, c, bs)"
| "fpga_sees (Cclk b) (d, c, bs) = (d, b, if b \<and> \<not> c then bs @ [d] else bs)"
| "fpga_sees (Program b) (d, c, bs) = (d, c, if b then bs else [])"
| "fpga_sees (Delay n) (d, c, bs) = (d, c, bs)"

definition fpga_state :: "pin list \<Rightarrow> bool \<times> bool \<times> bool list" where
  "fpga_state ps = fold fpga_sees ps (False, False, [])"

definition clocked :: "pin list \<Rightarrow> bool list" where
  "clocked ps = snd (snd (fpga_state ps))"

definition byte_bits :: "byte \<Rightarrow> bool list" where
  "byte_bits c = [bit c 7, bit c 6, bit c 5, bit c 4, bit c 3, bit c 2, bit c 1, bit c 0]"

definition clock_low :: "fpga_fw \<Rightarrow> bool" where
  "clock_low f \<longleftrightarrow> \<not> fst (snd (fpga_state (fw_pins f)))"

lemma fpga_state_append: "fpga_state (ps @ qs) = fold fpga_sees qs (fpga_state ps)"
  by (simp add: fpga_state_def)

lemma bit_masked: "(c :: byte) AND push_bit n 1 \<noteq> 0 \<longleftrightarrow> n < 8 \<and> bit c n"
proof -
  have "c AND push_bit n 1 = (if n < 8 \<and> bit c n then push_bit n 1 else 0)"
    by (rule bit_word_eqI) (auto simp: bit_and_iff bit_exp_iff)
  moreover have "push_bit n (1 :: byte) \<noteq> 0" if "n < 8"
    using that by (simp add: push_bit_eq_mult)
  ultimately show ?thesis
    by auto
qed

lemma masks: "c AND 0x80 \<noteq> 0 \<longleftrightarrow> bit c 7" "c AND 0x40 \<noteq> 0 \<longleftrightarrow> bit c 6" "c AND 0x20 \<noteq> 0 \<longleftrightarrow> bit c 5"
  "c AND 0x10 \<noteq> 0 \<longleftrightarrow> bit c 4" "c AND 0x08 \<noteq> 0 \<longleftrightarrow> bit c 3" "c AND 0x04 \<noteq> 0 \<longleftrightarrow> bit c 2"
  "c AND 0x02 \<noteq> 0 \<longleftrightarrow> bit c 1" "c AND 0x01 \<noteq> 0 \<longleftrightarrow> bit c 0" for c :: byte
  using bit_masked [of c 7] bit_masked [of c 6] bit_masked [of c 5] bit_masked [of c 4] bit_masked [of c 3]
    bit_masked [of c 2] bit_masked [of c 1] bit_masked [of c 0]
  by (simp_all add: push_bit_eq_mult)

lemma write_byte_clocks:
  assumes "clock_low f"
  shows "clocked (fw_pins (fpga_config_write_byte c f)) = clocked (fw_pins f) @ byte_bits c"
    "clock_low (fpga_config_write_byte c f)"
proof -
  obtain d bs where s: "fpga_state (fw_pins f) = (d, False, bs)"
    using assms by (cases "fpga_state (fw_pins f)") (auto simp: clock_low_def)
  then have "fpga_state (fw_pins (fpga_config_write_byte c f)) = (bit c 0, False, bs @ byte_bits c)"
    by (simp add: fpga_config_write_byte_def drive_def CLOCK_OUT_BIT_def masks fpga_state_append byte_bits_def)
  then show "clocked (fw_pins (fpga_config_write_byte c f)) = clocked (fw_pins f) @ byte_bits c"
    "clock_low (fpga_config_write_byte c f)"
    using s by (simp_all add: clocked_def clock_low_def)
qed

lemma write_byte_frame [simp]:
  "fpga_version_stamp (fpga_config_write_byte c f) = fpga_version_stamp f"
  "config_in_progress (fpga_config_write_byte c f) = config_in_progress f"
  "reading_version_stamp (fpga_config_write_byte c f) = reading_version_stamp f"
  "version_stamp_index (fpga_config_write_byte c f) = version_stamp_index f"
  by (simp_all add: fpga_config_write_byte_def drive_def)

text \<open>Where the configuration is after the data \<open>m\<close>: in the stamp, or in the bitstream.\<close>

definition configured_by :: "byte list \<Rightarrow> fpga_fw \<Rightarrow> bool" where
  "configured_by m f \<longleftrightarrow>
     config_in_progress f \<and> clock_low f \<and> length (fpga_version_stamp f) = 20 \<and>
     reading_version_stamp f = (length m < 20) \<and>
     take (length m) (fpga_version_stamp f) = take 20 m \<and>
     (length m < 20 \<longrightarrow> version_stamp_index f = of_nat (length m)) \<and>
     clocked (fw_pins f) = concat (map byte_bits (drop 20 m))"

lemma configured_stamp:
  assumes "configured_by m f" "20 \<le> length m"
  shows "fpga_version_stamp f = take 20 m" "clocked (fw_pins f) = concat (map byte_bits (drop 20 m))"
proof -
  have "take (length m) (fpga_version_stamp f) = fpga_version_stamp f"
    using assms by (intro take_all) (simp add: configured_by_def)
  then show "fpga_version_stamp f = take 20 m" "clocked (fw_pins f) = concat (map byte_bits (drop 20 m))"
    using assms(1) by (simp_all add: configured_by_def)
qed

lemma begin_configures: "configured_by [] (fpga_config_begin f)"
proof -
  obtain d c bs where s: "fpga_state (fw_pins f) = (d, c, bs)"
    by (cases "fpga_state (fw_pins f)") auto
  then have "fpga_state (fw_pins (fpga_config_begin f)) = (False, False, [])"
    by (simp add: fpga_config_begin_def fpga_init_def drive_def fpga_state_append)
  then show ?thesis
    by (simp add: configured_by_def clock_low_def clocked_def fpga_config_begin_def fpga_init_def drive_def)
qed

lemma config_byte_configures:
  assumes "configured_by m f"
  shows "configured_by (m @ [c]) (config_byte c f)"
proof (cases "length m < 20")
  case True
  then have i: "unat (version_stamp_index f) = length m" and idx: "version_stamp_index f = of_nat (length m)"
    using assms by (simp_all add: configured_by_def unat_of_nat take_bit_eq_mod)
  have next_idx: "of_nat (length m) + 1 = (20 :: byte) \<longleftrightarrow> Suc (length m) = 20"
  proof -
    have "of_nat (length m) + 1 = (20 :: byte) \<longleftrightarrow> of_nat (Suc (length m)) = (of_nat 20 :: byte)"
      by (simp add: add.commute)
    also have "\<dots> \<longleftrightarrow> Suc (length m) = 20"
      using True unfolding word_of_nat_eq_iff by (simp add: take_bit_eq_mod)
    finally show ?thesis .
  qed
  have "take (Suc (length m)) ((fpga_version_stamp f)[length m := c]) = take (length m) (fpga_version_stamp f) @ [c]"
    using assms True by (simp add: configured_by_def take_Suc_conv_app_nth)
  then show ?thesis
    using assms True i next_idx by (auto simp: configured_by_def config_byte_def Let_def idx clock_low_def add.commute)
next
  case False
  then have "take (length m) (fpga_version_stamp f) = fpga_version_stamp f"
    using assms by (intro take_all) (simp add: configured_by_def)
  then show ?thesis
    using False assms write_byte_clocks [of f c] by (simp add: configured_by_def config_byte_def)
qed

lemma config_write_configures: "configured_by m f \<Longrightarrow> configured_by (m @ bs) (fpga_config_write bs f)"
proof -
  assume a: "configured_by m f"
  have "\<not> reading_version_stamp f \<Longrightarrow> fold fpga_config_write_byte bs f = fold config_byte bs f" for f
    by (induction bs arbitrary: f) (simp_all add: config_byte_def)
  then have "fpga_config_write bs f = fold config_byte bs f"
    using a by (simp add: fpga_config_write_def configured_by_def)
  moreover have "configured_by m f \<Longrightarrow> configured_by (m @ bs) (fold config_byte bs f)"
  proof (induction bs arbitrary: m f)
    case (Cons b bs)
    then show ?case
      using Cons.IH [OF config_byte_configures [OF Cons.prems, of b]] by simp
  qed simp
  ultimately show ?thesis
    using a by simp
qed

section \<open>Packets\<close>

definition endpoint_free :: "edb \<Rightarrow> bool" where
  "endpoint_free e \<longleftrightarrow> x_count e AND 0x80 = 0 \<and> length (x_buffer e) = 64"

lemma endpoint_boot [simp]: "length b = 64 \<Longrightarrow> endpoint_free (usb_dma_setup \<lparr>x_count = c, x_buffer = b\<rparr>)"
  by (simp add: endpoint_free_def usb_dma_setup_def)

lemma packet_through:
  assumes "endpoint_free e" "bs \<noteq> []" "length bs \<le> 64"
  obtains e' where "dma_receive bs e = Some e'" "usb_dma_status e' = length bs" "take (length bs) (x_buffer e') = bs"
    "endpoint_free (usb_dma_setup e')"
proof -
  obtain e' where e': "dma_receive bs e = Some e'"
    using assms by (auto simp: dma_receive_def endpoint_free_def)
  moreover have "usb_dma_status e' = length bs"
    using e' dma_counts [of "length bs" "e\<lparr>x_buffer := bs @ drop (length bs) (x_buffer e)\<rparr>"] assms
    by (auto simp: dma_receive_def usb_dma_status_def split: if_splits)
  moreover have "take (length bs) (x_buffer e') = bs" "endpoint_free (usb_dma_setup e')"
    using e' assms by (auto simp: dma_receive_def endpoint_free_def usb_dma_setup_def split: if_splits)
  ultimately show ?thesis
    using that by blast
qed

text \<open>A packet on its way through endpoint 1.\<close>

definition feed1 :: "byte list \<Rightarrow> fw_event list" where "feed1 p = [Fill1 p, Check1]"

lemma feed1_configures:
  assumes "configured_by m (fw_fpga fw)" "endpoint_free (ep1_out fw)" "p \<noteq> []" "length p \<le> 64"
  shows "configured_by (m @ p) (fw_fpga (fold (fw_step dn st) (feed1 p) fw)) \<and>
    endpoint_free (ep1_out (fold (fw_step dn st) (feed1 p) fw))"
proof -
  obtain e' where "dma_receive p (ep1_out fw) = Some e'" "usb_dma_status e' = length p" "take (length p) (x_buffer e') = p"
      "endpoint_free (usb_dma_setup e')"
    using packet_through [OF assms(2-4)] .
  then show ?thesis
    using config_write_configures [OF assms(1)] assms(3) by (simp add: feed1_def fw_step_def check_ep1_def)
qed

lemma feeds_configure:
  assumes "configured_by m (fw_fpga fw)" "endpoint_free (ep1_out fw)" "\<forall>p \<in> set ps. p \<noteq> [] \<and> length p \<le> 64"
  shows "configured_by (m @ concat ps) (fw_fpga (fold (fw_step dn st) (concat (map feed1 ps)) fw)) \<and>
    endpoint_free (ep1_out (fold (fw_step dn st) (concat (map feed1 ps)) fw))"
  using assms
proof (induction ps arbitrary: m fw)
  case (Cons p ps)
  then have "configured_by (m @ p) (fw_fpga (fold (fw_step dn st) (feed1 p) fw)) \<and>
      endpoint_free (ep1_out (fold (fw_step dn st) (feed1 p) fw))"
    using feed1_configures by simp
  then show ?case
    using Cons.IH [of "m @ p" "fold (fw_step dn st) (feed1 p) fw"] Cons.prems by simp
qed simp

definition config_request :: "byte \<Rightarrow> u16 \<Rightarrow> usb_ctrlrequest" where
  "config_request r n = \<lparr>bRequestType = 0x40, bRequest = r, wValue = 0, wIndex = 0, wLength = n\<rparr>"

text \<open>C16: however a configuration is cut into packets, the first twenty bytes are the stamp and the FPGA is cleared and then
  sees exactly the bits of the others, each byte from the left.\<close>

theorem fpga_gets_bitstream:
  assumes "endpoint_free (ep1_out fw)" "\<forall>p \<in> set ps. p \<noteq> [] \<and> length p \<le> 64" "20 \<le> length (concat ps)"
  shows "let fw' = fold (fw_step dn st) (Poll (Some (config_request UNICONE_REQ_FPGA_CONFIG_BEGIN 0)) # concat (map feed1 ps)) fw
    in fpga_version_stamp (fw_fpga fw') = take 20 (concat ps) \<and>
       clocked (fw_pins (fw_fpga fw')) = concat (map byte_bits (drop 20 (concat ps)))"
proof -
  let ?fw = "fw\<lparr>fw_fpga := fpga_config_begin (fw_fpga fw)\<rparr>"
  have "fw_step dn st (Poll (Some (config_request UNICONE_REQ_FPGA_CONFIG_BEGIN 0))) fw = ?fw"
    by (simp add: fw_step_def vendor_request_def config_request_def unicone_requests)
  moreover have "configured_by (concat ps) (fw_fpga (fold (fw_step dn st) (concat (map feed1 ps)) ?fw))"
    using feeds_configure [of "[]" ?fw ps dn st] assms begin_configures [of "fw_fpga fw"] by simp
  ultimately show ?thesis
    using assms(3) by (simp add: configured_stamp Let_def)
qed

theorem fpga_gets_bitstream_witness:
  "let fw' = fold (fw_step (\<lambda>_. False) []) (Poll (Some (config_request UNICONE_REQ_FPGA_CONFIG_BEGIN 0)) #
        concat (map feed1 [replicate 7 1, replicate 14 2 @ [0xA5]])) (unicone_boot (replicate 64 0) (replicate 64 0))
   in fpga_version_stamp (fw_fpga fw') = replicate 7 1 @ replicate 13 2 \<and>
      clocked (fw_pins (fw_fpga fw')) = [False, False, False, False, False, False, True, False,
        True, False, True, False, False, True, False, True]"
proof -
  have "endpoint_free (ep1_out (unicone_boot (replicate 64 0) (replicate 64 0)))"
    by (simp add: unicone_boot_def usb_dma_unstall_def)
  moreover have "concat (map byte_bits (drop 20 (concat [replicate 7 1, replicate 14 2 @ [0xA5]]))) =
      [False, False, False, False, False, False, True, False, True, False, True, False, False, True, False, True]"
    by code_simp
  moreover have "take 20 (concat [replicate 7 1, replicate 14 2 @ [0xA5 :: byte]]) = replicate 7 1 @ replicate 13 2"
    by code_simp
  ultimately show ?thesis
    using fpga_gets_bitstream [of "unicone_boot (replicate 64 0) (replicate 64 0)" "[replicate 7 1, replicate 14 2 @ [0xA5]]" "\<lambda>_. False" "[]"]
    by (simp only: Let_def) simp
qed

text \<open>Data that is still in the buffer when the end of the configuration is handled is lost: the request overtakes it.\<close>

lemma end_overtakes_data:
  assumes "config_in_progress (fw_fpga fw)" "endpoint_free (ep1_out fw)" "p \<noteq> []" "length p \<le> 64"
  shows "fw_fpga (fold (fw_step dn st) [Fill1 p, Poll (Some (config_request UNICONE_REQ_FPGA_CONFIG_END 1)), Check1] fw) =
    snd (fpga_config_end dn (fw_fpga fw))"
proof -
  obtain e' where "dma_receive p (ep1_out fw) = Some e'" "usb_dma_status e' = length p"
    using packet_through [OF assms(2-4)] .
  moreover have "\<not> config_in_progress (snd (fpga_config_end dn (fw_fpga fw)))"
    by (simp add: fpga_config_end_def Let_def drive_def)
  ultimately show ?thesis
    using assms(3)
    by (cases "fpga_config_end dn (fw_fpga fw)")
      (simp add: fw_step_def vendor_request_def config_request_def unicone_requests check_ep1_def fpga_config_write_def)
qed

section \<open>I2C writes and the LED\<close>

definition i2c_packet :: "byte \<times> byte list \<Rightarrow> byte list" where
  "i2c_packet = (\<lambda>(addr, bs). addr # of_nat (length bs) # bs)"

text \<open>A buffer of several writes does each of them, with its bytes and its address.\<close>

lemma i2c_packets_written:
  "\<forall>w \<in> set ws. 0 < length (snd w) \<and> length (snd w) < 256 \<Longrightarrow>
    i2c_write_packets (concat (map i2c_packet ws)) = concat (map (\<lambda>(addr, bs). i2c_write addr bs) ws)"
proof (induction ws)
  case Nil
  then show ?case
    by (simp add: i2c_write_packets.simps)
next
  case (Cons w ws)
  obtain addr bs where w: "w = (addr, bs)"
    by (cases w)
  have n: "unat (of_nat (length bs) :: byte) = length bs" "0 < length bs"
    using Cons.prems w by (simp_all add: unat_of_nat take_bit_eq_mod)
  then show ?case
    using Cons
    by (subst i2c_write_packets.simps) (simp add: i2c_packet_def w Let_def not_less_eq_eq Suc_le_eq)
qed

lemma i2c_packets_written_witness:
  "i2c_write_packets (concat (map i2c_packet [(0x21, [1, 2]), (0x40, [3])])) =
    [I2c_start 0x21, I2c_byte 1 False, I2c_byte 2 True, I2c_start 0x40, I2c_byte 3 True]"
  using i2c_packets_written [of "[(0x21, [1, 2]), (0x40, [3])]"] by (simp add: i2c_write_def)

lemma led_update_brightness:
  "unat (led_brightness (led_update dn fw)) = unat (led_brightness fw) - unat (led_decay_rate fw)"
  "led_decay_rate (led_update dn fw) = led_decay_rate fw"
  by (auto simp: led_update_def Let_def unat_sub_if' word_le_nat_alt word_less_nat_alt)

text \<open>The LED fades: it is off after as many turns as the rate takes.\<close>

lemma led_fades:
  "unat (led_brightness fw) \<le> n * unat (led_decay_rate fw) \<Longrightarrow> led_brightness ((led_update dn ^^ n) fw) = 0"
proof -
  have "unat (led_brightness ((led_update dn ^^ n) fw)) = unat (led_brightness fw) - n * unat (led_decay_rate fw) \<and>
      led_decay_rate ((led_update dn ^^ n) fw) = led_decay_rate fw"
    by (induction n) (simp_all add: led_update_brightness)
  then show "unat (led_brightness fw) \<le> n * unat (led_decay_rate fw) \<Longrightarrow> led_brightness ((led_update dn ^^ n) fw) = 0"
    by (simp add: unat_eq_zero)
qed

end
