(* ===== verification/Unicone_Bitfile.thy ===== *)
theory Unicone_Bitfile
  imports Prelude
begin

text \<open>
  The reader for Xilinx \<^verbatim>\<open>.bit\<close> files (\<^verbatim>\<open>wasabi/devices/unicone/src/bit_file.c\<close>, \<^verbatim>\<open>bit_file.h\<close>): a magic number, fields of
  metadata in any order, each with a type code, and a last field with the length of the bitstream, whose bytes follow.

  A \<^verbatim>\<open>FILE\<close> is what is left to be read of it; the end of the file and an error in reading are not told apart by the
  code, and are both the end of the list. A string is the bytes that were read, before the NUL that the code adds. An
  allocation fails when its size is a negative length, and otherwise succeeds.
\<close>

record bitfile =
  bf_file :: "byte list option"
  bf_ncd_filename :: "byte list option"
  bf_part_number :: "byte list option"
  bf_date :: "byte list option"
  bf_time :: "byte list option"
  bf_length :: int
  bf_data :: "byte list option"

definition bit_magic :: "byte list" where
  "bit_magic = [0x00, 0x09, 0x0F, 0xF0, 0x0F, 0xF0, 0x0F, 0xF0, 0x0F, 0xF0, 0x00, 0x00, 0x01]"

section \<open>Reading\<close>

text \<open>\<^verbatim>\<open>word <<= 8; word |= byte\<close>, for the number of bytes that is asked for.\<close>

fun read_int_bytes :: "nat \<Rightarrow> u32 \<Rightarrow> byte list \<Rightarrow> int \<times> byte list" where
  "read_int_bytes 0 word f = (sint word, f)"
| "read_int_bytes (Suc n) word [] = (-1, [])"
| "read_int_bytes (Suc n) word (b # f) = read_int_bytes n (push_bit 8 word OR ucast b) f"

definition bitfile_read_int :: "nat \<Rightarrow> byte list \<Rightarrow> int \<times> byte list" where
  "bitfile_read_int n f = read_int_bytes n 0 f"

text \<open>\<^verbatim>\<open>fread(p, n, 1, file)\<close>: one item of \<open>n\<close> bytes, or none. It reads no item of no bytes.\<close>

definition fread_item :: "nat \<Rightarrow> byte list \<Rightarrow> byte list option \<times> byte list" where
  "fread_item n f = (if n = 0 then (None, f) else if length f < n then (None, []) else (Some (take n f), drop n f))"

definition bitfile_read_string :: "byte list \<Rightarrow> byte list option \<times> byte list" where
  "bitfile_read_string f =
     (let (len, f) = bitfile_read_int 2 f
      in if len < 0 then (None, f) else fread_item (nat len) f)"

definition bitfile_handle_hdr_field :: "byte \<Rightarrow> byte list \<Rightarrow> bitfile \<Rightarrow> bool \<times> byte list \<times> bitfile" where
  "bitfile_handle_hdr_field typ f self =
     (if typ = 0x61 then let (s, f) = bitfile_read_string f in (False, f, self\<lparr>bf_ncd_filename := s\<rparr>)
      else if typ = 0x62 then let (s, f) = bitfile_read_string f in (False, f, self\<lparr>bf_part_number := s\<rparr>)
      else if typ = 0x63 then let (s, f) = bitfile_read_string f in (False, f, self\<lparr>bf_date := s\<rparr>)
      else if typ = 0x64 then let (s, f) = bitfile_read_string f in (False, f, self\<lparr>bf_time := s\<rparr>)
      else if typ = 0x65 then let (n, f) = bitfile_read_int 4 f in (True, f, self\<lparr>bf_length := n\<rparr>)
      else (False, f, self))"

lemma read_int_bytes_shrinks: "length (snd (read_int_bytes n w f)) \<le> length f"
  by (induction n w f rule: read_int_bytes.induct) auto

lemma read_int_shrinks: "bitfile_read_int n f = (k, f') \<Longrightarrow> length f' \<le> length f"
  using read_int_bytes_shrinks [of n 0 f] by (simp add: bitfile_read_int_def)

lemma read_string_shrinks: "bitfile_read_string f = (s, f') \<Longrightarrow> length f' \<le> length f"
  by (auto simp: bitfile_read_string_def fread_item_def Let_def split: prod.splits if_splits dest: read_int_shrinks)

lemma hdr_field_shrinks: "bitfile_handle_hdr_field typ f self = (stop, f', self') \<Longrightarrow> length f' \<le> length f"
  by (auto simp: bitfile_handle_hdr_field_def Let_def split: prod.splits if_splits dest: read_string_shrinks read_int_shrinks)

text \<open>The loop over the fields: until the last field or the end of the file.\<close>

function read_fields :: "int \<Rightarrow> byte list \<Rightarrow> bitfile \<Rightarrow> int \<times> byte list \<times> bitfile" where
  "read_fields n_fields [] self = (n_fields, [], self)"
| "read_fields n_fields (code # f) self =
     (let (stop, f', self') = bitfile_handle_hdr_field code f self
      in if stop then (n_fields + 1, f', self') else read_fields (n_fields + 1) f' self')"
  by pat_completeness auto
termination
  by (relation "measure (\<lambda>(n, f, self). length f)") (auto simp: less_Suc_eq_le intro: hdr_field_shrinks [OF sym])

definition bitfile_read_header :: "byte list \<Rightarrow> bitfile \<Rightarrow> int \<times> byte list \<times> bitfile" where
  "bitfile_read_header f self =
     (case fread_item (length bit_magic) f of
        (None, f) \<Rightarrow> (-1, f, self)
      | (Some file_magic, f) \<Rightarrow> if file_magic \<noteq> bit_magic then (-1, f, self) else read_fields 0 f self)"

definition bitfile_new_from_file :: "byte list \<Rightarrow> bitfile option" where
  "bitfile_new_from_file f =
     (let self = \<lparr>bf_file = None, bf_ncd_filename = None, bf_part_number = None, bf_date = None, bf_time = None,
                  bf_length = 0, bf_data = None\<rparr>;
          (n, f, self) = bitfile_read_header f self
      in if n < 0 then None else Some (self\<lparr>bf_file := Some f\<rparr>))"

text \<open>A path is looked up by the function that stands for the file system.\<close>

definition bitfile_new_from_path :: "('p \<Rightarrow> byte list option) \<Rightarrow> 'p \<Rightarrow> bitfile option" where
  "bitfile_new_from_path fs path = (case fs path of None \<Rightarrow> None | Some f \<Rightarrow> bitfile_new_from_file f)"

definition bitfile_read_content :: "bitfile \<Rightarrow> int \<times> bitfile" where
  "bitfile_read_content self =
     (if bf_data self \<noteq> None then (-1, self)
      else case bf_file self of
        None \<Rightarrow> (-1, self)
      | Some f \<Rightarrow>
          if bf_length self < 0 then (-1, self)
          else case fread_item (nat (bf_length self)) f of
                 (None, f') \<Rightarrow> (-1, self\<lparr>bf_file := Some f', bf_data := Some (take (nat (bf_length self)) f)\<rparr>)
               | (Some d, f') \<Rightarrow> (bf_length self, self\<lparr>bf_data := Some d, bf_file := None\<rparr>))"

section \<open>Writing\<close>

text \<open>A file as the format has it: fields of one of the four kinds of metadata, and then the data.\<close>

datatype meta = Ncd_filename | Part_number | Date | Time

definition meta_code :: "meta \<Rightarrow> byte" where
  "meta_code k = (case k of Ncd_filename \<Rightarrow> 0x61 | Part_number \<Rightarrow> 0x62 | Date \<Rightarrow> 0x63 | Time \<Rightarrow> 0x64)"

definition be16_bytes :: "nat \<Rightarrow> byte list" where
  "be16_bytes n = [of_nat (n div 256), of_nat n]"

definition be32_bytes :: "nat \<Rightarrow> byte list" where
  "be32_bytes n = [of_nat (n div 16777216), of_nat (n div 65536), of_nat (n div 256), of_nat n]"

definition field_bytes :: "meta \<times> byte list \<Rightarrow> byte list" where
  "field_bytes = (\<lambda>(k, s). meta_code k # be16_bytes (length s) @ s)"

definition bit_image :: "(meta \<times> byte list) list \<Rightarrow> byte list \<Rightarrow> byte list" where
  "bit_image ms dat = bit_magic @ concat (map field_bytes ms) @ 0x65 # be32_bytes (length dat) @ dat"

definition set_meta :: "meta \<times> byte list \<Rightarrow> bitfile \<Rightarrow> bitfile" where
  "set_meta = (\<lambda>(k, s) self. case k of
       Ncd_filename \<Rightarrow> self\<lparr>bf_ncd_filename := Some s\<rparr>
     | Part_number \<Rightarrow> self\<lparr>bf_part_number := Some s\<rparr>
     | Date \<Rightarrow> self\<lparr>bf_date := Some s\<rparr>
     | Time \<Rightarrow> self\<lparr>bf_time := Some s\<rparr>)"

section \<open>Reading what was written\<close>

lemma push_byte:
  assumes "k < 2 ^ 24"
  shows "push_bit 8 (of_nat k :: u32) OR ucast (of_nat j :: byte) = of_nat (256 * k + j mod 256)"
proof -
  have "push_bit 8 (of_nat k :: u32) AND ucast (of_nat j :: byte) = 0"
    by (rule bit_word_eqI) (auto simp: bit_and_iff bit_push_bit_iff bit_ucast_iff dest: bit_imp_le_length)
  then have "push_bit 8 (of_nat k :: u32) OR ucast (of_nat j :: byte) = push_bit 8 (of_nat k) + ucast (of_nat j :: byte)"
    by (simp add: disjunctive_add_eq_or)
  moreover have "(ucast (of_nat j :: byte) :: u32) = of_nat (j mod 256)"
    using take_bit_eq_mod [of 8 j]
    by (intro bit_word_eqI) (auto simp: bit_ucast_iff bit_of_nat_iff bit_take_bit_iff dest: sym)
  ultimately show ?thesis
    by (simp add: push_bit_eq_mult)
qed

lemma sint_of_nat_small: "n < 2 ^ 31 \<Longrightarrow> sint (of_nat n :: u32) = int n"
  by (simp add: signed_of_nat signed_take_bit_int_eq_self)

lemma read_two: "read_int_bytes 2 w (a # b # f) = (sint (push_bit 8 (push_bit 8 w OR ucast a) OR ucast b), f)"
  by (simp add: numeral_2_eq_2)

lemma read_four: "read_int_bytes 4 w (a # b # c # d # f) =
    (sint (push_bit 8 (push_bit 8 (push_bit 8 (push_bit 8 w OR ucast a) OR ucast b) OR ucast c) OR ucast d), f)"
  by (simp add: eval_nat_numeral)

lemma low_byte: "256 * (n div 256) + n mod 256 = (n :: nat)"
  by simp

lemma read_be16:
  assumes "n < 65536"
  shows "bitfile_read_int 2 (be16_bytes n @ f) = (int n, f)"
proof -
  have "n div 256 mod 256 = n div 256"
    using assms by simp
  then have "push_bit 8 (push_bit 8 (0 :: u32) OR ucast (of_nat (n div 256) :: byte)) OR ucast (of_nat n :: byte) = of_nat n"
    using push_byte [of 0 "n div 256"] push_byte [of "n div 256" n] assms low_byte [of n] by simp
  then show ?thesis
    using sint_of_nat_small [of n] assms by (simp add: bitfile_read_int_def be16_bytes_def read_two)
qed

lemma read_be32:
  assumes "n < 2 ^ 31"
  shows "bitfile_read_int 4 (be32_bytes n @ f) = (int n, f)"
proof -
  have parts: "n div 16777216 mod 256 = n div 16777216" "256 * (n div 16777216) + n div 65536 mod 256 = n div 65536"
    "256 * (n div 65536) + n div 256 mod 256 = n div 256"
    using assms low_byte [of "n div 65536"] low_byte [of "n div 256"] by (simp_all flip: div_mult2_eq)
  have "push_bit 8 (0 :: u32) OR ucast (of_nat (n div 16777216) :: byte) = of_nat (n div 16777216)"
    using push_byte [of 0 "n div 16777216"] parts by simp
  moreover have "push_bit 8 (of_nat (n div 16777216) :: u32) OR ucast (of_nat (n div 65536) :: byte) = of_nat (n div 65536)"
    using push_byte [of "n div 16777216" "n div 65536"] parts assms by simp
  moreover have "push_bit 8 (of_nat (n div 65536) :: u32) OR ucast (of_nat (n div 256) :: byte) = of_nat (n div 256)"
    using push_byte [of "n div 65536" "n div 256"] parts assms by simp
  moreover have "push_bit 8 (of_nat (n div 256) :: u32) OR ucast (of_nat n :: byte) = of_nat n"
    using push_byte [of "n div 256" n] low_byte [of n] assms by simp
  ultimately show ?thesis
    using sint_of_nat_small [of n] assms
    by (simp only: bitfile_read_int_def be32_bytes_def append_Cons append_Nil read_four)
qed

lemma read_field_string:
  "0 < length s \<Longrightarrow> length s < 65536 \<Longrightarrow> bitfile_read_string (be16_bytes (length s) @ s @ f) = (Some s, f)"
  by (simp add: bitfile_read_string_def read_be16 fread_item_def)

lemma read_field:
  "0 < length (snd m) \<Longrightarrow> length (snd m) < 65536 \<Longrightarrow>
    read_fields n (field_bytes m @ f) self = read_fields (n + 1) f (set_meta m self)"
  by (cases m; cases "fst m")
    (simp_all add: field_bytes_def meta_code_def bitfile_handle_hdr_field_def read_field_string set_meta_def)

lemma read_metas:
  "\<forall>m \<in> set ms. 0 < length (snd m) \<and> length (snd m) < 65536 \<Longrightarrow>
    read_fields n (concat (map field_bytes ms) @ f) self = read_fields (n + int (length ms)) f (fold set_meta ms self)"
  by (induction ms arbitrary: n self) (simp_all add: read_field ac_simps)

lemma set_metas_frame [simp]:
  "bf_length (fold set_meta ms self) = bf_length self" "bf_data (fold set_meta ms self) = bf_data self"
  by (induction ms arbitrary: self) (auto simp: set_meta_def split: meta.splits)

definition no_bitfile :: bitfile where
  "no_bitfile = \<lparr>bf_file = None, bf_ncd_filename = None, bf_part_number = None, bf_date = None, bf_time = None,
     bf_length = 0, bf_data = None\<rparr>"

lemma bit_magic_nonempty [simp]: "bit_magic \<noteq> []"
  by (simp add: bit_magic_def)

lemma open_image:
  assumes "\<forall>m \<in> set ms. 0 < length (snd m) \<and> length (snd m) < 65536" "length dat < 2 ^ 31"
  shows "bitfile_new_from_file (bit_image ms dat @ after) =
    Some ((fold set_meta ms no_bitfile)\<lparr>bf_length := int (length dat), bf_file := Some (dat @ after)\<rparr>)"
  using assms
  by (simp add: bitfile_new_from_file_def bitfile_read_header_def bit_image_def fread_item_def read_metas
      bitfile_handle_hdr_field_def read_be32 flip: no_bitfile_def)



section \<open>Files that are not so\<close>

text \<open>Content is the number of bytes that the header promises, or there is none.\<close>

lemma content_complete:
  assumes "bitfile_read_content self = (n, self')" "0 \<le> n"
  shows "0 < n \<and> n = bf_length self \<and> bf_file self' = None \<and> (\<exists>d f. bf_data self' = Some d \<and> int (length d) = n \<and> bf_file self = Some (d @ f))"
  using assms
  by (auto simp: bitfile_read_content_def fread_item_def split: if_splits option.splits)
    (metis append_take_drop_id)

text \<open>A string of no bytes is read as no string, and the content is read only once.\<close>

lemma empty_string_lost: "bitfile_read_string (be16_bytes 0 @ f) = (None, f)"
  using read_be16 [of 0 f] by (simp add: bitfile_read_string_def fread_item_def)

lemma content_once: "bitfile_read_content self = (n, self') \<Longrightarrow> 0 \<le> n \<Longrightarrow> bitfile_read_content self' = (-1, self')"
  using content_complete [of self n self'] by (auto simp: bitfile_read_content_def)

text \<open>A header that ends before its last field has no length, and the content of such a file cannot be read.\<close>

lemma header_without_length: "bitfile_new_from_file bit_magic = Some (no_bitfile\<lparr>bf_file := Some []\<rparr>)"
  "fst (bitfile_read_content (no_bitfile\<lparr>bf_file := Some []\<rparr>)) = -1"
  by (simp_all add: bitfile_new_from_file_def bitfile_read_header_def fread_item_def no_bitfile_def bitfile_read_content_def)

end
