(* ===== verification/Unicone_Host.thy ===== *)
theory Unicone_Host
  imports Unicone_Sha1 Unicone_Bitfile Unicone_Protocol
begin

text \<open>
  The host library of the Unicone device (\<^verbatim>\<open>wasabi/devices/unicone/src/unicone_device.c\<close>), its loader tool
  (\<^verbatim>\<open>loader_tool.c\<close>) and the host library of the Genesis emulator (\<^verbatim>\<open>genesis_device.c\<close>).

  libusb, the file system and the progress reporter are the functions of a \<open>usb_host\<close>, over a state of their own that
  every call changes. A run that ends in a failed assertion, in the use of a null pointer or in a write past a buffer is
  \<^term>\<open>None\<close>. The memory of a new local variable is whatever \<open>uh_junk\<close> says.
\<close>

section \<open>The outside\<close>

datatype progress = Prog_start string | Prog_update int int | Prog_finish "string option" | Prog_message string | Prog_error string

record 'w usb_host =
  uh_find_devices :: "'w \<Rightarrow> 'w"
  uh_busses :: "'w \<Rightarrow> (u16 \<times> u16) list list"
  uh_open :: "nat \<times> nat \<Rightarrow> 'w \<Rightarrow> nat option \<times> 'w"
  uh_close :: "nat \<Rightarrow> 'w \<Rightarrow> 'w"
  uh_set_configuration :: "nat \<Rightarrow> int \<Rightarrow> 'w \<Rightarrow> int \<times> 'w"
  uh_claim_interface :: "nat \<Rightarrow> int \<Rightarrow> 'w \<Rightarrow> int \<times> 'w"
  uh_control_in :: "nat \<Rightarrow> byte \<Rightarrow> nat \<Rightarrow> 'w \<Rightarrow> int \<times> byte list \<times> 'w"
  uh_control_out :: "nat \<Rightarrow> byte \<Rightarrow> u16 \<Rightarrow> u16 \<Rightarrow> 'w \<Rightarrow> int \<times> 'w"
  uh_bulk_write :: "nat \<Rightarrow> int \<Rightarrow> byte list \<Rightarrow> 'w \<Rightarrow> int \<times> 'w"
  uh_report :: "progress \<Rightarrow> 'w \<Rightarrow> 'w"
  uh_file :: "string \<Rightarrow> stream option"
  uh_junk :: "nat \<Rightarrow> byte list"
  uh_unaligned :: bool

definition CODESPACE_SIZE :: nat where "CODESPACE_SIZE = 0x2000"
definition SHA1_STAMP_SIZE :: nat where "SHA1_STAMP_SIZE = 20"
definition MAX_FIRMWARE_SIZE :: nat where "MAX_FIRMWARE_SIZE = CODESPACE_SIZE - SHA1_STAMP_SIZE"
definition FIRMWARE_HEADER_SIZE :: nat where "FIRMWARE_HEADER_SIZE = 3"

record unicone_device =
  usbdev :: nat
  firmware_installed :: bool
  fpga_configured :: bool

text \<open>What a read of data leaves in a variable.\<close>

definition into :: "byte list \<Rightarrow> byte list \<Rightarrow> byte list" where "into d junk = d @ drop (length d) junk"

section \<open>Opening a device\<close>

definition bus_devices :: "(u16 \<times> u16) list list \<Rightarrow> ((nat \<times> nat) \<times> u16 \<times> u16) list" where
  "bus_devices bs = concat (map (\<lambda>i. map (\<lambda>j. ((i, j), bs ! i ! j)) [0..<length (bs ! i)]) [0..<length bs])"

text \<open>The device that is found first decides; a failure after it has been opened closes it again.\<close>

fun look_for_unicone ::
    "'w usb_host \<Rightarrow> ((nat \<times> nat) \<times> u16 \<times> u16) list \<Rightarrow> 'w \<Rightarrow> (unicone_device option \<times> 'w) option" where
  "look_for_unicone H [] w = Some (None, w)"
| "look_for_unicone H ((loc, ids) # ds) w =
     (if ids = (UNICONE_BOOTLOAD_VENDOR_ID, UNICONE_BOOTLOAD_PRODUCT_ID)
      then case uh_open H loc w of
             (None, w) \<Rightarrow> None
           | (Some h, w) \<Rightarrow>
               let (r, w) = uh_set_configuration H h 1 w
               in if r \<noteq> 0 then Some (None, uh_close H h w)
                  else let (r, w) = uh_claim_interface H h 0 w
                       in if r \<noteq> 0 then Some (None, uh_close H h w)
                          else Some (Some \<lparr>usbdev = h, firmware_installed = False, fpga_configured = False\<rparr>, w)
      else if ids = (UNICONE_VENDOR_ID, UNICONE_PRODUCT_ID)
      then case uh_open H loc w of
             (None, w) \<Rightarrow> None
           | (Some h, w) \<Rightarrow>
               let (r, w) = uh_claim_interface H h 0 w
               in if r \<noteq> 0 then Some (None, uh_close H h w)
                  else let (r, d, w) = uh_control_in H h UNICONE_REQ_FPGA_STATUS 1 w
                       in if r < 0 then Some (None, uh_close H h w)
                          else Some (Some \<lparr>usbdev = h, firmware_installed = True,
                                           fpga_configured = (into d (uh_junk H 1) ! 0 = UNICONE_STATUS_OK)\<rparr>, w)
      else look_for_unicone H ds w)"

definition unicone_device_new :: "'w usb_host \<Rightarrow> 'w \<Rightarrow> (unicone_device option \<times> 'w) option" where
  "unicone_device_new H w = look_for_unicone H (bus_devices (uh_busses H w)) w"

definition unicone_device_delete :: "'w usb_host \<Rightarrow> unicone_device \<Rightarrow> 'w \<Rightarrow> 'w" where
  "unicone_device_delete H self w = uh_close H (usbdev self) w"

definition progress_operation_finish :: "'w usb_host \<Rightarrow> string option \<Rightarrow> 'w \<Rightarrow> 'w" where
  "progress_operation_finish H err w = uh_report H (Prog_finish err) (uh_report H (Prog_update 1 1) w)"

function reconnect_loop :: "'w usb_host \<Rightarrow> int \<Rightarrow> 'w \<Rightarrow> (unicone_device option \<times> 'w) option" where
  "reconnect_loop H ms_completed w =
     (if ms_completed < 700
      then case unicone_device_new H (uh_find_devices H w) of
             None \<Rightarrow> None
           | Some (Some d, w) \<Rightarrow> Some (Some d, w)
           | Some (None, w) \<Rightarrow> reconnect_loop H (ms_completed + 20) (uh_report H (Prog_update ms_completed 700) w)
      else Some (None, w))"
  by auto
termination
  by (relation "measure (\<lambda>(H, ms, w). nat (700 - ms))") auto

declare reconnect_loop.simps [simp del]

text \<open>A failure leaves the structure with the handle that has been closed.\<close>

definition unicone_device_reconnect :: "'w usb_host \<Rightarrow> unicone_device \<Rightarrow> 'w \<Rightarrow> (int \<times> unicone_device \<times> 'w) option" where
  "unicone_device_reconnect H self w =
     (let w = uh_report H (Prog_start ''Reconnecting'') w;
          w = uh_close H (usbdev self) w
      in case reconnect_loop H 0 w of
           None \<Rightarrow> None
         | Some (None, w) \<Rightarrow> Some (-1, self, progress_operation_finish H (Some ''Can't open device'') w)
         | Some (Some new_dev, w) \<Rightarrow> Some (0, new_dev, progress_operation_finish H None w))"

section \<open>Versions\<close>

definition sha_raw_file :: "'w usb_host \<Rightarrow> string \<Rightarrow> byte list option" where
  "sha_raw_file H filename = (case uh_file H filename of
       None \<Rightarrow> None
     | Some f \<Rightarrow> Some (into (snd (sha_stream (uh_unaligned H) (uh_junk H 128) f)) (uh_junk H 20)))"

definition unicone_bitfile :: "'w usb_host \<Rightarrow> string \<Rightarrow> bitfile option" where
  "unicone_bitfile H = bitfile_new_from_path (\<lambda>p. map_option (\<lambda>f. concat (fst f)) (uh_file H p))"

definition sha_bitstream_file :: "'w usb_host \<Rightarrow> string \<Rightarrow> byte list option" where
  "sha_bitstream_file H filename = (case unicone_bitfile H filename of
       None \<Rightarrow> None
     | Some f \<Rightarrow>
         let (r, f) = bitfile_read_content f
         in if r < 0 then None else Some (sha_buffer (uh_unaligned H) (uh_junk H 128) (the (bf_data f))))"

definition sha_compare :: "byte list \<Rightarrow> byte list \<Rightarrow> int" where
  "sha_compare b1 b2 = (if take 20 b1 \<noteq> take 20 b2 then 1 else 0)"

definition unicone_device_compare_firmware :: "'w usb_host \<Rightarrow> unicone_device \<Rightarrow> string \<Rightarrow> 'w \<Rightarrow> int \<times> 'w" where
  "unicone_device_compare_firmware H self filename w =
     (if \<not> firmware_installed self then (1, w)
      else case sha_raw_file H filename of
             None \<Rightarrow> (-1, uh_report H (Prog_error ''Can't read firmware file'') w)
           | Some file_sha1 \<Rightarrow>
               let (r, d, w) = uh_control_in H (usbdev self) UNICONE_REQ_GET_FIRMWARE_STAMP 20 w
               in if r < 0 then (-1, w) else (sha_compare file_sha1 (into d (uh_junk H 32)), w))"

definition unicone_device_compare_bitstream :: "'w usb_host \<Rightarrow> unicone_device \<Rightarrow> string \<Rightarrow> 'w \<Rightarrow> (int \<times> 'w) option" where
  "unicone_device_compare_bitstream H self filename w =
     (if \<not> firmware_installed self then None
      else if \<not> fpga_configured self then Some (1, w)
      else case sha_bitstream_file H filename of
             None \<Rightarrow> Some (-1, uh_report H (Prog_error ''Can't read bitstream file'') w)
           | Some file_sha1 \<Rightarrow>
               let (r, d, w) = uh_control_in H (usbdev self) UNICONE_REQ_GET_FPGA_STAMP 20 w
               in Some (if r < 0 then (-1, w) else (sha_compare file_sha1 (into d (uh_junk H 32)), w)))"

section \<open>Uploads\<close>

text \<open>\<open>total\<close>: the length of the whole buffer, for the progress reports; \<open>n\<close>: what has been uploaded.\<close>

function send_bulk :: "'w usb_host \<Rightarrow> nat \<Rightarrow> int \<Rightarrow> int \<Rightarrow> int \<Rightarrow> byte list \<Rightarrow> 'w \<Rightarrow> int \<times> 'w" where
  "send_bulk H h ep tot n bs w =
     (if bs \<noteq> []
      then case uh_bulk_write H h ep (take 128 bs) w of
             (r, w) \<Rightarrow> if r \<le> 0 then (r, w)
                        else send_bulk H h ep tot (n + r) (drop (nat r) bs) (uh_report H (Prog_update (n + r) tot) w)
      else (n, w))"
  by auto
termination
  by (relation "measure (\<lambda>(H, h, ep, tot, n, bs, w). length bs)") auto

declare send_bulk.simps [simp del]

definition send_bulk_ep_buffer :: "'w usb_host \<Rightarrow> unicone_device \<Rightarrow> int \<Rightarrow> byte list \<Rightarrow> 'w \<Rightarrow> int \<times> 'w" where
  "send_bulk_ep_buffer H self ep bs w = send_bulk H (usbdev self) ep (int (length bs)) 0 bs w"

definition arith_checksum_8bit :: "byte list \<Rightarrow> byte" where
  "arith_checksum_8bit bs = fold (\<lambda>b s. s + b) bs 0"

text \<open>The buffer for a firmware that fits: filled in the order in which the code fills it.\<close>

definition fw_buffer :: "'w usb_host \<Rightarrow> byte list \<Rightarrow> byte list" where
  "fw_buffer H fw =
     (let buf = replicate (CODESPACE_SIZE + FIRMWARE_HEADER_SIZE + 1) 0;
          buf = copy_to FIRMWARE_HEADER_SIZE fw buf;
          sha1_digest = sha_buffer (uh_unaligned H) (uh_junk H 128) (take (length fw) (drop FIRMWARE_HEADER_SIZE buf));
          buf = copy_to (FIRMWARE_HEADER_SIZE + CODESPACE_SIZE - SHA1_STAMP_SIZE) (take SHA1_STAMP_SIZE sha1_digest) buf;
          buf = buf[0 := of_nat CODESPACE_SIZE AND 0xFF];
          buf = buf[1 := of_nat (CODESPACE_SIZE div 256)];
          buf = buf[2 := arith_checksum_8bit (take CODESPACE_SIZE (drop FIRMWARE_HEADER_SIZE buf))]
      in buf)"

definition unicone_device_upload_firmware :: "'w usb_host \<Rightarrow> unicone_device \<Rightarrow> string \<Rightarrow> 'w \<Rightarrow> (int \<times> 'w) option" where
  "unicone_device_upload_firmware H self filename w =
     (if firmware_installed self then None
      else let w = uh_report H (Prog_start ''Uploading firmware'') w;
               fail = \<lambda>msg w. Some (-1, progress_operation_finish H (Some msg) w)
           in case uh_file H filename of
                None \<Rightarrow> fail ''Error opening file'' w
              | Some f \<Rightarrow>
                  let fw = take (MAX_FIRMWARE_SIZE + 1) (concat (fst f))
                  in if length fw \<le> 0 then fail ''File read error'' w
                     else if length fw > MAX_FIRMWARE_SIZE then fail ''Firmware too large'' w
                     else let (bytes_uploaded, w) = send_bulk_ep_buffer H self UNICONE_EP_BOOTLOAD
                                (take (FIRMWARE_HEADER_SIZE + CODESPACE_SIZE) (fw_buffer H fw)) w
                          in if bytes_uploaded < 0 then fail ''USB write error'' w
                             else Some (bytes_uploaded, progress_operation_finish H None w))"

definition unicone_device_remove_firmware :: "'w usb_host \<Rightarrow> unicone_device \<Rightarrow> 'w \<Rightarrow> (int \<times> 'w) option" where
  "unicone_device_remove_firmware H self w =
     (if \<not> firmware_installed self then None else Some (uh_control_out H (usbdev self) UNICONE_REQ_REBOOT 0 0 w))"

text \<open>\<^verbatim>\<open>strcmp\<close> with the part that the device has.\<close>

definition is_our_part :: "byte list \<Rightarrow> bool" where
  "is_our_part s \<longleftrightarrow> takeWhile (\<lambda>c. c \<noteq> 0) s = [0x34, 0x30, 0x31, 0x30, 0x78, 0x6C, 0x70, 0x63, 0x38, 0x34]"

definition unicone_device_upload_bitstream ::
    "'w usb_host \<Rightarrow> unicone_device \<Rightarrow> string \<Rightarrow> 'w \<Rightarrow> (int \<times> unicone_device \<times> 'w) option" where
  "unicone_device_upload_bitstream H self filename w =
     (if \<not> firmware_installed self then None
      else let w = uh_report H (Prog_start ''Configuring FPGA'') w;
               fail = \<lambda>msg self w. Some (-1, self, progress_operation_finish H (Some msg) w)
           in case unicone_bitfile H filename of
                None \<Rightarrow> fail ''Error opening bitstream'' self w
              | Some bf \<Rightarrow> (case bf_part_number bf of
                  None \<Rightarrow> None
                | Some part \<Rightarrow>
                    if \<not> is_our_part part then fail ''This design is for an incompatible part'' self w
                    else let (r, bf) = bitfile_read_content bf
                         in if r < 0 then fail ''Error reading bitstream content'' self w
                            else let dat = the (bf_data bf);
                                     buffer = sha_buffer (uh_unaligned H) (uh_junk H 128) dat @ dat;
                                     self = self\<lparr>fpga_configured := False\<rparr>;
                                     (r, w) = uh_control_out H (usbdev self) UNICONE_REQ_FPGA_CONFIG_BEGIN 0 0 w
                                 in if r < 0 then fail ''Error starting FPGA configuration'' self w
                                    else let (bytes_uploaded, w) = send_bulk_ep_buffer H self UNICONE_EP_FPGA_CONFIG buffer w
                                         in if bytes_uploaded < 0 then fail ''USB write error'' self w
                                            else let (r, d, w) = uh_control_in H (usbdev self) UNICONE_REQ_FPGA_CONFIG_END 1 w
                                                 in if r < 0 then fail ''Error finishing FPGA configuration'' self w
                                                    else if into d (uh_junk H 1) ! 0 = UNICONE_STATUS_OK
                                                    then Some (bytes_uploaded, self\<lparr>fpga_configured := True\<rparr>,
                                                               progress_operation_finish H None w)
                                                    else fail ''No response from FPGA'' self w))"

section \<open>Configuration\<close>

text \<open>The first part: the firmware. \<open>say\<close>: how the user is told of the reboot. A result that is not true ends the caller.\<close>

definition install_firmware ::
    "('w \<Rightarrow> 'w) \<Rightarrow> 'w usb_host \<Rightarrow> unicone_device \<Rightarrow> string \<Rightarrow> 'w \<Rightarrow> (bool \<times> unicone_device \<times> 'w) option" where
  "install_firmware say H self filename w =
     do {
       (ok, self, w) \<leftarrow>
         (if firmware_installed self
          then do {
            (_, w) \<leftarrow> unicone_device_remove_firmware H self (say w);
            (r, self, w) \<leftarrow> unicone_device_reconnect H self w;
            Some (r \<ge> 0, self, w)
          }
          else Some (True, self, w));
       if \<not> ok then Some (False, self, w)
       else do {
         (r, w) \<leftarrow> unicone_device_upload_firmware H self filename w;
         if r < 0 then Some (False, self, w)
         else do {
           (r, self, w) \<leftarrow> unicone_device_reconnect H self w;
           Some (r \<ge> 0, self, w)
         }
       }
     }"

definition unicone_device_configure ::
    "'w usb_host \<Rightarrow> unicone_device \<Rightarrow> string \<Rightarrow> string \<Rightarrow> 'w \<Rightarrow> (int \<times> unicone_device \<times> 'w) option" where
  "unicone_device_configure H self firmware_file bitstream_file w =
     (let (r, w) = unicone_device_compare_firmware H self firmware_file w
      in if r < 0 then Some (r, self, w)
         else do {
           (ok, self, w) \<leftarrow> (if r > 0
             then install_firmware (uh_report H (Prog_message ''Rebooting to remove existing firmware'')) H self firmware_file w else Some (True, self, w));
           if \<not> ok then Some (-1, self, w)
           else do {
             (r, w) \<leftarrow> unicone_device_compare_bitstream H self bitstream_file w;
             if r < 0 then Some (r, self, w)
             else if r > 0
             then do {
               (r, self, w) \<leftarrow> unicone_device_upload_bitstream H self bitstream_file w;
               Some (if r < 0 then -1 else 0, self, w)
             }
             else Some (0, self, w)
           }
         })"

section \<open>I2C\<close>

text \<open>The bound is two bytes too far on the other side: lengths 63 to 66 are written past the end of the packet.\<close>

definition unicone_device_i2c_write :: "'w usb_host \<Rightarrow> unicone_device \<Rightarrow> byte \<Rightarrow> byte list \<Rightarrow> 'w \<Rightarrow> (int \<times> 'w) option" where
  "unicone_device_i2c_write H self i2c_addr dat w =
     (if length dat > 64 + 2 then Some (-1, w)
      else if 2 + length dat > 64 then None
      else let (r, w) = uh_bulk_write H (usbdev self) UNICONE_EP_FPGA_WRITE (i2c_addr # of_nat (length dat) # dat) w
           in Some (if r \<le> 0 then -1 else 0, w))"

end
