(* ===== verification/Unicone_Link.thy ===== *)
theory Unicone_Link
  imports Unicone_Sha1_Props Unicone_Firmware Unicone_Host
begin

text \<open>
  The Unicone host library and the device's firmware together. A device is in its boot loader, with what it has received, or
  it runs a firmware from its code memory; what runs is the firmware of \<^verbatim>\<open>firmware/universal\<close>. The boot loader is the ROM of
  the chip: \<open>rom\<close> says what code it starts for what it has received. The device is left the time to take a packet before the
  next transfer begins. \<open>dn\<close> is the FPGA's pin \<^verbatim>\<open>DONE\<close>.
\<close>

section \<open>The device at the other end\<close>

datatype sim_device = Booting "byte list" | Running "byte list" unicone_fw

record unicone_sim =
  sim_device :: sim_device
  sim_bulk :: nat

definition firmware_version_stamp :: "byte list \<Rightarrow> byte list" where
  "firmware_version_stamp code = take 20 (drop 0x1FEC code)"

fun packets64 :: "byte list \<Rightarrow> byte list list" where
  "packets64 bs = (if bs = [] then [] else take 64 bs # packets64 (drop 64 bs))"

declare packets64.simps [simp del]

definition feed2 :: "byte list \<Rightarrow> fw_event list" where "feed2 p = [Fill2 p, Check2]"

definition sim_find :: "(byte list \<Rightarrow> byte list option) \<Rightarrow> unicone_sim \<Rightarrow> unicone_sim" where
  "sim_find rom w = (case sim_device w of
       Running code fw \<Rightarrow> w
     | Booting rx \<Rightarrow> (case rom rx of
         None \<Rightarrow> w
       | Some code \<Rightarrow> w\<lparr>sim_device := Running code (unicone_boot (replicate 64 0) (replicate 64 0))\<rparr>))"

definition sim_busses :: "unicone_sim \<Rightarrow> (u16 \<times> u16) list list" where
  "sim_busses w = [[case sim_device w of
       Booting rx \<Rightarrow> (UNICONE_BOOTLOAD_VENDOR_ID, UNICONE_BOOTLOAD_PRODUCT_ID)
     | Running code fw \<Rightarrow> (UNICONE_VENDOR_ID, UNICONE_PRODUCT_ID)]]"

definition sim_setup :: "(pin list \<Rightarrow> bool) \<Rightarrow> byte \<Rightarrow> byte \<Rightarrow> u16 \<Rightarrow> u16 \<Rightarrow> nat \<Rightarrow> byte list \<Rightarrow> unicone_fw \<Rightarrow> reply \<times> unicone_fw" where
  "sim_setup dn t r v i n code fw =
     (let (reply, addr, fw) = usb_handle_setup [] (vendor_request dn (firmware_version_stamp code))
        \<lparr>bRequestType = t, bRequest = r, wValue = v, wIndex = i, wLength = of_nat n\<rparr> (0, fw)
      in (reply, fw))"

definition sim_control_in :: "(pin list \<Rightarrow> bool) \<Rightarrow> nat \<Rightarrow> byte \<Rightarrow> nat \<Rightarrow> unicone_sim \<Rightarrow> int \<times> byte list \<times> unicone_sim" where
  "sim_control_in dn h r n w = (case sim_device w of
       Booting rx \<Rightarrow> (-1, [], w)
     | Running code fw \<Rightarrow>
         let (reply, fw) = sim_setup dn 0xC0 r 0 0 n code fw; w = w\<lparr>sim_device := Running code fw\<rparr>
         in case reply of
              Packets ps \<Rightarrow> (case host_reads n ps of None \<Rightarrow> (-1, [], w) | Some d \<Rightarrow> (int (length d), d, w))
            | _ \<Rightarrow> (-1, [], w))"

definition sim_control_out :: "(pin list \<Rightarrow> bool) \<Rightarrow> nat \<Rightarrow> byte \<Rightarrow> u16 \<Rightarrow> u16 \<Rightarrow> unicone_sim \<Rightarrow> int \<times> unicone_sim" where
  "sim_control_out dn h r v i w = (case sim_device w of
       Booting rx \<Rightarrow> (-1, w)
     | Running code fw \<Rightarrow>
         let (reply, fw) = sim_setup dn 0x40 r v i 0 code fw
         in case reply of
              Acked \<Rightarrow> (0, w\<lparr>sim_device := Running code fw\<rparr>)
            | Hung \<Rightarrow> (-1, w\<lparr>sim_device := Booting []\<rparr>)
            | _ \<Rightarrow> (-1, w\<lparr>sim_device := Running code fw\<rparr>))"

definition sim_bulk_write :: "(pin list \<Rightarrow> bool) \<Rightarrow> nat \<Rightarrow> int \<Rightarrow> byte list \<Rightarrow> unicone_sim \<Rightarrow> int \<times> unicone_sim" where
  "sim_bulk_write dn h ep bs w = (int (length bs), w\<lparr>sim_bulk := sim_bulk w + 1, sim_device := (case sim_device w of
       Booting rx \<Rightarrow> Booting (rx @ bs)
     | Running code fw \<Rightarrow> Running code
         (fold (fw_step dn (firmware_version_stamp code)) (concat (map (if ep = 1 then feed1 else feed2) (packets64 bs))) fw))\<rparr>)"

definition sim_host :: "(byte list \<Rightarrow> byte list option) \<Rightarrow> (pin list \<Rightarrow> bool) \<Rightarrow> (string \<Rightarrow> stream option) \<Rightarrow> unicone_sim usb_host" where
  "sim_host rom dn fs =
     \<lparr>uh_find_devices = sim_find rom, uh_busses = sim_busses, uh_open = (\<lambda>loc w. (Some 1, w)), uh_close = (\<lambda>h w. w),
      uh_set_configuration = (\<lambda>h c w. (0, w)), uh_claim_interface = (\<lambda>h i w. (0, w)),
      uh_control_in = sim_control_in dn, uh_control_out = sim_control_out dn, uh_bulk_write = sim_bulk_write dn,
      uh_report = (\<lambda>p w. w), uh_file = fs, uh_junk = (\<lambda>n. replicate n 0), uh_unaligned = False\<rparr>"

lemma sim_host_simps [simp]:
  "uh_find_devices (sim_host rom dn fs) = sim_find rom" "uh_busses (sim_host rom dn fs) = sim_busses"
  "uh_open (sim_host rom dn fs) loc w = (Some 1, w)" "uh_close (sim_host rom dn fs) h w = w"
  "uh_set_configuration (sim_host rom dn fs) h c w = (0, w)" "uh_claim_interface (sim_host rom dn fs) h j w = (0, w)"
  "uh_control_in (sim_host rom dn fs) = sim_control_in dn" "uh_control_out (sim_host rom dn fs) = sim_control_out dn"
  "uh_bulk_write (sim_host rom dn fs) = sim_bulk_write dn" "uh_report (sim_host rom dn fs) p w = w"
  "uh_file (sim_host rom dn fs) = fs" "uh_junk (sim_host rom dn fs) n = replicate n 0"
  by (simp_all add: sim_host_def)

section \<open>Bulk transfers\<close>

text \<open>A pipe of the host: \<open>I m w\<close> says that \<open>m\<close> is what has arrived at the other end. It takes all it is given.\<close>

locale bulk_pipe =
  fixes H :: "'w usb_host" and h :: nat and ep :: int and I :: "byte list \<Rightarrow> 'w \<Rightarrow> bool"
  assumes takes: "I m w \<Longrightarrow> bs \<noteq> [] \<Longrightarrow> \<exists>w'. uh_bulk_write H h ep bs w = (int (length bs), w') \<and> I (m @ bs) w'"
    and reports: "I m w \<Longrightarrow> I m (uh_report H p w)"
begin

lemma sends: "I m w \<Longrightarrow> \<exists>w'. send_bulk H h ep tot n bs w = (n + int (length bs), w') \<and> I (m @ bs) w'"
proof (induction "length bs" arbitrary: m n bs w rule: less_induct)
  case less
  show ?case
  proof (cases "bs = []")
    case True
    then show ?thesis
      using less.prems by (simp add: send_bulk.simps)
  next
    case False
    let ?b = "take 128 bs"
    obtain w1 where w1: "uh_bulk_write H h ep ?b w = (int (length ?b), w1)" "I (m @ ?b) w1"
      using takes [OF less.prems, of ?b] False by auto
    have pos: "0 < length ?b" "length (drop (length ?b) bs) < length bs"
      using False by simp_all
    obtain w2 where "send_bulk H h ep tot (n + int (length ?b)) (drop (length ?b) bs)
        (uh_report H (Prog_update (n + int (length ?b)) tot) w1) =
        (n + int (length ?b) + int (length (drop (length ?b) bs)), w2)" "I ((m @ ?b) @ drop (length ?b) bs) w2"
      using less.hyps [OF pos(2) reports [OF w1(2)]] by blast
    moreover have "send_bulk H h ep tot n bs w = send_bulk H h ep tot (n + int (length ?b)) (drop (length ?b) bs)
        (uh_report H (Prog_update (n + int (length ?b)) tot) w1)"
      using False w1(1) pos(1) by (subst send_bulk.simps) (simp del: length_take)
    moreover have "drop (length ?b) bs = drop 128 bs"
      by (cases "length bs \<le> 128") simp_all
    moreover have "length ?b + length (drop 128 bs) = length bs"
      by simp
    ultimately show ?thesis
      by (simp del: length_take length_drop)
  qed
qed

end

lemma packets64_parts: "concat (packets64 bs) = bs \<and> (\<forall>p \<in> set (packets64 bs). p \<noteq> [] \<and> length p \<le> 64)"
proof (induction bs rule: packets64.induct)
  case (1 bs)
  then show ?case
    by (cases "bs = []") (simp_all add: packets64.simps [of bs] packets64.simps [of "[]"])
qed

text \<open>Both uses of the first bulk endpoint: to the boot loader, and to the FPGA.\<close>

interpretation boot_pipe: bulk_pipe "sim_host rom dn fs" h ep "\<lambda>m w. sim_device w = Booting m" for rom dn fs h ep
  by unfold_locales (simp_all add: sim_bulk_write_def)

interpretation fpga_pipe: bulk_pipe "sim_host rom dn fs" h 1
  "\<lambda>m w. \<exists>fw. sim_device w = Running code fw \<and> configured_by m (fw_fpga fw) \<and> endpoint_free (ep1_out fw)" for rom dn fs h code
proof
  fix m bs :: "byte list" and w :: unicone_sim
  assume "\<exists>fw. sim_device w = Running code fw \<and> configured_by m (fw_fpga fw) \<and> endpoint_free (ep1_out fw)"
  then show "\<exists>w'. uh_bulk_write (sim_host rom dn fs) h 1 bs w = (int (length bs), w') \<and>
      (\<exists>fw. sim_device w' = Running code fw \<and> configured_by (m @ bs) (fw_fpga fw) \<and> endpoint_free (ep1_out fw))"
    using feeds_configure [of m _ "packets64 bs" dn "firmware_version_stamp code"] packets64_parts [of bs]
    by (auto simp: sim_bulk_write_def)
qed simp

section \<open>The image of a firmware\<close>

definition firmware_code :: "byte list \<Rightarrow> byte list" where
  "firmware_code fw = fw @ replicate (MAX_FIRMWARE_SIZE - length fw) 0 @ sha1 fw"

definition firmware_image :: "byte list \<Rightarrow> byte list" where
  "firmware_image fw = [0x00, 0x20, arith_checksum_8bit (firmware_code fw)] @ firmware_code fw"

lemmas unicone_sizes = CODESPACE_SIZE_def SHA1_STAMP_SIZE_def MAX_FIRMWARE_SIZE_def FIRMWARE_HEADER_SIZE_def

lemma length_firmware_code: "length fw \<le> MAX_FIRMWARE_SIZE \<Longrightarrow> length (firmware_code fw) = CODESPACE_SIZE"
  by (simp add: firmware_code_def unicone_sizes)

lemma firmware_code_stamp: "length fw \<le> MAX_FIRMWARE_SIZE \<Longrightarrow> firmware_version_stamp (firmware_code fw) = sha1 fw"
  by (simp add: firmware_version_stamp_def firmware_code_def unicone_sizes)

lemma fw_buffer_image:
  assumes "length fw \<le> MAX_FIRMWARE_SIZE" "length (uh_junk H 128) = 128"
  shows "take (FIRMWARE_HEADER_SIZE + CODESPACE_SIZE) (fw_buffer H fw) = firmware_image fw"
proof -
  define z where "z = replicate (MAX_FIRMWARE_SIZE - length fw) (0 :: byte)"
  have l: "length fw < 2 ^ 32" "length fw + length z = MAX_FIRMWARE_SIZE"
    using assms(1) by (simp_all add: z_def unicone_sizes)
  have "replicate (CODESPACE_SIZE + FIRMWARE_HEADER_SIZE + 1) (0 :: byte) =
      replicate 3 0 @ replicate (length fw) 0 @ z @ replicate 21 0"
    using assms(1) by (simp add: unicone_sizes z_def flip: replicate_add)
  moreover have "replicate 3 (0 :: byte) = [0, 0, 0]"
    by (simp add: numeral_3_eq_3)
  ultimately have b1: "copy_to FIRMWARE_HEADER_SIZE fw (replicate (CODESPACE_SIZE + FIRMWARE_HEADER_SIZE + 1) 0) =
      [0, 0, 0] @ fw @ z @ replicate 21 0"
    unfolding FIRMWARE_HEADER_SIZE_def copy_to_def by (simp only:) (simp add: numeral_3_eq_3)
  have b2: "copy_to (FIRMWARE_HEADER_SIZE + CODESPACE_SIZE - SHA1_STAMP_SIZE) (sha1 fw) ([0, 0, 0] @ fw @ z @ replicate 21 0) =
      [0, 0, 0] @ fw @ z @ sha1 fw @ [0]"
    using l(2) by (simp add: copy_to_def unicone_sizes)
  have code: "take CODESPACE_SIZE (drop FIRMWARE_HEADER_SIZE (0 # 0x20 # 0 # fw @ z @ sha1 fw @ [0])) = firmware_code fw"
    using l(2) by (simp add: unicone_sizes firmware_code_def z_def)
  have "fw_buffer H fw = 0 # 0x20 # arith_checksum_8bit (firmware_code fw) # fw @ z @ sha1 fw @ [0]"
  proof -
    have "take (length fw) (drop FIRMWARE_HEADER_SIZE ([0, 0, 0] @ fw @ z @ replicate 21 0)) = fw"
      by (simp add: FIRMWARE_HEADER_SIZE_def)
    moreover have "sha_buffer (uh_unaligned H) (uh_junk H 128) fw = sha1 fw" "take SHA1_STAMP_SIZE (sha1 fw) = sha1 fw"
      using buffer_digest [OF assms(2) l(1)] by (simp_all add: SHA1_STAMP_SIZE_def)
    moreover have "([0, 0, 0] @ r)[0 := of_nat CODESPACE_SIZE AND 0xFF] = [0, 0, 0] @ r"
        "([0, 0, 0] @ r)[1 := of_nat (CODESPACE_SIZE div 256)] = 0 # 0x20 # 0 # r"
        "(0 # 0x20 # 0 # r)[2 := c] = 0 # 0x20 # c # r" for r :: "byte list" and c
      by (simp_all add: CODESPACE_SIZE_def numeral_2_eq_2)
    ultimately show ?thesis
      unfolding fw_buffer_def Let_def b1 by (simp only: b2 code)
  qed
  moreover have "take (FIRMWARE_HEADER_SIZE + CODESPACE_SIZE) (0 # 0x20 # c # fw @ z @ sha1 fw @ [0]) =
      [0x00, 0x20, c] @ firmware_code fw" for c
    using l(2) by (simp add: unicone_sizes firmware_code_def z_def)
  ultimately show ?thesis
    by (simp add: firmware_image_def)
qed

section \<open>Requests\<close>

lemma stamp_transfer: "host_reads 20 (usb_write_ep0_buffer 20 bs) = Some (take 20 bs)"
  "host_reads (Suc 0) (usb_write_ep0_buffer 1 bs) = Some (take 1 bs)"
  using ep0_transfer [of 20 bs] ep0_transfer [of 1 bs] by simp_all

lemma sim_firmware_stamp:
  "sim_device w = Running code fw \<Longrightarrow> sim_control_in dn h UNICONE_REQ_GET_FIRMWARE_STAMP 20 w =
    (int (length (take 20 (firmware_version_stamp code))), take 20 (firmware_version_stamp code), w\<lparr>sim_device := Running code fw\<rparr>)"
  by (simp add: sim_control_in_def sim_setup_def usb_handle_setup_def usb_requests vendor_request_def unicone_requests
      stamp_transfer Let_def)

lemma sim_fpga_stamp:
  "sim_device w = Running code fw \<Longrightarrow> sim_control_in dn h UNICONE_REQ_GET_FPGA_STAMP 20 w =
    (int (length (take 20 (fpga_version_stamp (fw_fpga fw)))), take 20 (fpga_version_stamp (fw_fpga fw)),
     w\<lparr>sim_device := Running code fw\<rparr>)"
  by (simp add: sim_control_in_def sim_setup_def usb_handle_setup_def usb_requests vendor_request_def unicone_requests
      stamp_transfer Let_def)

lemma sim_status:
  "sim_device w = Running code fw \<Longrightarrow> sim_control_in dn h UNICONE_REQ_FPGA_STATUS (Suc 0) w =
    (1, [fpga_config_status dn (fw_fpga fw)], w\<lparr>sim_device := Running code fw\<rparr>)"
  by (simp add: sim_control_in_def sim_setup_def usb_handle_setup_def usb_requests vendor_request_def unicone_requests
      stamp_transfer Let_def)

lemma sim_config_end:
  "sim_device w = Running code fw \<Longrightarrow> sim_control_in dn h UNICONE_REQ_FPGA_CONFIG_END (Suc 0) w =
    (1, [fst (fpga_config_end dn (fw_fpga fw))],
     w\<lparr>sim_device := Running code (fw\<lparr>fw_fpga := snd (fpga_config_end dn (fw_fpga fw))\<rparr>)\<rparr>)"
  by (simp add: sim_control_in_def sim_setup_def usb_handle_setup_def usb_requests vendor_request_def unicone_requests
      stamp_transfer Let_def split_beta)

lemma sim_config_begin:
  "sim_device w = Running code fw \<Longrightarrow> sim_control_out dn h UNICONE_REQ_FPGA_CONFIG_BEGIN 0 0 w =
    (0, w\<lparr>sim_device := Running code (fw\<lparr>fw_fpga := fpga_config_begin (fw_fpga fw)\<rparr>)\<rparr>)"
  by (simp add: sim_control_out_def sim_setup_def usb_handle_setup_def usb_requests vendor_request_def unicone_requests Let_def)

lemma sim_reboot:
  "sim_device w = Running code fw \<Longrightarrow> sim_control_out dn h UNICONE_REQ_REBOOT 0 0 w = (-1, w\<lparr>sim_device := Booting []\<rparr>)"
  by (simp add: sim_control_out_def sim_setup_def usb_handle_setup_def usb_requests vendor_request_def unicone_requests Let_def)

section \<open>Reconnecting\<close>

lemma new_running:
  assumes "sim_device w = Running code fw"
  shows "\<exists>c w'. unicone_device_new (sim_host rom dn fs) w =
      Some (Some \<lparr>usbdev = 1, firmware_installed = True, fpga_configured = c\<rparr>, w') \<and>
    sim_device w' = Running code fw \<and> sim_bulk w' = sim_bulk w"
  using assms
  by (simp add: unicone_device_new_def sim_busses_def bus_devices_def sim_status UNICONE_PRODUCT_ID_def
      UNICONE_BOOTLOAD_PRODUCT_ID_def)

lemma new_booting:
  "sim_device w = Booting rx \<Longrightarrow> unicone_device_new (sim_host rom dn fs) w =
      Some (Some \<lparr>usbdev = 1, firmware_installed = False, fpga_configured = False\<rparr>, w)"
  by (simp add: unicone_device_new_def sim_busses_def bus_devices_def)

lemma reconnect_running:
  assumes "sim_device w = Booting rx" "rom rx = Some code"
  shows "\<exists>c w' fw. unicone_device_reconnect (sim_host rom dn fs) dev w =
      Some (0, \<lparr>usbdev = 1, firmware_installed = True, fpga_configured = c\<rparr>, w') \<and>
    sim_device w' = Running code fw \<and> endpoint_free (ep1_out fw) \<and> length (fpga_version_stamp (fw_fpga fw)) = 20"
proof -
  let ?fw = "unicone_boot (replicate 64 0) (replicate 64 0)"
  have "sim_device (sim_find rom w) = Running code ?fw"
    using assms by (simp add: sim_find_def)
  then obtain c w' where "unicone_device_new (sim_host rom dn fs) (sim_find rom w) =
      Some (Some \<lparr>usbdev = 1, firmware_installed = True, fpga_configured = c\<rparr>, w')" "sim_device w' = Running code ?fw"
    using new_running by blast
  moreover have "endpoint_free (ep1_out ?fw)" "length (fpga_version_stamp (fw_fpga ?fw)) = 20"
    by (simp_all add: unicone_boot_def usb_dma_unstall_def fpga_init_def drive_def)
  ultimately show ?thesis
    by (simp add: unicone_device_reconnect_def reconnect_loop.simps progress_operation_finish_def)
qed

lemma reconnect_booting:
  "sim_device w = Booting rx \<Longrightarrow> rom rx = None \<Longrightarrow> unicone_device_reconnect (sim_host rom dn fs) dev w =
      Some (0, \<lparr>usbdev = 1, firmware_installed = False, fpga_configured = False\<rparr>, w)"
  by (simp add: unicone_device_reconnect_def reconnect_loop.simps progress_operation_finish_def sim_find_def new_booting)

section \<open>Files\<close>

definition firmware_file :: "(string \<Rightarrow> stream option) \<Rightarrow> string \<Rightarrow> byte list \<Rightarrow> bool" where
  "firmware_file fs name fw \<longleftrightarrow>
     (\<exists>pieces. fs name = Some (pieces, False) \<and> [] \<notin> set pieces \<and> concat pieces = fw) \<and> 0 < length fw \<and> length fw \<le> MAX_FIRMWARE_SIZE"

definition bitstream_file :: "(string \<Rightarrow> stream option) \<Rightarrow> string \<Rightarrow> byte list \<Rightarrow> bool" where
  "bitstream_file fs name dat \<longleftrightarrow>
     (\<exists>f ms after part. fs name = Some f \<and> concat (fst f) = bit_image ms dat @ after \<and>
        (\<forall>m \<in> set ms. 0 < length (snd m) \<and> length (snd m) < 65536) \<and>
        bf_part_number (fold set_meta ms no_bitfile) = Some part \<and> is_our_part part) \<and>
     0 < length dat \<and> length dat < 2 ^ 31 - 20"

lemma sim_sha_raw_file:
  "firmware_file fs name fw \<Longrightarrow> sha_raw_file (sim_host rom dn fs) name = Some (sha1 fw)"
  by (auto simp: firmware_file_def sha_raw_file_def stream_digest into_def)

lemma sim_bitfile:
  assumes "bitstream_file fs name dat"
  obtains bf part where "unicone_bitfile (sim_host rom dn fs) name = Some bf" "bf_part_number bf = Some part" "is_our_part part"
    "fst (bitfile_read_content bf) = int (length dat)" "bf_data (snd (bitfile_read_content bf)) = Some dat"
proof -
  obtain f ms after part where f: "fs name = Some f" "concat (fst f) = bit_image ms dat @ after"
      "\<forall>m \<in> set ms. 0 < length (snd m) \<and> length (snd m) < 65536"
      "bf_part_number (fold set_meta ms no_bitfile) = Some part" "is_our_part part" and l: "0 < length dat" "length dat < 2 ^ 31"
    using assms unfolding bitstream_file_def by auto
  let ?bf = "(fold set_meta ms no_bitfile)\<lparr>bf_length := int (length dat), bf_file := Some (dat @ after)\<rparr>"
  have "unicone_bitfile (sim_host rom dn fs) name = Some ?bf"
    using open_image [OF f(3) l(2), of after] f(1,2) by (simp add: unicone_bitfile_def bitfile_new_from_path_def)
  moreover have "bf_part_number ?bf = Some part"
    using f(4) by simp
  moreover have "fst (bitfile_read_content ?bf) = int (length dat)" "bf_data (snd (bitfile_read_content ?bf)) = Some dat"
    using l(1) by (simp_all add: bitfile_read_content_def fread_item_def no_bitfile_def)
  ultimately show ?thesis
    using that f(5) by blast
qed

section \<open>Uploads\<close>

text \<open>The boot loader: it starts the code that it gets with its length and its checksum, and nothing before it has any.\<close>

definition boot_rom :: "(byte list \<Rightarrow> byte list option) \<Rightarrow> bool" where
  "boot_rom rom \<longleftrightarrow> rom [] = None \<and>
     (\<forall>code. length code = 0x2000 \<longrightarrow> rom ([0x00, 0x20, arith_checksum_8bit code] @ code) = Some code)"

definition runs :: "byte list \<Rightarrow> unicone_sim \<Rightarrow> unicone_fw \<Rightarrow> bool" where
  "runs code w fw \<longleftrightarrow> sim_device w = Running code fw \<and> endpoint_free (ep1_out fw) \<and>
     length (fpga_version_stamp (fw_fpga fw)) = 20"

lemma upload_firmware_sim:
  assumes "firmware_file fs name fw" "sim_device w = Booting []" "\<not> firmware_installed dev"
  shows "\<exists>w'. unicone_device_upload_firmware (sim_host rom dn fs) dev name w = Some (8195, w') \<and>
    sim_device w' = Booting (firmware_image fw)"
proof -
  obtain pieces where f: "fs name = Some (pieces, False)" "concat pieces = fw" and l: "0 < length fw" "length fw \<le> MAX_FIRMWARE_SIZE"
    using assms(1) by (auto simp: firmware_file_def)
  have img: "take (FIRMWARE_HEADER_SIZE + CODESPACE_SIZE) (fw_buffer (sim_host rom dn fs) fw) = firmware_image fw"
    by (rule fw_buffer_image [OF l(2)]) simp
  have len: "length (firmware_image fw) = 8195"
    using length_firmware_code [OF l(2)] by (simp add: firmware_image_def CODESPACE_SIZE_def)
  obtain w' where "send_bulk (sim_host rom dn fs) (usbdev dev) UNICONE_EP_BOOTLOAD (int (length (firmware_image fw))) 0 (firmware_image fw) w =
      (int (length (firmware_image fw)), w')" "sim_device w' = Booting (firmware_image fw)"
    using boot_pipe.sends [OF assms(2)] by (metis add_0 append_Nil)
  then show ?thesis
    using assms(3) f l img len
    by (simp add: unicone_device_upload_firmware_def send_bulk_ep_buffer_def progress_operation_finish_def take_all Let_def
        del: length_0_conv length_greater_0_conv)
qed

lemma install_booting:
  assumes f: "firmware_file fs name fw" and rom: "boot_rom rom" and w: "sim_device w = Booting []" "\<not> firmware_installed dev"
  shows "\<exists>c w' fw'. install_firmware say (sim_host rom dn fs) dev name w =
      Some (True, \<lparr>usbdev = 1, firmware_installed = True, fpga_configured = c\<rparr>, w') \<and> runs (firmware_code fw) w' fw'"
proof -
  obtain w1 where w1: "unicone_device_upload_firmware (sim_host rom dn fs) dev name w = Some (8195, w1)"
      "sim_device w1 = Booting (firmware_image fw)"
    using upload_firmware_sim [OF f w] by blast
  have "length (firmware_code fw) = 0x2000"
    using f length_firmware_code by (simp add: firmware_file_def CODESPACE_SIZE_def)
  then have "rom (firmware_image fw) = Some (firmware_code fw)"
    using rom by (simp add: boot_rom_def firmware_image_def)
  then obtain c w2 fw2 where "unicone_device_reconnect (sim_host rom dn fs) dev w1 =
      Some (0, \<lparr>usbdev = 1, firmware_installed = True, fpga_configured = c\<rparr>, w2)" "runs (firmware_code fw) w2 fw2"
    using reconnect_running [OF w1(2), of rom] unfolding runs_def by blast
  then show ?thesis
    using w1(1) w(2) by (auto simp: install_firmware_def)
qed

lemma install_running:
  assumes f: "firmware_file fs name fw" and rom: "boot_rom rom" and w: "sim_device w = Running code fw0" "firmware_installed dev"
    and say: "\<And>w. say w = w"
  shows "\<exists>c w' fw'. install_firmware say (sim_host rom dn fs) dev name w =
      Some (True, \<lparr>usbdev = 1, firmware_installed = True, fpga_configured = c\<rparr>, w') \<and> runs (firmware_code fw) w' fw'"
proof -
  let ?w = "w\<lparr>sim_device := Booting []\<rparr>" and ?d = "\<lparr>usbdev = 1, firmware_installed = False, fpga_configured = False\<rparr>"
  have "unicone_device_remove_firmware (sim_host rom dn fs) dev w = Some (-1, ?w)"
    using w by (simp add: unicone_device_remove_firmware_def sim_reboot)
  moreover have "unicone_device_reconnect (sim_host rom dn fs) dev ?w = Some (0, ?d, ?w)"
    using rom unfolding boot_rom_def by (intro reconnect_booting) auto
  ultimately have "install_firmware say (sim_host rom dn fs) dev name w = install_firmware say (sim_host rom dn fs) ?d name ?w"
    using w(2) by (simp add: install_firmware_def say)
  then show ?thesis
    using install_booting [OF f rom, of ?w ?d say dn] by simp
qed

text \<open>The bitstream: the stamp, the FPGA and the result.\<close>

lemma upload_bitstream_sim:
  assumes f: "bitstream_file fs name dat" and r: "runs code w fw" and dev: "firmware_installed dev"
    and pin: "\<forall>ps. clocked ps = concat (map byte_bits dat) \<longrightarrow> dn ps"
  shows "\<exists>w' fw'. unicone_device_upload_bitstream (sim_host rom dn fs) dev name w =
      Some (int (length dat) + 20, dev\<lparr>fpga_configured := True\<rparr>, w') \<and> runs code w' fw' \<and>
    fpga_version_stamp (fw_fpga fw') = sha1 dat \<and>
    clocked (fw_pins (fw_fpga fw')) = concat (map byte_bits (dat @ [0]))"
proof -
  let ?H = "sim_host rom dn fs"
  obtain bf part where bf: "unicone_bitfile ?H name = Some bf" "bf_part_number bf = Some part" "is_our_part part"
      "fst (bitfile_read_content bf) = int (length dat)" "bf_data (snd (bitfile_read_content bf)) = Some dat"
    using sim_bitfile [OF f] .
  have sha: "sha_buffer (uh_unaligned ?H) (replicate 128 0) dat = sha1 dat"
    using f by (intro buffer_digest) (simp_all add: bitstream_file_def)
  let ?buf = "sha1 dat @ dat"
  let ?w1 = "w\<lparr>sim_device := Running code (fw\<lparr>fw_fpga := fpga_config_begin (fw_fpga fw)\<rparr>)\<rparr>"
  have "\<exists>fw. sim_device ?w1 = Running code fw \<and> configured_by [] (fw_fpga fw) \<and> endpoint_free (ep1_out fw)"
    using r begin_configures by (simp add: runs_def)
  then obtain w2 fw2 where w2: "send_bulk ?H (usbdev dev) 1 (int (length ?buf)) 0 ?buf ?w1 = (int (length ?buf), w2)"
      "sim_device w2 = Running code fw2" "configured_by ?buf (fw_fpga fw2)" "endpoint_free (ep1_out fw2)"
    using fpga_pipe.sends [where n = 0 and bs = ?buf and w = ?w1] by (metis add_0 append_Nil)
  have stamp: "fpga_version_stamp (fw_fpga fw2) = sha1 dat" "clocked (fw_pins (fw_fpga fw2)) = concat (map byte_bits dat)"
      "clock_low (fw_fpga fw2)"
    using configured_stamp [OF w2(3)] w2(3) by (simp_all add: configured_by_def)
  let ?f = "(fw_fpga fw2)\<lparr>config_in_progress := False\<rparr>"
  have "dn (fw_pins (fw_fpga fw2))"
    using pin stamp(2) by simp
  then have "fpga_config_end dn (fw_fpga fw2) =
      (UNICONE_STATUS_OK, drive [Din True, Delay 100, Din False] (fpga_config_write_byte 0 ?f))"
    by (simp add: fpga_config_end_def Let_def)
  moreover have "clocked (fw_pins (drive [Din True, Delay 100, Din False] f)) = clocked (fw_pins f)" for f
    by (cases "fpga_state (fw_pins f)") (simp add: drive_def clocked_def fpga_state_append)
  moreover have "clocked (fw_pins (fpga_config_write_byte 0 ?f)) = concat (map byte_bits (dat @ [0]))"
    using write_byte_clocks(1) [of ?f 0] stamp(2,3) by (simp add: clock_low_def)
  ultimately have fin: "fst (fpga_config_end dn (fw_fpga fw2)) = UNICONE_STATUS_OK"
      "fpga_version_stamp (snd (fpga_config_end dn (fw_fpga fw2))) = sha1 dat"
      "clocked (fw_pins (snd (fpga_config_end dn (fw_fpga fw2)))) = concat (map byte_bits (dat @ [0]))"
    using stamp(1) by (simp_all add: drive_def)
  let ?fw3 = "fw2\<lparr>fw_fpga := snd (fpga_config_end dn (fw_fpga fw2))\<rparr>"
  have "unicone_device_upload_bitstream ?H dev name w =
      Some (int (length dat) + 20, dev\<lparr>fpga_configured := True\<rparr>, w2\<lparr>sim_device := Running code ?fw3\<rparr>)"
    using dev bf w2(1) sha r fin(1) sim_config_begin [of w code fw dn] sim_config_end [OF w2(2), of dn]
    by (simp add: unicone_device_upload_bitstream_def Let_def split_beta runs_def send_bulk_ep_buffer_def
        progress_operation_finish_def UNICONE_EP_FPGA_CONFIG_def into_def)
  moreover have "runs code (w2\<lparr>sim_device := Running code ?fw3\<rparr>) ?fw3"
    using w2(4) fin(2) by (simp add: runs_def)
  ultimately show ?thesis
    using fin(2,3) by (intro exI [of _ "w2\<lparr>sim_device := Running code ?fw3\<rparr>"] exI [of _ ?fw3]) simp
qed

section \<open>Configuration\<close>

text \<open>What the host knows of a device that is attached.\<close>

definition attached_to :: "unicone_device \<Rightarrow> unicone_sim \<Rightarrow> bool" where
  "attached_to dev w \<longleftrightarrow> (case sim_device w of
       Booting rx \<Rightarrow> rx = [] \<and> \<not> firmware_installed dev
     | Running code fw \<Rightarrow> firmware_installed dev \<and> runs code w fw)"

lemma compare_firmware_running:
  assumes "firmware_file fs name fw" "runs code w fw0" "firmware_installed dev" "length code = 0x2000"
  shows "\<exists>w'. unicone_device_compare_firmware (sim_host rom dn fs) dev name w =
      (if firmware_version_stamp code = sha1 fw then 0 else 1, w') \<and> runs code w' fw0 \<and> sim_bulk w' = sim_bulk w"
proof -
  have "take 20 (firmware_version_stamp code) = firmware_version_stamp code" "length (firmware_version_stamp code) = 20"
    using assms(4) by (simp_all add: firmware_version_stamp_def)
  then have "unicone_device_compare_firmware (sim_host rom dn fs) dev name w =
      (if firmware_version_stamp code = sha1 fw then 0 else 1, w\<lparr>sim_device := Running code fw0\<rparr>)"
    using assms(2,3) sim_sha_raw_file [OF assms(1)] sim_firmware_stamp [of w code fw0 dn]
    by (auto simp: unicone_device_compare_firmware_def runs_def sha_compare_def into_def)
  then show ?thesis
    using assms(2) by (simp add: runs_def)
qed

lemma compare_bitstream_running:
  assumes "bitstream_file fs name dat" "runs code w fw" "firmware_installed dev"
  shows "\<exists>w'. unicone_device_compare_bitstream (sim_host rom dn fs) dev name w =
      Some (if fpga_configured dev \<and> fpga_version_stamp (fw_fpga fw) = sha1 dat then 0 else 1, w') \<and>
    runs code w' fw \<and> sim_bulk w' = sim_bulk w"
proof -
  obtain bf where bf: "unicone_bitfile (sim_host rom dn fs) name = Some bf" "fst (bitfile_read_content bf) = int (length dat)"
      "bf_data (snd (bitfile_read_content bf)) = Some dat"
    using sim_bitfile [OF assms(1)] by blast
  have "sha_buffer (uh_unaligned (sim_host rom dn fs)) (replicate 128 0) dat = sha1 dat"
    using assms(1) by (intro buffer_digest) (simp_all add: bitstream_file_def)
  then have "sha_bitstream_file (sim_host rom dn fs) name = Some (sha1 dat)"
    using bf by (simp add: sha_bitstream_file_def split_beta)
  then have "unicone_device_compare_bitstream (sim_host rom dn fs) dev name w =
      Some (if fpga_configured dev \<and> fpga_version_stamp (fw_fpga fw) = sha1 dat then 0 else 1,
        if fpga_configured dev then w\<lparr>sim_device := Running code fw\<rparr> else w)"
    using assms(2,3) sim_fpga_stamp [of w code fw dn]
    by (auto simp: unicone_device_compare_bitstream_def runs_def sha_compare_def into_def)
  then show ?thesis
    using assms(2) by (simp add: runs_def)
qed

text \<open>The firmware is there, in whatever way the device was found.\<close>

definition code_ok :: "unicone_sim \<Rightarrow> bool" where
  "code_ok w \<longleftrightarrow> (case sim_device w of Booting rx \<Rightarrow> True | Running code fw \<Rightarrow> length code = 0x2000)"

lemma configure_stages:
  assumes fw: "firmware_file fs fname fw" and bs: "bitstream_file fs bname dat" and rom: "boot_rom rom"
    and pin: "\<forall>ps. clocked ps = concat (map byte_bits dat) \<longrightarrow> dn ps"
    and w: "attached_to dev w" "code_ok w"
  shows "\<exists>dev' w' code fw'. unicone_device_configure (sim_host rom dn fs) dev fname bname w = Some (0, dev', w') \<and>
    runs code w' fw' \<and> length code = 0x2000 \<and> firmware_installed dev' \<and> fpga_configured dev' \<and>
    firmware_version_stamp code = sha1 fw \<and> fpga_version_stamp (fw_fpga fw') = sha1 dat"
proof -
  let ?H = "sim_host rom dn fs"
  let ?say = "uh_report ?H (Prog_message ''Rebooting to remove existing firmware'')"
  have image: "length (firmware_code fw) = 0x2000" "firmware_version_stamp (firmware_code fw) = sha1 fw"
    using fw length_firmware_code firmware_code_stamp by (simp_all add: firmware_file_def CODESPACE_SIZE_def)
  have "\<exists>r dev1 w0 w1 code fw1. unicone_device_compare_firmware ?H dev fname w = (r, w0) \<and> 0 \<le> r \<and>
      (if r > 0 then install_firmware ?say ?H dev fname w0 else Some (True, dev, w0)) = Some (True, dev1, w1) \<and>
      firmware_installed dev1 \<and> runs code w1 fw1 \<and> length code = 0x2000 \<and> firmware_version_stamp code = sha1 fw"
  proof (cases "sim_device w")
    case (Booting rx)
    then have "unicone_device_compare_firmware ?H dev fname w = (1, w)" "sim_device w = Booting []" "\<not> firmware_installed dev"
      using w(1) by (simp_all add: attached_to_def unicone_device_compare_firmware_def)
    then show ?thesis
      using install_booting [OF fw rom, of w dev ?say dn] image by fastforce
  next
    case (Running code fw0)
    then have d: "firmware_installed dev" "runs code w fw0" "length code = 0x2000"
      using w by (simp_all add: attached_to_def code_ok_def)
    obtain w0 where w0: "unicone_device_compare_firmware ?H dev fname w =
        (if firmware_version_stamp code = sha1 fw then 0 else 1, w0)" "runs code w0 fw0"
      using compare_firmware_running [OF fw d(2,1,3)] by blast
    show ?thesis
    proof (cases "firmware_version_stamp code = sha1 fw")
      case True
      then show ?thesis
        using w0 d by fastforce
    next
      case False
      then show ?thesis
        using w0 d(1) install_running [OF fw rom, of w0 code fw0 dev ?say dn] image by (fastforce simp: runs_def)
    qed
  qed
  then obtain r dev1 w0 w1 code fw1 where one: "unicone_device_compare_firmware ?H dev fname w = (r, w0)" "0 \<le> r"
      "(if r > 0 then install_firmware ?say ?H dev fname w0 else Some (True, dev, w0)) = Some (True, dev1, w1)"
      "firmware_installed dev1" "runs code w1 fw1" "length code = 0x2000" "firmware_version_stamp code = sha1 fw"
    by blast
  let ?same = "fpga_configured dev1 \<and> fpga_version_stamp (fw_fpga fw1) = sha1 dat"
  obtain w2 where w2: "unicone_device_compare_bitstream ?H dev1 bname w1 = Some (if ?same then 0 else 1, w2)" "runs code w2 fw1"
    using compare_bitstream_running [OF bs one(5,4)] by blast
  show ?thesis
  proof (cases ?same)
    case True
    then have "unicone_device_configure ?H dev fname bname w = Some (0, dev1, w2)"
      using one(1,2,3) w2(1) by (simp add: unicone_device_configure_def)
    then show ?thesis
      using True one(4,6,7) w2(2) by blast
  next
    case False
    then obtain w3 fw3 where "unicone_device_upload_bitstream ?H dev1 bname w2 =
        Some (int (length dat) + 20, dev1\<lparr>fpga_configured := True\<rparr>, w3)" "runs code w3 fw3"
        "fpga_version_stamp (fw_fpga fw3) = sha1 dat"
      using upload_bitstream_sim [OF bs w2(2) one(4) pin] by blast
    moreover from this(1) have "unicone_device_configure ?H dev fname bname w = Some (0, dev1\<lparr>fpga_configured := True\<rparr>, w3)"
      using one(1,2,3) w2(1) False by (simp add: unicone_device_configure_def)
    ultimately show ?thesis
      using one(4,6,7) by (intro exI [of _ "dev1\<lparr>fpga_configured := True\<rparr>"] exI [of _ w3] exI [of _ code] exI [of _ fw3]) simp
  qed
qed

text \<open>A device that is up to date is left alone.\<close>

lemma configure_again:
  assumes fw: "firmware_file fs fname fw" and bs: "bitstream_file fs bname dat"
    and w: "runs code w fw0" "length code = 0x2000" "firmware_installed dev" "fpga_configured dev"
    and stamps: "firmware_version_stamp code = sha1 fw" "fpga_version_stamp (fw_fpga fw0) = sha1 dat"
  shows "\<exists>w'. unicone_device_configure (sim_host rom dn fs) dev fname bname w = Some (0, dev, w') \<and>
    sim_device w' = sim_device w \<and> sim_bulk w' = sim_bulk w"
proof -
  let ?H = "sim_host rom dn fs"
  obtain w1 where w1: "unicone_device_compare_firmware ?H dev fname w = (0, w1)" "runs code w1 fw0" "sim_bulk w1 = sim_bulk w"
    using compare_firmware_running [OF fw w(1,3,2)] stamps by auto
  obtain w2 where "unicone_device_compare_bitstream ?H dev bname w1 = Some (0, w2)" "runs code w2 fw0" "sim_bulk w2 = sim_bulk w1"
    using compare_bitstream_running [OF bs w1(2) w(3)] stamps w(4) by auto
  then show ?thesis
    using w1 w(1) by (simp add: unicone_device_configure_def runs_def)
qed


definition example_name :: "byte list" where
  "example_name = [0x34, 0x30, 0x31, 0x30, 0x78, 0x6C, 0x70, 0x63, 0x38, 0x34, 0]"

definition example_files :: "string \<Rightarrow> stream option" where
  "example_files = [''firmware.bin'' \<mapsto> ([[1, 2], [3]], False),
     ''a.bit'' \<mapsto> ([bit_image [(Part_number, example_name)] [5, 6]], False)]"

definition example_rom :: "byte list \<Rightarrow> byte list option" where
  "example_rom bs =
     (if length bs = 8195 \<and> take 2 bs = [0x00, 0x20] \<and> bs ! 2 = arith_checksum_8bit (drop 3 bs) then Some (drop 3 bs) else None)"

lemma example_part: "is_our_part example_name" "0 < length example_name \<and> length example_name < 65536"
  by (code_simp, simp add: example_name_def)


section \<open>I2C\<close>

text \<open>A write of the host is done on the device's bus, with its address and its bytes.\<close>

lemma i2c_arrives:
  assumes "sim_device w = Running code fw" "endpoint_free (ep2_out fw)" "0 < length dat" "length dat \<le> 62"
  shows "\<exists>w' fw'. unicone_device_i2c_write (sim_host rom dn fs) dev addr dat w = Some (0, w') \<and>
    sim_device w' = Running code fw' \<and> fw_i2c fw' = fw_i2c fw @ i2c_write addr dat \<and> endpoint_free (ep2_out fw')"
proof -
  let ?p = "addr # of_nat (length dat) # dat"
  have p: "length ?p \<le> 64" "packets64 ?p = [?p]"
    using assms(4) by (simp_all add: packets64.simps [of ?p] packets64.simps [of "[]"])
  obtain e' where e': "dma_receive ?p (ep2_out fw) = Some e'" "usb_dma_status e' = length ?p" "take (length ?p) (x_buffer e') = ?p"
      "endpoint_free (usb_dma_setup e')"
    using packet_through [OF assms(2) _ p(1)] by blast
  have "i2c_write_packets ?p = i2c_write addr dat"
    using i2c_packets_written [of "[(addr, dat)]"] assms(3,4) by (simp add: i2c_packet_def)
  then show ?thesis
    using assms e' p(2)
    by (simp add: unicone_device_i2c_write_def sim_bulk_write_def UNICONE_EP_FPGA_WRITE_def feed2_def fw_step_def check_ep2_def)
qed

section \<open>Where the host goes wrong\<close>

text \<open>A write that takes nothing ends the upload, and is taken for its success.\<close>

lemma empty_write_succeeds:
  assumes "\<And>h ep bs w. uh_bulk_write H h ep bs w = (0, w)" "\<And>p w. uh_report H p w = w" "length (uh_junk H 128) = 128"
    "uh_file H name = Some (pieces, e)" "0 < length (concat pieces)" "length (concat pieces) \<le> MAX_FIRMWARE_SIZE"
    "\<not> firmware_installed dev"
  shows "unicone_device_upload_firmware H dev name w = Some (0, w)"
proof -
  have "take (FIRMWARE_HEADER_SIZE + CODESPACE_SIZE) (fw_buffer H (concat pieces)) \<noteq> []"
    unfolding fw_buffer_image [OF assms(6,3)] by (simp add: firmware_image_def)
  then have "send_bulk H h ep tot n (take (FIRMWARE_HEADER_SIZE + CODESPACE_SIZE) (fw_buffer H (concat pieces))) w = (0, w)" for h ep tot n
    by (subst send_bulk.simps) (simp add: assms(1))
  then show ?thesis
    using assms(2,4-7)
    by (simp add: unicone_device_upload_firmware_def Let_def send_bulk_ep_buffer_def progress_operation_finish_def
        del: length_concat)
qed

text \<open>A device that has not started its firmware when it is looked for the first time is found in its boot loader: the
  assertion of the next step ends the program.\<close>

lemma slow_device_aborts:
  assumes "firmware_file fs fname fw" "sim_device w = Booting []" "\<not> firmware_installed dev" "rom (firmware_image fw) = None"
  shows "unicone_device_configure (sim_host rom dn fs) dev fname bname w = None"
proof -
  obtain w1 where w1: "unicone_device_upload_firmware (sim_host rom dn fs) dev fname w = Some (8195, w1)"
      "sim_device w1 = Booting (firmware_image fw)"
    using upload_firmware_sim [OF assms(1-3)] by blast
  then show ?thesis
    using reconnect_booting [of w1 "firmware_image fw" rom dn fs dev] assms(3,4)
    by (simp add: unicone_device_configure_def unicone_device_compare_firmware_def install_firmware_def
        unicone_device_compare_bitstream_def)
qed

text \<open>A packet that is too long for the buffer by up to four bytes is not refused.\<close>

lemma i2c_overflow: "62 < length dat \<Longrightarrow> length dat \<le> 66 \<Longrightarrow> unicone_device_i2c_write H dev addr dat w = None"
  by (simp add: unicone_device_i2c_write_def)

text \<open>A bit file without the name of its part is a null pointer.\<close>

lemma nameless_part_crashes:
  "firmware_installed dev \<Longrightarrow> unicone_bitfile H name = Some bf \<Longrightarrow> bf_part_number bf = None \<Longrightarrow>
    unicone_device_upload_bitstream H dev name w = None"
  by (simp add: unicone_device_upload_bitstream_def Let_def)

text \<open>An error while the firmware's file is read leaves a digest that was never written.\<close>

lemma unread_file_has_a_digest: "uh_file H name = Some ([], True) \<Longrightarrow> sha_raw_file H name = Some (uh_junk H 20)"
  by (simp add: sha_raw_file_def failing_stream into_def)

end
