(* ===== verification/Unicone_Tool.thy ===== *)
theory Unicone_Tool
  imports Unicone_Host
begin

text \<open>
  The loader tool (\<^verbatim>\<open>wasabi/devices/unicone/src/loader_tool.c\<close>) and the host side of the Genesis controller emulator
  (\<^verbatim>\<open>genesis_device.c\<close>), over the same \<open>usb_host\<close>. What the tool prints is left out.
\<close>

record loader_config =
  config_force_bitstream :: bool
  config_force_firmware :: bool
  config_bitstream_path :: string
  config_firmware_path :: string

text \<open>The steps that the tool shares with \<^verbatim>\<open>unicone_device_configure\<close> are the same in its source.\<close>

definition loader :: "'w usb_host \<Rightarrow> loader_config \<Rightarrow> 'w \<Rightarrow> (int \<times> 'w) option" where
  "loader H cfg w =
     do {
       (dev, w) \<leftarrow> unicone_device_new H (uh_find_devices H w);
       case dev of
         None \<Rightarrow> Some (1, w)
       | Some dev \<Rightarrow>
           (let (r, w) = (if config_force_firmware cfg then (1, w)
                          else unicone_device_compare_firmware H dev (config_firmware_path cfg) w)
            in if r < 0 then Some (1, w)
               else do {
                 (ok, dev, w) \<leftarrow> (if r \<noteq> 0 then install_firmware (\<lambda>w. w) H dev (config_firmware_path cfg) w else Some (True, dev, w));
                 if \<not> ok then Some (1, w)
                 else do {
                   (r, w) \<leftarrow> (if config_force_bitstream cfg then Some (1, w)
                              else unicone_device_compare_bitstream H dev (config_bitstream_path cfg) w);
                   if r < 0 then Some (1, w)
                   else do {
                     (r, dev, w) \<leftarrow> (if r \<noteq> 0 then unicone_device_upload_bitstream H dev (config_bitstream_path cfg) w
                                     else Some (0, dev, w));
                     Some (if r < 0 then (1, w) else (0, unicone_device_delete H dev w))
                   }
                 }
               })
     }"

section \<open>The Genesis emulator\<close>

definition GENESIS_VENDOR_ID :: u16 where "GENESIS_VENDOR_ID = 0xE461"
definition GENESIS_PRODUCT_ID :: u16 where "GENESIS_PRODUCT_ID = 0x0009"
definition GENESIS_CTRL_SET_STATUS :: byte where "GENESIS_CTRL_SET_STATUS = 0x01"

fun look_for_genesis :: "'w usb_host \<Rightarrow> ((nat \<times> nat) \<times> u16 \<times> u16) list \<Rightarrow> 'w \<Rightarrow> (nat option \<times> 'w) option" where
  "look_for_genesis H [] w = Some (None, w)"
| "look_for_genesis H ((loc, ids) # ds) w =
     (if ids = (GENESIS_VENDOR_ID, GENESIS_PRODUCT_ID)
      then case uh_open H loc w of
             (None, w) \<Rightarrow> None
           | (Some h, w) \<Rightarrow>
               let (r, w) = uh_claim_interface H h 0 w
               in if r \<noteq> 0 then Some (None, uh_close H h w) else Some (Some h, w)
      else look_for_genesis H ds w)"

definition genesis_device_new :: "'w usb_host \<Rightarrow> 'w \<Rightarrow> (nat option \<times> 'w) option" where
  "genesis_device_new H w = look_for_genesis H (bus_devices (uh_busses H w)) w"

definition genesis_device_delete :: "'w usb_host \<Rightarrow> nat \<Rightarrow> 'w \<Rightarrow> 'w" where
  "genesis_device_delete H h w = uh_close H h w"

text \<open>The values are cut to the 16 bits of their fields in the request.\<close>

definition genesis_device_update :: "'w usb_host \<Rightarrow> nat \<Rightarrow> int \<Rightarrow> int \<Rightarrow> 'w \<Rightarrow> int \<times> 'w" where
  "genesis_device_update H h v i w =
     uh_control_out H h GENESIS_CTRL_SET_STATUS (of_int v) (of_int i) w"

end
