(* ===== verification/Motion_Graph.thy ===== *)
theory Motion_Graph
  imports Prelude "HOL-Library.AList"
begin

text \<open>
  The graphs of the motion search, \<^verbatim>\<open>src/motion/py/Graph/utilities.c\<close>: the Python extension
  copies the adjacency list and the edge list of a motion graph into two GLib hash tables before it
  searches. A node is the address of its Python object, a 32-bit pointer. A hash table is an
  association list; \<open>map_of\<close> is \<^verbatim>\<open>g_hash_table_lookup\<close> and \<open>AList.update\<close> is
  \<^verbatim>\<open>g_hash_table_insert\<close>. The theory also holds what a walk of a graph is.
\<close>

section \<open>Tables\<close>

type_synonym vertex = u32
type_synonym adjacency = "(vertex \<times> vertex list) list"

text \<open>What Python holds for one key of the adjacency dictionary: a dictionary, whose keys are the
  neighbours, or some other object, over which \<^verbatim>\<open>PyDict_Next\<close> does not iterate.\<close>

datatype pyvalue = PyDict "vertex list" | PyOther

fun dict_keys :: "pyvalue \<Rightarrow> vertex list" where
  "dict_keys (PyDict ks) = ks"
| "dict_keys PyOther = []"

text \<open>The adjacency list: none when the object has no attribute \<^verbatim>\<open>data\<close>; otherwise the items of
  the dictionary, each with what \<^verbatim>\<open>PyErr_Occurred\<close> answers after its neighbours were read, and
  its last answer, after the loop.\<close>

type_synonym py_adjacency = "((vertex \<times> pyvalue \<times> bool) list \<times> bool) option"

text \<open>The inner loop prepends every neighbour, so that the list is the dictionary read backwards.\<close>

fun prepend_all :: "'a list \<Rightarrow> 'a list \<Rightarrow> 'a list" where
  "prepend_all list [] = list"
| "prepend_all list (v # vs) = prepend_all (v # list) vs"

fun query_adjacency_items :: "(vertex \<times> pyvalue \<times> bool) list \<Rightarrow> adjacency \<Rightarrow> adjacency option" where
  "query_adjacency_items [] ret = Some ret"
| "query_adjacency_items ((u, v_list, err) # items) ret =
     (let list = prepend_all [] (dict_keys v_list)
      in if err then None else query_adjacency_items items (AList.update u list ret))"

definition query_adjacency :: "py_adjacency \<Rightarrow> adjacency option" where
  "query_adjacency adjacency_list =
     (case adjacency_list of
        None \<Rightarrow> None
      | Some (items, err) \<Rightarrow>
          (case query_adjacency_items items [] of
             None \<Rightarrow> None
           | Some ret \<Rightarrow> if err then None else Some ret))"

text \<open>The edges: ends and weight of every edge of the dictionary, and what \<^verbatim>\<open>PyErr_Occurred\<close>
  answers at the end. Both ends of an edge are added up to make its key.\<close>

type_synonym 'f py_edges = "((vertex \<times> vertex \<times> 'f) list \<times> bool) option"

definition edge_key :: "vertex \<Rightarrow> vertex \<Rightarrow> u32" where
  "edge_key u v = u + v"

fun query_edges_items :: "(vertex \<times> vertex \<times> 'f) list \<Rightarrow> (u32 \<times> 'f) list \<Rightarrow> (u32 \<times> 'f) list" where
  "query_edges_items [] ret = ret"
| "query_edges_items ((u, v, weight) # items) ret =
     query_edges_items items (AList.update (edge_key u v) weight ret)"

text \<open>After an error in the loop the function ends without a \<^verbatim>\<open>return\<close>, so that its value is not
  defined: that outcome is \<^term>\<open>None\<close>, and \<^term>\<open>Some None\<close> is the null pointer.\<close>

definition query_edges :: "'f py_edges \<Rightarrow> (u32 \<times> 'f) list option option" where
  "query_edges edge_list =
     (case edge_list of
        None \<Rightarrow> Some None
      | Some (items, err) \<Rightarrow> if err then None else Some (Some (query_edges_items items [])))"

text \<open>The probability of a path, a product over its edges in floating point, whose unit, zero and
  product are arguments. A missing edge is a null pointer that the code follows: \<^term>\<open>None\<close>.\<close>

record 'f float_ops =
  f_one :: 'f
  f_zero :: 'f
  f_mul :: "'f \<Rightarrow> 'f \<Rightarrow> 'f"

fun multiply_edges :: "'f float_ops \<Rightarrow> (u32 \<times> 'f) list \<Rightarrow> vertex list \<Rightarrow> 'f \<Rightarrow> 'f option" where
  "multiply_edges fo edges (u # v # path) probability =
     (case map_of edges (edge_key u v) of
        None \<Rightarrow> None
      | Some weight \<Rightarrow> multiply_edges fo edges (v # path) (f_mul fo probability weight))"
| "multiply_edges fo edges path probability = Some probability"

definition computeProbability :: "'f float_ops \<Rightarrow> (u32 \<times> 'f) list \<Rightarrow> vertex list \<Rightarrow> 'f option" where
  "computeProbability fo edges path =
     (if path = [] then Some (f_zero fo) else multiply_edges fo edges path (f_one fo))"

section \<open>What the tables hold\<close>

lemma prepend_all_rev [simp]: "prepend_all xs ys = rev ys @ xs"
  by (induction xs ys rule: prepend_all.induct) auto

lemma query_adjacency_items_Some:
  "\<forall>(u, vs, err) \<in> set items. \<not> err \<Longrightarrow>
     \<exists>ret'. query_adjacency_items items ret = Some ret' \<and>
       map_of ret' = map_of ret ++ map_of (rev (map (\<lambda>(u, vs, err). (u, rev (dict_keys vs))) items))"
proof (induction items ret rule: query_adjacency_items.induct)
  case (2 u v_list err items ret)
  then have e: "\<not> err" by simp
  from 2 obtain ret' where "query_adjacency_items items (AList.update u (rev (dict_keys v_list)) ret) = Some ret'"
    "map_of ret' = map_of (AList.update u (rev (dict_keys v_list)) ret) ++
       map_of (rev (map (\<lambda>(u, vs, err). (u, rev (dict_keys vs))) items))"
    by auto
  then show ?case using e by (simp add: update_conv' Let_def)
qed simp

lemma query_adjacency_items_distinct:
  "query_adjacency_items items ret = Some ret' \<Longrightarrow> distinct (map fst ret) \<Longrightarrow>
     distinct (map fst ret')"
  by (induction items ret rule: query_adjacency_items.induct)
     (auto simp: Let_def distinct_update split: if_splits)

lemma query_adjacency_distinct: "query_adjacency al = Some adj \<Longrightarrow> distinct (map fst adj)"
  by (auto simp: query_adjacency_def query_adjacency_items_distinct split: option.splits if_splits)

lemma edge_key_commute: "edge_key u v = edge_key v u"
  by (simp add: edge_key_def add.commute)

section \<open>Edges and walks\<close>

definition is_edge :: "adjacency \<Rightarrow> vertex \<Rightarrow> vertex \<Rightarrow> bool" where
  "is_edge adj u v \<longleftrightarrow> (case map_of adj u of None \<Rightarrow> False | Some vs \<Rightarrow> v \<in> set vs)"

text \<open>A walk from one node to another along edges of the graph.\<close>

fun walk_from :: "adjacency \<Rightarrow> vertex \<Rightarrow> vertex list \<Rightarrow> vertex \<Rightarrow> bool" where
  "walk_from adj u [] v = False"
| "walk_from adj u [x] v = (x = u \<and> x = v)"
| "walk_from adj u (x # y # p) v = (x = u \<and> is_edge adj x y \<and> walk_from adj y (y # p) v)"

text \<open>Every node that occurs in the graph is a key of the adjacency table.\<close>

definition closed_graph :: "adjacency \<Rightarrow> bool" where
  "closed_graph adj \<longleftrightarrow> (\<forall>(u, vs) \<in> set adj. set vs \<subseteq> fst ` set adj)"

definition reaches_in :: "adjacency \<Rightarrow> nat \<Rightarrow> vertex \<Rightarrow> vertex \<Rightarrow> bool" where
  "reaches_in adj n u v \<longleftrightarrow> (\<exists>p. walk_from adj u p v \<and> length p = Suc n)"

definition reaches :: "adjacency \<Rightarrow> vertex \<Rightarrow> vertex \<Rightarrow> bool" where
  "reaches adj u v \<longleftrightarrow> (\<exists>n. reaches_in adj n u v)"

lemma walk_from_Cons:
  "walk_from adj u (x # p) v \<longleftrightarrow>
     x = u \<and> (p = [] \<and> x = v \<or> p \<noteq> [] \<and> is_edge adj x (hd p) \<and> walk_from adj (hd p) p v)"
  by (cases p) auto

lemma walk_from_append:
  "walk_from adj u p v \<Longrightarrow> is_edge adj v w \<Longrightarrow> walk_from adj u (p @ [w]) w"
proof (induction p arbitrary: u)
  case (Cons x p)
  then show ?case by (cases p) (auto simp: walk_from_Cons)
qed simp

lemma walk_from_split:
  assumes "walk_from adj u p w" and "length p = Suc (Suc n)"
  shows "\<exists>v. reaches_in adj n u v \<and> is_edge adj v w"
  using assms
proof (induction p arbitrary: u n)
  case (Cons x p)
  then obtain y q where p: "p = y # q" by (cases p) auto
  show ?case
  proof (cases n)
    case 0
    with Cons p have "is_edge adj u w" "walk_from adj u [u] u" by auto
    with 0 show ?thesis unfolding reaches_in_def by (metis length_Cons list.size(3))
  next
    case (Suc m)
    with Cons p have "walk_from adj y p w" "length p = Suc (Suc m)" and e: "x = u" "is_edge adj u y"
      by auto
    from Cons.IH[OF this(1,2)] obtain v where v: "reaches_in adj m y v" "is_edge adj v w" by blast
    then obtain r where r: "walk_from adj y r v" "length r = Suc m" unfolding reaches_in_def by blast
    with e have "walk_from adj u (u # r) v" by (cases r) (auto simp: walk_from_Cons)
    with r Suc v show ?thesis unfolding reaches_in_def by (metis length_Cons)
  qed
qed simp

lemma reaches_in_0 [simp]: "reaches_in adj 0 u v \<longleftrightarrow> u = v"
  unfolding reaches_in_def
proof
  assume "\<exists>p. walk_from adj u p v \<and> length p = Suc 0"
  then show "u = v" by (auto simp: length_Suc_conv)
next
  assume "u = v"
  then have "walk_from adj u [u] v \<and> length [u] = Suc 0" by simp
  then show "\<exists>p. walk_from adj u p v \<and> length p = Suc 0" by blast
qed

lemma reaches_in_Suc:
  "reaches_in adj (Suc n) u w \<longleftrightarrow> (\<exists>v. reaches_in adj n u v \<and> is_edge adj v w)"
proof
  assume "reaches_in adj (Suc n) u w"
  then show "\<exists>v. reaches_in adj n u v \<and> is_edge adj v w"
    unfolding reaches_in_def[of _ "Suc n"] by (auto dest: walk_from_split)
next
  assume "\<exists>v. reaches_in adj n u v \<and> is_edge adj v w"
  then obtain p v where "walk_from adj u p v" "length p = Suc n" "is_edge adj v w"
    unfolding reaches_in_def by blast
  then have "walk_from adj u (p @ [w]) w \<and> length (p @ [w]) = Suc (Suc n)"
    by (simp add: walk_from_append)
  then show "reaches_in adj (Suc n) u w" unfolding reaches_in_def by blast
qed

lemma reaches_refl [simp]: "reaches adj u u"
  unfolding reaches_def by (metis reaches_in_0)

lemma reaches_step: "reaches adj u v \<Longrightarrow> is_edge adj v w \<Longrightarrow> reaches adj u w"
  unfolding reaches_def using reaches_in_Suc by blast

lemma reaches_induct [consumes 1, case_names refl step]:
  assumes "reaches adj u v" and "P u"
    and "\<And>v w. reaches adj u v \<Longrightarrow> P v \<Longrightarrow> is_edge adj v w \<Longrightarrow> P w"
  shows "P v"
proof -
  have "reaches_in adj n u v \<Longrightarrow> P v" for n
  proof (induction n arbitrary: v)
    case (Suc n)
    then show ?case using assms(3) by (auto simp: reaches_in_Suc reaches_def)
  qed (use assms(2) in simp)
  with assms(1) show ?thesis unfolding reaches_def by blast
qed

lemma reaches_trans: "reaches adj u v \<Longrightarrow> reaches adj v w \<Longrightarrow> reaches adj u w"
  by (rotate_tac 1, induction rule: reaches_induct) (auto intro: reaches_step)

lemma in_neighbours:
  "v \<in> set (case map_of adj u of None \<Rightarrow> [] | Some vs \<Rightarrow> vs) \<longleftrightarrow> is_edge adj u v"
  by (auto simp: is_edge_def split: option.splits)

lemma is_edge_key: "is_edge adj u v \<Longrightarrow> u \<in> fst ` set adj"
  by (force simp: is_edge_def dest: map_of_SomeD split: option.splits)

lemma closed_graph_edge: "closed_graph adj \<Longrightarrow> is_edge adj u v \<Longrightarrow> v \<in> fst ` set adj"
  by (fastforce simp: is_edge_def closed_graph_def dest: map_of_SomeD split: option.splits)

lemma closed_graph_reaches:
  "reaches adj u v \<Longrightarrow> closed_graph adj \<Longrightarrow> u \<in> fst ` set adj \<Longrightarrow> v \<in> fst ` set adj"
  by (induction rule: reaches_induct) (auto dest: closed_graph_edge)

lemma walk_from_length: "walk_from adj u p v \<Longrightarrow> reaches_in adj (length p - 1) u v"
  unfolding reaches_in_def by (cases p) auto

end
