(* ===== verification/Motion_Shortest.thy ===== *)
theory Motion_Shortest
  imports Motion_Dijkstra
begin

text \<open>
  Correctness of \<^const>\<open>dijkstra_search\<close>: the invariant of the agenda, the path that the
  predecessors spell out, and the runs that go wrong.
\<close>

section \<open>Relaxing the edges of one node\<close>

lemma cost_update [simp]: "cost (AList.update v c d) x = (if x = v then c else cost d x)"
  by (simp add: cost_def update_conv')

lemma cost_relax:
  "cost (fst (relax u v s)) x =
     (if x = v \<and> (cost (fst s) v = -1 \<or> cost (fst s) v > cost (fst s) u + 1)
      then cost (fst s) u + 1 else cost (fst s) x)"
  by (cases s) (auto simp: relax_def Let_def)

lemma pred_relax:
  "map_of (snd (relax u v s)) x =
     (if x = v \<and> (cost (fst s) v = -1 \<or> cost (fst s) v > cost (fst s) u + 1)
      then Some u else map_of (snd s) x)"
  by (cases s) (auto simp: relax_def Let_def update_conv')

text \<open>A node of finite cost lowers the costs of its neighbours to at most its own plus one.\<close>

lemma relax_all_finite:
  assumes "0 \<le> cost (fst s) u"
  shows "cost (fst (relax_all u vs s)) x =
      (if x \<in> set vs \<and> (cost (fst s) x = -1 \<or> cost (fst s) x > cost (fst s) u + 1)
       then cost (fst s) u + 1 else cost (fst s) x)"
    and "map_of (snd (relax_all u vs s)) x =
      (if x \<in> set vs \<and> (cost (fst s) x = -1 \<or> cost (fst s) x > cost (fst s) u + 1)
       then Some u else map_of (snd s) x)"
proof -
  have "cost (fst (relax_all u vs s)) x =
      (if x \<in> set vs \<and> (cost (fst s) x = -1 \<or> cost (fst s) x > cost (fst s) u + 1)
       then cost (fst s) u + 1 else cost (fst s) x) \<and>
    map_of (snd (relax_all u vs s)) x =
      (if x \<in> set vs \<and> (cost (fst s) x = -1 \<or> cost (fst s) x > cost (fst s) u + 1)
       then Some u else map_of (snd s) x)"
    using assms
  proof (induction vs arbitrary: s)
    case (Cons v vs)
    have u: "cost (fst (relax u v s)) u = cost (fst s) u"
      using Cons.prems by (auto simp: cost_relax)
    with Cons.prems have "0 \<le> cost (fst (relax u v s)) u" by simp
    from Cons.IH[OF this] Cons.prems show ?case
      unfolding relax_all.simps u by (cases "x = v") (auto simp: cost_relax pred_relax)
  qed simp
  then show "cost (fst (relax_all u vs s)) x =
      (if x \<in> set vs \<and> (cost (fst s) x = -1 \<or> cost (fst s) x > cost (fst s) u + 1)
       then cost (fst s) u + 1 else cost (fst s) x)"
    and "map_of (snd (relax_all u vs s)) x =
      (if x \<in> set vs \<and> (cost (fst s) x = -1 \<or> cost (fst s) x > cost (fst s) u + 1)
       then Some u else map_of (snd s) x)"
    by blast+
qed

text \<open>What holds for any node, also for one of cost -1.\<close>

lemma relax_all_bound:
  "(\<And>x. -1 \<le> cost (fst s) x) \<Longrightarrow> -1 \<le> cost (fst (relax_all u vs s)) x"
proof (induction vs arbitrary: s x)
  case (Cons v vs)
  have "0 \<le> 2 + cost (fst s) u" using Cons.prems[of u] by linarith
  then have "\<And>x. -1 \<le> cost (fst (relax u v s)) x"
    using Cons.prems by (auto simp: cost_relax)
  from Cons.IH[OF this] show ?case by simp
qed simp

lemma relax_all_frame:
  "(\<And>x. -1 \<le> cost (fst s) x) \<Longrightarrow> x \<notin> set vs \<or> cost (fst s) x = 0 \<Longrightarrow>
     cost (fst (relax_all u vs s)) x = cost (fst s) x \<and>
     map_of (snd (relax_all u vs s)) x = map_of (snd s) x"
proof (induction vs arbitrary: s)
  case (Cons v vs)
  have u: "0 \<le> 1 + cost (fst s) u" using Cons.prems(1)[of u] by linarith
  then have "0 \<le> 2 + cost (fst s) u" by linarith
  then have b: "\<And>x. -1 \<le> cost (fst (relax u v s)) x"
    using Cons.prems(1) by (auto simp: cost_relax)
  have f: "cost (fst (relax u v s)) x = cost (fst s) x \<and> map_of (snd (relax u v s)) x = map_of (snd s) x"
    using Cons.prems(2) u by (auto simp: cost_relax pred_relax)
  with Cons.prems(2) have "x \<notin> set vs \<or> cost (fst (relax u v s)) x = 0" by auto
  from Cons.IH[OF b this] f show ?case by simp
qed simp

section \<open>The invariant of the agenda\<close>

text \<open>The invariant speaks of the nodes that the start reaches. Their costs are lengths of walks. A
  node off the agenda has been visited: its cost is final, bounds those of its neighbours, and is at
  most that of any node that waits. A predecessor is a visited node one step nearer to the start. As
  long as reachable nodes wait, no other node has a finite cost.\<close>

definition costs_are_walks :: "adjacency \<Rightarrow> vertex \<Rightarrow> costs \<Rightarrow> bool" where
  "costs_are_walks adj start d \<longleftrightarrow> cost d start = 0 \<and> (\<forall>v. -1 \<le> cost d v) \<and>
     (\<forall>v. reaches adj start v \<longrightarrow> cost d v \<noteq> -1 \<longrightarrow> reaches_in adj (nat (cost d v)) start v)"

definition visited_final :: "adjacency \<Rightarrow> vertex \<Rightarrow> vertex list \<Rightarrow> costs \<Rightarrow> bool" where
  "visited_final adj start agenda d \<longleftrightarrow>
     (\<forall>u. reaches adj start u \<longrightarrow> u \<notin> set agenda \<longrightarrow> cost d u \<noteq> -1 \<and>
        (\<forall>v. is_edge adj u v \<longrightarrow> cost d v \<noteq> -1 \<and> cost d v \<le> cost d u + 1) \<and>
        (\<forall>v. reaches adj start v \<longrightarrow> v \<in> set agenda \<longrightarrow> cost d v \<noteq> -1 \<longrightarrow> cost d u \<le> cost d v))"

definition preds_are_steps :: "adjacency \<Rightarrow> vertex \<Rightarrow> vertex list \<Rightarrow> costs \<times> preds \<Rightarrow> bool" where
  "preds_are_steps adj start agenda s \<longleftrightarrow>
     (\<forall>v. reaches adj start v \<longrightarrow> v \<noteq> start \<longrightarrow> cost (fst s) v \<noteq> -1 \<longrightarrow>
        (\<exists>u. map_of (snd s) v = Some u \<and> reaches adj start u \<and> u \<notin> set agenda \<and> is_edge adj u v \<and>
           cost (fst s) v = cost (fst s) u + 1))"

definition others_wait :: "adjacency \<Rightarrow> vertex \<Rightarrow> vertex list \<Rightarrow> costs \<Rightarrow> bool" where
  "others_wait adj start agenda d \<longleftrightarrow> (\<forall>v \<in> set agenda. reaches adj start v \<longrightarrow>
     (\<forall>w \<in> fst ` set adj. \<not> reaches adj start w \<longrightarrow> cost d w = -1))"

definition shortest_inv :: "adjacency \<Rightarrow> vertex \<Rightarrow> vertex list \<Rightarrow> costs \<times> preds \<Rightarrow> bool" where
  "shortest_inv adj start agenda s \<longleftrightarrow> distinct agenda \<and> set agenda \<subseteq> fst ` set adj \<and>
     costs_are_walks adj start (fst s) \<and> visited_final adj start agenda (fst s) \<and>
     preds_are_steps adj start agenda s \<and> others_wait adj start agenda (fst s)"

text \<open>No edge leads from a node that the start does not reach to one that it does, the start
  itself apart.\<close>

definition no_intrusion :: "adjacency \<Rightarrow> vertex \<Rightarrow> bool" where
  "no_intrusion adj start \<longleftrightarrow>
     (\<forall>u v. is_edge adj u v \<and> reaches adj start v \<and> v \<noteq> start \<longrightarrow> reaches adj start u)"

lemma shortest_invD:
  assumes "shortest_inv adj start agenda s"
  shows "distinct agenda" "set agenda \<subseteq> fst ` set adj" "cost (fst s) start = 0" "-1 \<le> cost (fst s) v"
    and "reaches adj start v \<Longrightarrow> cost (fst s) v \<noteq> -1 \<Longrightarrow>
           reaches_in adj (nat (cost (fst s) v)) start v"
    and "reaches adj start u \<Longrightarrow> u \<notin> set agenda \<Longrightarrow> cost (fst s) u \<noteq> -1"
    and "reaches adj start u \<Longrightarrow> u \<notin> set agenda \<Longrightarrow> is_edge adj u v \<Longrightarrow>
           cost (fst s) v \<noteq> -1 \<and> cost (fst s) v \<le> cost (fst s) u + 1"
    and "reaches adj start u \<Longrightarrow> u \<notin> set agenda \<Longrightarrow> reaches adj start v \<Longrightarrow> v \<in> set agenda \<Longrightarrow>
           cost (fst s) v \<noteq> -1 \<Longrightarrow> cost (fst s) u \<le> cost (fst s) v"
    and "reaches adj start v \<Longrightarrow> v \<noteq> start \<Longrightarrow> cost (fst s) v \<noteq> -1 \<Longrightarrow>
           \<exists>u. map_of (snd s) v = Some u \<and> reaches adj start u \<and> u \<notin> set agenda \<and>
             is_edge adj u v \<and> cost (fst s) v = cost (fst s) u + 1"
    and "v \<in> set agenda \<Longrightarrow> reaches adj start v \<Longrightarrow> w \<in> fst ` set adj \<Longrightarrow>
           \<not> reaches adj start w \<Longrightarrow> cost (fst s) w = -1"
  using assms
  by (simp_all add: shortest_inv_def costs_are_walks_def visited_final_def preds_are_steps_def
        others_wait_def) fastforce

text \<open>While a reachable node waits, one of them has a finite cost.\<close>

lemma waiting_finite:
  assumes inv: "shortest_inv adj start agenda s" and w: "w \<in> set agenda" and r: "reaches adj start w"
  shows "\<exists>v \<in> set agenda. reaches adj start v \<and> cost (fst s) v \<noteq> -1"
proof -
  from r have "w \<in> set agenda \<longrightarrow> (\<exists>v \<in> set agenda. reaches adj start v \<and> cost (fst s) v \<noteq> -1)"
  proof (induction rule: reaches_induct)
    case refl
    then show ?case using shortest_invD(3)[OF inv] by force
  next
    case (step v w)
    show ?case
    proof (cases "v \<in> set agenda")
      case False
      with step have "cost (fst s) w \<noteq> -1" using shortest_invD(7)[OF inv] by blast
      with step show ?thesis using reaches_step by blast
    qed (use step in blast)
  qed
  with w show ?thesis by blast
qed

lemma head_reachable:
  assumes inv: "shortest_inv adj start (u # agenda) s" and w: "w \<in> set (u # agenda)" "reaches adj start w"
    and head: "\<And>v. v \<in> set (u # agenda) \<Longrightarrow> cost (fst s) v \<noteq> -1 \<Longrightarrow>
                 cost (fst s) u \<noteq> -1 \<and> cost (fst s) u \<le> cost (fst s) v"
  shows "reaches adj start u" "0 \<le> cost (fst s) u"
proof -
  from waiting_finite[OF inv w] have f: "cost (fst s) u \<noteq> -1" using head by blast
  then show "reaches adj start u"
    using shortest_invD(10)[OF inv w, of u] shortest_invD(2)[OF inv] by auto
  show "0 \<le> cost (fst s) u" using f shortest_invD(4)[OF inv, of u] by linarith
qed


section \<open>A round of the agenda\<close>

text \<open>A reachable node of the least cost is visited.\<close>

text \<open>\<open>lowered s u vs x\<close>: relaxing the edges from \<open>u\<close> to \<open>vs\<close> changes the entry of \<open>x\<close>.\<close>

definition lowered :: "costs \<times> preds \<Rightarrow> vertex \<Rightarrow> vertex list \<Rightarrow> vertex \<Rightarrow> bool" where
  "lowered s u vs x \<longleftrightarrow> x \<in> set vs \<and> (cost (fst s) x = -1 \<or> cost (fst s) x > cost (fst s) u + 1)"

lemma relax_all_lowered:
  "0 \<le> cost (fst s) u \<Longrightarrow>
     cost (fst (relax_all u vs s)) x = (if lowered s u vs x then cost (fst s) u + 1 else cost (fst s) x)"
  "0 \<le> cost (fst s) u \<Longrightarrow>
     map_of (snd (relax_all u vs s)) x = (if lowered s u vs x then Some u else map_of (snd s) x)"
  by (simp_all add: relax_all_finite lowered_def)

text \<open>A reachable node of the least cost, with its neighbours.\<close>

definition least_head :: "adjacency \<Rightarrow> vertex \<Rightarrow> vertex list \<Rightarrow> vertex list \<Rightarrow> vertex \<Rightarrow> costs \<times> preds \<Rightarrow> bool" where
  "least_head adj start agenda vs u s \<longleftrightarrow> shortest_inv adj start (u # agenda) s \<and>
     reaches adj start u \<and> 0 \<le> cost (fst s) u \<and>
     (\<forall>v \<in> set agenda. cost (fst s) v \<noteq> -1 \<longrightarrow> cost (fst s) u \<le> cost (fst s) v) \<and>
     (\<forall>v. v \<in> set vs \<longleftrightarrow> is_edge adj u v)"

lemma least_headD:
  assumes "least_head adj start agenda vs u s"
  shows "shortest_inv adj start (u # agenda) s" "reaches adj start u" "0 \<le> cost (fst s) u"
    and "v \<in> set agenda \<Longrightarrow> cost (fst s) v \<noteq> -1 \<Longrightarrow> cost (fst s) u \<le> cost (fst s) v"
    and "v \<in> set vs \<longleftrightarrow> is_edge adj u v"
  using assms by (simp_all add: least_head_def)

lemma lowered_reachable:
  "least_head adj start agenda vs u s \<Longrightarrow> lowered s u vs v \<Longrightarrow> reaches adj start v"
  using reaches_step by (auto simp: least_head_def lowered_def)

lemma visited_below:
  assumes h: "least_head adj start agenda vs u s" and v: "reaches adj start v" "v \<notin> set agenda"
  shows "cost (fst s) v \<noteq> -1 \<and> cost (fst s) v \<le> cost (fst s) u"
proof (cases "v = u")
  case False
  with v have "v \<notin> set (u # agenda)" by simp
  with v shortest_invD(6,8)[OF least_headD(1)[OF h]] least_headD(2,3)[OF h] show ?thesis by auto
qed (use least_headD(3)[OF h] in auto)

lemma visited_not_lowered:
  "least_head adj start agenda vs u s \<Longrightarrow> reaches adj start v \<Longrightarrow> v \<notin> set agenda \<Longrightarrow>
     \<not> lowered s u vs v"
  by (drule (2) visited_below) (auto simp: lowered_def)

lemma visit_costs:
  assumes h: "least_head adj start agenda vs u s"
  shows "costs_are_walks adj start (fst (relax_all u vs s))"
proof -
  note inv = shortest_invD[OF least_headD(1)[OF h]] and u0 = least_headD(3)[OF h]
  note c = relax_all_lowered(1)[OF u0]
  have "reaches_in adj (nat (cost (fst (relax_all u vs s)) v)) start v"
    if v: "reaches adj start v" "cost (fst (relax_all u vs s)) v \<noteq> -1" for v
  proof (cases "lowered s u vs v")
    case True
    have "reaches_in adj (nat (cost (fst s) u)) start u"
      using inv(5)[OF least_headD(2)[OF h]] u0 by simp
    with True have "reaches_in adj (Suc (nat (cost (fst s) u))) start v"
      unfolding reaches_in_Suc using least_headD(5)[OF h] by (auto simp: lowered_def)
    moreover have "nat (cost (fst s) u + 1) = Suc (nat (cost (fst s) u))" using u0 by simp
    ultimately show ?thesis using True by (simp add: c)
  qed (use v inv(5)[of v] in \<open>simp add: c\<close>)
  moreover have "cost (fst (relax_all u vs s)) start = 0"
    using inv(3) u0 by (auto simp: c lowered_def)
  moreover have "-1 \<le> cost (fst (relax_all u vs s)) v" for v using inv(4)[of v] u0 by (simp add: c)
  ultimately show ?thesis by (simp add: costs_are_walks_def)
qed

lemma visit_final:
  assumes h: "least_head adj start agenda vs u s"
  shows "visited_final adj start agenda (fst (relax_all u vs s))"
  unfolding visited_final_def
proof (intro allI impI)
  note inv = shortest_invD[OF least_headD(1)[OF h]] and u0 = least_headD(3)[OF h]
  note c = relax_all_lowered(1)[OF u0]
  let ?d = "fst (relax_all u vs s)"
  fix v assume v: "reaches adj start v" "v \<notin> set agenda"
  have cv: "cost ?d v = cost (fst s) v" using visited_not_lowered[OF h v] by (simp add: c)
  have edge: "cost ?d x \<noteq> -1 \<and> cost ?d x \<le> cost (fst s) v + 1" if x: "is_edge adj v x" for x
  proof (cases "v = u")
    case True
    then show ?thesis using least_headD(5)[OF h, of x] x u0 by (auto simp: c lowered_def)
  next
    case False
    with v(2) have "cost (fst s) x \<noteq> -1 \<and> cost (fst s) x \<le> cost (fst s) v + 1"
      using inv(7)[OF v(1) _ x] by simp
    then show ?thesis using u0 by (auto simp: c lowered_def)
  qed
  have below: "cost (fst s) v \<le> cost ?d x"
    if x: "reaches adj start x" "x \<in> set agenda" "cost ?d x \<noteq> -1" for x
    using visited_below[OF h v] least_headD(4)[OF h x(2)] x(3) by (auto simp: c split: if_splits)
  show "cost ?d v \<noteq> -1 \<and> (\<forall>x. is_edge adj v x \<longrightarrow> cost ?d x \<noteq> -1 \<and> cost ?d x \<le> cost ?d v + 1) \<and>
      (\<forall>x. reaches adj start x \<longrightarrow> x \<in> set agenda \<longrightarrow> cost ?d x \<noteq> -1 \<longrightarrow> cost ?d v \<le> cost ?d x)"
    unfolding cv using visited_below[OF h v] edge below by blast
qed

lemma visit_preds:
  assumes h: "least_head adj start agenda vs u s"
  shows "preds_are_steps adj start agenda (relax_all u vs s)"
  unfolding preds_are_steps_def
proof (intro allI impI)
  note inv = shortest_invD[OF least_headD(1)[OF h]] and u0 = least_headD(3)[OF h]
  note c = relax_all_lowered(1)[OF u0] and p = relax_all_lowered(2)[OF u0]
  let ?s = "relax_all u vs s"
  fix v assume v: "reaches adj start v" "v \<noteq> start" "cost (fst ?s) v \<noteq> -1"
  have same: "cost (fst ?s) x = cost (fst s) x" if "reaches adj start x" "x \<notin> set agenda" for x
    using visited_not_lowered[OF h that] by (simp add: c)
  show "\<exists>x. map_of (snd ?s) v = Some x \<and> reaches adj start x \<and> x \<notin> set agenda \<and>
      is_edge adj x v \<and> cost (fst ?s) v = cost (fst ?s) x + 1"
  proof (cases "lowered s u vs v")
    case True
    have "u \<notin> set agenda" using inv(1) by simp
    moreover have "is_edge adj u v" using True least_headD(5)[OF h] by (simp add: lowered_def)
    moreover have "map_of (snd ?s) v = Some u" "cost (fst ?s) v = cost (fst s) u + 1"
      using True by (simp_all add: c p)
    ultimately show ?thesis using same[of u] least_headD(2)[OF h] by auto
  next
    case False
    then have e: "cost (fst ?s) v = cost (fst s) v" "map_of (snd ?s) v = map_of (snd s) v"
      by (simp_all add: c p)
    with inv(9)[OF v(1,2)] v(3) obtain x where x: "map_of (snd s) v = Some x" "reaches adj start x"
      "x \<notin> set agenda" "is_edge adj x v" "cost (fst s) v = cost (fst s) x + 1" by auto
    with same[OF x(2,3)] e show ?thesis by auto
  qed
qed

lemma visit_reachable:
  assumes h: "least_head adj start agenda vs u s"
  shows "shortest_inv adj start agenda (relax_all u vs s)"
proof -
  note inv = shortest_invD[OF least_headD(1)[OF h]]
  have "others_wait adj start agenda (fst (relax_all u vs s))"
    using inv(10) lowered_reachable[OF h] relax_all_lowered(1)[OF least_headD(3)[OF h]]
    by (auto simp: others_wait_def)
  with inv(1,2) visit_costs[OF h] visit_final[OF h] visit_preds[OF h] show ?thesis
    by (simp add: shortest_inv_def)
qed

text \<open>A node that the start does not reach is visited after all that it does reach, and changes none
  of their entries.\<close>

lemma visit_unreachable:
  assumes inv: "shortest_inv adj start (u # agenda) s" and r: "\<not> reaches adj start u"
    and gone: "\<And>v. v \<in> set agenda \<Longrightarrow> \<not> reaches adj start v"
    and ni: "no_intrusion adj start" and vs: "\<And>v. v \<in> set vs \<Longrightarrow> is_edge adj u v"
  shows "shortest_inv adj start agenda (relax_all u vs s)"
proof -
  note inv = shortest_invD[OF inv]
  have frame: "cost (fst (relax_all u vs s)) v = cost (fst s) v \<and>
      map_of (snd (relax_all u vs s)) v = map_of (snd s) v" if "reaches adj start v" for v
  proof (rule relax_all_frame)
    show "v \<notin> set vs \<or> cost (fst s) v = 0"
      using that r ni vs inv(3) unfolding no_intrusion_def by blast
  qed (rule inv(4))
  have off: "v \<notin> set (u # agenda)" if "reaches adj start v" for v using that r gone by auto
  let ?d = "fst (relax_all u vs s)"
  have c: "cost ?d v = cost (fst s) v" if "reaches adj start v" for v using frame[OF that] by simp
  have "costs_are_walks adj start ?d"
    using c inv(3-5) relax_all_bound[of s] by (simp add: costs_are_walks_def)
  moreover have "visited_final adj start agenda ?d"
    unfolding visited_final_def
  proof (intro allI impI)
    fix v assume v: "reaches adj start v" "v \<notin> set agenda"
    have "cost ?d x \<noteq> -1 \<and> cost ?d x \<le> cost ?d v + 1" if "is_edge adj v x" for x
      using inv(7)[OF v(1) off[OF v(1)] that] c[OF v(1)] c[OF reaches_step[OF v(1) that]] by simp
    then show "cost ?d v \<noteq> -1 \<and> (\<forall>x. is_edge adj v x \<longrightarrow> cost ?d x \<noteq> -1 \<and> cost ?d x \<le> cost ?d v + 1) \<and>
        (\<forall>x. reaches adj start x \<longrightarrow> x \<in> set agenda \<longrightarrow> cost ?d x \<noteq> -1 \<longrightarrow> cost ?d v \<le> cost ?d x)"
      using inv(6)[OF v(1) off[OF v(1)]] c[OF v(1)] gone by auto
  qed
  moreover have "preds_are_steps adj start agenda (relax_all u vs s)"
    unfolding preds_are_steps_def
  proof (intro allI impI)
    fix v assume v: "reaches adj start v" "v \<noteq> start" "cost ?d v \<noteq> -1"
    with inv(9)[of v] c obtain x where "map_of (snd s) v = Some x" "reaches adj start x"
      "x \<notin> set (u # agenda)" "is_edge adj x v" "cost (fst s) v = cost (fst s) x + 1" by auto
    with frame[OF v(1)] c[of x]
    show "\<exists>x. map_of (snd (relax_all u vs s)) v = Some x \<and> reaches adj start x \<and> x \<notin> set agenda \<and>
        is_edge adj x v \<and> cost ?d v = cost ?d x + 1" by auto
  qed
  moreover have "others_wait adj start agenda (fst (relax_all u vs s))"
    using gone by (auto simp: others_wait_def)
  ultimately show ?thesis using inv(1,2) by (simp add: shortest_inv_def)
qed

section \<open>The whole search\<close>

lemma shortest_inv_permute:
  "set q = set q' \<Longrightarrow> distinct q = distinct q' \<Longrightarrow>
     shortest_inv adj start q s = shortest_inv adj start q' s"
  by (simp add: shortest_inv_def visited_final_def preds_are_steps_def others_wait_def)

lemma agenda_round:
  assumes so: "sorts_costs qsort" and ni: "no_intrusion adj start"
    and inv: "shortest_inv adj start (u # agenda) s"
    and q: "u # agenda = qsort (dijkstra_compare (fst s)) q"
    and vs: "vs = (case map_of adj u of None \<Rightarrow> [] | Some vs \<Rightarrow> vs)"
  shows "shortest_inv adj start agenda (relax_all u vs s)"
proof -
  have setq: "set q = set (u # agenda)"
    using so q by (metis sorts_costs_def permutes_set)
  have head: "cost (fst s) u \<noteq> -1 \<and> cost (fst s) u \<le> cost (fst s) v"
    if "v \<in> set (u # agenda)" "cost (fst s) v \<noteq> -1" for v
    using sorts_head[OF so q[symmetric]] that setq by blast
  have n: "v \<in> set vs \<longleftrightarrow> is_edge adj u v" for v unfolding vs by (rule in_neighbours)
  show ?thesis
  proof (cases "\<exists>w \<in> set (u # agenda). reaches adj start w")
    case True
    then obtain w where w: "w \<in> set (u # agenda)" "reaches adj start w" by blast
    have "least_head adj start agenda vs u s"
      using head_reachable[OF inv w head] head inv n by (simp add: least_head_def)
    then show ?thesis by (rule visit_reachable)
  next
    case False
    then show ?thesis by (intro visit_unreachable[OF inv _ _ ni]) (auto simp: n)
  qed
qed

lemma agenda_loop_shortest:
  assumes so: "sorts_costs qsort" and ni: "no_intrusion adj start"
  shows "shortest_inv adj start agenda s \<Longrightarrow> length agenda \<le> fuel \<Longrightarrow>
      agenda = qsort (dijkstra_compare (fst s)) q \<Longrightarrow>
      \<exists>s'. agenda_loop qsort adj fuel agenda s = Some s' \<and> shortest_inv adj start [] s'"
proof (induction fuel arbitrary: agenda s q)
  case (Suc fuel)
  show ?case
  proof (cases agenda)
    case (Cons u rest)
    define vs where "vs = (case map_of adj u of None \<Rightarrow> [] | Some vs \<Rightarrow> vs)"
    let ?s = "relax_all u vs s"
    have inv: "shortest_inv adj start rest ?s"
      by (rule agenda_round[OF so ni _ _ vs_def]) (use Suc.prems Cons in auto)
    have perm: "permutes qsort" using so by (simp add: sorts_costs_def)
    have "shortest_inv adj start (qsort (dijkstra_compare (fst ?s)) rest) ?s"
      by (subst shortest_inv_permute[of _ rest])
         (simp_all add: permutes_set[OF perm] permutes_distinct[OF perm] inv)
    moreover have "length (qsort (dijkstra_compare (fst ?s)) rest) \<le> fuel"
      using Suc.prems(2) Cons by (simp add: permutes_length[OF perm])
    ultimately obtain s' where
      "agenda_loop qsort adj fuel (qsort (dijkstra_compare (fst ?s)) rest) ?s = Some s'"
      "shortest_inv adj start [] s'"
      using Suc.IH by blast
    then show ?thesis by (simp add: Cons vs_def[symmetric] Let_def)
  qed (use Suc.prems in simp)
qed simp

lemma cost_initialize:
  "cost (initialize_dijkstra_d rest d) x = (if x \<in> fst ` set rest then -1 else cost d x)"
  by (induction rest d rule: initialize_dijkstra_d.induct) auto

lemma add_to_queue_keys: "add_to_queue rest q = rev (map fst rest) @ q"
  by (induction rest q rule: add_to_queue.induct) auto

lemma visits_keys:
  assumes "visits_all visit"
  shows "set (visit adj) = set adj" "distinct (map fst (visit adj)) = distinct (map fst adj)"
    "length (visit adj) = length adj"
proof -
  have m: "mset (visit adj) = mset adj" using assms by (simp add: visits_all_def)
  then show "set (visit adj) = set adj" by (metis set_mset_mset)
  have "mset (map fst (visit adj)) = mset (map fst adj)" using m by simp
  then show "distinct (map fst (visit adj)) = distinct (map fst adj)"
    by (rule mset_eq_imp_distinct_iff)
  show "length (visit adj) = length adj" using m by (metis size_mset)
qed

lemma shortest_inv_initial:
  assumes so: "sorts_costs qsort" and vi: "visits_all visit" and d: "distinct (map fst adj)"
    and cl: "closed_graph adj" and st: "start \<in> fst ` set adj"
  shows "shortest_inv adj start (build_dijkstra_queue visit qsort adj d')
           (AList.update start 0 (initialize_dijkstra_d (visit adj) []), [])"
proof -
  have perm: "permutes qsort" using so by (simp add: sorts_costs_def)
  let ?q = "build_dijkstra_queue visit qsort adj d'"
  let ?d = "AList.update start 0 (initialize_dijkstra_d (visit adj) [])"
  have q: "set ?q = fst ` set adj" "distinct ?q"
    using d visits_keys[OF vi, of adj]
    by (simp_all add: build_dijkstra_queue_def add_to_queue_keys permutes_set[OF perm]
          permutes_distinct[OF perm])
  have c: "cost ?d v = (if v = start then 0 else if v \<in> fst ` set adj then -1 else 0)" for v
    by (simp add: cost_initialize visits_keys[OF vi] cost_def[of "[]"])
  have r: "reaches adj start v \<Longrightarrow> v \<in> fst ` set adj" for v
    using closed_graph_reaches[OF _ cl st] .
  have "costs_are_walks adj start ?d" using r
    by (auto simp: costs_are_walks_def c simp del: cost_update)
  moreover have "visited_final adj start ?q ?d" using r by (auto simp: visited_final_def q)
  moreover have "preds_are_steps adj start ?q (?d, [])" using r
    by (auto simp: preds_are_steps_def c simp del: cost_update)
  moreover have "others_wait adj start ?q ?d" 
    by (auto simp: others_wait_def c simp del: cost_update)
  ultimately show ?thesis using q by (simp add: shortest_inv_def)
qed

lemma find_shortest_paths_inv:
  assumes "sorts_costs qsort" and "visits_all visit" and "distinct (map fst adj)"
    and "closed_graph adj" and "start \<in> fst ` set adj" and "no_intrusion adj start"
  shows "\<exists>s'. find_shortest_paths visit qsort adj
               (AList.update start 0 (initialize_dijkstra_d (visit adj) []), []) = Some s' \<and>
             shortest_inv adj start [] s'"
  unfolding find_shortest_paths_def Let_def
  by (rule agenda_loop_shortest[OF assms(1,6) shortest_inv_initial[OF assms(1-5)] order.refl])
     (simp add: build_dijkstra_queue_def)

section \<open>Reading the path off\<close>

lemma final_cost_least:
  assumes "shortest_inv adj start [] s"
  shows "reaches_in adj n start v \<Longrightarrow> cost (fst s) v \<noteq> -1 \<and> cost (fst s) v \<le> int n"
proof (induction n arbitrary: v)
  case 0
  then show ?case using shortest_invD(3)[OF assms] by simp
next
  case (Suc n)
  then obtain u where "reaches_in adj n start u" "is_edge adj u v"
    by (auto simp: reaches_in_Suc)
  moreover from this have "reaches adj start u" by (auto simp: reaches_def)
  ultimately show ?case using Suc.IH shortest_invD(7)[OF assms] by force
qed

lemma walk_back_finds:
  assumes inv: "shortest_inv adj start [] s"
  shows "reaches adj start v \<Longrightarrow> cost (fst s) v = int n \<Longrightarrow>
     \<exists>xs. walk_back (snd s) start v ret = Some (Inr (ret @ xs)) \<and> length xs = n \<and>
          walk_from adj start (rev (v # xs)) v"
proof (induction n arbitrary: v ret)
  case 0
  have "v = start"
  proof (rule ccontr)
    assume "v \<noteq> start"
    with 0 obtain u where "cost (fst s) v = cost (fst s) u + 1" "reaches adj start u"
      using shortest_invD(9)[OF inv, of v] by auto
    then show False using 0 shortest_invD(4,6)[OF inv, of u] by auto
  qed
  then show ?case by (simp add: walk_back.simps)
next
  case (Suc n)
  have ns: "v \<noteq> start" using Suc.prems shortest_invD(3)[OF inv] by auto
  obtain u where u: "map_of (snd s) v = Some u" "reaches adj start u" "is_edge adj u v"
    "cost (fst s) u = int n"
    using shortest_invD(9)[OF inv Suc.prems(1) ns] Suc.prems(2) by auto
  from Suc.IH[OF u(2,4), of "ret @ [u]"] obtain xs where
    xs: "walk_back (snd s) start u (ret @ [u]) = Some (Inr (ret @ [u] @ xs))"
    "length xs = n" "walk_from adj start (rev (u # xs)) u" by auto
  from walk_from_append[OF xs(3) u(3)] xs(1,2)
  have "walk_back (snd s) start v ret = Some (Inr (ret @ u # xs)) \<and> length (u # xs) = Suc n \<and>
      walk_from adj start (rev (v # u # xs)) v"
    by (subst walk_back.simps) (simp add: ns u(1))
  then show ?case by blast
qed

text \<open>C1: The shortest-path search is right, for every order in which GLib visits a hash table and
  every sort it may use: when all nodes are keys of the adjacency table, the goal can be reached and
  no edge enters the reachable part of the graph from outside, the call returns, and it returns a
  walk from start to goal along edges of the graph, with no walk between the two that is shorter.
  (Without the last condition a reachable goal may be reported as not reachable: see
  \<open>intruder_hides_the_path\<close>.)\<close>

theorem dijkstra_search_shortest:
  assumes "sorts_costs qsort" and "visits_all visit"
    and "query_adjacency al = Some adj" and "closed_graph adj" and "start \<in> fst ` set adj"
    and "no_intrusion adj start" and "reaches adj start goal"
  shows "\<exists>p. dijkstra_search visit qsort al start goal = Some (Inr p) \<and> walk_from adj start p goal \<and>
             (\<forall>p'. walk_from adj start p' goal \<longrightarrow> length p \<le> length p')"
proof (cases "start = goal")
  case True
  then have "length [start] \<le> length p'" if "walk_from adj start p' goal" for p'
    using that by (cases p') auto
  with True show ?thesis by (auto simp: dijkstra_search_def)
next
  case False
  have dist: "distinct (map fst adj)" using assms(3) by (rule query_adjacency_distinct)
  obtain s where s: "find_shortest_paths visit qsort adj
      (AList.update start 0 (initialize_dijkstra_d (visit adj) []), []) = Some s"
    "shortest_inv adj start [] s"
    using find_shortest_paths_inv[OF assms(1,2) dist assms(4,5,6)] by blast
  have fin: "cost (fst s) goal \<noteq> -1"
    using shortest_invD(6)[OF s(2) assms(7)] by simp
  obtain u where u: "map_of (snd s) goal = Some u" "reaches adj start u" "is_edge adj u goal"
    "cost (fst s) goal = cost (fst s) u + 1"
    using shortest_invD(9)[OF s(2) assms(7) _ fin] False by auto
  have "0 \<le> cost (fst s) u"
    using shortest_invD(4,6)[OF s(2), of u] u(2) by (auto simp: order_le_less)
  then obtain n where n: "cost (fst s) u = int n" using zero_le_imp_eq_int by blast
  obtain xs where xs: "walk_back (snd s) start u [goal, u] = Some (Inr ([goal, u] @ xs))"
    "length xs = n" "walk_from adj start (rev (u # xs)) u"
    using walk_back_finds[OF s(2) u(2) n] by blast
  let ?p = "rev ([goal, u] @ xs)"
  have "dijkstra_search visit qsort al start goal = Some (Inr ?p)"
    using False assms(3) s(1) u(1) xs(1) by (cases s) (simp add: dijkstra_search_def)
  moreover have "walk_from adj start ?p goal"
    using walk_from_append[OF xs(3) u(3)] by simp
  moreover have "length ?p \<le> length p'" if p': "walk_from adj start p' goal" for p'
  proof -
    have "cost (fst s) goal \<le> int (length p' - 1)"
      using final_cost_least[OF s(2) walk_from_length[OF p']] by simp
    moreover have "p' \<noteq> []" using p' by auto
    ultimately show ?thesis using u(4) n xs(2) by (cases p') auto
  qed
  ultimately show ?thesis by blast
qed

section \<open>What holds of every graph\<close>

text \<open>Predecessors are ends of edges; a node with a cost has one; what a visited node has an edge to
  has a cost.\<close>

definition preds_inv :: "adjacency \<Rightarrow> vertex \<Rightarrow> vertex list \<Rightarrow> costs \<times> preds \<Rightarrow> bool" where
  "preds_inv adj start agenda s \<longleftrightarrow> (\<forall>x. -1 \<le> cost (fst s) x) \<and>
     (\<forall>x \<in> fst ` set adj. x \<noteq> start \<longrightarrow> cost (fst s) x \<noteq> -1 \<longrightarrow> map_of (snd s) x \<noteq> None) \<and>
     (\<forall>x u. map_of (snd s) x = Some u \<longrightarrow> is_edge adj u x) \<and>
     (\<forall>u v. is_edge adj u v \<longrightarrow> u \<notin> set agenda \<longrightarrow> cost (fst s) v \<noteq> -1)"

lemma relax_preds_inv:
  assumes inv: "preds_inv adj start agenda s" and e: "is_edge adj u v"
  shows "preds_inv adj start agenda (relax u v s) \<and> cost (fst (relax u v s)) v \<noteq> -1 \<and>
    (\<forall>x. cost (fst s) x \<noteq> -1 \<longrightarrow> cost (fst (relax u v s)) x \<noteq> -1)"
proof -
  have "-1 \<le> cost (fst s) u" using inv by (simp add: preds_inv_def)
  then have n: "cost (fst s) u + 1 \<noteq> -1" "-1 \<le> cost (fst s) u + 1" by linarith+
  show ?thesis using inv e n by (auto simp: preds_inv_def cost_relax pred_relax)
qed

lemma relax_all_preds_inv:
  "preds_inv adj start agenda s \<Longrightarrow> \<forall>v \<in> set vs. is_edge adj u v \<Longrightarrow>
     preds_inv adj start agenda (relax_all u vs s) \<and>
     (\<forall>v \<in> set vs. cost (fst (relax_all u vs s)) v \<noteq> -1) \<and>
     (\<forall>x. cost (fst s) x \<noteq> -1 \<longrightarrow> cost (fst (relax_all u vs s)) x \<noteq> -1)"
proof (induction vs arbitrary: s)
  case (Cons v vs)
  then have e: "is_edge adj u v" by simp
  from relax_preds_inv[OF Cons.prems(1) e] Cons.IH[of "relax u v s"] Cons.prems(2)
  show ?case by auto
qed simp

lemma agenda_loop_preds_inv:
  assumes perm: "permutes qsort"
  shows "preds_inv adj start agenda s \<Longrightarrow> length agenda \<le> fuel \<Longrightarrow>
      \<exists>s'. agenda_loop qsort adj fuel agenda s = Some s' \<and> preds_inv adj start [] s'"
proof (induction fuel arbitrary: agenda s)
  case (Suc fuel)
  show ?case
  proof (cases agenda)
    case (Cons u rest)
    define vs where "vs = (case map_of adj u of None \<Rightarrow> [] | Some vs \<Rightarrow> vs)"
    let ?s = "relax_all u vs s"
    have vs: "v \<in> set vs \<longleftrightarrow> is_edge adj u v" for v unfolding vs_def by (rule in_neighbours)
    have "preds_inv adj start agenda ?s \<and> (\<forall>v \<in> set vs. cost (fst ?s) v \<noteq> -1)"
      using relax_all_preds_inv[OF Suc.prems(1), of vs u] vs by blast
    then have "preds_inv adj start (qsort (dijkstra_compare (fst ?s)) rest) ?s"
      using vs unfolding preds_inv_def Cons permutes_set[OF perm] by (metis set_ConsD)
    moreover have "length (qsort (dijkstra_compare (fst ?s)) rest) \<le> fuel"
      using Suc.prems(2) Cons by (simp add: permutes_length[OF perm])
    ultimately obtain s' where
      "agenda_loop qsort adj fuel (qsort (dijkstra_compare (fst ?s)) rest) ?s = Some s'"
      "preds_inv adj start [] s'"
      using Suc.IH by blast
    then show ?thesis by (simp add: Cons vs_def[symmetric] Let_def)
  qed (use Suc.prems in simp)
qed simp

lemma find_shortest_paths_preds_inv:
  assumes perm: "permutes qsort" and vi: "visits_all visit"
  shows "\<exists>s'. find_shortest_paths visit qsort adj
               (AList.update start 0 (initialize_dijkstra_d (visit adj) []), []) = Some s' \<and>
             preds_inv adj start [] s'"
  unfolding find_shortest_paths_def Let_def
proof (rule agenda_loop_preds_inv[OF perm _ order.refl])
  show "preds_inv adj start (build_dijkstra_queue visit qsort adj
      (fst (AList.update start 0 (initialize_dijkstra_d (visit adj) []), [])))
      (AList.update start 0 (initialize_dijkstra_d (visit adj) []), [])"
    using is_edge_key[of adj]
    by (auto simp: preds_inv_def cost_initialize visits_keys[OF vi] cost_def[of "[]"]
          build_dijkstra_queue_def add_to_queue_keys permutes_set[OF perm])
qed

lemma walk_back_sound:
  assumes edges: "\<And>x u. map_of previous x = Some u \<Longrightarrow> is_edge adj u x"
    and ret: "walk_back previous start v ret = Some (Inr ys)"
  shows "\<exists>xs. ys = ret @ xs \<and> walk_from adj start (rev (v # xs)) v"
proof -
  have "p = previous \<Longrightarrow> st = start \<Longrightarrow> r = Inr ys \<Longrightarrow>
      \<exists>xs. ys = ret @ xs \<and> walk_from adj start (rev (v # xs)) v"
    if "walk_back p st v ret = Some r" for p st v ret r
  proof (rule walk_back.raw_induct[where P = "\<lambda>p st v ret r. p = previous \<longrightarrow> st = start \<longrightarrow>
      r = Inr ys \<longrightarrow> (\<exists>xs. ys = ret @ xs \<and> walk_from adj start (rev (v # xs)) v)",
      OF _ that, rule_format])
    fix f p st v ret r
    assume IH: "\<And>p st v ret r. f p st v ret = Some r \<Longrightarrow> p = previous \<Longrightarrow> st = start \<Longrightarrow> r = Inr ys \<Longrightarrow>
        \<exists>xs. ys = ret @ xs \<and> walk_from adj start (rev (v # xs)) v"
      and eq: "(if v = st then Some (Inr ret) else case map_of p v of None \<Rightarrow> Some (Inl NoPathFound)
        | Some u \<Rightarrow> f p st u (ret @ [u])) = Some r"
      and p: "p = previous" "st = start" "r = Inr ys"
    show "\<exists>xs. ys = ret @ xs \<and> walk_from adj start (rev (v # xs)) v"
    proof (cases "v = start")
      case True
      with eq p show ?thesis by auto
    next
      case False
      with eq p obtain u where u: "map_of previous v = Some u" "f previous start u (ret @ [u]) = Some r"
        by (auto split: option.splits)
      from IH[OF u(2) refl refl p(3)] obtain xs where xs: "ys = ret @ u # xs"
        "walk_from adj start (rev (u # xs)) u" by auto
      from walk_from_append[OF xs(2) edges[OF u(1)]] xs(1) show ?thesis
        by (intro exI[of _ "u # xs"]) simp
    qed
  qed
  from this[OF ret refl refl refl] show ?thesis .
qed

text \<open>C24: Whatever the graph, and whatever GLib's order and sort, a path that the search returns is a
  walk along edges of the graph from the start to the goal: the predecessors that unreachable nodes
  write may hide a path or send the search round a cycle, but cannot forge one.\<close>

theorem dijkstra_search_sound:
  assumes "permutes qsort" and "visits_all visit" and "query_adjacency al = Some adj"
    and "dijkstra_search visit qsort al start goal = Some (Inr p)"
  shows "walk_from adj start p goal"
proof (cases "start = goal")
  case False
  obtain d prevs where s: "find_shortest_paths visit qsort adj
      (AList.update start 0 (initialize_dijkstra_d (visit adj) []), []) = Some (d, prevs)"
    "preds_inv adj start [] (d, prevs)"
    using find_shortest_paths_preds_inv[OF assms(1,2)] by fastforce
  from assms(3,4) False s(1) obtain u ys where u: "map_of prevs goal = Some u"
    "walk_back prevs start u [goal, u] = Some (Inr ys)" "p = rev ys"
    by (auto simp: dijkstra_search_def split: option.splits sum.splits)
  have edges: "\<And>x u. map_of prevs x = Some u \<Longrightarrow> is_edge adj u x"
    using s(2) by (simp add: preds_inv_def)
  from walk_back_sound[OF edges u(2)] obtain xs where "ys = [goal, u] @ xs"
    "walk_from adj start (rev (u # xs)) u" by blast
  with walk_from_append[OF this(2) edges[OF u(1)]] u(3) show ?thesis by simp
qed (use assms(4) in \<open>auto simp: dijkstra_search_def\<close>)

section \<open>A goal that cannot be reached\<close>

lemma walk_back_forever:
  assumes "\<And>w. A w \<Longrightarrow> w \<noteq> start \<and> (\<exists>u. map_of previous w = Some u \<and> A u)" and "A v"
  shows "walk_back previous start v ret = None"
proof (rule ccontr)
  assume "walk_back previous start v ret \<noteq> None"
  then obtain r where r: "walk_back previous start v ret = Some r" by blast
  have "p = previous \<Longrightarrow> st = start \<Longrightarrow> A v \<Longrightarrow> False" if "walk_back p st v ret = Some r" for p st v ret r
  proof (rule walk_back.raw_induct[where P = "\<lambda>p st v ret r. p = previous \<longrightarrow> st = start \<longrightarrow> A v \<longrightarrow> False",
      OF _ that, rule_format])
    fix f p st v ret r
    assume IH: "\<And>p st v ret r. f p st v ret = Some r \<Longrightarrow> p = previous \<Longrightarrow> st = start \<Longrightarrow> A v \<Longrightarrow> False"
      and eq: "(if v = st then Some (Inr ret) else case map_of p v of None \<Rightarrow> Some (Inl NoPathFound)
        | Some u \<Rightarrow> f p st u (ret @ [u])) = Some (r :: search_error + vertex list)"
      and p: "p = previous" "st = start" "A v"
    from assms(1)[OF p(3)] obtain u where "v \<noteq> start" "map_of previous v = Some u" "A u" by blast
    with eq p have "f previous start u (ret @ [u]) = Some r" by simp
    from IH[OF this refl refl \<open>A u\<close>] show False .
  qed
  from this[OF r refl refl assms(2)] show False .
qed

text \<open>C35: When the goal cannot be reached from the start, and every node from which it can be reached
  is itself the end of an edge - in a graph whose edges go both ways: when the goal has any
  neighbour - the search does not report the error it has for this case. It never returns: all
  those nodes get predecessors, among which the loop that reads the path off runs in a circle.\<close>

theorem dijkstra_search_loops:
  assumes "permutes qsort" and "visits_all visit" and "query_adjacency al = Some adj"
    and "closed_graph adj" and "\<not> reaches adj start goal"
    and pre: "\<And>w. reaches adj w goal \<Longrightarrow> \<exists>u. is_edge adj u w"
  shows "dijkstra_search visit qsort al start goal = None"
proof -
  have ne: "start \<noteq> goal" using assms(5) by auto
  obtain d prevs where s: "find_shortest_paths visit qsort adj
      (AList.update start 0 (initialize_dijkstra_d (visit adj) []), []) = Some (d, prevs)"
    "preds_inv adj start [] (d, prevs)"
    using find_shortest_paths_preds_inv[OF assms(1,2)] by fastforce
  have step: "w \<noteq> start \<and> (\<exists>u. map_of prevs w = Some u \<and> reaches adj u goal)"
    if w: "reaches adj w goal" for w
  proof -
    obtain u where u: "is_edge adj u w" using pre[OF w] by blast
    have ws: "w \<noteq> start" using w assms(5) by auto
    moreover have "w \<in> fst ` set adj" using closed_graph_edge[OF assms(4) u] .
    moreover have "cost d w \<noteq> -1" using s(2) u by (auto simp: preds_inv_def)
    ultimately obtain x where x: "map_of prevs w = Some x" using s(2) by (auto simp: preds_inv_def)
    then have "is_edge adj x w" using s(2) by (simp add: preds_inv_def)
    then have "reaches adj x goal" using reaches_step[OF reaches_refl] reaches_trans w by blast
    with ws x show ?thesis by blast
  qed
  obtain u where u: "map_of prevs goal = Some u" "reaches adj u goal" using step[of goal] by auto
  have "walk_back prevs start u [goal, u] = None" by (rule walk_back_forever[OF step u(2)])
  then show ?thesis using ne assms(3) s(1) u(1) by (simp add: dijkstra_search_def)
qed

section \<open>Examples\<close>

text \<open>A square, whose nodes are linked both ways, and a fifth and sixth node linked to each other.\<close>

definition square_items :: "(vertex \<times> pyvalue \<times> bool) list" where
  "square_items = [(1, PyDict [2, 4], False), (2, PyDict [1, 3], False), (3, PyDict [2, 4], False),
     (4, PyDict [1, 3], False)]"

definition square_adjacency :: adjacency where
  "square_adjacency = [(1, [4, 2]), (2, [3, 1]), (3, [4, 2]), (4, [3, 1])]"

definition pair_items :: "(vertex \<times> pyvalue \<times> bool) list" where
  "pair_items = [(5, PyDict [6], False), (6, PyDict [5], False)]"

definition pair_adjacency :: adjacency where
  "pair_adjacency = [(5, [6]), (6, [5])]"

text \<open>A path from 1 to 2, and a node 3 that has an edge to 2 but none from anywhere.\<close>

definition intruder_items :: "(vertex \<times> pyvalue \<times> bool) list" where
  "intruder_items = [(1, PyDict [4], False), (4, PyDict [2], False), (2, PyDict [], False),
     (3, PyDict [2], False)]"

lemma query_square: "query_adjacency (Some (square_items, False)) = Some square_adjacency"
  by (simp add: query_adjacency_def square_items_def square_adjacency_def Let_def)

lemma query_pair: "query_adjacency (Some (square_items @ pair_items, False)) =
    Some (square_adjacency @ pair_adjacency)"
  by (simp add: query_adjacency_def square_items_def square_adjacency_def pair_items_def
        pair_adjacency_def Let_def)

lemma visits_all_rev: "visits_all rev"
  by (simp add: visits_all_def)

lemma is_edge_square: "is_edge square_adjacency u v \<longleftrightarrow>
    (u, v) \<in> {(1, 4), (1, 2), (2, 3), (2, 1), (3, 4), (3, 2), (4, 3), (4, 1)}"
  by (auto simp: is_edge_def square_adjacency_def split: if_splits)

lemma is_edge_both: "is_edge (square_adjacency @ pair_adjacency) u v \<longleftrightarrow>
    (u, v) \<in> {(1, 4), (1, 2), (2, 3), (2, 1), (3, 4), (3, 2), (4, 3), (4, 1), (5, 6), (6, 5)}"
  by (auto simp: is_edge_def square_adjacency_def pair_adjacency_def split: if_splits)

lemma reaches_square: "v \<in> {1, 2, 3, 4} \<Longrightarrow> reaches square_adjacency 1 v"
proof -
  have 2: "reaches square_adjacency 1 2" and 4: "reaches square_adjacency 1 4"
    by (auto intro!: reaches_step[OF reaches_refl] simp: is_edge_square)
  moreover have "reaches square_adjacency 1 3"
    using reaches_step[OF 2, of 3] by (simp add: is_edge_square)
  ultimately show "v \<in> {1, 2, 3, 4} \<Longrightarrow> reaches square_adjacency 1 v" by auto
qed

theorem dijkstra_search_shortest_witness:
  "\<exists>p. dijkstra_search rev insertion_sort (Some (square_items, False)) 1 3 = Some (Inr p) \<and>
       walk_from square_adjacency 1 p 3 \<and> length p \<le> 3"
proof -
  have "no_intrusion square_adjacency 1"
    using reaches_square by (auto simp: no_intrusion_def is_edge_square)
  moreover have "closed_graph square_adjacency" "1 \<in> fst ` set square_adjacency"
    by (auto simp: closed_graph_def square_adjacency_def)
  moreover have "walk_from square_adjacency 1 [1, 2, 3] 3" by (simp add: is_edge_square)
  ultimately show ?thesis
    using dijkstra_search_shortest[OF sorts_costs_insertion_sort visits_all_rev query_square _ _ _
        reaches_square[of 3]] by fastforce
qed

theorem dijkstra_search_sound_witness: "walk_from square_adjacency 1 [1, 4, 3] 3"
proof (rule dijkstra_search_sound[OF permutes_insertion_sort visits_all_rev query_square])
  show "dijkstra_search rev insertion_sort (Some (square_items, False)) 1 3 = Some (Inr [1, 4, 3])"
    by (code_simp, simp add: walk_back.simps)
qed

theorem dijkstra_search_loops_witness:
  "dijkstra_search rev insertion_sort (Some (square_items @ pair_items, False)) 1 5 = None"
proof (rule dijkstra_search_loops[OF permutes_insertion_sort visits_all_rev query_pair])
  show "closed_graph (square_adjacency @ pair_adjacency)"
    by (auto simp: closed_graph_def square_adjacency_def pair_adjacency_def)
  have "reaches (square_adjacency @ pair_adjacency) 1 v \<Longrightarrow> v \<in> {1, 2, 3, 4}" for v
    by (induction rule: reaches_induct) (auto simp: is_edge_both)
  from this[of 5] show "\<not> reaches (square_adjacency @ pair_adjacency) 1 5" by fastforce
  have other: "reaches (square_adjacency @ pair_adjacency) w v \<Longrightarrow> v = 5 \<or> v = 6 \<Longrightarrow> w = 5 \<or> w = 6" for w v
    by (induction rule: reaches_induct) (auto simp: is_edge_both)
  fix w assume "reaches (square_adjacency @ pair_adjacency) w 5"
  from other[OF this] have "w = 5 \<or> w = 6" by simp
  then have "is_edge (square_adjacency @ pair_adjacency) 6 w \<or>
      is_edge (square_adjacency @ pair_adjacency) 5 w"
    by (elim disjE) (simp_all add: is_edge_both)
  then show "\<exists>u. is_edge (square_adjacency @ pair_adjacency) u w" by blast
qed

text \<open>The intruder: 2 can be reached from 1 by way of 4, yet the search says that it cannot.\<close>

lemma intruder_hides_the_path:
  "dijkstra_search rev insertion_sort (Some (intruder_items, False)) 1 2 = Some (Inl NoPathFound)"
  by (code_simp, simp add: walk_back.simps)

end
