(* ===== verification/Motion_Search.thy ===== *)
theory Motion_Search
  imports Motion_Dijkstra
begin

text \<open>
  The depth-limited search of the motion graphs: \<^verbatim>\<open>depth_limited.c\<close> and
  \<^verbatim>\<open>depth_limited_search\<close> of \<^verbatim>\<open>algorithms.c\<close> in \<^verbatim>\<open>src/motion/py/Graph\<close>. It goes through
  the paths that leave the start, up to a number of edges, and keeps, for every length, the most
  probable path that ends in the goal. Probabilities are values of an ordered type whose operations
  are an argument: floating-point numbers without NaN.
\<close>

section \<open>The code\<close>

text \<open>A path is kept newest node first, as the list of the code. An empty list is the null pointer.
  \<^term>\<open>None\<close> is a run that follows a null pointer, the weight of a missing edge, or that writes
  outside the array \<^verbatim>\<open>good_paths\<close>. \<open>visit_edges\<close> is the loop over the neighbours in \<open>vs\<close>.\<close>

function search :: "'f::linorder float_ops \<Rightarrow> adjacency \<Rightarrow> (u32 \<times> 'f) list \<Rightarrow> vertex \<Rightarrow> nat \<Rightarrow> vertex list \<Rightarrow>
    vertex list list \<Rightarrow> vertex list list option" and
  visit_edges :: "'f::linorder float_ops \<Rightarrow> adjacency \<Rightarrow> (u32 \<times> 'f) list \<Rightarrow> vertex \<Rightarrow> nat \<Rightarrow> vertex list \<Rightarrow>
    vertex list \<Rightarrow> vertex list list \<Rightarrow> vertex list list option"
where
  "search fo adjacency edges goal 0 path good_paths = Some good_paths"
| "search fo adjacency edges goal (Suc depth) path good_paths =
     (let v_list = (case map_of adjacency (hd path) of None \<Rightarrow> [] | Some vs \<Rightarrow> vs)
      in visit_edges fo adjacency edges goal depth path v_list good_paths)"
| "visit_edges fo adjacency edges goal depth path [] good_paths = Some good_paths"
| "visit_edges fo adjacency edges goal depth path (v # vs) good_paths =
     (let d = length path - 1; new = v # path in
      if goal = v then
        if length good_paths \<le> d then None
        else let old = good_paths ! d in
          case (computeProbability fo edges new, computeProbability fo edges old) of
            (Some p, Some q) \<Rightarrow>
              if p > q then visit_edges fo adjacency edges goal depth path vs (good_paths[d := new])
              else visit_edges fo adjacency edges goal depth path vs good_paths
          | _ \<Rightarrow> None
      else case search fo adjacency edges goal depth new good_paths of
             None \<Rightarrow> None
           | Some good_paths \<Rightarrow> visit_edges fo adjacency edges goal depth path vs good_paths)"
  by pat_completeness auto
termination
  by (relation "measures [\<lambda>x. case x of Inl (_, _, _, _, depth, _) \<Rightarrow> 2 * depth
                             | Inr (_, _, _, _, depth, _) \<Rightarrow> 2 * depth + 1,
                          \<lambda>x. case x of Inl _ \<Rightarrow> 0 | Inr (_, _, _, _, _, _, vs, _) \<Rightarrow> length vs]") auto

text \<open>What Python gets: for every number of edges the nodes of the path, or the object
  \<^verbatim>\<open>None\<close>. A depth is a positive number, since it is the size of an array. Undefined runs are
  \<^term>\<open>None\<close>.\<close>

definition depth_limited_search ::
  "'f::linorder float_ops \<Rightarrow> py_adjacency \<Rightarrow> 'f py_edges \<Rightarrow> vertex \<Rightarrow> vertex \<Rightarrow> nat \<Rightarrow>
   (search_error + vertex list option list) option" where
  "depth_limited_search fo adjacency_list edge_list start end depth =
     (if depth = 0 then None
      else case query_adjacency adjacency_list of
        None \<Rightarrow> Some (Inl BuildError)
      | Some adjacency \<Rightarrow>
          (case query_edges edge_list of
             None \<Rightarrow> None
           | Some None \<Rightarrow> Some (Inl BuildError)
           | Some (Some edges) \<Rightarrow>
               (case search fo adjacency edges end depth [start] (replicate depth []) of
                  None \<Rightarrow> None
                | Some paths \<Rightarrow>
                    Some (Inr (map (\<lambda>path. if path = [] then None else Some path) paths @ [None])))))"

section \<open>The paths it goes through\<close>

text \<open>A reference: the list of the paths that end in the goal, in the order of the search, and what
  is done with each.\<close>

definition neighbours :: "adjacency \<Rightarrow> vertex \<Rightarrow> vertex list" where
  "neighbours adj u = (case map_of adj u of None \<Rightarrow> [] | Some vs \<Rightarrow> vs)"

fun goal_paths :: "adjacency \<Rightarrow> vertex \<Rightarrow> nat \<Rightarrow> vertex list \<Rightarrow> vertex list list" where
  "goal_paths adj goal 0 path = []"
| "goal_paths adj goal (Suc depth) path =
     concat (map (\<lambda>v. if goal = v then [v # path] else goal_paths adj goal depth (v # path))
                 (neighbours adj (hd path)))"

definition probability :: "'f::linorder float_ops \<Rightarrow> (u32 \<times> 'f) list \<Rightarrow> vertex list \<Rightarrow> 'f" where
  "probability fo edges path = (case computeProbability fo edges path of None \<Rightarrow> f_zero fo | Some p \<Rightarrow> p)"

definition keep_better ::
  "'f::linorder float_ops \<Rightarrow> (u32 \<times> 'f) list \<Rightarrow> vertex list \<Rightarrow> vertex list list \<Rightarrow> vertex list list" where
  "keep_better fo edges p good =
     (let d = length p - 2
      in if probability fo edges p > probability fo edges (good ! d) then good[d := p] else good)"

text \<open>A path, newest node first, that starts at \<open>start\<close>, ends in the goal after \<open>n + 1\<close> edges, and does
  not pass through the goal on its way.\<close>

fun back_walk :: "adjacency \<Rightarrow> vertex list \<Rightarrow> bool" where
  "back_walk adj (v # u # path) \<longleftrightarrow> is_edge adj u v \<and> back_walk adj (u # path)"
| "back_walk adj path \<longleftrightarrow> True"

definition candidate :: "adjacency \<Rightarrow> vertex \<Rightarrow> vertex \<Rightarrow> nat \<Rightarrow> vertex list \<Rightarrow> bool" where
  "candidate adj start goal n p \<longleftrightarrow> length p = n + 2 \<and> hd p = goal \<and> last p = start \<and>
     back_walk adj p \<and> goal \<notin> set (butlast (tl p))"

text \<open>Every edge of the adjacency table has a weight.\<close>

definition weights_known :: "adjacency \<Rightarrow> (u32 \<times> 'f) list \<Rightarrow> bool" where
  "weights_known adj edges \<longleftrightarrow> (\<forall>u v. is_edge adj u v \<longrightarrow> map_of edges (edge_key u v) \<noteq> None)"

lemma set_neighbours: "v \<in> set (neighbours adj u) \<longleftrightarrow> is_edge adj u v"
  by (auto simp: neighbours_def is_edge_def split: option.splits)

lemma multiply_edges_known:
  "weights_known adj edges \<Longrightarrow> back_walk adj p \<Longrightarrow> \<exists>x. multiply_edges fo edges p a = Some x"
proof (induction fo edges p a rule: multiply_edges.induct)
  case (1 fo edges u v path p)
  then have "map_of edges (edge_key u v) \<noteq> None"
    unfolding weights_known_def edge_key_commute[of u v] by simp
  with 1 show ?case by auto
qed simp_all

lemma computeProbability_known:
  "weights_known adj edges \<Longrightarrow> back_walk adj p \<Longrightarrow>
     computeProbability fo edges p = Some (probability fo edges p)"
  using multiply_edges_known[of adj edges p fo "f_one fo"]
  by (auto simp: computeProbability_def probability_def)

lemma back_walk_Cons: "p \<noteq> [] \<Longrightarrow> back_walk adj (v # p) \<longleftrightarrow> is_edge adj (hd p) v \<and> back_walk adj p"
  by (cases p) auto

lemma goal_paths_sound:
  "p \<in> set (goal_paths adj goal depth path) \<Longrightarrow> path \<noteq> [] \<Longrightarrow> back_walk adj path \<Longrightarrow>
     \<exists>q. p = goal # q @ path \<and> back_walk adj p \<and> length q < depth \<and> goal \<notin> set q"
proof (induction adj goal depth path rule: goal_paths.induct)
  case (2 adj goal depth path)
  then obtain v where v: "is_edge adj (hd path) v"
    "p \<in> set (if goal = v then [v # path] else goal_paths adj goal depth (v # path))"
    by (auto simp: set_neighbours)
  have bw: "back_walk adj (v # path)" using v(1) 2 by (simp add: back_walk_Cons)
  show ?case
  proof (cases "goal = v")
    case True
    with v(2) bw show ?thesis by auto
  next
    case False
    from "2.IH"[OF _ False] v False bw obtain q where "p = goal # q @ v # path" "back_walk adj p"
      "length q < depth" "goal \<notin> set q"
      by (auto simp: set_neighbours)
    then have "p = goal # (q @ [v]) @ path \<and> back_walk adj p \<and> length (q @ [v]) < Suc depth \<and>
        goal \<notin> set (q @ [v])" using False by simp
    then show ?thesis by blast
  qed
qed simp

lemma back_walk_append: "back_walk adj (q @ v # path) \<Longrightarrow> back_walk adj (v # path)"
proof (induction q)
  case (Cons x q)
  then show ?case by (cases q) auto
qed simp

lemma goal_paths_complete:
  "back_walk adj (goal # q @ path) \<Longrightarrow> path \<noteq> [] \<Longrightarrow> length q < depth \<Longrightarrow> goal \<notin> set q \<Longrightarrow>
     goal # q @ path \<in> set (goal_paths adj goal depth path)"
proof (induction q arbitrary: path depth rule: rev_induct)
  case Nil
  then show ?case by (cases depth) (auto simp: set_neighbours back_walk_Cons)
next
  case (snoc v q)
  then obtain d where d: "depth = Suc d" by (cases depth) auto
  have e: "is_edge adj (hd path) v"
    using back_walk_append[of adj "goal # q" v path] snoc.prems(1,2) by (simp add: back_walk_Cons)
  have "goal # q @ v # path \<in> set (goal_paths adj goal d (v # path))"
    using snoc.IH[of "v # path" d] snoc.prems d by simp
  with e d snoc.prems(4) show ?case by (auto simp: set_neighbours intro!: bexI[of _ v])
qed

section \<open>The search is its reference\<close>

lemma length_keep_better [simp]: "length (keep_better fo edges p good) = length good"
  by (simp add: keep_better_def Let_def)

lemma length_fold_keep_better [simp]: "length (fold (keep_better fo edges) ps good) = length good"
  by (induction ps arbitrary: good) auto

lemma fold_keep_better_set:
  "set (fold (keep_better fo edges) ps good) \<subseteq> set good \<union> set ps"
proof (induction ps arbitrary: good)
  case (Cons p ps)
  have "set (keep_better fo edges p good) \<subseteq> insert p (set good)"
    by (auto simp: keep_better_def Let_def dest: subsetD[OF set_update_subset_insert])
  with Cons[of "keep_better fo edges p good"] show ?case by auto
qed simp

definition paths_via :: "adjacency \<Rightarrow> vertex \<Rightarrow> nat \<Rightarrow> vertex list \<Rightarrow> vertex list \<Rightarrow> vertex list list" where
  "paths_via adj goal depth path vs =
     concat (map (\<lambda>v. if goal = v then [v # path] else goal_paths adj goal depth (v # path)) vs)"

lemma goal_paths_via:
  "goal_paths adj goal (Suc depth) path = paths_via adj goal depth path (neighbours adj (hd path))"
  by (simp add: paths_via_def)

lemma paths_via_Cons:
  "paths_via adj goal depth path (v # vs) =
     (if goal = v then [v # path] else goal_paths adj goal depth (v # path)) @
     paths_via adj goal depth path vs"
  by (simp add: paths_via_def)

lemma keep_better_walks:
  "\<forall>g \<in> set good. back_walk adj g \<Longrightarrow> \<forall>p \<in> set ps. back_walk adj p \<Longrightarrow>
     \<forall>g \<in> set (fold (keep_better fo edges) ps good). back_walk adj g"
  using fold_keep_better_set[of fo edges ps good] by blast

lemma goal_paths_walks:
  "path \<noteq> [] \<Longrightarrow> back_walk adj path \<Longrightarrow> \<forall>p \<in> set (goal_paths adj goal depth path). back_walk adj p"
  using goal_paths_sound by blast

lemma search_is_fold:
  "weights_known adj edges \<Longrightarrow> path \<noteq> [] \<Longrightarrow> back_walk adj path \<Longrightarrow>
     length path + depth \<le> Suc (length good) \<Longrightarrow> \<forall>g \<in> set good. back_walk adj g \<Longrightarrow>
     search fo adj edges goal depth path good =
       Some (fold (keep_better fo edges) (goal_paths adj goal depth path) good)"
  "weights_known adj edges \<Longrightarrow> path \<noteq> [] \<Longrightarrow> back_walk adj path \<Longrightarrow>
     length path + depth \<le> length good \<Longrightarrow> \<forall>g \<in> set good. back_walk adj g \<Longrightarrow>
     \<forall>v \<in> set vs. is_edge adj (hd path) v \<Longrightarrow>
     visit_edges fo adj edges goal depth path vs good =
       Some (fold (keep_better fo edges) (paths_via adj goal depth path vs) good)"
proof (induction fo adj edges goal depth path good and fo adj edges goal depth path vs good
    rule: search_visit_edges.induct)
  case (2 fo adj edges goal depth path good)
  have v: "\<forall>v \<in> set (case map_of adj (hd path) of None \<Rightarrow> [] | Some vs \<Rightarrow> vs). is_edge adj (hd path) v"
    using in_neighbours by blast
  show ?case
    unfolding search.simps goal_paths_via Let_def neighbours_def
    by (rule "2.IH"[OF refl]) (use "2.prems" v in auto)
next
  case (4 fo adj edges goal depth path v vs good)
  have bw: "back_walk adj (v # path)" using "4.prems" by (simp add: back_walk_Cons)
  have len: "length path - 1 < length good" using "4.prems" by (cases path) auto
  show ?case
  proof (cases "goal = v")
    case True
    have "back_walk adj (good ! (length path - 1))" using "4.prems"(5) len by simp
    note pr = computeProbability_known[OF "4.prems"(1) bw, of fo]
      computeProbability_known[OF "4.prems"(1) this, of fo]
    have kb: "keep_better fo edges (v # path) good =
        (if probability fo edges (good ! (length path - 1)) < probability fo edges (v # path)
         then good[length path - 1 := v # path] else good)"
      by (simp add: keep_better_def Let_def)
    have ok: "\<forall>g \<in> set (good[length path - 1 := v # path]). back_walk adj g"
      using "4.prems"(5) bw set_update_subset_insert[of good "length path - 1" "v # path"] by auto
    have "visit_edges fo adj edges goal depth path (v # vs) good =
        visit_edges fo adj edges goal depth path vs (keep_better fo edges (v # path) good)"
      using True len pr by (simp add: Let_def kb not_le)
    also have "\<dots> = Some (fold (keep_better fo edges) (paths_via adj goal depth path vs)
        (keep_better fo edges (v # path) good))"
      using "4.IH"(1,2)[OF refl refl True _ refl _ refl refl] pr len ok "4.prems"
      by (auto simp: kb not_le split: if_splits)
    finally show ?thesis using True by (simp add: paths_via_Cons)
  next
    case False
    let ?good = "fold (keep_better fo edges) (goal_paths adj goal depth (v # path)) good"
    have s: "search fo adj edges goal depth (v # path) good = Some ?good"
      by (rule "4.IH"(3)[OF refl refl False]) (use "4.prems" bw in auto)
    have w: "\<forall>g \<in> set ?good. back_walk adj g"
      by (rule keep_better_walks[OF "4.prems"(5) goal_paths_walks[OF _ bw]]) simp
    have "visit_edges fo adj edges goal depth path vs ?good =
        Some (fold (keep_better fo edges) (paths_via adj goal depth path vs) ?good)"
      using "4.IH"(4)[OF refl refl False s] "4.prems" w by simp
    then show ?thesis using False s by (simp add: Let_def paths_via_Cons)
  qed
qed (simp_all add: paths_via_def)

section \<open>The best paths\<close>

lemma fold_keep_better_nth:
  assumes "i < length good" and "\<forall>p \<in> set ps. 2 \<le> length p"
  shows "let g = fold (keep_better fo edges) ps good ! i in
     (g = good ! i \<or> g \<in> set ps \<and> length g = i + 2 \<and>
        probability fo edges (good ! i) < probability fo edges g) \<and>
     probability fo edges (good ! i) \<le> probability fo edges g \<and>
     (\<forall>p \<in> set ps. length p = i + 2 \<longrightarrow> probability fo edges p \<le> probability fo edges g)"
  using assms
proof (induction ps arbitrary: good)
  case (Cons p ps)
  let ?good = "keep_better fo edges p good"
  have step: "?good ! i = (if length p = i + 2 \<and> probability fo edges (good ! i) < probability fo edges p
      then p else good ! i)"
  proof -
    have "length p - 2 = i \<longleftrightarrow> length p = i + 2" using Cons.prems(2) by auto
    then show ?thesis
      using Cons.prems(1) by (cases "length p - 2 = i") (auto simp: keep_better_def Let_def)
  qed
  from Cons.IH[of ?good] Cons.prems show ?case
    unfolding Let_def step by (auto split: if_splits)
qed simp

lemma candidate_iff:
  "candidate adj start goal n p \<longleftrightarrow>
     p \<in> set (goal_paths adj goal depth [start]) \<and> length p = n + 2" if "n < depth"
proof
  assume c: "candidate adj start goal n p"
  then obtain t where t: "p = goal # t" "length t = Suc n" unfolding candidate_def by (cases p) auto
  then obtain q where q: "t = q @ [last t]" by (metis append_butlast_last_id length_0_conv nat.distinct(1))
  then have "t = q @ [start]" using c t by (auto simp: candidate_def split: if_splits)
  moreover from this have "length q < depth" using t(2) \<open>n < depth\<close> by simp
  moreover have "goal \<notin> set q" using c t q by (metis butlast_snoc candidate_def list.sel(3))
  ultimately show "p \<in> set (goal_paths adj goal depth [start]) \<and> length p = n + 2"
    using c t(1) goal_paths_complete[of adj goal q "[start]" depth] by (simp add: candidate_def)
next
  assume p: "p \<in> set (goal_paths adj goal depth [start]) \<and> length p = n + 2"
  then obtain q where "p = goal # q @ [start]" "back_walk adj p" "goal \<notin> set q"
    using goal_paths_sound[of p adj goal depth "[start]"] by auto
  with p show "candidate adj start goal n p"
    unfolding candidate_def by (simp add: butlast_append)
qed

lemma goal_paths_long: "\<forall>p \<in> set (goal_paths adj goal depth [start]). 2 \<le> length p"
  using goal_paths_sound[of _ adj goal depth "[start]"] by fastforce

text \<open>C8: The depth-limited search returns a list of depth + 1 entries, of which the last is
  \<^verbatim>\<open>None\<close>. Entry n is a most probable path of n + 1 edges from the start to the goal that does
  not touch the goal on its way (newest node first), or \<^verbatim>\<open>None\<close> when no such path has a
  probability above zero. Every edge of the adjacency table must have a weight; else the search may
  follow a null pointer.\<close>

theorem depth_limited_search_best:
  assumes "query_adjacency al = Some adj" and "query_edges el = Some (Some edges)"
    and "weights_known adj edges" and "0 < depth"
  shows "\<exists>ps. depth_limited_search fo al el start goal depth = Some (Inr ps) \<and>
     length ps = depth + 1 \<and> ps ! depth = None \<and>
     (\<forall>n < depth. case ps ! n of
        None \<Rightarrow> \<forall>q. candidate adj start goal n q \<longrightarrow> probability fo edges q \<le> f_zero fo
      | Some p \<Rightarrow> candidate adj start goal n p \<and> f_zero fo < probability fo edges p \<and>
          (\<forall>q. candidate adj start goal n q \<longrightarrow> probability fo edges q \<le> probability fo edges p))"
proof -
  let ?cs = "goal_paths adj goal depth [start]"
  let ?good = "fold (keep_better fo edges) ?cs (replicate depth [])"
  let ?ps = "map (\<lambda>path. if path = [] then None else Some path) ?good @ [None]"
  have zero: "probability fo edges [] = f_zero fo" by (simp add: probability_def computeProbability_def)
  have "search fo adj edges goal depth [start] (replicate depth []) = Some ?good"
    by (rule search_is_fold(1)[OF assms(3)]) auto
  then have "depth_limited_search fo al el start goal depth = Some (Inr ?ps)"
    using assms by (simp add: depth_limited_search_def)
  moreover have "case ?ps ! n of
        None \<Rightarrow> \<forall>q. candidate adj start goal n q \<longrightarrow> probability fo edges q \<le> f_zero fo
      | Some p \<Rightarrow> candidate adj start goal n p \<and> f_zero fo < probability fo edges p \<and>
          (\<forall>q. candidate adj start goal n q \<longrightarrow> probability fo edges q \<le> probability fo edges p)"
    if n: "n < depth" for n
  proof -
    have b: "(?good ! n = [] \<or> candidate adj start goal n (?good ! n) \<and>
          f_zero fo < probability fo edges (?good ! n)) \<and>
        (\<forall>q. candidate adj start goal n q \<longrightarrow> probability fo edges q \<le> probability fo edges (?good ! n))"
      using fold_keep_better_nth[of n "replicate depth []" ?cs fo edges] n goal_paths_long
      by (simp add: candidate_iff[OF n] zero Let_def)
    have e: "?ps ! n = (if ?good ! n = [] then None else Some (?good ! n))"
      using n by (simp add: nth_append)
    show ?thesis unfolding e using b zero by (auto simp del: length_fold_keep_better)
  qed
  ultimately show ?thesis by (auto simp: nth_append)
qed

text \<open>Three nodes in a triangle; weights are per cent, multiplied as integers.\<close>

definition triangle_items :: "(vertex \<times> pyvalue \<times> bool) list" where
  "triangle_items = [(1, PyDict [2, 3], False), (2, PyDict [3], False), (3, PyDict [], False)]"

definition triangle_edges :: "(vertex \<times> vertex \<times> int) list" where
  "triangle_edges = [(1, 2, 60), (1, 3, 40), (2, 3, 90)]"

definition int_ops :: "int float_ops" where
  "int_ops = \<lparr>f_one = 1, f_zero = 0, f_mul = (*)\<rparr>"

lemma query_triangle:
  "query_adjacency (Some (triangle_items, False)) = Some [(1, [3, 2]), (2, [3]), (3, [])]"
  "query_edges (Some (triangle_edges, False)) = Some (Some [(3, 60), (4, 40), (5, 90)])"
  by (simp_all add: query_adjacency_def query_edges_def triangle_items_def triangle_edges_def
        edge_key_def Let_def)

theorem depth_limited_search_best_witness:
  "\<exists>ps. depth_limited_search int_ops (Some (triangle_items, False)) (Some (triangle_edges, False)) 1 3 2 =
          Some (Inr ps) \<and> length ps = 3 \<and> ps ! 2 = None"
proof -
  have "weights_known [(1, [3, 2]), (2, [3]), (3, [])] [(3, 60 :: int), (4, 40), (5, 90)]"
    by (auto simp: weights_known_def is_edge_def edge_key_def split: if_splits)
  from depth_limited_search_best[OF query_triangle this, of 2 int_ops 1 3] show ?thesis by auto
qed

text \<open>What the search finds in the triangle: the edge, and the way round.\<close>

lemma triangle_found:
  "depth_limited_search int_ops (Some (triangle_items, False)) (Some (triangle_edges, False)) 1 3 2 =
     Some (Inr [Some [3, 1], Some [3, 2, 1], None])"
  by code_simp

text \<open>The key of an edge is a sum, so that unrelated edges share an entry: the weight of the edge
  from 1 to 4 replaces that of the edge from 2 to 3.\<close>

lemma edges_collide:
  "query_edges (Some ([(2, 3, 90 :: int), (1, 4, 5)], False)) = Some (Some [(5, 5)])"
  by (simp add: query_edges_def edge_key_def)

end
