(* ===== verification/Metalkit_Console.thy ===== *)
theory Metalkit_Console
  imports Prelude
begin

text \<open>
  The text console of Metalkit, \<^verbatim>\<open>src/metalkit/lib/console.c\<close> and \<^verbatim>\<open>console.h\<close>: numbers, a
  small \<^verbatim>\<open>printf\<close>, hex dumps and the report of an unhandled fault, all written character by
  character through the function pointers of \<^verbatim>\<open>gConsole\<close>. Locale \<open>console\<close> is that interface;
  the VGA console interprets it.

  A string is a list of bytes with its terminating zero; an operation that would read past the end of
  the list is \<^term>\<open>None\<close>.
\<close>

section \<open>The code\<close>

type_synonym cstring = "byte list"

record 's console_interface =
  c_beginPanic :: "'s \<Rightarrow> 's option"
  c_clear :: "'s \<Rightarrow> 's option"
  c_moveTo :: "int \<Rightarrow> int \<Rightarrow> 's \<Rightarrow> 's option"
  c_writeChar :: "byte \<Rightarrow> 's \<Rightarrow> 's option"
  c_flush :: "'s \<Rightarrow> 's option"

fun Console_WriteString :: "'s console_interface \<Rightarrow> cstring \<Rightarrow> 's \<Rightarrow> 's option" where
  "Console_WriteString con [] s = None"
| "Console_WriteString con (c # str) s =
     (if c = 0 then Some s
      else do { s \<leftarrow> c_writeChar con c s; Console_WriteString con str s })"

definition digit_char :: "byte \<Rightarrow> byte" where
  "digit_char digit = (if digit \<ge> 10 then digit - 10 + 65 else digit + 48)"

text \<open>A negative number of digits is never counted down to zero: the recursion does not end.\<close>

function Console_WriteUInt32 ::
  "'s console_interface \<Rightarrow> u32 \<Rightarrow> int \<Rightarrow> byte \<Rightarrow> u32 \<Rightarrow> bool \<Rightarrow> 's \<Rightarrow> 's option" where
  "Console_WriteUInt32 con num digits padding base suppressZero s =
     (if digits = 0 then Some s
      else if digits < 0 \<or> base = 0 then None
      else do {
        s \<leftarrow> Console_WriteUInt32 con (num div base) (digits - 1) padding base True s;
        if num = 0 \<and> suppressZero
        then (if padding \<noteq> 0 then c_writeChar con padding s else Some s)
        else c_writeChar con (digit_char (ucast (num mod base))) s
      })"
  by pat_completeness auto
termination
  by (relation "measure (\<lambda>(con, num, digits, padding, base, suppressZero, s). nat digits)") auto

declare Console_WriteUInt32.simps [simp del]

text \<open>An argument of a format: a word, or a pointer to a string.\<close>

datatype format_arg = Word u32 | Ptr cstring

text \<open>The base of an integer conversion, 0 for any other character.\<close>

definition format_base :: "byte \<Rightarrow> u32" where
  "format_base c =
     (if c = 88 \<or> c = 120 then 16
      else if c = 100 then 10
      else if c = 117 then 10
      else if c = 98 then 2
      else 0)"

definition write_integer ::
  "'s console_interface \<Rightarrow> byte \<Rightarrow> int \<Rightarrow> byte \<Rightarrow> u32 \<Rightarrow> 's \<Rightarrow> 's option" where
  "write_integer con c width padding value s =
     (if c = 100 \<and> sint value < 0
      then do {
        s \<leftarrow> c_writeChar con 45 s;
        Console_WriteUInt32 con (- value) (width - 1) padding (format_base c) False s
      }
      else Console_WriteUInt32 con value width padding (format_base c) False s)"

text \<open>The two nested loops over the format are one recursion over it. Its state is \<^term>\<open>None\<close> in the
  outer loop, and the width and the padding read so far in the inner one. When the format ends inside
  a specifier, the inner loop ends on the zero byte and the outer one reads on behind it.\<close>

fun format_loop ::
  "'s console_interface \<Rightarrow> (int \<times> byte) option \<Rightarrow> cstring \<Rightarrow> format_arg list \<Rightarrow> 's \<Rightarrow> 's option" where
  "format_loop con st [] args s = None"
| "format_loop con None (c # fmt) args s =
     (if c = 0 then Some s
      else if c \<noteq> 37 then do { s \<leftarrow> c_writeChar con c s; format_loop con None fmt args s }
      else format_loop con (Some (0, 0)) fmt args s)"
| "format_loop con (Some (width, padding)) (c # fmt) args s =
     (if c = 0 then format_loop con None fmt args s
      else if c = 48 \<and> width = 0 then format_loop con (Some (width, 48)) fmt args s
      else if c \<ge> 48 \<and> c \<le> 57 then do {
        w \<leftarrow> c_mul width 10;
        w \<leftarrow> c_add w (uint c - 48);
        format_loop con (Some (w, if padding = 0 then 32 else padding)) fmt args s
      }
      else let width = (if width = 0 then 32 else width) in
        if c = 115 then
          (case args of Ptr p # args \<Rightarrow> do { s \<leftarrow> Console_WriteString con p s; format_loop con None fmt args s }
           | _ \<Rightarrow> None)
        else if c = 99 then
          (case args of Word v # args \<Rightarrow> do { s \<leftarrow> c_writeChar con (ucast v) s; format_loop con None fmt args s }
           | _ \<Rightarrow> None)
        else if format_base c \<noteq> 0 then
          (case args of
             Word v # args \<Rightarrow>
               do { s \<leftarrow> write_integer con c width padding v s; format_loop con None fmt args s }
           | _ \<Rightarrow> None)
        else do { s \<leftarrow> c_writeChar con c s; format_loop con None fmt args s })"

definition Console_FormatV :: "'s console_interface \<Rightarrow> cstring \<Rightarrow> format_arg list \<Rightarrow> 's \<Rightarrow> 's option" where
  "Console_FormatV con fmt args s = format_loop con None fmt args s"

definition Console_Format :: "'s console_interface \<Rightarrow> cstring \<Rightarrow> format_arg list \<Rightarrow> 's \<Rightarrow> 's option" where
  "Console_Format con fmt args s = Console_FormatV con fmt args s"

text \<open>A string literal of the code.\<close>

definition cstr :: "string \<Rightarrow> cstring" where
  "cstr str = map of_char str @ [0]"

text \<open>The hex dump reads words from a memory. The inner loop writes at most four words of a line.\<close>

fun hexdump_words ::
  "'s console_interface \<Rightarrow> (u32 \<Rightarrow> u32) \<Rightarrow> nat \<Rightarrow> nat \<Rightarrow> u32 \<Rightarrow> 's \<Rightarrow> 's option" where
  "hexdump_words con mem numWords 0 data s = Some s"
| "hexdump_words con mem 0 lineWords data s = Some s"
| "hexdump_words con mem (Suc numWords) (Suc lineWords) data s = do {
     s \<leftarrow> Console_Format con (cstr '' %08x'') [Word (mem data)] s;
     hexdump_words con mem numWords lineWords (data + 4) s
   }"

function Console_HexDump ::
  "'s console_interface \<Rightarrow> (u32 \<Rightarrow> u32) \<Rightarrow> u32 \<Rightarrow> u32 \<Rightarrow> nat \<Rightarrow> 's \<Rightarrow> 's option" where
  "Console_HexDump con mem data startAddr numWords s =
     (if numWords = 0 then Some s
      else do {
        s \<leftarrow> Console_Format con (cstr ''%08x:'') [Word startAddr] s;
        s \<leftarrow> hexdump_words con mem numWords 4 data s;
        s \<leftarrow> c_writeChar con 10 s;
        let n = min numWords 4;
        Console_HexDump con mem (data + 4 * of_nat n) (startAddr + 4 * of_nat n) (numWords - n) s
      })"
  by pat_completeness auto
termination
  by (relation "measure (\<lambda>(con, mem, data, startAddr, numWords, s). numWords)") auto

declare Console_HexDump.simps [simp del]

text \<open>The registers that an interrupt saves (\<^verbatim>\<open>intr.h\<close>).\<close>

record IntrContext =
  r_edi :: u32
  r_esi :: u32
  r_ebp :: u32
  r_esp :: u32
  r_ebx :: u32
  r_edx :: u32
  r_ecx :: u32
  r_eax :: u32
  r_eip :: u32
  r_cs :: u32
  r_eflags :: u32

definition faultFmt :: cstring where
  "faultFmt = cstr (''Fatal error:'' @ [CHR 0x0A] @
     ''Unhandled fault %d at %04x:%08x'' @ [CHR 0x0A, CHR 0x0A] @
     ''eax=%08x ebx=%08x ecx=%08x edx=%08x'' @ [CHR 0x0A] @
     ''esi=%08x edi=%08x esp=%08x ebp=%08x'' @ [CHR 0x0A] @
     ''eflags=%032b'' @ [CHR 0x0A, CHR 0x0A])"

text \<open>The fault handler ends by halting the processor; its result is the console then.\<close>

definition Console_UnhandledFault ::
  "'s console_interface \<Rightarrow> (u32 \<Rightarrow> u32) \<Rightarrow> u32 \<Rightarrow> IntrContext \<Rightarrow> 's \<Rightarrow> 's option" where
  "Console_UnhandledFault con mem vector ctx s = do {
     s \<leftarrow> c_beginPanic con s;
     let ctx = ctx\<lparr>r_esp := r_esp ctx + 12\<rparr>;
     s \<leftarrow> Console_Format con faultFmt
            [Word vector, Word (r_cs ctx), Word (r_eip ctx),
             Word (r_eax ctx), Word (r_ebx ctx), Word (r_ecx ctx), Word (r_edx ctx),
             Word (r_esi ctx), Word (r_edi ctx), Word (r_esp ctx), Word (r_ebp ctx),
             Word (r_eflags ctx)] s;
     s \<leftarrow> Console_HexDump con mem (r_esp ctx) (r_esp ctx) 64 s;
     c_flush con s
   }"

definition Console_Panic :: "'s console_interface \<Rightarrow> cstring \<Rightarrow> format_arg list \<Rightarrow> 's \<Rightarrow> 's option" where
  "Console_Panic con fmt args s = do {
     s \<leftarrow> c_beginPanic con s;
     s \<leftarrow> Console_WriteString con (cstr (''Panic:'' @ [CHR 0x0A])) s;
     s \<leftarrow> Console_FormatV con fmt args s;
     c_flush con s
   }"

end
