(* ===== verification/Metalkit_Print.thy ===== *)
theory Metalkit_Print
  imports Metalkit_Console
begin

text \<open>
  What the console functions write: the text of a number, of a format and of a hex dump, apart from
  the console that it goes to; and the interface of a console as a locale, in which the report of a
  fault is shown to complete.
\<close>

section \<open>Texts\<close>

fun write_chars :: "'s console_interface \<Rightarrow> byte list \<Rightarrow> 's \<Rightarrow> 's option" where
  "write_chars con [] s = Some s"
| "write_chars con (c # cs) s = do { s \<leftarrow> c_writeChar con c s; write_chars con cs s }"

lemma write_chars_append: "write_chars con (xs @ ys) s = do { s \<leftarrow> write_chars con xs s; write_chars con ys s }"
  by (induction xs arbitrary: s) (auto split: Option.bind_split)

fun uint_text :: "u32 \<Rightarrow> nat \<Rightarrow> byte \<Rightarrow> u32 \<Rightarrow> bool \<Rightarrow> byte list" where
  "uint_text num 0 padding base suppress = []"
| "uint_text num (Suc digits) padding base suppress =
     uint_text (num div base) digits padding base True @
     (if num = 0 \<and> suppress then (if padding \<noteq> 0 then [padding] else [])
      else [digit_char (ucast (num mod base))])"

lemma write_uint_text:
  "base \<noteq> 0 \<Longrightarrow> Console_WriteUInt32 con num (int digits) padding base suppress s =
     write_chars con (uint_text num digits padding base suppress) s"
proof (induction digits arbitrary: num suppress s)
  case 0
  then show ?case by (simp add: Console_WriteUInt32.simps)
next
  case (Suc digits)
  then show ?case
    by (subst Console_WriteUInt32.simps) (auto simp: write_chars_append cong: bind_option_cong)
qed

section \<open>Numbers read back\<close>

definition digit_value :: "byte \<Rightarrow> nat" where
  "digit_value c = (if c \<ge> 65 then unat c - 55 else unat c - 48)"

text \<open>The number that a text denotes in a base; leading blanks do not count.\<close>

definition read_number :: "nat \<Rightarrow> byte list \<Rightarrow> nat" where
  "read_number b t = foldl (\<lambda>a c. a * b + digit_value c) 0 (dropWhile (\<lambda>c. c = 32) t)"

lemma digit_char_value:
  assumes "x < 16"
  shows "digit_value (digit_char (ucast x)) = unat x" "digit_char (ucast (x :: u32)) \<noteq> 32"
    "digit_char (ucast x) = 48 \<longleftrightarrow> x = 0"
proof -
  obtain n where n: "x = of_nat n" "n < 16"
  proof
    show "x = of_nat (unat x)" by simp
    show "unat x < 16" using assms by (simp add: word_less_nat_alt)
  qed
  then have "n = 0 \<or> n = 1 \<or> n = 2 \<or> n = 3 \<or> n = 4 \<or> n = 5 \<or> n = 6 \<or> n = 7 \<or>
      n = 8 \<or> n = 9 \<or> n = 10 \<or> n = 11 \<or> n = 12 \<or> n = 13 \<or> n = 14 \<or> n = 15" by presburger
  then have "x \<in> {0, 1, 2, 3, 4, 5, 6, 7, 8, 9, 10, 11, 12, 13, 14, 15}" using n(1) by auto
  then show "digit_value (digit_char (ucast x)) = unat x" "digit_char (ucast x) \<noteq> 32"
    "digit_char (ucast x) = 48 \<longleftrightarrow> x = 0"
    by (auto simp: digit_value_def digit_char_def word_le_nat_alt)
qed

lemma read_number_snoc:
  "c \<noteq> 32 \<Longrightarrow> read_number b (t @ [c]) = read_number b t * b + digit_value c"
  by (cases "\<forall>x \<in> set t. x = 32")
     (auto simp: read_number_def dropWhile_append1 dropWhile_append2 dropWhile_append3
        dropWhile_eq_Nil_conv[THEN iffD2])

lemma uint_text_zero: "uint_text 0 digits 32 base True = replicate digits 32"
  by (induction digits) (auto simp: replicate_append_same)

lemma read_blanks: "read_number b (replicate n 32) = 0"
  by (simp add: read_number_def)

lemma uint_text_reads_back:
  assumes b: "2 \<le> base" "base \<le> 16" and p: "padding \<in> {0, 32, 48}"
  shows "read_number (unat base) (uint_text num digits padding base suppress) =
    unat num mod unat base ^ digits"
proof (induction digits arbitrary: num suppress)
  case 0
  then show ?case by (simp add: read_number_def)
next
  case (Suc digits)
  let ?b = "unat base"
  have b0: "0 < ?b" using b(1) by (simp add: unat_gt_0) (auto simp: word_le_nat_alt)
  have "num mod base < base" using b0 by (simp add: word_less_nat_alt unat_mod)
  then have m: "num mod base < 16" using b(2) by simp
  have s: "unat num mod ?b ^ Suc digits = (unat (num div base) mod ?b ^ digits) * ?b + unat (num mod base)"
    by (simp add: unat_div unat_mod mod_mult2_eq mult.commute)
  show ?case
  proof (cases "num = 0 \<and> suppress")
    case True
    from p consider "padding = 0" | "padding = 32" | "padding = 48" by auto
    then show ?thesis
    proof cases
      case 1
      with True Suc[of 0 True] show ?thesis by simp
    next
      case 2
      with True show ?thesis using read_blanks[of ?b "Suc digits"]
        by (simp add: uint_text_zero replicate_append_same)
    next
      case 3
      with True Suc[of 0 True] show ?thesis by (simp add: read_number_snoc digit_value_def)
    qed
  next
    case False
    then have "uint_text num (Suc digits) padding base suppress =
        uint_text (num div base) digits padding base True @ [digit_char (ucast (num mod base))]"
      by auto
    then show ?thesis
      using Suc[of "num div base" True] s by (simp only: read_number_snoc[OF digit_char_value(2)[OF m]] digit_char_value(1)[OF m])
  qed
qed

lemma uint_text_length: "padding \<noteq> 0 \<Longrightarrow> length (uint_text num digits padding base suppress) = digits"
  by (induction digits arbitrary: num suppress) auto

lemma uint_text_no_zeros:
  assumes b: "2 \<le> base" "base \<le> 16"
  shows "num \<noteq> 0 \<Longrightarrow> unat num < unat base ^ digits \<Longrightarrow>
     uint_text num digits 0 base suppress \<noteq> [] \<and> hd (uint_text num digits 0 base suppress) \<noteq> 48"
proof (induction digits arbitrary: num suppress)
  case (Suc digits)
  have b0: "0 < unat base" using b(1) by (simp add: unat_gt_0) (auto simp: word_le_nat_alt)
  have "num mod base < base" using b0 by (simp add: word_less_nat_alt unat_mod)
  then have m: "num mod base < 16" using b(2) by simp
  show ?case
  proof (cases "num div base = 0")
    case True
    have "uint_text 0 digits 0 base True = []" by (induction digits) auto
    moreover have "num mod base \<noteq> 0"
      using True Suc.prems(1) by (metis add_0 mult_zero_left word_mod_div_equality add.commute)
    ultimately show ?thesis using True Suc.prems(1) by (simp add: digit_char_value(3)[OF m])
  next
    case False
    have "unat (num div base) < unat base ^ digits"
      using Suc.prems(2) by (simp add: unat_div less_mult_imp_div_less mult.commute)
    with Suc.IH[OF False, of True] show ?thesis by simp
  qed
qed (simp add: unat_eq_zero)



section \<open>The text of a format\<close>

definition integer_text :: "byte \<Rightarrow> int \<Rightarrow> byte \<Rightarrow> u32 \<Rightarrow> byte list" where
  "integer_text c width padding value =
     (if c = 100 \<and> sint value < 0
      then 45 # uint_text (- value) (nat (width - 1)) padding (format_base c) False
      else uint_text value (nat width) padding (format_base c) False)"

fun string_text :: "cstring \<Rightarrow> byte list option" where
  "string_text [] = None"
| "string_text (c # str) = (if c = 0 then Some [] else map_option ((#) c) (string_text str))"

fun format_text :: "(int \<times> byte) option \<Rightarrow> cstring \<Rightarrow> format_arg list \<Rightarrow> byte list option" where
  "format_text st [] args = None"
| "format_text None (c # fmt) args =
     (if c = 0 then Some []
      else if c \<noteq> 37 then map_option ((#) c) (format_text None fmt args)
      else format_text (Some (0, 0)) fmt args)"
| "format_text (Some (width, padding)) (c # fmt) args =
     (if c = 0 then format_text None fmt args
      else if c = 48 \<and> width = 0 then format_text (Some (width, 48)) fmt args
      else if c \<ge> 48 \<and> c \<le> 57 then
        (if int32_ok (width * 10) \<and> int32_ok (width * 10 + (uint c - 48))
         then format_text (Some (width * 10 + (uint c - 48), if padding = 0 then 32 else padding)) fmt args
         else None)
      else let width = (if width = 0 then 32 else width) in
        if c = 115 then
          (case args of Ptr p # args \<Rightarrow>
             (case (string_text p, format_text None fmt args) of
                (Some t, Some u) \<Rightarrow> Some (t @ u) | _ \<Rightarrow> None)
           | _ \<Rightarrow> None)
        else if c = 99 then
          (case args of Word v # args \<Rightarrow> map_option ((#) (ucast v)) (format_text None fmt args)
           | _ \<Rightarrow> None)
        else if format_base c \<noteq> 0 then
          (case args of Word v # args \<Rightarrow>
             map_option ((@) (integer_text c width padding v)) (format_text None fmt args)
           | _ \<Rightarrow> None)
        else map_option ((#) c) (format_text None fmt args))"

lemma write_string_text:
  "Console_WriteString con str s = Option.bind (string_text str) (\<lambda>t. write_chars con t s)"
  by (induction con str s rule: Console_WriteString.induct)
     (auto simp: Option.bind_map_option split: Option.bind_split option.splits)

lemma write_uint_text_int:
  "base \<noteq> 0 \<Longrightarrow> 0 \<le> digits \<Longrightarrow> Console_WriteUInt32 con num digits padding base suppress s =
     write_chars con (uint_text num (nat digits) padding base suppress) s"
  using write_uint_text[of base con num "nat digits"] by simp

lemma write_integer_text:
  "0 < width \<Longrightarrow> format_base c \<noteq> 0 \<Longrightarrow>
     write_integer con c width padding value s = write_chars con (integer_text c width padding value) s"
  by (auto simp: write_integer_def integer_text_def write_uint_text_int split: Option.bind_split)

lemma bind_None_right [simp]: "Option.bind x (\<lambda>_. None) = None"
  by (cases x) auto

lemma format_loop_text:
  "(case st of None \<Rightarrow> True | Some (width, _) \<Rightarrow> 0 \<le> width) \<Longrightarrow>
     format_loop con st fmt args s = Option.bind (format_text st fmt args) (\<lambda>t. write_chars con t s)"
proof (induction fmt arbitrary: st args s)
  case Nil
  then show ?case by (cases st) auto
next
  case (Cons c fmt)
  have IH: "format_loop con None fmt args s =
      Option.bind (format_text None fmt args) (\<lambda>t. write_chars con t s)" for args s
    using Cons.IH[of None] by simp
  have IHf: "format_loop con None fmt args =
      (\<lambda>s. Option.bind (format_text None fmt args) (\<lambda>t. write_chars con t s))" for args
    by (rule ext) (rule IH)
  have IH2: "0 \<le> w \<Longrightarrow> format_loop con (Some (w, p)) fmt args s =
      Option.bind (format_text (Some (w, p)) fmt args) (\<lambda>t. write_chars con t s)" for w p
    using Cons.IH[of "Some (w, p)"] by simp
  show ?case
  proof (cases st)
    case None
    then show ?thesis 
      by (cases "format_text None fmt args") (simp_all add: IHf IH2)
  next
    case (Some wp)
    then obtain width padding where st: "st = Some (width, padding)" by (cases wp) auto
    with Cons.prems have width: "0 \<le> width" by simp
    define w where "w = (if width = 0 then 32 else width)"
    have w: "0 < w" using width by (auto simp: w_def)
    consider "c = 0 \<or> c = 48 \<and> width = 0" | "\<not> (c = 0 \<or> c = 48 \<and> width = 0)" "c \<ge> 48 \<and> c \<le> 57"
      | "\<not> (c = 0 \<or> c = 48 \<and> width = 0)" "\<not> (c \<ge> 48 \<and> c \<le> 57)" by blast
    then show ?thesis
    proof cases
      case 1
      then show ?thesis by (auto simp: st IH IH2)
    next
      case 2
      then have "0 \<le> uint c - 48" by (simp add: word_le_def)
      with width have "0 \<le> width * 10 + (uint c - 48)" by simp
      with 2 IH2 show ?thesis by (auto simp: st c_mul_def c_add_def chk32_def)
    next
      case 3
      then have loop: "format_loop con st (c # fmt) args s =
         (if c = 115 then
            (case args of Ptr p # args \<Rightarrow> do { s \<leftarrow> Console_WriteString con p s; format_loop con None fmt args s }
             | _ \<Rightarrow> None)
          else if c = 99 then
            (case args of Word v # args \<Rightarrow> do { s \<leftarrow> c_writeChar con (ucast v) s; format_loop con None fmt args s }
             | _ \<Rightarrow> None)
          else if format_base c \<noteq> 0 then
            (case args of
               Word v # args \<Rightarrow>
                 do { s \<leftarrow> write_integer con c w padding v s; format_loop con None fmt args s }
             | _ \<Rightarrow> None)
          else do { s \<leftarrow> c_writeChar con c s; format_loop con None fmt args s })"
        and ft: "format_text st (c # fmt) args =
         (if c = 115 then
            (case args of Ptr p # args \<Rightarrow>
               (case (string_text p, format_text None fmt args) of
                  (Some t, Some u) \<Rightarrow> Some (t @ u) | _ \<Rightarrow> None)
             | _ \<Rightarrow> None)
          else if c = 99 then
            (case args of Word v # args \<Rightarrow> map_option ((#) (ucast v)) (format_text None fmt args)
             | _ \<Rightarrow> None)
          else if format_base c \<noteq> 0 then
            (case args of Word v # args \<Rightarrow>
               map_option ((@) (integer_text c w padding v)) (format_text None fmt args)
             | _ \<Rightarrow> None)
          else map_option ((#) c) (format_text None fmt args))"
        unfolding st w_def by (simp_all only: format_loop.simps format_text.simps Let_def if_False simp_thms
              de_Morgan_disj)
      show ?thesis
      proof (cases args)
        case Nil
        show ?thesis unfolding loop ft
          by (cases "format_text None fmt args") (simp_all add: Nil IHf)
      next
        case (Cons a rest)
        show ?thesis unfolding loop ft
          by (cases a; cases "format_text None fmt rest"; cases "format_text None fmt args")
             (auto simp: Cons IHf write_string_text write_integer_text[OF w] write_chars_append
               split: option.splits)
      qed
    qed
  qed
qed

lemma Console_FormatV_text:
  "Console_FormatV con fmt args s = Option.bind (format_text None fmt args) (\<lambda>t. write_chars con t s)"
  by (simp add: Console_FormatV_def format_loop_text)

text \<open>A negative number in a width of one is printed as its sign; a format that ends inside a specifier
  is read behind its end.\<close>

lemma format_narrow: "format_text None (cstr ''%1d'') [Word (-5)] = Some [45]"
  by (simp add: cstr_def format_base_def integer_text_def int32_ok_def)

lemma format_reads_on: "format_text None (cstr ''100%'') args = None"
  by (simp add: cstr_def)

section \<open>Hex dumps\<close>

definition hex8 :: "u32 \<Rightarrow> byte list" where
  "hex8 w = uint_text w 8 48 16 False"

text \<open>A reference for the dump: lines of up to four words, each with its address.\<close>

function dump_text :: "u32 \<Rightarrow> u32 list \<Rightarrow> byte list" where
  "dump_text addr ws =
     (if ws = [] then []
      else hex8 addr @ [58] @ concat (map (\<lambda>w. 32 # hex8 w) (take 4 ws)) @ [10] @
        dump_text (addr + 16) (drop 4 ws))"
  by pat_completeness auto
termination
  by (relation "measure (\<lambda>(addr, ws). length ws)") auto

declare dump_text.simps [simp del]

definition words_at :: "(u32 \<Rightarrow> u32) \<Rightarrow> u32 \<Rightarrow> nat \<Rightarrow> u32 list" where
  "words_at mem data n = map (\<lambda>i. mem (data + 4 * of_nat i)) [0..<n]"

lemma words_at_0 [simp]: "words_at mem data 0 = []"
  by (simp add: words_at_def)

lemma words_at_Suc: "words_at mem data (Suc n) = mem data # words_at mem (data + 4) n"
proof -
  have "[0..<Suc n] = 0 # map Suc [0..<n]" by (simp add: map_Suc_upt upt_conv_Cons)
  then show ?thesis by (simp add: words_at_def o_def algebra_simps)
qed

lemma take_words_at: "take m (words_at mem data n) = words_at mem data (min m n)"
  by (simp add: words_at_def take_map min_def)

lemma drop_words_at: "drop m (words_at mem data n) = words_at mem (data + 4 * of_nat m) (n - m)"
proof (induction m arbitrary: data n)
  case (Suc m)
  then show ?case by (cases n) (simp_all add: words_at_Suc algebra_simps)
qed simp

lemma words_at_Nil: "words_at mem data n = [] \<longleftrightarrow> n = 0"
  by (simp add: words_at_def)

lemma format_hex_word: "format_text None (cstr '' %08x'') [Word w] = Some (32 # hex8 w)"
  by (simp add: cstr_def format_base_def integer_text_def hex8_def int32_ok_def)

lemma format_hex_address: "format_text None (cstr ''%08x:'') [Word w] = Some (hex8 w @ [58])"
  by (simp add: cstr_def format_base_def integer_text_def hex8_def int32_ok_def)

lemma write_chars_append_eq: "write_chars con (xs @ ys) = (\<lambda>s. do { s \<leftarrow> write_chars con xs s; write_chars con ys s })"
  by (rule ext) (rule write_chars_append)

lemma hexdump_words_text:
  "hexdump_words con mem numWords lineWords data =
     write_chars con (concat (map (\<lambda>w. 32 # hex8 w) (words_at mem data (min numWords lineWords))))"
proof (induction numWords arbitrary: lineWords data)
  case 0
  then show ?case by (cases lineWords) (auto simp: fun_eq_iff)
next
  case (Suc numWords)
  show ?case
  proof (cases lineWords)
    case (Suc l)
    have "hexdump_words con mem (Suc numWords) (Suc l) data s =
        do { s \<leftarrow> write_chars con (32 # hex8 (mem data)) s; hexdump_words con mem numWords l (data + 4) s }" for s
      by (simp add: Console_Format_def Console_FormatV_text format_hex_word del: write_chars.simps)
    with Suc Suc.IH show ?thesis
      by (simp add: fun_eq_iff words_at_Suc min_Suc_Suc write_chars_append_eq del: write_chars.simps
            flip: append_Cons)
  qed (auto simp: fun_eq_iff)
qed

lemma hexdump_text:
  "Console_HexDump con mem data addr n s = write_chars con (dump_text addr (words_at mem data n)) s"
proof (induction n arbitrary: data addr s rule: less_induct)
  case (less n)
  show ?case
  proof (cases "n = 0")
    case True
    then show ?thesis by (simp add: Console_HexDump.simps dump_text.simps)
  next
    case False
    have IH: "Console_HexDump con mem (data + 4 * of_nat (min n 4)) (addr + 4 * of_nat (min n 4)) (n - min n 4) =
        write_chars con (dump_text (addr + 16) (words_at mem (data + 16) (n - 4)))"
    proof (cases "n \<le> 4")
      case True
      then show ?thesis by (auto simp: fun_eq_iff Console_HexDump.simps dump_text.simps)
    next
      case False
      with less.IH[of "n - 4" "data + 16" "addr + 16"] show ?thesis by (simp add: fun_eq_iff min_def)
    qed
    have line: "Console_HexDump con mem data addr n s = do {
        s \<leftarrow> write_chars con (hex8 addr @ [58]) s;
        s \<leftarrow> write_chars con (concat (map (\<lambda>w. 32 # hex8 w) (words_at mem data (min n 4)))) s;
        s \<leftarrow> write_chars con [10] s;
        write_chars con (dump_text (addr + 16) (words_at mem (data + 16) (n - 4))) s }"
      using False
      by (subst Console_HexDump.simps)
         (simp add: Console_Format_def Console_FormatV_text format_hex_address hexdump_words_text Let_def IH)
    have "dump_text addr (words_at mem data n) = (hex8 addr @ [58]) @
        concat (map (\<lambda>w. 32 # hex8 w) (words_at mem data (min n 4))) @ [10] @
        dump_text (addr + 16) (words_at mem (data + 16) (n - 4))"
      using False
      by (subst dump_text.simps) (simp add: words_at_Nil take_words_at drop_words_at min.commute)
    then show ?thesis unfolding line by (simp only: write_chars_append_eq)
  qed
qed

lemma hex8_reads_back: "length (hex8 w) = 8" "read_number 16 (hex8 w) = unat w"
proof -
  show "length (hex8 w) = 8" by (simp add: hex8_def uint_text_length del: uint_text.simps)
  have "unat w < 2 ^ LENGTH(32)" by (rule unsigned_less)
  then have "unat w < 16 ^ 8" by simp
  then show "read_number 16 (hex8 w) = unat w"
    using uint_text_reads_back[of 16 48 w 8 False] by (simp add: hex8_def del: uint_text.simps)
qed

text \<open>The hex dump of \<open>n\<close> words writes, to any console, what a reference says that splits the list
  of the words into lines of four: each line has its own address, a colon and its words; addresses
  and words are eight digits in base 16 that denote them.\<close>

lemma hexdump_lines:
  "Console_HexDump con mem data addr n s = write_chars con (dump_text addr (words_at mem data n)) s \<and>
   length (hex8 w) = 8 \<and> read_number 16 (hex8 w) = unat w"
  by (simp add: hexdump_text hex8_reads_back)

section \<open>The interface of a console\<close>

text \<open>What a console promises: from a valid state writing and flushing succeed and leave a valid
  state. In a panic it can be brought into a valid state from any.\<close>

locale console =
  fixes con :: "'s console_interface" and ok :: "'s \<Rightarrow> bool"
  assumes write_ok: "ok s \<Longrightarrow> \<exists>s'. c_writeChar con c s = Some s' \<and> ok s'"
    and flush_ok: "ok s \<Longrightarrow> \<exists>s'. c_flush con s = Some s' \<and> ok s'"
begin

lemma write_chars_ok: "ok s \<Longrightarrow> \<exists>s'. write_chars con cs s = Some s' \<and> ok s'"
proof (induction cs arbitrary: s)
  case (Cons c cs)
  from write_ok[OF Cons.prems, of c] obtain s' where "c_writeChar con c s = Some s'" "ok s'" by blast
  with Cons.IH[of s'] show ?case by simp
qed simp

lemma format_ok:
  "ok s \<Longrightarrow> format_text None fmt args \<noteq> None \<Longrightarrow> \<exists>s'. Console_FormatV con fmt args s = Some s' \<and> ok s'"
  using write_chars_ok by (auto simp: Console_FormatV_text)

lemma hexdump_ok: "ok s \<Longrightarrow> \<exists>s'. Console_HexDump con mem data addr n s = Some s' \<and> ok s'"
  unfolding hexdump_text by (rule write_chars_ok)

lemma string_ok:
  "ok s \<Longrightarrow> string_text str \<noteq> None \<Longrightarrow> \<exists>s'. Console_WriteString con str s = Some s' \<and> ok s'"
  using write_chars_ok by (auto simp: write_string_text)

end

locale panic_console = console +
  assumes panic_ok: "\<exists>s'. c_beginPanic con s = Some s' \<and> ok s'"

section \<open>The report of a fault\<close>

lemma map_option_neq_None: "map_option f x \<noteq> None \<longleftrightarrow> x \<noteq> None"
  by (cases x) auto

lemma fault_format:
  "format_text None faultFmt [Word a, Word b, Word c, Word d, Word e, Word f, Word g, Word h, Word i,
     Word j, Word k, Word l] \<noteq> None"
  by (simp add: faultFmt_def cstr_def format_base_def int32_ok_def)

text \<open>The report is one text, between the start of the panic and the flush.\<close>

lemma fault_is_text:
  assumes "format_text None faultFmt
       [Word vector, Word (r_cs ctx), Word (r_eip ctx), Word (r_eax ctx), Word (r_ebx ctx),
        Word (r_ecx ctx), Word (r_edx ctx), Word (r_esi ctx), Word (r_edi ctx), Word (r_esp ctx + 12),
        Word (r_ebp ctx), Word (r_eflags ctx)] = Some t"
  shows "Console_UnhandledFault con mem vector ctx s = do {
     s \<leftarrow> c_beginPanic con s;
     s \<leftarrow> write_chars con (t @ dump_text (r_esp ctx + 12) (words_at mem (r_esp ctx + 12) 64)) s;
     c_flush con s }"
  by (simp add: Console_UnhandledFault_def Console_Format_def Console_FormatV_text assms hexdump_text
        write_chars_append_eq Let_def)

context panic_console
begin

lemma fault_completes: "\<exists>s'. Console_UnhandledFault con mem vector ctx s = Some s' \<and> ok s'"
proof -
  from panic_ok obtain s1 where 1: "c_beginPanic con s = Some s1" "ok s1" by blast
  obtain s2 where 2: "Console_Format con faultFmt
      [Word vector, Word (r_cs ctx), Word (r_eip ctx), Word (r_eax ctx), Word (r_ebx ctx),
       Word (r_ecx ctx), Word (r_edx ctx), Word (r_esi ctx), Word (r_edi ctx), Word (r_esp ctx + 12),
       Word (r_ebp ctx), Word (r_eflags ctx)] s1 = Some s2" "ok s2"
    using format_ok[OF 1(2) fault_format] unfolding Console_Format_def by blast
  obtain s3 where 3: "Console_HexDump con mem (r_esp ctx + 12) (r_esp ctx + 12) 64 s2 = Some s3" "ok s3"
    using hexdump_ok[OF 2(2)] by blast
  from flush_ok[OF 3(2)] 1 2 3 show ?thesis
    by (auto simp: Console_UnhandledFault_def Let_def)
qed

lemma panic_completes:
  assumes "format_text None fmt args \<noteq> None"
  shows "\<exists>s'. Console_Panic con fmt args s = Some s' \<and> ok s'"
proof -
  from panic_ok obtain s1 where 1: "c_beginPanic con s = Some s1" "ok s1" by blast
  have "string_text (cstr (''Panic:'' @ [CHR 0x0A])) \<noteq> None" by (simp add: cstr_def)
  from string_ok[OF 1(2) this] obtain s2 where
    2: "Console_WriteString con (cstr (''Panic:'' @ [CHR 0x0A])) s1 = Some s2" "ok s2" by blast
  from format_ok[OF 2(2) assms] obtain s3 where 3: "Console_FormatV con fmt args s2 = Some s3" "ok s3"
    by blast
  from flush_ok[OF 3(2)] 1 2 3 show ?thesis by (auto simp: Console_Panic_def)
qed

end

end
