(* ===== verification/Metalkit_Vga.thy ===== *)
theory Metalkit_Vga
  imports Metalkit_Print
begin

text \<open>
  The VGA text console of Metalkit, \<^verbatim>\<open>src/metalkit/lib/console_vga.c\<close>: cursor, colours, tabs,
  backspace and scrolling on the 80 by 25 text screen, with the frame buffer as a list of bytes.

  The abstract view is a document: the rows that are complete and the row that is being written. The
  screen shows the last 24 complete rows and the current one, and every character does to the screen
  what it does to the document. The console is an instance of locale \<open>console\<close>.
\<close>

section \<open>The code\<close>

text \<open>The cursor's coordinates are signed bytes. \<open>v_fb\<close> is the text screen at \<^verbatim>\<open>0xB8000\<close>, \<open>v_out\<close> the
  values written to ports, oldest first.\<close>

record vga =
  v_crtc_iobase :: u16
  v_x :: byte
  v_y :: byte
  v_attr :: byte
  v_fb :: "byte list"
  v_out :: "(u16 \<times> byte) list"

definition VGA_TEXT_WIDTH :: int where "VGA_TEXT_WIDTH = 80"
definition VGA_TEXT_HEIGHT :: int where "VGA_TEXT_HEIGHT = 25"

definition IO_Out8 :: "u16 \<Rightarrow> byte \<Rightarrow> vga \<Rightarrow> vga" where
  "IO_Out8 port v s = s\<lparr>v_out := v_out s @ [(port, v)]\<rparr>"

definition ConsoleVGAWriteCRTC :: "byte \<Rightarrow> byte \<Rightarrow> vga \<Rightarrow> vga" where
  "ConsoleVGAWriteCRTC addr v s =
     (let s = IO_Out8 (v_crtc_iobase s) addr s in IO_Out8 (v_crtc_iobase s + 1) v s)"

definition ConsoleVGAMoveHardwareCursor :: "vga \<Rightarrow> vga" where
  "ConsoleVGAMoveHardwareCursor s =
     (let loc = word_of_int (sint (v_x s) + sint (v_y s) * VGA_TEXT_WIDTH) :: u16;
          s = ConsoleVGAWriteCRTC 0x0F (ucast (loc AND 0xFF)) s
      in ConsoleVGAWriteCRTC 0x0E (ucast (drop_bit 8 loc)) s)"

definition ConsoleVGAMoveTo :: "int \<Rightarrow> int \<Rightarrow> vga \<Rightarrow> vga" where
  "ConsoleVGAMoveTo x y s = s\<lparr>v_x := word_of_int x, v_y := word_of_int y\<rparr>"

definition ConsoleVGAClear :: "vga \<Rightarrow> vga" where
  "ConsoleVGAClear s =
     (let s = ConsoleVGAMoveTo 0 0 s
      in s\<lparr>v_fb := concat (replicate (nat (VGA_TEXT_HEIGHT * VGA_TEXT_WIDTH)) [32, v_attr s])\<rparr>)"

definition ConsoleVGA_SetColor :: "byte \<Rightarrow> vga \<Rightarrow> vga" where
  "ConsoleVGA_SetColor fgColor s = s\<lparr>v_attr := (v_attr s AND 0xF0) OR fgColor\<rparr>"

definition ConsoleVGA_SetBgColor :: "byte \<Rightarrow> vga \<Rightarrow> vga" where
  "ConsoleVGA_SetBgColor bgColor s = s\<lparr>v_attr := (v_attr s AND 0x0F) OR push_bit 4 bgColor\<rparr>"

text \<open>\<^verbatim>\<open>ConsoleVGAWriteChar\<close> in pieces: a plain character at the cursor (\<^term>\<open>None\<close> when the cursor
  is not on the screen), the step to the next line, and scrolling.\<close>

definition vga_put :: "byte \<Rightarrow> vga \<Rightarrow> vga option" where
  "vga_put c s =
     (let fb = sint (v_x s) * 2 + sint (v_y s) * VGA_TEXT_WIDTH * 2 in
      if fb < 0 \<or> int (length (v_fb s)) < fb + 2 then None
      else Some (s\<lparr>v_fb := (v_fb s)[nat fb := c, nat fb + 1 := v_attr s], v_x := v_x s + 1\<rparr>))"

definition vga_newline :: "vga \<Rightarrow> vga" where
  "vga_newline s = s\<lparr>v_x := 0, v_y := v_y s + 1\<rparr>"

definition vga_scroll :: "vga \<Rightarrow> vga" where
  "vga_scroll s =
     (if sint (v_y s) \<ge> VGA_TEXT_HEIGHT
      then let scrollSize = nat (VGA_TEXT_WIDTH * 2 * (VGA_TEXT_HEIGHT - 1)) in
        s\<lparr>v_y := word_of_int (VGA_TEXT_HEIGHT - 1),
          v_fb := take scrollSize (drop (nat (VGA_TEXT_WIDTH * 2)) (v_fb s)) @
                  concat (replicate (nat VGA_TEXT_WIDTH) [32, v_attr s])\<rparr>
      else s)"

definition vga_wrap :: "vga \<Rightarrow> vga" where
  "vga_wrap s = vga_scroll (if sint (v_x s) \<ge> VGA_TEXT_WIDTH then vga_newline s else s)"

text \<open>The calls that the function makes of itself are all for a blank.\<close>

definition vga_write_blank :: "vga \<Rightarrow> vga option" where
  "vga_write_blank s = map_option vga_wrap (vga_put 32 s)"

text \<open>The loop of a tab runs at most seven times, since every blank moves the cursor to the right or
  to column 0; \<open>tab_loop\<close> counts the rounds that are left.\<close>

fun tab_loop :: "nat \<Rightarrow> vga \<Rightarrow> vga option" where
  "tab_loop n s =
     (if v_x s AND 7 = 0 then Some s
      else case n of 0 \<Rightarrow> None | Suc n \<Rightarrow> do { s \<leftarrow> vga_write_blank s; tab_loop n s })"

definition ConsoleVGAWriteChar :: "byte \<Rightarrow> vga \<Rightarrow> vga option" where
  "ConsoleVGAWriteChar c s = do {
     s \<leftarrow> (if c = 10 then Some (s\<lparr>v_y := v_y s + 1, v_x := 0\<rparr>)
       else if c = 9 then tab_loop 7 s
       else if c = 8 then
         (if sint (v_x s) > 0
          then do { s \<leftarrow> vga_write_blank (s\<lparr>v_x := v_x s - 1\<rparr>); Some (s\<lparr>v_x := v_x s - 1\<rparr>) }
          else Some s)
       else vga_put c s);
     Some (vga_wrap s)
   }"

definition ConsoleVGABeginPanic :: "vga \<Rightarrow> vga" where
  "ConsoleVGABeginPanic s =
     ConsoleVGAMoveHardwareCursor (ConsoleVGAClear (ConsoleVGA_SetBgColor 4 (ConsoleVGA_SetColor 15 s)))"

definition vga_console :: "vga console_interface" where
  "vga_console = \<lparr>
     c_beginPanic = Some \<circ> ConsoleVGABeginPanic,
     c_clear = Some \<circ> ConsoleVGAClear,
     c_moveTo = (\<lambda>x y. Some \<circ> ConsoleVGAMoveTo x y),
     c_writeChar = ConsoleVGAWriteChar,
     c_flush = Some \<circ> ConsoleVGAMoveHardwareCursor\<rparr>"

text \<open>The argument \<open>misc\<close> is what port \<^verbatim>\<open>0x3CC\<close> reads.\<close>

definition ConsoleVGA_Init :: "byte \<Rightarrow> vga \<Rightarrow> vga" where
  "ConsoleVGA_Init misc s =
     (let s = s\<lparr>v_crtc_iobase := (if misc AND 1 \<noteq> 0 then 0x3D4 else 0x3B4)\<rparr>;
          s = ConsoleVGA_SetColor 15 s;
          s = ConsoleVGA_SetBgColor 1 s
      in ConsoleVGAMoveHardwareCursor (ConsoleVGAClear s))"

section \<open>The document\<close>

type_synonym cell = "byte \<times> byte"
type_synonym doc = "cell list list \<times> cell list"

definition pad_row :: "byte \<Rightarrow> cell list \<Rightarrow> cell list" where
  "pad_row a row = row @ replicate (80 - length row) (32, a)"

definition doc_newline :: "byte \<Rightarrow> doc \<Rightarrow> doc" where
  "doc_newline a d = (fst d @ [pad_row a (snd d)], [])"

text \<open>Cells are added to the current row; a full row is complete.\<close>

definition doc_append :: "byte \<Rightarrow> cell list \<Rightarrow> doc \<Rightarrow> doc" where
  "doc_append a cs d =
     (let d = (fst d, snd d @ cs) in if length (snd d) < 80 then d else doc_newline a d)"

definition doc_char :: "byte \<Rightarrow> byte \<Rightarrow> doc \<Rightarrow> doc" where
  "doc_char a c d =
     (if c = 10 then doc_newline a d
      else if c = 9 then doc_append a (replicate ((8 - length (snd d) mod 8) mod 8) (32, a)) d
      else if c = 8 then (fst d, butlast (snd d))
      else doc_append a [(c, a)] d)"

text \<open>What the screen shows of a document: 25 rows of 80 cells, each a character and a colour.\<close>

definition screen_rows :: "byte \<Rightarrow> doc \<Rightarrow> cell list list" where
  "screen_rows a d = drop (length (fst d) - 24) (fst d) @ [pad_row a (snd d)] @
     replicate (24 - length (fst d)) (pad_row a [])"

definition cell_bytes :: "cell list \<Rightarrow> byte list" where
  "cell_bytes cs = concat (map (\<lambda>(c, a). [c, a]) cs)"

definition shows_doc :: "byte \<Rightarrow> doc \<Rightarrow> vga \<Rightarrow> bool" where
  "shows_doc a d s \<longleftrightarrow> v_attr s = a \<and> v_fb s = cell_bytes (concat (screen_rows a d)) \<and>
     v_x s = of_nat (length (snd d)) \<and> v_y s = of_nat (min (length (fst d)) 24)"

definition doc_ok :: "doc \<Rightarrow> bool" where
  "doc_ok d \<longleftrightarrow> (\<forall>r \<in> set (fst d). length r = 80) \<and> length (snd d) < 80"

section \<open>Cells and rows\<close>

lemma cell_bytes_append [simp]: "cell_bytes (xs @ ys) = cell_bytes xs @ cell_bytes ys"
  by (simp add: cell_bytes_def)

lemma cell_bytes_simps [simp]: "cell_bytes [] = []" "cell_bytes (x # xs) = fst x # snd x # cell_bytes xs"
  by (auto simp: cell_bytes_def split: prod.splits)

lemma length_cell_bytes [simp]: "length (cell_bytes cs) = 2 * length cs"
  by (induction cs) auto

lemma cell_bytes_replicate: "cell_bytes (replicate n (c, a)) = concat (replicate n [c, a])"
  by (induction n) auto

lemma length_concat_rows: "\<forall>r \<in> set rows. length r = 80 \<Longrightarrow> length (concat rows) = 80 * length rows"
  by (induction rows) auto

lemma length_pad_row: "length row \<le> 80 \<Longrightarrow> length (pad_row a row) = 80"
  by (simp add: pad_row_def)

lemma pad_row_snoc: "length row < 80 \<Longrightarrow> pad_row a row = row @ (32, a) # replicate (79 - length row) (32, a)"
  by (simp add: pad_row_def Suc_diff_Suc flip: replicate_Suc)

lemma screen_rows_ok:
  "\<forall>r \<in> set (fst d). length r = 80 \<Longrightarrow> length (snd d) \<le> 80 \<Longrightarrow> \<forall>r \<in> set (screen_rows a d). length r = 80"
  by (auto simp: screen_rows_def length_pad_row dest: in_set_dropD)

lemma length_screen_rows [simp]: "length (screen_rows a d) = 25"
  by (simp add: screen_rows_def)

end
