(* ===== verification/Metalkit_Terminal.thy ===== *)
theory Metalkit_Terminal
  imports Metalkit_Vga
begin

text \<open>
  The VGA console shows the document that is written to it: the simulation of \<^const>\<open>doc_char\<close> by
  \<^const>\<open>ConsoleVGAWriteChar\<close>, and the interpretation of locale \<open>console\<close>.
\<close>

section \<open>Characters\<close>

lemma sint_small: "n < 128 \<Longrightarrow> sint (of_nat n :: byte) = int n"
  by (simp add: signed_of_nat signed_take_bit_int_eq_self)

lemma concat_screen_rows:
  assumes "length (snd d) < 80"
  shows "concat (screen_rows a d) =
    (concat (drop (length (fst d) - 24) (fst d)) @ snd d) @ (32, a) #
    (replicate (79 - length (snd d)) (32, a) @ concat (replicate (24 - length (fst d)) (pad_row a [])))"
  using assms by (simp add: screen_rows_def pad_row_snoc)

lemma put_cell:
  assumes "v_fb s = cell_bytes (cs @ x # post)" and "v_attr s = a"
    and "sint (v_x s) * 2 + sint (v_y s) * VGA_TEXT_WIDTH * 2 = int (2 * length cs)"
  shows "vga_put c s = Some (s\<lparr>v_fb := cell_bytes (cs @ (c, a) # post), v_x := v_x s + 1\<rparr>)"
proof -
  obtain pre where pre: "pre = cell_bytes cs" "length pre = 2 * length cs" by simp
  have "v_fb s = pre @ fst x # snd x # cell_bytes post" using assms(1) pre by simp
  moreover have "cell_bytes (cs @ (c, a) # post) = pre @ c # a # cell_bytes post" using pre by simp
  moreover have "nat (int (2 * length cs)) = length pre" using pre(2) by simp
  ultimately show ?thesis
    unfolding vga_put_def assms(3) Let_def using assms(2) pre(2) by (simp add: list_update_append)
qed

text \<open>The byte offset of the cell behind the current row.\<close>

lemma cursor_offset:
  assumes "\<forall>r \<in> set (fst d). length r = 80" and "sint x = int (length cur)"
    and "sint y = int (min (length (fst d)) 24)"
  shows "sint x * 2 + sint y * VGA_TEXT_WIDTH * 2 =
    int (2 * length (concat (drop (length (fst d) - 24) (fst d)) @ cur))"
proof -
  have "\<forall>r \<in> set (drop (length (fst d) - 24) (fst d)). length r = 80"
    using assms(1) by (auto dest: in_set_dropD)
  then show ?thesis
    by (simp add: assms(2,3) length_concat_rows VGA_TEXT_WIDTH_def min_def)
qed

lemma put_shows:
  assumes s: "shows_doc a d s" and rows: "\<forall>r \<in> set (fst d). length r = 80" and len: "length (snd d) < 80"
  shows "\<exists>s'. vga_put c s = Some s' \<and> shows_doc a (fst d, snd d @ [(c, a)]) s'"
proof -
  have fb: "v_fb s = cell_bytes (concat (screen_rows a d))" and a: "v_attr s = a"
    and xy: "sint (v_x s) = int (length (snd d))" "sint (v_y s) = int (min (length (fst d)) 24)"
    using s len by (simp_all add: shows_doc_def sint_small del: of_nat_min)
  note put = put_cell[OF fb[unfolded concat_screen_rows[OF len]] a cursor_offset[OF rows xy], of c]
  have "concat (screen_rows a (fst d, snd d @ [(c, a)])) =
      (concat (drop (length (fst d) - 24) (fst d)) @ snd d) @ (c, a) #
      (replicate (79 - length (snd d)) (32, a) @ concat (replicate (24 - length (fst d)) (pad_row a [])))"
    using len by (simp add: screen_rows_def pad_row_def)
  with put s show ?thesis by (simp add: shows_doc_def)
qed

section \<open>Lines\<close>

lemma screen_rows_newline:
  "screen_rows a (doc_newline a d) =
     (if length (fst d) < 24 then screen_rows a d else tl (screen_rows a d) @ [pad_row a []])"
proof (cases "length (fst d) < 24")
  case True
  then have "length (fst d) - 23 = 0" "length (fst d) - 24 = 0"
    and "24 - length (fst d) = Suc (23 - length (fst d))" by simp_all
  with True show ?thesis by (simp add: screen_rows_def doc_newline_def)
next
  case False
  then have "24 - length (fst d) = 0" "Suc (length (fst d)) - 24 = Suc (length (fst d) - 24)"
    "Suc (length (fst d) - 24) \<le> length (fst d) \<or> length (fst d) = 23" by auto
  with False show ?thesis
    by (simp add: screen_rows_def doc_newline_def drop_Suc tl_drop tl_append2 flip: drop_Suc)
qed

lemma newline_shows:
  assumes s: "shows_doc a d s" and rows: "\<forall>r \<in> set (fst d). length r = 80" and len: "length (snd d) \<le> 80"
  shows "shows_doc a (doc_newline a d) (vga_scroll (vga_newline s))"
proof (cases "length (fst d) < 24")
  case True
  then have "v_y (vga_newline s) = of_nat (Suc (length (fst d)))"
    using s by (simp add: shows_doc_def vga_newline_def add.commute)
  then have "\<not> sint (v_y (vga_newline s)) \<ge> VGA_TEXT_HEIGHT"
    using True by (simp add: sint_small VGA_TEXT_HEIGHT_def del: of_nat_Suc)
  with True s show ?thesis
    by (simp add: shows_doc_def vga_scroll_def screen_rows_newline)
       (simp add: vga_newline_def doc_newline_def add.commute)
next
  case False
  obtain r rest where r: "screen_rows a d = r # rest" by (cases "screen_rows a d") (auto simp: screen_rows_def)
  have ok: "length r = 80" "\<forall>r \<in> set rest. length r = 80" "length rest = 24"
    using screen_rows_ok[OF rows len, of a] length_screen_rows[of a d] r by auto
  then have lens: "length (cell_bytes r) = 160" "length (cell_bytes (concat rest)) = 3840"
    by (simp_all add: length_concat_rows)
  have fb: "v_fb s = cell_bytes r @ cell_bytes (concat rest)" and a: "v_attr s = a"
    using s r by (simp_all add: shows_doc_def)
  have "v_y (vga_newline s) = 25" using s False by (simp add: shows_doc_def vga_newline_def)
  then have "vga_scroll (vga_newline s) = (vga_newline s)\<lparr>v_y := 24,
      v_fb := cell_bytes (concat rest) @ concat (replicate 80 [32, a])\<rparr>"
    using lens by (simp add: vga_scroll_def VGA_TEXT_HEIGHT_def VGA_TEXT_WIDTH_def Let_def fb a vga_newline_def)
  moreover have "cell_bytes (concat (screen_rows a (doc_newline a d))) =
      cell_bytes (concat rest) @ concat (replicate 80 [32, a])"
    using False r by (simp add: screen_rows_newline pad_row_def cell_bytes_replicate)
  ultimately show ?thesis
    using a False by (simp add: shows_doc_def vga_newline_def doc_newline_def)
qed

lemma scroll_shows: "shows_doc a d s \<Longrightarrow> vga_scroll s = s"
  by (simp add: vga_scroll_def shows_doc_def VGA_TEXT_HEIGHT_def sint_small del: of_nat_min)

text \<open>A full row is followed by the step to the next line.\<close>

lemma wrap_shows:
  assumes "shows_doc a d s" and "\<forall>r \<in> set (fst d). length r = 80" and "length (snd d) \<le> 80"
  shows "shows_doc a (if length (snd d) < 80 then d else doc_newline a d) (vga_wrap s)"
proof -
  have "sint (v_x s) = int (length (snd d))" using assms by (simp add: shows_doc_def sint_small)
  then show ?thesis
    using newline_shows[OF assms] scroll_shows[OF assms(1)] assms(1)
    by (auto simp: vga_wrap_def VGA_TEXT_WIDTH_def)
qed

lemma doc_newline_ok: "doc_ok d \<Longrightarrow> doc_ok (doc_newline a d)"
  by (auto simp: doc_ok_def doc_newline_def length_pad_row)

lemma doc_append_one_ok: "doc_ok d \<Longrightarrow> doc_ok (doc_append a [x] d)"
  by (auto simp: doc_ok_def doc_append_def doc_newline_def pad_row_def Let_def)

lemma blank_shows:
  assumes "shows_doc a d s" and "doc_ok d"
  shows "\<exists>s'. vga_put c s = Some s' \<and> shows_doc a (doc_append a [(c, a)] d) (vga_wrap s')"
proof -
  have ok: "\<forall>r \<in> set (fst d). length r = 80" "length (snd d) < 80" using assms(2) by (auto simp: doc_ok_def)
  obtain s' where s': "vga_put c s = Some s'" "shows_doc a (fst d, snd d @ [(c, a)]) s'"
    using put_shows[OF assms(1) ok] by blast
  from wrap_shows[OF s'(2)] ok have "shows_doc a (doc_append a [(c, a)] d) (vga_wrap s')"
    by (simp add: doc_append_def Let_def)
  with s'(1) show ?thesis by blast
qed

section \<open>Tabs and backspace\<close>

lemma column_and_7: "(of_nat n :: byte) AND 7 = 0 \<longleftrightarrow> n mod 8 = 0"
proof -
  have m: "(7 :: byte) = mask 3" by (simp add: mask_eq_exp_minus_1)
  have "(of_nat n :: byte) AND 7 = take_bit 3 (of_nat n)"
    unfolding m by (rule take_bit_eq_mask[symmetric])
  also have "\<dots> = of_nat (take_bit 3 n)" by (rule take_bit_of_nat)
  also have "take_bit 3 n = n mod 8" by (simp add: take_bit_eq_mod)
  finally have e: "(of_nat n :: byte) AND 7 = of_nat (n mod 8)" .
  have "sint (of_nat (n mod 8) :: byte) = int (n mod 8)"
    by (rule sint_small) (rule less_trans[of _ 8], simp_all)
  then have "(of_nat (n mod 8) :: byte) = 0 \<Longrightarrow> n mod 8 = 0" by (simp only: signed_0)
  with e show ?thesis by auto
qed

text \<open>The number of blanks up to the next multiple of eight.\<close>

definition to_tab :: "nat \<Rightarrow> nat" where
  "to_tab l = (8 - l mod 8) mod 8"

lemma to_tab_0: "to_tab l = 0 \<longleftrightarrow> l mod 8 = 0"
proof (cases "l mod 8 = 0")
  case False
  then have "0 < 8 - l mod 8" "8 - l mod 8 < 8" by simp_all
  with False show ?thesis by (simp add: to_tab_def)
qed (simp add: to_tab_def)

lemma to_tab_pos: "l mod 8 \<noteq> 0 \<Longrightarrow> to_tab l = 8 - l mod 8"
  by (simp add: to_tab_def)

lemma to_tab_Suc: "l mod 8 \<noteq> 0 \<Longrightarrow> to_tab (Suc l) = to_tab l - 1"
  by (cases "l mod 8 = 7") (auto simp: to_tab_def mod_Suc)

lemma to_tab_le: "to_tab l \<le> 7"
  unfolding to_tab_def using mod_less_divisor[of 8 "8 - l mod 8"] by linarith

lemma to_tab_80:
  assumes "l < 80"
  shows "l + to_tab l \<le> 80"
proof (cases "l mod 8 = 0")
  case False
  have "l = 8 * (l div 8) + l mod 8" by simp
  moreover have "l div 8 \<le> 9" using assms by simp
  ultimately show ?thesis unfolding to_tab_pos[OF False] using mod_less_divisor[of 8 l] by linarith
qed (use assms in \<open>simp add: to_tab_def\<close>)

lemma doc_append_blanks:
  assumes d: "doc_ok d" and t: "length (snd d) mod 8 \<noteq> 0"
  shows "doc_append a (replicate (to_tab (length (snd d))) x) d =
      doc_append a (replicate (to_tab (length (snd d)) - 1) x) (doc_append a [x] d)" (is ?A)
    and "to_tab (length (snd (doc_append a [x] d))) = to_tab (length (snd d)) - 1" (is ?B)
proof -
  have len: "length (snd d) < 80" using d by (simp add: doc_ok_def)
  have k: "to_tab (length (snd d)) \<noteq> 0" using t by (simp add: to_tab_0)
  then have r: "replicate (to_tab (length (snd d))) x = x # replicate (to_tab (length (snd d)) - 1) x"
    by (metis Suc_pred' bot_nat_0.not_eq_extremum replicate_Suc)
  have "?A \<and> ?B"
  proof (cases "length (snd d) = 79")
    case True
    then show ?thesis by (simp add: to_tab_def doc_append_def doc_newline_def Let_def)
  next
    case False
    with len have l: "length (snd d) + 1 < 80" by simp
    then have "?A" unfolding r by (simp add: doc_append_def Let_def)
    moreover have "?B" using l to_tab_Suc[OF t] by (simp add: doc_append_def Let_def)
    ultimately show ?thesis by blast
  qed
  then show ?A ?B by blast+
qed

lemma tab_shows:
  "shows_doc a d s \<Longrightarrow> doc_ok d \<Longrightarrow> to_tab (length (snd d)) \<le> n \<Longrightarrow>
     \<exists>s'. tab_loop n s = Some s' \<and>
       shows_doc a (doc_append a (replicate (to_tab (length (snd d))) (32, a)) d) s'"
proof (induction n arbitrary: d s)
  case (0 d s)
  then have t: "to_tab (length (snd d)) = 0" by simp
  moreover have len: "length (snd d) < 80" using "0.prems"(2) by (simp add: doc_ok_def)
  moreover have "v_x s AND 7 = 0"
    using "0.prems"(1) t len column_and_7[of "length (snd d)"] by (simp add: shows_doc_def to_tab_0)
  ultimately show ?case using "0.prems"(1) by (simp add: doc_append_def)
next
  case (Suc n d s)
  have len: "length (snd d) < 80" using Suc.prems by (simp add: doc_ok_def)
  have x: "v_x s AND 7 = 0 \<longleftrightarrow> length (snd d) mod 8 = 0"
    using Suc.prems(1) column_and_7[of "length (snd d)"] len by (simp add: shows_doc_def)
  show ?case
  proof (cases "length (snd d) mod 8 = 0")
    case True
    with Suc.prems len x show ?thesis by (simp add: doc_append_def to_tab_0[THEN iffD2])
  next
    case False
    obtain s1 where s1: "vga_put 32 s = Some s1" "shows_doc a (doc_append a [(32, a)] d) (vga_wrap s1)"
      using blank_shows[OF Suc.prems(1,2)] by blast
    note dn = doc_append_blanks[OF Suc.prems(2) False, of a "(32, a)"]
    have "to_tab (length (snd (doc_append a [(32, a)] d))) \<le> n"
      unfolding dn(2) using Suc.prems(3) by linarith
    from Suc.IH[OF s1(2) doc_append_one_ok[OF Suc.prems(2)] this] obtain s' where
      s': "tab_loop n (vga_wrap s1) = Some s'"
      "shows_doc a (doc_append a (replicate (to_tab (length (snd d))) (32, a)) d) s'"
      unfolding dn by blast
    have "tab_loop (Suc n) s = Some s'"
      using False x s1(1) s'(1) by (subst tab_loop.simps) (simp add: vga_write_blank_def del: tab_loop.simps)
    with s'(2) show ?thesis by blast
  qed
qed

lemma backspace_shows:
  assumes s: "shows_doc a d s" and d: "doc_ok d" and n: "snd d \<noteq> []"
  shows "\<exists>s'. vga_write_blank (s\<lparr>v_x := v_x s - 1\<rparr>) = Some s' \<and>
    shows_doc a (fst d, butlast (snd d)) (s'\<lparr>v_x := v_x s' - 1\<rparr>)"
proof -
  obtain cur c where cur: "snd d = cur @ [c]" using n by (metis append_butlast_last_id)
  have rows: "\<forall>r \<in> set (fst d). length r = 80" and len: "length cur < 79"
    using d cur by (auto simp: doc_ok_def)
  let ?s = "s\<lparr>v_x := v_x s - 1\<rparr>"
  let ?pre = "concat (drop (length (fst d) - 24) (fst d)) @ cur"
  let ?post = "replicate (79 - length cur) (32, a) @ concat (replicate (24 - length (fst d)) (pad_row a []))"
  have fb: "v_fb ?s = cell_bytes (?pre @ c # ?post)" and a: "v_attr ?s = a"
    and x: "v_x ?s = of_nat (length cur)" and y: "v_y ?s = of_nat (min (length (fst d)) 24)"
    using s cur len by (simp_all add: shows_doc_def screen_rows_def pad_row_def)
  have sx: "sint (v_x ?s) = int (length cur)" and sy: "sint (v_y ?s) = int (min (length (fst d)) 24)"
    unfolding x y using len by (simp_all add: sint_small del: of_nat_min)
  note put = put_cell[OF fb a cursor_offset[OF rows sx sy], of 32]
  have new: "concat (screen_rows a (fst d, cur)) = ?pre @ (32, a) # ?post"
    using len by (simp add: screen_rows_def pad_row_snoc)
  let ?s' = "?s\<lparr>v_fb := cell_bytes (?pre @ (32, a) # ?post), v_x := v_x ?s + 1\<rparr>"
  have "sint (v_x s) = int (Suc (length cur))"
    using s cur len by (simp add: shows_doc_def sint_small del: of_nat_Suc)
  then have w: "vga_wrap ?s' = ?s'"
    using len sy by (simp add: vga_wrap_def vga_scroll_def VGA_TEXT_WIDTH_def VGA_TEXT_HEIGHT_def)
  have "shows_doc a (fst d, cur) (?s'\<lparr>v_x := v_x ?s' - 1\<rparr>)"
    unfolding shows_doc_def fst_conv snd_conv new using a x y by simp
  then show ?thesis using put w cur by (simp add: vga_write_blank_def)
qed

section \<open>Every character\<close>

lemma doc_char_ok: "doc_ok d \<Longrightarrow> doc_ok (doc_char a c d)"
proof -
  assume d: "doc_ok d"
  have "length (snd d) + to_tab (length (snd d)) \<le> 80" using d to_tab_80 by (simp add: doc_ok_def)
  then have "doc_ok (doc_append a (replicate (to_tab (length (snd d))) (32, a)) d)"
    using d by (auto simp: doc_ok_def doc_append_def doc_newline_def pad_row_def Let_def)
  with d show ?thesis
    using doc_newline_ok[OF d] doc_append_one_ok[OF d] by (auto simp: doc_char_def doc_ok_def simp flip: to_tab_def)
qed

lemma wrap_same: "shows_doc a d s \<Longrightarrow> doc_ok d \<Longrightarrow> vga_wrap s = s"
  by (simp add: vga_wrap_def scroll_shows shows_doc_def doc_ok_def sint_small VGA_TEXT_WIDTH_def)

lemma write_char_shows:
  assumes s: "shows_doc a d s" and d: "doc_ok d"
  shows "\<exists>s'. ConsoleVGAWriteChar c s = Some s' \<and> shows_doc a (doc_char a c d) s'"
proof -
  have rows: "\<forall>r \<in> set (fst d). length r = 80" and len: "length (snd d) < 80"
    using d by (auto simp: doc_ok_def)
  have x: "sint (v_x s) = int (length (snd d))" using s len by (simp add: shows_doc_def sint_small)
  consider "c = 10" | "c = 9" | "c = 8" | "c \<noteq> 10" "c \<noteq> 9" "c \<noteq> 8" by blast
  then show ?thesis
  proof cases
    case 1
    have "vga_wrap (vga_newline s) = vga_scroll (vga_newline s)"
      by (simp add: vga_wrap_def vga_newline_def VGA_TEXT_WIDTH_def)
    moreover have "s\<lparr>v_y := v_y s + 1, v_x := 0\<rparr> = vga_newline s" by (simp add: vga_newline_def)
    ultimately show ?thesis using newline_shows[OF s rows] len 1
      by (simp add: ConsoleVGAWriteChar_def doc_char_def)
  next
    case 2
    from tab_shows[OF s d to_tab_le] obtain s' where s': "tab_loop 7 s = Some s'"
      "shows_doc a (doc_char a c d) s'" using 2 by (auto simp: doc_char_def to_tab_def)
    then show ?thesis using 2 wrap_same[OF s'(2) doc_char_ok[OF d]]
      by (simp add: ConsoleVGAWriteChar_def del: tab_loop.simps)
  next
    case 3
    show ?thesis
    proof (cases "snd d = []")
      case True
      with 3 x s wrap_same[OF s d] show ?thesis
        by (cases d) (simp add: ConsoleVGAWriteChar_def doc_char_def)
    next
      case False
      from backspace_shows[OF s d False] obtain s' where
        s': "vga_write_blank (s\<lparr>v_x := v_x s - 1\<rparr>) = Some s'"
        "shows_doc a (doc_char a c d) (s'\<lparr>v_x := v_x s' - 1\<rparr>)" using 3 by (auto simp: doc_char_def)
      then show ?thesis using 3 x False wrap_same[OF s'(2) doc_char_ok[OF d]]
        by (simp add: ConsoleVGAWriteChar_def)
    qed
  next
    case 4
    from blank_shows[OF s d, of c] obtain s' where "vga_put c s = Some s'"
      "shows_doc a (doc_append a [(c, a)] d) (vga_wrap s')" by blast
    with 4 show ?thesis by (simp add: ConsoleVGAWriteChar_def doc_char_def)
  qed
qed

lemma write_chars_shows:
  "shows_doc a d s \<Longrightarrow> doc_ok d \<Longrightarrow>
     \<exists>s'. write_chars vga_console cs s = Some s' \<and> shows_doc a (fold (doc_char a) cs d) s' \<and>
       doc_ok (fold (doc_char a) cs d)"
proof (induction cs arbitrary: d s)
  case (Cons c cs)
  from write_char_shows[OF Cons.prems, of c] obtain s1 where
    s1: "ConsoleVGAWriteChar c s = Some s1" "shows_doc a (doc_char a c d) s1" by blast
  from Cons.IH[OF s1(2) doc_char_ok[OF Cons.prems(2)]] s1(1) show ?case by (simp add: vga_console_def)
qed simp

lemma concat_replicate: "concat (replicate m (replicate n x)) = replicate (m * n) x"
  by (induction m) (simp_all add: replicate_add)

lemma clear_shows: "shows_doc (v_attr s) ([], []) (ConsoleVGAClear s)"
proof -
  have rows: "screen_rows (v_attr s) ([], []) = replicate 25 (replicate 80 (32, v_attr s))"
    using replicate_Suc[of 24 "replicate 80 (32 :: byte, v_attr s)"]
    by (simp add: screen_rows_def pad_row_def)
  show ?thesis
    unfolding shows_doc_def rows concat_replicate
    by (simp add: ConsoleVGAClear_def Let_def ConsoleVGAMoveTo_def VGA_TEXT_WIDTH_def
          VGA_TEXT_HEIGHT_def cell_bytes_replicate)
qed

lemma hardware_cursor_shows: "shows_doc a d s \<Longrightarrow> shows_doc a d (ConsoleVGAMoveHardwareCursor s)"
  by (simp add: shows_doc_def ConsoleVGAMoveHardwareCursor_def ConsoleVGAWriteCRTC_def IO_Out8_def Let_def)

lemma panic_shows: "shows_doc 0x4F ([], []) (ConsoleVGABeginPanic s)"
proof -
  have "((v_attr s AND 0xF0) OR 15) AND 15 = 15" by (simp only: word_ao_absorbs)
  then have "((v_attr s AND 0xF0) OR 15) AND 15 OR push_bit 4 4 = 0x4F" by simp
  then have "v_attr (ConsoleVGA_SetBgColor 4 (ConsoleVGA_SetColor 15 s)) = 0x4F"
    by (simp add: ConsoleVGA_SetBgColor_def ConsoleVGA_SetColor_def)
  from clear_shows[of "ConsoleVGA_SetBgColor 4 (ConsoleVGA_SetColor 15 s)", unfolded this] show ?thesis
    by (simp add: ConsoleVGABeginPanic_def hardware_cursor_shows)
qed

text \<open>The hardware cursor gets the position of the insertion point.\<close>

lemma location_bytes:
  assumes "p < 65536"
  shows "(ucast ((of_nat p :: u16) AND 0xFF) :: byte) = of_nat (p mod 256)"
    "(ucast (drop_bit 8 (of_nat p :: u16)) :: byte) = of_nat (p div 256)"
proof -
  have u: "unat (of_nat p :: u16) = p" using assms by (simp add: unat_of_nat)
  have m: "(0xFF :: u16) = mask 8" by (simp add: mask_eq_exp_minus_1)
  have "unat ((of_nat p :: u16) AND 0xFF) = take_bit 8 (unat (of_nat p :: u16))"
    unfolding m take_bit_eq_mask[symmetric] by (rule unsigned_take_bit_eq)
  then have "unat ((of_nat p :: u16) AND 0xFF) = p mod 256" by (simp add: u take_bit_eq_mod)
  then show "(ucast ((of_nat p :: u16) AND 0xFF) :: byte) = of_nat (p mod 256)"
    by (metis of_nat_unat)
  have "unat (drop_bit 8 (of_nat p :: u16)) = drop_bit 8 (take_bit LENGTH(16) (unat (of_nat p :: u16)))"
    by (rule unsigned_drop_bit_eq)
  then have "unat (drop_bit 8 (of_nat p :: u16)) = p div 256"
    using assms by (simp add: u drop_bit_eq_div take_bit_nat_eq_self)
  then show "(ucast (drop_bit 8 (of_nat p :: u16)) :: byte) = of_nat (p div 256)"
    by (metis of_nat_unat)
qed

lemma hardware_cursor_position:
  assumes s: "shows_doc a d s" and d: "doc_ok d"
  shows "v_out (ConsoleVGAMoveHardwareCursor s) = v_out s @
       (let p = length (snd d) + 80 * min (length (fst d)) 24; io = v_crtc_iobase s in
        [(io, 0x0F), (io + 1, of_nat (p mod 256)), (io, 0x0E), (io + 1, of_nat (p div 256))])"
proof -
  let ?p = "length (snd d) + 80 * min (length (fst d)) 24"
  have len: "length (snd d) < 80" using d by (simp add: doc_ok_def)
  then have "sint (v_x s) + sint (v_y s) * VGA_TEXT_WIDTH = int ?p"
    using s by (simp add: shows_doc_def sint_small VGA_TEXT_WIDTH_def del: of_nat_min)
  moreover have "?p < 65536" using len by simp
  ultimately show ?thesis
    by (simp add: ConsoleVGAMoveHardwareCursor_def ConsoleVGAWriteCRTC_def IO_Out8_def Let_def
          location_bytes del: of_nat_add of_nat_mult of_nat_min)
qed

section \<open>The console that it is\<close>

interpretation vga: console vga_console "\<lambda>s. \<exists>d. shows_doc a d s \<and> doc_ok d" for a
proof
  fix s c
  assume "\<exists>d. shows_doc a d s \<and> doc_ok d"
  then obtain d where d: "shows_doc a d s" "doc_ok d" by blast
  from write_char_shows[OF d, of c] doc_char_ok[OF d(2), of a c]
  show "\<exists>s'. c_writeChar vga_console c s = Some s' \<and> (\<exists>d. shows_doc a d s' \<and> doc_ok d)"
    unfolding vga_console_def console_interface.simps by blast
  from hardware_cursor_shows[OF d(1)] d(2)
  show "\<exists>s'. c_flush vga_console s = Some s' \<and> (\<exists>d. shows_doc a d s' \<and> doc_ok d)"
    unfolding vga_console_def console_interface.simps o_apply by blast
qed

interpretation vga_panic: panic_console vga_console "\<lambda>s. \<exists>d. shows_doc 0x4F d s \<and> doc_ok d"
proof
  show "\<exists>s'. c_beginPanic vga_console s = Some s' \<and> (\<exists>d. shows_doc 0x4F d s' \<and> doc_ok d)" for s
  proof -
    have "doc_ok ([], [])" by (simp add: doc_ok_def)
    with panic_shows[of s] show ?thesis
      unfolding vga_console_def console_interface.simps o_apply by blast
  qed
qed

text \<open>C2: The screen shows what is written. Write any characters, from a cleared screen: no write
  misses the screen, and the frame buffer is the last 24 complete rows of the document and its
  current row, padded with blanks - where the document is what the same characters make of an
  unbounded list of rows, with line feeds, tabs, backspaces and wrapping at column 80. The insertion
  point is at the end of the current row, and the next flush sends the hardware cursor there.\<close>

theorem terminal_shows_document:
  "\<exists>s'. write_chars vga_console cs (ConsoleVGAClear s) = Some s' \<and>
     (let d = fold (doc_char (v_attr s)) cs ([], []);
          p = length (snd d) + 80 * min (length (fst d)) 24 in
      v_fb s' = cell_bytes (concat (screen_rows (v_attr s) d)) \<and> length (snd d) < 80 \<and>
      sint (v_x s') = int (length (snd d)) \<and> sint (v_y s') = int (min (length (fst d)) 24) \<and>
      v_out (ConsoleVGAMoveHardwareCursor s') = v_out s' @
        [(v_crtc_iobase s', 0x0F), (v_crtc_iobase s' + 1, of_nat (p mod 256)),
         (v_crtc_iobase s', 0x0E), (v_crtc_iobase s' + 1, of_nat (p div 256))])"
proof -
  let ?d = "fold (doc_char (v_attr s)) cs ([], [])"
  obtain s' where s': "write_chars vga_console cs (ConsoleVGAClear s) = Some s'"
    "shows_doc (v_attr s) ?d s'" "doc_ok ?d"
    using write_chars_shows[OF clear_shows[of s], of cs] by (auto simp: doc_ok_def)
  moreover have "length (snd ?d) < 80" using s'(3) by (simp add: doc_ok_def)
  moreover from this have "sint (v_x s') = int (length (snd ?d))" "sint (v_y s') = int (min (length (fst ?d)) 24)"
    using s'(2) by (simp_all add: shows_doc_def sint_small del: of_nat_min)
  ultimately show ?thesis
    using hardware_cursor_position[OF s'(2,3)] unfolding Let_def shows_doc_def by blast
qed

lemma vga_panic_flush:
  "c_beginPanic vga_console s = Some (ConsoleVGABeginPanic s)"
  "c_flush vga_console s = Some (ConsoleVGAMoveHardwareCursor s)"
  by (simp_all add: vga_console_def)

text \<open>C32: The report of an unhandled fault gets onto the screen, from any state of the console and for
  any registers and memory: the call returns, and the screen then shows, white on red and from its
  top left corner, the formatted registers followed by a dump of 64 words of the stack that starts
  above the three words which the interrupt pushed.\<close>

theorem fault_report_on_screen:
  "\<exists>t s'. Console_UnhandledFault vga_console mem vector ctx s = Some s' \<and>
     format_text None faultFmt
       [Word vector, Word (r_cs ctx), Word (r_eip ctx), Word (r_eax ctx), Word (r_ebx ctx),
        Word (r_ecx ctx), Word (r_edx ctx), Word (r_esi ctx), Word (r_edi ctx), Word (r_esp ctx + 12),
        Word (r_ebp ctx), Word (r_eflags ctx)] = Some t \<and>
     shows_doc 0x4F (fold (doc_char 0x4F)
       (t @ dump_text (r_esp ctx + 12) (words_at mem (r_esp ctx + 12) 64)) ([], [])) s'"
proof -
  obtain t where t: "format_text None faultFmt
       [Word vector, Word (r_cs ctx), Word (r_eip ctx), Word (r_eax ctx), Word (r_ebx ctx),
        Word (r_ecx ctx), Word (r_edx ctx), Word (r_esi ctx), Word (r_edi ctx), Word (r_esp ctx + 12),
        Word (r_ebp ctx), Word (r_eflags ctx)] = Some t"
    using fault_format by blast
  let ?u = "t @ dump_text (r_esp ctx + 12) (words_at mem (r_esp ctx + 12) 64)"
  have "doc_ok ([], [])" by (simp add: doc_ok_def)
  then obtain s' where s': "write_chars vga_console ?u (ConsoleVGABeginPanic s) = Some s'"
    "shows_doc 0x4F (fold (doc_char 0x4F) ?u ([], [])) s'"
    using write_chars_shows[OF panic_shows[of s], of ?u] by blast
  have "Console_UnhandledFault vga_console mem vector ctx s = Some (ConsoleVGAMoveHardwareCursor s')"
    by (simp add: fault_is_text[OF t] vga_panic_flush s'(1))
  with t hardware_cursor_shows[OF s'(2)] show ?thesis by blast
qed

text \<open>A cursor that is moved off the screen is not checked: the next character is written elsewhere.\<close>

lemma move_to_unchecked: "ConsoleVGAWriteChar 65 (ConsoleVGAMoveTo 0 (-1) (ConsoleVGAClear s)) = None"
  by (simp add: ConsoleVGAWriteChar_def vga_put_def ConsoleVGAMoveTo_def VGA_TEXT_WIDTH_def Let_def)

text \<open>A panic with a message that can be formatted, and a dump on a screen in use, complete as well.\<close>

lemma vga_panic_completes:
  "format_text None fmt args \<noteq> None \<Longrightarrow>
     \<exists>s'. Console_Panic vga_console fmt args s = Some s' \<and> (\<exists>d. shows_doc 0x4F d s' \<and> doc_ok d)"
  by (rule vga_panic.panic_completes)

lemma vga_dump_completes:
  "\<exists>d. shows_doc a d s \<and> doc_ok d \<Longrightarrow>
     \<exists>s'. Console_HexDump vga_console mem data addr n s = Some s' \<and> (\<exists>d. shows_doc a d s' \<and> doc_ok d)"
  by (rule vga.hexdump_ok)

end
