(* ===== verification/Metalkit_Pci.thy ===== *)
theory Metalkit_Pci
  imports Prelude
begin

text \<open>
  PCI configuration space in Metalkit, \<^verbatim>\<open>src/metalkit/lib/pci.c\<close>: the address word, access to
  registers, the scan of the busses and the search for a device.

  Configuration space is a map from the value in the address port to the 32-bit register that the
  data port then gives access to; 16-bit and 8-bit accesses are to the low part of it.
\<close>

section \<open>The code\<close>

record PCIAddress =
  a_bus :: byte
  a_device :: byte
  a_function :: byte

record PCIScanState =
  vendorId :: u16
  deviceId :: u16
  nextAddr :: PCIAddress
  addr :: PCIAddress

type_synonym config_space = "u32 \<Rightarrow> u32"

definition PCI_MAX_BUSSES :: byte where "PCI_MAX_BUSSES = 0x20"

definition PCIConfigPackAddress :: "PCIAddress \<Rightarrow> u16 \<Rightarrow> u32" where
  "PCIConfigPackAddress a off =
     push_bit 16 (ucast (a_bus a)) OR push_bit 11 (ucast (a_device a)) OR
     push_bit 8 (ucast (a_function a)) OR ucast off OR 0x80000000"

definition PCI_ConfigRead32 :: "config_space \<Rightarrow> PCIAddress \<Rightarrow> u16 \<Rightarrow> u32" where
  "PCI_ConfigRead32 conf a off = conf (PCIConfigPackAddress a off)"

definition PCI_ConfigRead16 :: "config_space \<Rightarrow> PCIAddress \<Rightarrow> u16 \<Rightarrow> u16" where
  "PCI_ConfigRead16 conf a off = ucast (conf (PCIConfigPackAddress a off))"

definition PCI_ConfigRead8 :: "config_space \<Rightarrow> PCIAddress \<Rightarrow> u16 \<Rightarrow> byte" where
  "PCI_ConfigRead8 conf a off = ucast (conf (PCIConfigPackAddress a off))"

definition PCI_ConfigWrite32 :: "PCIAddress \<Rightarrow> u16 \<Rightarrow> u32 \<Rightarrow> config_space \<Rightarrow> config_space" where
  "PCI_ConfigWrite32 a off data conf = conf(PCIConfigPackAddress a off := data)"

definition PCI_ConfigWrite16 :: "PCIAddress \<Rightarrow> u16 \<Rightarrow> u16 \<Rightarrow> config_space \<Rightarrow> config_space" where
  "PCI_ConfigWrite16 a off data conf =
     (let p = PCIConfigPackAddress a off in conf(p := (conf p AND 0xFFFF0000) OR ucast data))"

definition PCI_ConfigWrite8 :: "PCIAddress \<Rightarrow> u16 \<Rightarrow> byte \<Rightarrow> config_space \<Rightarrow> config_space" where
  "PCI_ConfigWrite8 a off data conf =
     (let p = PCIConfigPackAddress a off in conf(p := (conf p AND 0xFFFFFF00) OR ucast data))"

text \<open>The step to the next address, and whether it was past the last one. The endless loop of the
  scan is a recursion that may not end.\<close>

definition next_address :: "PCIAddress \<Rightarrow> PCIAddress \<times> bool" where
  "next_address a =
     (let a = a\<lparr>a_function := a_function a + 1\<rparr> in
      if a_function a \<noteq> 8 then (a, False)
      else let a = a\<lparr>a_function := 0, a_device := a_device a + 1\<rparr> in
        if a_device a \<noteq> 0x20 then (a, False)
        else let a = a\<lparr>a_device := 0, a_bus := a_bus a + 1\<rparr> in (a, a_bus a = PCI_MAX_BUSSES))"

partial_function (option) PCI_ScanBus ::
  "config_space \<Rightarrow> PCIScanState \<Rightarrow> (bool \<times> PCIScanState) option" where
  "PCI_ScanBus conf state =
     (let word0 = PCI_ConfigRead32 conf (nextAddr state) 0;
          state = state\<lparr>addr := nextAddr state\<rparr>;
          nx = next_address (nextAddr state);
          state = state\<lparr>nextAddr := fst nx\<rparr>
      in if snd nx then Some (False, state)
         else if word0 \<noteq> 0xFFFFFFFF
         then Some (True, state\<lparr>vendorId := ucast word0, deviceId := ucast (drop_bit 16 word0)\<rparr>)
         else PCI_ScanBus conf state)"

definition scan0 :: PCIScanState where
  "scan0 = \<lparr>vendorId = 0, deviceId = 0, nextAddr = \<lparr>a_bus = 0, a_device = 0, a_function = 0\<rparr>,
     addr = \<lparr>a_bus = 0, a_device = 0, a_function = 0\<rparr>\<rparr>"

partial_function (option) find_device_loop ::
  "config_space \<Rightarrow> u16 \<Rightarrow> u16 \<Rightarrow> PCIScanState \<Rightarrow> PCIAddress option option" where
  "find_device_loop conf vendor device busScan =
     Option.bind (PCI_ScanBus conf busScan) (\<lambda>(found, busScan).
       if \<not> found then Some None
       else if vendorId busScan = vendor \<and> deviceId busScan = device then Some (Some (addr busScan))
       else find_device_loop conf vendor device busScan)"

definition PCI_FindDevice :: "config_space \<Rightarrow> u16 \<Rightarrow> u16 \<Rightarrow> PCIAddress option option" where
  "PCI_FindDevice conf vendor device = find_device_loop conf vendor device scan0"

text \<open>The offset of a base address register; the command register is at offset 4.\<close>

definition bar_offset :: "int \<Rightarrow> u16" where
  "bar_offset index = word_of_int (16 + 4 * index)"

definition PCI_SetBAR :: "PCIAddress \<Rightarrow> int \<Rightarrow> u32 \<Rightarrow> config_space \<Rightarrow> config_space" where
  "PCI_SetBAR a index v conf = PCI_ConfigWrite32 a (bar_offset index) v conf"

definition PCI_GetBARAddr :: "config_space \<Rightarrow> PCIAddress \<Rightarrow> int \<Rightarrow> u32" where
  "PCI_GetBARAddr conf a index =
     (let bar = PCI_ConfigRead32 conf a (bar_offset index);
          mask = (if bar AND 1 \<noteq> 0 then 0x3 else 0xF)
      in bar AND NOT mask)"

definition PCI_SetMemEnable :: "PCIAddress \<Rightarrow> bool \<Rightarrow> config_space \<Rightarrow> config_space" where
  "PCI_SetMemEnable a enable conf =
     (let command = PCI_ConfigRead16 conf a 4;
          flags = 0x0007;
          command = (if enable then command OR flags else command AND NOT flags)
      in PCI_ConfigWrite16 a 4 command conf)"

section \<open>Addresses in the order of the scan\<close>

text \<open>The n-th function of the scan.\<close>

definition address_at :: "nat \<Rightarrow> PCIAddress" where
  "address_at n = \<lparr>a_bus = of_nat (n div 256), a_device = of_nat (n div 8 mod 32), a_function = of_nat (n mod 8)\<rparr>"

text \<open>Its first register: vendor in the low half, device in the high half; all ones when there is no
  such function.\<close>

definition config_word0 :: "config_space \<Rightarrow> nat \<Rightarrow> u32" where
  "config_word0 conf n = PCI_ConfigRead32 conf (address_at n) 0"

lemma byte_of_nat_eq: "m < 256 \<Longrightarrow> k < 256 \<Longrightarrow> (of_nat m :: byte) = of_nat k \<longleftrightarrow> m = k"
  by (simp add: word_of_nat_eq_iff take_bit_nat_eq_self)

lemma address_at_parts:
  assumes "f < 8" and "d < 32"
  shows "address_at (256 * b + 8 * d + f) = \<lparr>a_bus = of_nat b, a_device = of_nat d, a_function = of_nat f\<rparr>"
proof -
  have e: "256 * b + 8 * d + f = (32 * b + d) * 8 + f" by simp
  have "(256 * b + 8 * d + f) mod 8 = f" "(256 * b + 8 * d + f) div 8 = 32 * b + d"
    unfolding e using assms(1) by (simp_all only: mod_mult_self3 mod_less div_mult_self3 div_less)
  moreover have "(256 * b + (8 * d + f)) div 256 = b" using assms by (simp add: div_mult_self4)
  ultimately show ?thesis using assms(2) by (simp add: address_at_def add.assoc)
qed

lemma index_parts:
  obtains b d f where "n = 256 * b + 8 * d + f" "f < 8" "d < (32 :: nat)"
proof
  show "n = 256 * (n div 8 div 32) + 8 * (n div 8 mod 32) + n mod 8"
    using div_mult_mod_eq[of n 8] div_mult_mod_eq[of "n div 8" 32] by linarith
qed simp_all

lemma next_address_at:
  assumes "n < 8192"
  shows "next_address (address_at n) = (address_at (Suc n), n = 8191)"
proof -
  obtain b d f where n: "n = 256 * b + 8 * d + f" and fd: "f < 8" "d < 32" by (rule index_parts)
  have b: "b < 32" using assms n by simp
  have eq: "(of_nat f + 1 :: byte) = 8 \<longleftrightarrow> f = 7" "(of_nat d + 1 :: byte) = 0x20 \<longleftrightarrow> d = 31"
    "(of_nat b + 1 :: byte) = 0x20 \<longleftrightarrow> b = 31"
    using byte_of_nat_eq[of "Suc f" 8] byte_of_nat_eq[of "Suc d" 32] byte_of_nat_eq[of "Suc b" 32] fd b
    by (simp_all add: add.commute)
  have at: "address_at n = \<lparr>a_bus = of_nat b, a_device = of_nat d, a_function = of_nat f\<rparr>"
    unfolding n by (rule address_at_parts[OF fd])
  consider (f) "f \<noteq> 7" | (d) "f = 7" "d \<noteq> 31" | (b) "f = 7" "d = 31" by blast
  then show ?thesis
  proof cases
    case f
    then have "address_at (Suc n) = \<lparr>a_bus = of_nat b, a_device = of_nat d, a_function = of_nat (Suc f)\<rparr>"
      unfolding n using address_at_parts[of "Suc f" d b] fd by simp
    moreover have "n \<noteq> 8191" using f n fd b by simp
    ultimately show ?thesis using f eq by (simp add: at next_address_def Let_def add.commute)
  next
    case d
    then have "address_at (Suc n) = \<lparr>a_bus = of_nat b, a_device = of_nat (Suc d), a_function = 0\<rparr>"
      unfolding n using address_at_parts[of 0 "Suc d" b] fd by (simp add: algebra_simps)
    moreover have "n \<noteq> 8191" using d n fd b by simp
    ultimately show ?thesis using d eq by (simp add: at next_address_def Let_def add.commute)
  next
    case b
    then have "address_at (Suc n) = \<lparr>a_bus = of_nat (Suc b), a_device = 0, a_function = 0\<rparr>"
      unfolding n using address_at_parts[of 0 0 "Suc b"] by (simp add: algebra_simps)
    moreover have "n = 8191 \<longleftrightarrow> b = 31" using b n by simp
    ultimately show ?thesis
      using b eq by (simp add: at next_address_def Let_def PCI_MAX_BUSSES_def add.commute)
  qed
qed

section \<open>The scan\<close>

definition present :: "config_space \<Rightarrow> nat \<Rightarrow> bool" where
  "present conf n \<longleftrightarrow> config_word0 conf n \<noteq> 0xFFFFFFFF"

text \<open>A call that starts at the n-th function returns the next one that is present, but for the last of
  all, or else nothing.\<close>

lemma scan_step:
  assumes "nextAddr st = address_at n" and "n < 8192"
  shows "PCI_ScanBus conf st =
    (if n = 8191 then Some (False, st\<lparr>addr := address_at n, nextAddr := address_at 8192\<rparr>)
     else if present conf n
     then Some (True, st\<lparr>addr := address_at n, nextAddr := address_at (Suc n),
            vendorId := ucast (config_word0 conf n), deviceId := ucast (drop_bit 16 (config_word0 conf n))\<rparr>)
     else PCI_ScanBus conf (st\<lparr>addr := address_at n, nextAddr := address_at (Suc n)\<rparr>))"
  by (subst PCI_ScanBus.simps)
     (auto simp: assms(1) next_address_at[OF assms(2)] next_address_at[of 8191] present_def
        config_word0_def Let_def)

definition is_device :: "config_space \<Rightarrow> u16 \<Rightarrow> u16 \<Rightarrow> nat \<Rightarrow> bool" where
  "is_device conf vendor device n \<longleftrightarrow> present conf n \<and> ucast (config_word0 conf n) = vendor \<and>
     ucast (drop_bit 16 (config_word0 conf n)) = device"

lemma find_device_loop_from:
  assumes "nextAddr st = address_at n" and "n < 8192"
  shows "find_device_loop conf vendor device st =
    Some (map_option address_at (List.find (is_device conf vendor device) [n..<8191]))"
  using assms
proof (induction "8191 - n" arbitrary: n st)
  case 0
  then have "n = 8191" by simp
  with 0 show ?case by (subst find_device_loop.simps) (simp add: scan_step[of st n])
next
  case (Suc k)
  then have n: "n < 8191" "k = 8191 - Suc n" "Suc n < 8192" by simp_all
  then have range: "[n..<8191] = n # [Suc n..<8191]" by (simp add: upt_conv_Cons)
  show ?case
  proof (cases "present conf n")
    case True
    show ?thesis
      using True n Suc.hyps(1)[OF n(2) _ n(3)] Suc.prems
      by (subst find_device_loop.simps) (simp add: scan_step[OF Suc.prems] range is_device_def)
  next
    case False
    let ?st = "st\<lparr>addr := address_at n, nextAddr := address_at (Suc n)\<rparr>"
    have "find_device_loop conf vendor device st = find_device_loop conf vendor device ?st"
      using False n by (subst (1 2) find_device_loop.simps) (simp add: scan_step[OF Suc.prems])
    then show ?thesis
      using False Suc.hyps(1)[OF n(2) _ n(3), of ?st] by (simp add: range is_device_def)
  qed
qed

text \<open>C17: The search for a PCI device ends, for any content of configuration space, and finds the first
  function in the order of bus, device and function that is present and has the vendor and device
  that were asked for, among all but the very last of the 8192 addresses.\<close>

theorem find_device_first:
  "PCI_FindDevice conf vendor device =
     Some (map_option address_at (List.find (is_device conf vendor device) [0..<8191]))"
proof -
  have "nextAddr scan0 = address_at 0" by (simp add: scan0_def address_at_def)
  from find_device_loop_from[OF this] show ?thesis by (simp add: PCI_FindDevice_def del: upt_rec_numeral)
qed

text \<open>The last address is read, but what is there is never reported.\<close>

lemma last_address_unreported:
  assumes "\<forall>n < 8191. \<not> present conf n"
  shows "PCI_FindDevice conf vendor device = Some None"
proof -
  have "List.find (is_device conf vendor device) [0..<8191] = None"
    using assms by (auto simp: find_None_iff is_device_def simp del: upt_rec_numeral)
  moreover have "nextAddr scan0 = address_at 0" by (simp add: scan0_def address_at_def)
  ultimately show ?thesis
    by (simp add: PCI_FindDevice_def find_device_loop_from del: upt_rec_numeral)
qed

section \<open>Registers\<close>

text \<open>Enabling a device changes the three low bits of its command register, and nothing else: not the
  other bits, not the status in the same word, and no other register.\<close>

lemma mem_enable_bits:
  "bit (PCI_SetMemEnable a enable conf p) k =
     (if p = PCIConfigPackAddress a 4 \<and> k < 3 then enable else bit (conf p) k)"
proof (cases "p = PCIConfigPackAddress a 4")
  case True
  have "(7 :: u16) = mask 3" and hi: "(0xFFFF0000 :: u32) = push_bit 16 (mask 16)"
    by (simp_all add: mask_eq_exp_minus_1)
  then have low: "bit (7 :: u16) k \<longleftrightarrow> k < 3" by (simp only: bit_mask_iff) auto
  have high: "bit (0xFFFF0000 :: u32) k \<longleftrightarrow> 16 \<le> k \<and> k < 32"
    unfolding hi by (auto simp: bit_push_bit_iff bit_mask_iff)
  have range: "bit (conf p) k \<Longrightarrow> k < 32" using bit_imp_le_length[of "conf p" k] by simp
  show ?thesis
    unfolding True PCI_SetMemEnable_def PCI_ConfigWrite16_def PCI_ConfigRead16_def Let_def
    using range[unfolded True] low high
    by (simp only: fun_upd_same bit_or_iff bit_and_iff bit_not_iff bit_unsigned_iff possible_bit_word
          if_distrib[of "\<lambda>w. bit w k"] refl simp_thms split: if_splits) auto
qed (simp add: PCI_SetMemEnable_def PCI_ConfigWrite16_def Let_def)

end
