(* ===== verification/Metalkit_Keyboard.thy ===== *)
theory Metalkit_Keyboard
  imports Prelude
begin

text \<open>
  The keyboard driver of Metalkit, \<^verbatim>\<open>src/metalkit/lib/keyboard.c\<close> and \<^verbatim>\<open>keyboard.h\<close>: scancodes
  become key codes, with a table of the keys that are down and the state of escape sequences; and the
  handshake with the keyboard controller.
\<close>

section \<open>The code\<close>

definition KEY_MAX :: nat where "KEY_MAX = 0xA1"
definition KEY_LSHIFT :: byte where "KEY_LSHIFT = 0x81"
definition KEY_RSHIFT :: byte where "KEY_RSHIFT = 0x83"

record keyboard =
  escape :: bool
  keyDown :: "bool list"

record KeyEvent =
  scancode :: byte
  rawKey :: byte
  key :: byte
  pressed :: bool

text \<open>The layout: for every scancode the key code without shift, with shift, and after an escape.\<close>

definition kbmap :: "(byte \<times> byte \<times> byte) list" where
  "kbmap = [
     (0x00, 0x00, 0x00), (0x1B, 0x1B, 0x00), (0x31, 0x21, 0x00), (0x32, 0x40, 0x00),
     (0x33, 0x23, 0x00), (0x34, 0x24, 0x00), (0x35, 0x25, 0x00), (0x36, 0x5E, 0x00),
     (0x37, 0x26, 0x00), (0x38, 0x2A, 0x00), (0x39, 0x28, 0x00), (0x30, 0x29, 0x00),
     (0x2D, 0x5F, 0x00), (0x3D, 0x2B, 0x00), (0x08, 0x08, 0x00), (0x09, 0x09, 0x00),
     (0x71, 0x51, 0x00), (0x77, 0x57, 0x00), (0x65, 0x45, 0x00), (0x72, 0x52, 0x00),
     (0x74, 0x54, 0x00), (0x79, 0x59, 0x00), (0x75, 0x55, 0x00), (0x69, 0x49, 0x00),
     (0x6F, 0x4F, 0x00), (0x70, 0x50, 0x00), (0x5B, 0x7B, 0x00), (0x5D, 0x7D, 0x00),
     (0x0A, 0x0A, 0x0A), (0x80, 0x80, 0x82), (0x61, 0x41, 0x00), (0x73, 0x53, 0x00),
     (0x64, 0x44, 0x00), (0x66, 0x46, 0x00), (0x67, 0x47, 0x00), (0x68, 0x48, 0x00),
     (0x6A, 0x4A, 0x00), (0x6B, 0x4B, 0x00), (0x6C, 0x4C, 0x00), (0x3B, 0x3A, 0x00),
     (0x27, 0x22, 0x00), (0x60, 0x7E, 0x00), (0x81, 0x81, 0x00), (0x5C, 0x7C, 0x00),
     (0x7A, 0x5A, 0x00), (0x78, 0x58, 0x00), (0x63, 0x43, 0x00), (0x76, 0x56, 0x00),
     (0x62, 0x42, 0x00), (0x6E, 0x4E, 0x00), (0x6D, 0x4D, 0x00), (0x2C, 0x3C, 0x00),
     (0x2E, 0x3E, 0x00), (0x2F, 0x3F, 0x2F), (0x83, 0x83, 0x00), (0x2A, 0x2A, 0x9F),
     (0x9D, 0x9D, 0x9E), (0x20, 0x20, 0x00), (0x84, 0x84, 0x00), (0x87, 0x87, 0x00),
     (0x88, 0x88, 0x00), (0x89, 0x89, 0x00), (0x8A, 0x8A, 0x00), (0x8B, 0x8B, 0x00),
     (0x8C, 0x8C, 0x00), (0x8D, 0x8C, 0x00), (0x8E, 0x8D, 0x00), (0x8F, 0x8E, 0x00),
     (0x90, 0x8F, 0x00), (0x85, 0x85, 0x00), (0x86, 0x86, 0xA0), (0x37, 0x37, 0x93),
     (0x38, 0x38, 0x97), (0x39, 0x39, 0x95), (0x2D, 0x2D, 0x00), (0x34, 0x34, 0x99),
     (0x35, 0x35, 0x00), (0x36, 0x36, 0x9A), (0x2B, 0x2B, 0x00), (0x31, 0x31, 0x94),
     (0x32, 0x32, 0x98), (0x33, 0x33, 0x96), (0x30, 0x30, 0x9B), (0x2E, 0x2E, 0x9C)]"

definition Keyboard_IsKeyPressed :: "byte \<Rightarrow> keyboard \<Rightarrow> bool" where
  "Keyboard_IsKeyPressed k kb = (if unat k < KEY_MAX then keyDown kb ! unat k else False)"

text \<open>\<^term>\<open>None\<close> is an access outside a table.\<close>

definition KeyboardTranslate :: "KeyEvent \<Rightarrow> keyboard \<Rightarrow> (KeyEvent \<times> keyboard) option" where
  "KeyboardTranslate event kb =
     (let code = scancode event AND 0x7F;
          event = event\<lparr>pressed := scancode event AND 0x80 = 0\<rparr>
      in do {
        (event, kb) \<leftarrow>
          (if scancode event = 0xE0 then Some (event, kb\<lparr>escape := True\<rparr>)
           else if unat code \<ge> KEY_MAX then Some (event, kb)
           else if length kbmap \<le> unat code then None
           else (case kbmap ! unat code of (normal, shifted, escaped) \<Rightarrow>
             if escape kb
             then Some (event\<lparr>rawKey := escaped, key := escaped\<rparr>, kb\<lparr>escape := False\<rparr>)
             else Some (event\<lparr>rawKey := normal,
               key := (if Keyboard_IsKeyPressed KEY_LSHIFT kb \<or> Keyboard_IsKeyPressed KEY_RSHIFT kb
                       then shifted else normal)\<rparr>, kb)));
        if length (keyDown kb) \<le> unat (rawKey event) then None
        else Some (event, kb\<lparr>keyDown := (keyDown kb)[unat (rawKey event) := pressed event]\<rparr>)
      })"

text \<open>The interrupt handler: the byte is what the controller reads; the registered handler gets the
  event.\<close>

definition KeyboardHandlerInternal :: "byte \<Rightarrow> keyboard \<Rightarrow> (KeyEvent \<times> keyboard) option" where
  "KeyboardHandlerInternal b kb =
     KeyboardTranslate \<lparr>scancode = b, rawKey = 0, key = 0, pressed = False\<rparr> kb"

text \<open>A run of interrupts, with the events that the handler gets.\<close>

fun keyboard_run :: "byte list \<Rightarrow> keyboard \<Rightarrow> (KeyEvent list \<times> keyboard) option" where
  "keyboard_run [] kb = Some ([], kb)"
| "keyboard_run (b # bs) kb = do {
     (e, kb) \<leftarrow> KeyboardHandlerInternal b kb;
     (es, kb) \<leftarrow> keyboard_run bs kb;
     Some (e # es, kb)
   }"

text \<open>The state of the driver before the first interrupt: all memory is zero.\<close>

definition keyboard0 :: keyboard where
  "keyboard0 = \<lparr>escape = False, keyDown = replicate KEY_MAX False\<rparr>"

section \<open>The table\<close>

lemma length_kbmap: "length kbmap = 84"
  by (simp add: kbmap_def)

lemma kbmap_keys_all:
  "list_all (\<lambda>(n, sh, e). n < 0xA1 \<and> sh < 0xA1 \<and> e < 0xA1) kbmap"
  by (simp add: kbmap_def)

lemma kbmap_keys:
  assumes "kbmap ! i = (n, sh, e)" and "i < 84"
  shows "unat n < KEY_MAX" "unat sh < KEY_MAX" "unat e < KEY_MAX"
proof -
  have "(n, sh, e) \<in> set kbmap" using assms length_kbmap by (metis nth_mem)
  with kbmap_keys_all have "n < 0xA1 \<and> sh < 0xA1 \<and> e < 0xA1" by (auto simp: list_all_iff)
  then show "unat n < KEY_MAX" "unat sh < KEY_MAX" "unat e < KEY_MAX"
    by (simp_all add: KEY_MAX_def word_less_nat_alt)
qed

section \<open>What a sequence of scancodes means\<close>

text \<open>A byte that the table covers: the prefix of an escape sequence, or the make or break code of one
  of its 84 rows.\<close>

definition supported :: "byte \<Rightarrow> bool" where
  "supported b \<longleftrightarrow> b = 0xE0 \<or> unat (b AND 0x7F) < 84"

text \<open>Whether a key is down after some events: what the last event for it says.\<close>

definition key_down :: "byte \<Rightarrow> KeyEvent list \<Rightarrow> bool" where
  "key_down k es = (case rev (filter (\<lambda>e. rawKey e = k) es) of [] \<Rightarrow> False | e # _ \<Rightarrow> pressed e)"

definition shift_down :: "KeyEvent list \<Rightarrow> bool" where
  "shift_down es \<longleftrightarrow> key_down KEY_LSHIFT es \<or> key_down KEY_RSHIFT es"

text \<open>The table of the driver agrees with the events so far.\<close>

definition keys_agree :: "KeyEvent list \<Rightarrow> keyboard \<Rightarrow> bool" where
  "keys_agree es kb \<longleftrightarrow> length (keyDown kb) = KEY_MAX \<and>
     (\<forall>k. unat k < KEY_MAX \<longrightarrow> keyDown kb ! unat k = key_down k es)"

lemma key_down_snoc: "key_down k (es @ [e]) = (if rawKey e = k then pressed e else key_down k es)"
  by (simp add: key_down_def)

lemma keys_agree_snoc:
  "keys_agree es kb \<Longrightarrow> unat (rawKey e) < KEY_MAX \<Longrightarrow>
     keys_agree (es @ [e]) (kb\<lparr>keyDown := (keyDown kb)[unat (rawKey e) := pressed e]\<rparr>)"
  by (auto simp: keys_agree_def key_down_snoc nth_list_update dest: unsigned_word_eqI)

lemma keys_agree_pressed:
  "keys_agree es kb \<Longrightarrow> Keyboard_IsKeyPressed KEY_LSHIFT kb \<or> Keyboard_IsKeyPressed KEY_RSHIFT kb \<longleftrightarrow>
     shift_down es"
proof -
  assume "keys_agree es kb"
  then have "Keyboard_IsKeyPressed k kb = key_down k es" if "unat k < KEY_MAX" for k
    using that by (simp add: keys_agree_def Keyboard_IsKeyPressed_def)
  from this[of KEY_LSHIFT] this[of KEY_RSHIFT] show ?thesis
    by (simp add: shift_down_def KEY_LSHIFT_def KEY_RSHIFT_def KEY_MAX_def)
qed

text \<open>One interrupt.\<close>

definition event_of :: "KeyEvent list \<Rightarrow> bool \<Rightarrow> byte \<Rightarrow> KeyEvent" where
  "event_of es esc b =
     (if b = 0xE0 then \<lparr>scancode = b, rawKey = 0, key = 0, pressed = False\<rparr>
      else case kbmap ! unat (b AND 0x7F) of (normal, shifted, escaped) \<Rightarrow>
        \<lparr>scancode = b, rawKey = (if esc then escaped else normal),
         key = (if esc then escaped else if shift_down es then shifted else normal),
         pressed = (b AND 0x80 = 0)\<rparr>)"

lemma handler_event:
  assumes "keys_agree es kb" and "supported b"
  shows "\<exists>kb'. KeyboardHandlerInternal b kb = Some (event_of es (escape kb) b, kb') \<and>
    keys_agree (es @ [event_of es (escape kb) b]) kb' \<and> escape kb' = (b = 0xE0)"
proof -
  have len: "length (keyDown kb) = KEY_MAX" using assms(1) by (simp add: keys_agree_def)
  then have ne: "keyDown kb \<noteq> []" by (auto simp: KEY_MAX_def)
  have agree: "keys_agree es (kb\<lparr>escape := x\<rparr>)" for x using assms(1) by (simp add: keys_agree_def)
  show ?thesis
  proof (cases "b = 0xE0")
    case True
    have e: "event_of es (escape kb) b = \<lparr>scancode = b, rawKey = 0, key = 0, pressed = False\<rparr>"
      using True by (simp add: event_of_def)
    with keys_agree_snoc[OF agree[of True], of "event_of es (escape kb) b"] True len ne show ?thesis
      by (simp add: KeyboardHandlerInternal_def KeyboardTranslate_def Let_def KEY_MAX_def)
  next
    case False
    with assms(2) have c: "unat (b AND 0x7F) < 84" by (simp add: supported_def)
    obtain n sh e where row: "kbmap ! unat (b AND 0x7F) = (n, sh, e)" by (metis prod_cases3)
    note keys = kbmap_keys[OF row c]
    let ?e = "event_of es (escape kb) b"
    have ev: "?e = \<lparr>scancode = b, rawKey = (if escape kb then e else n),
        key = (if escape kb then e else if shift_down es then sh else n), pressed = (b AND 0x80 = 0)\<rparr>"
      using False row by (simp add: event_of_def)
    then have raw: "unat (rawKey ?e) < KEY_MAX" using keys by simp
    have same: "(if escape kb then kb\<lparr>escape := False\<rparr> else kb) = kb\<lparr>escape := False\<rparr>" by simp
    have "KeyboardHandlerInternal b kb =
        Some (?e, kb\<lparr>escape := False, keyDown := (keyDown kb)[unat (rawKey ?e) := pressed ?e]\<rparr>)"
      using False c keys len length_kbmap
      by (auto simp: KeyboardHandlerInternal_def KeyboardTranslate_def Let_def row ev
            keys_agree_pressed[OF assms(1)] KEY_MAX_def)
    with keys_agree_snoc[OF agree[of False] raw] False show ?thesis by simp
  qed
qed

lemma keyboard_run_agrees:
  "keys_agree es0 kb \<Longrightarrow> \<forall>b \<in> set bs. supported b \<Longrightarrow>
     \<exists>es kb'. keyboard_run bs kb = Some (es, kb') \<and> length es = length bs \<and> keys_agree (es0 @ es) kb' \<and>
       (\<forall>i < length bs. es ! i =
          event_of (es0 @ take i es) (if i = 0 then escape kb else bs ! (i - 1) = 0xE0) (bs ! i))"
proof (induction bs arbitrary: es0 kb)
  case (Cons b bs)
  let ?e = "event_of es0 (escape kb) b"
  obtain kb1 where kb1: "KeyboardHandlerInternal b kb = Some (?e, kb1)" "keys_agree (es0 @ [?e]) kb1"
    "escape kb1 = (b = 0xE0)" using handler_event[OF Cons.prems(1), of b] Cons.prems(2) by auto
  obtain es kb' where r: "keyboard_run bs kb1 = Some (es, kb')" "length es = length bs"
    "keys_agree ((es0 @ [?e]) @ es) kb'"
    "\<forall>i < length bs. es ! i = event_of ((es0 @ [?e]) @ take i es)
       (if i = 0 then escape kb1 else bs ! (i - 1) = 0xE0) (bs ! i)"
    using Cons.IH[OF kb1(2)] Cons.prems(2) by (metis list.set_intros(2))
  have "(?e # es) ! i = event_of (es0 @ take i (?e # es))
      (if i = 0 then escape kb else (b # bs) ! (i - 1) = 0xE0) ((b # bs) ! i)"
    if "i < length (b # bs)" for i
  proof (cases i)
    case (Suc j)
    with that r(4) kb1(3) show ?thesis by (cases j) auto
  qed simp
  with r kb1 show ?case by (intro exI[of _ "?e # es"] exI[of _ kb']) simp
qed simp

text \<open>C14: The keyboard driver keeps track of the keys. For every sequence of the scancodes that its
  table covers, from the start: all accesses stay inside the tables; there is one event per byte,
  with the key of the table row, in the column for escaped codes exactly after an escape prefix, in
  the column for shifted ones exactly when one of the shift keys is down; and a key is recorded as
  down exactly when the last event for it was a press.\<close>

theorem keyboard_follows_keys:
  assumes "\<forall>b \<in> set bs. supported b"
  shows "\<exists>es kb. keyboard_run bs keyboard0 = Some (es, kb) \<and> length es = length bs \<and>
     (\<forall>i < length bs. es ! i = event_of (take i es) (0 < i \<and> bs ! (i - 1) = 0xE0) (bs ! i)) \<and>
     (\<forall>k. unat k < KEY_MAX \<longrightarrow> Keyboard_IsKeyPressed k kb = key_down k es)"
proof -
  have "keys_agree [] keyboard0" by (simp add: keys_agree_def keyboard0_def key_down_def)
  from keyboard_run_agrees[OF this assms] obtain es kb where
    r: "keyboard_run bs keyboard0 = Some (es, kb)" "length es = length bs" "keys_agree es kb"
    "\<forall>i < length bs. es ! i =
       event_of (take i es) (if i = 0 then escape keyboard0 else bs ! (i - 1) = 0xE0) (bs ! i)" by auto
  have "es ! i = event_of (take i es) (0 < i \<and> bs ! (i - 1) = 0xE0) (bs ! i)" if "i < length bs" for i
    using r(4) that by (cases i) (auto simp: keyboard0_def)
  with r show ?thesis by (auto simp: keys_agree_def Keyboard_IsKeyPressed_def)
qed

text \<open>Left shift down, A down, A up, left shift up, then the escaped code of the right control key.\<close>

theorem keyboard_follows_keys_witness:
  "\<exists>es kb. keyboard_run [0x2A, 0x1E, 0x9E, 0xAA, 0xE0, 0x1D] keyboard0 = Some (es, kb) \<and>
     length es = 6 \<and> Keyboard_IsKeyPressed 0x82 kb = key_down 0x82 es"
proof -
  have "\<forall>b \<in> set [0x2A, 0x1E, 0x9E, 0xAA, 0xE0, 0x1D]. supported b" by (simp add: supported_def)
  from keyboard_follows_keys[OF this] obtain es kb where
    "keyboard_run [0x2A, 0x1E, 0x9E, 0xAA, 0xE0, 0x1D] keyboard0 = Some (es, kb)" "length es = 6"
    "\<forall>k. unat k < KEY_MAX \<longrightarrow> Keyboard_IsKeyPressed k kb = key_down k es" by auto
  moreover from this(3) have "Keyboard_IsKeyPressed 0x82 kb = key_down 0x82 es" by (simp add: KEY_MAX_def)
  ultimately show ?thesis by blast
qed

lemma shift_a_typed:
  "map_option (\<lambda>(es, kb). (map key es, Keyboard_IsKeyPressed 0x82 kb))
     (keyboard_run [0x2A, 0x1E, 0x9E, 0xAA, 0xE0, 0x1D] keyboard0) =
   Some ([0x81, 0x41, 0x41, 0x81, 0x00, 0x82], True)"
  by code_simp

text \<open>Every other scancode makes the driver read behind the end of its table: the bound that is
  checked is the number of key codes (161), which no 7-bit code reaches, and not the 84 rows. The keys
  F11 and F12 are such codes.\<close>

lemma scancode_outside_table:
  assumes "\<not> supported b"
  shows "KeyboardHandlerInternal b kb = None"
proof -
  have "unat (b AND 0x7F) \<le> unat (0x7F :: byte)" using word_and_le1[of b "0x7F"] by (simp only: word_le_nat_alt)
  with assms show ?thesis
    by (auto simp: KeyboardHandlerInternal_def KeyboardTranslate_def Let_def supported_def KEY_MAX_def
          length_kbmap)
qed

lemma scancode_outside_table_witness:
  "KeyboardHandlerInternal 0x57 keyboard0 = None"
  by (rule scancode_outside_table) (simp add: supported_def)

text \<open>With a shift key down, F7 to F10 give the code of the key before them.\<close>

lemma shifted_function_keys:
  "map_option (\<lambda>(es, kb). map (\<lambda>e. (rawKey e, key e)) (tl es))
     (keyboard_run [0x2A, 0x41, 0x42, 0x43, 0x44] keyboard0) =
   Some [(0x8D, 0x8C), (0x8E, 0x8D), (0x8F, 0x8E), (0x90, 0x8F)]"
  by code_simp

end
