(* ===== verification/Metalkit_Intr.thy ===== *)
theory Metalkit_Intr
  imports Metalkit_Keyboard
begin

text \<open>
  Interrupts and 8-bit ports of Metalkit: the interrupt table, its trampolines and the interrupt
  controllers (\<^verbatim>\<open>src/metalkit/lib/intr.c\<close>, \<^verbatim>\<open>intr.h\<close>), the timer (\<^verbatim>\<open>timer.c\<close>) and the handshake
  with the keyboard controller (\<^verbatim>\<open>keyboard.c\<close>).

  Reading a port takes the next of the bytes that the hardware delivers; every access is logged.
\<close>

section \<open>Ports\<close>

datatype port_access = In8 u16 byte | Out8 u16 byte

record ports =
  p_in :: "byte list"
  p_log :: "port_access list"

text \<open>\<^term>\<open>None\<close>: the hardware delivers no more, so the code still waits.\<close>

definition port_in8 :: "u16 \<Rightarrow> ports \<Rightarrow> (byte \<times> ports) option" where
  "port_in8 port s =
     (case p_in s of [] \<Rightarrow> None | v # vs \<Rightarrow> Some (v, s\<lparr>p_in := vs, p_log := p_log s @ [In8 port v]\<rparr>))"

definition port_out8 :: "u16 \<Rightarrow> byte \<Rightarrow> ports \<Rightarrow> ports" where
  "port_out8 port v s = s\<lparr>p_log := p_log s @ [Out8 port v]\<rparr>"

section \<open>The keyboard controller\<close>

text \<open>The loops that read the status port until it is ready.\<close>

function wait_status :: "(byte \<Rightarrow> bool) \<Rightarrow> ports \<Rightarrow> ports option" where
  "wait_status ready s =
     (case port_in8 0x64 s of
        None \<Rightarrow> None
      | Some (v, s) \<Rightarrow> if ready v then Some s else wait_status ready s)"
  by pat_completeness auto
termination
  by (relation "measure (\<lambda>(ready, s). length (p_in s))")
     (auto simp: port_in8_def split: list.splits)

declare wait_status.simps [simp del]

definition can_write :: "byte \<Rightarrow> bool" where
  "can_write v \<longleftrightarrow> v AND 2 = 0"

definition can_read :: "byte \<Rightarrow> bool" where
  "can_read v \<longleftrightarrow> v AND 1 \<noteq> 0"

definition KeyboardWrite :: "byte \<Rightarrow> ports \<Rightarrow> ports option" where
  "KeyboardWrite b s = do { s \<leftarrow> wait_status can_write s; Some (port_out8 0x60 b s) }"

definition KeyboardRead :: "ports \<Rightarrow> (byte \<times> ports) option" where
  "KeyboardRead s = do { s \<leftarrow> wait_status can_read s; port_in8 0x60 s }"

definition KeyboardWriteCB :: "byte \<Rightarrow> ports \<Rightarrow> ports option" where
  "KeyboardWriteCB b s = do {
     s \<leftarrow> wait_status can_write s;
     let s = port_out8 0x64 0x60 s;
     KeyboardWrite b s
   }"

definition KeyboardReadCB :: "ports \<Rightarrow> (byte \<times> ports) option" where
  "KeyboardReadCB s = do {
     s \<leftarrow> wait_status can_write s;
     let s = port_out8 0x64 0x20 s;
     KeyboardRead s
   }"

section \<open>The interrupt controllers\<close>

text \<open>The bit is an 8-bit value: it is 0 for an interrupt above 15.\<close>

definition Intr_SetMask :: "nat \<Rightarrow> bool \<Rightarrow> ports \<Rightarrow> ports option" where
  "Intr_SetMask irq enable s =
     (let bt = (if irq \<ge> 8 then push_bit (irq - 8) 1 else push_bit irq 1) :: byte;
          port = (if irq \<ge> 8 then 0xA1 else 0x21)
      in do {
        (mask, s) \<leftarrow> port_in8 port s;
        let mask = (if enable then mask AND NOT bt else mask OR bt);
        Some (port_out8 port mask s)
      })"

definition Timer_InitPIT :: "u16 \<Rightarrow> ports \<Rightarrow> ports" where
  "Timer_InitPIT divisor s =
     port_out8 0x40 (ucast (drop_bit 8 divisor))
       (port_out8 0x40 (ucast (divisor AND 0xFF)) (port_out8 0x43 0x34 s))"

section \<open>The interrupt table\<close>

record IDTType =
  offsetLowSeg :: u32
  flagsOffsetHigh :: u32

record IntrTrampolineType =
  code1 :: u16
  t_arg :: u32
  code2 :: byte
  t_handler :: u32
  code3 :: u32
  code4 :: u32
  code5 :: u32
  code6 :: u32
  code7 :: u32
  code8 :: u32

record intr =
  IDT :: "IDTType list"
  IntrTrampoline :: "IntrTrampolineType list"
  i_enabled :: bool
  i_ports :: ports

definition NUM_INTR_VECTORS :: nat where "NUM_INTR_VECTORS = 256"
definition NUM_FAULT_VECTORS :: nat where "NUM_FAULT_VECTORS = 0x20"
definition IRQ_VECTOR_BASE :: nat where "IRQ_VECTOR_BASE = NUM_FAULT_VECTORS"
definition BOOT_CODE_SEG :: u32 where "BOOT_CODE_SEG = 0x08"

text \<open>A trampoline is a packed structure of 35 bytes; \<open>base\<close> is the address of the array.\<close>

definition trampoline_addr :: "u32 \<Rightarrow> nat \<Rightarrow> u32" where
  "trampoline_addr base i = base + 35 * of_nat i"

definition idt_entry :: "u32 \<Rightarrow> IDTType" where
  "idt_entry trampolineAddr = \<lparr>
     offsetLowSeg = (trampolineAddr AND 0x0000FFFF) OR push_bit 16 BOOT_CODE_SEG,
     flagsOffsetHigh = (trampolineAddr AND 0xFFFF0000) OR 0x00008E00\<rparr>"

definition trampoline_init :: "u32 \<Rightarrow> nat \<Rightarrow> IntrTrampolineType" where
  "trampoline_init defaultHandler i = \<lparr>
     code1 = 0x6860, t_arg = of_nat i, code2 = 0xb8, t_handler = defaultHandler,
     code3 = 0x8b58d0ff, code4 = 0x8d0c247c, code5 = 0x83282474, code6 = 0xa5fd08c7,
     code7 = 0x8b61a5a5, code8 = 0xcfec2464\<rparr>"

text \<open>The writes that set up the two interrupt controllers.\<close>

definition pitInit :: "(u16 \<times> byte) list" where
  "pitInit = [(0x20, 0x11), (0xA0, 0x11), (0x21, of_nat IRQ_VECTOR_BASE),
     (0xA1, of_nat IRQ_VECTOR_BASE + 8), (0x21, 0x04), (0xA1, 0x02), (0x21, 0x03), (0xA1, 0x03),
     (0x21, 0xEB), (0xA1, 0xFF)]"

fun init_loop :: "u32 \<Rightarrow> u32 \<Rightarrow> nat \<Rightarrow> nat \<Rightarrow> intr \<Rightarrow> intr" where
  "init_loop base defaultHandler i 0 s = s"
| "init_loop base defaultHandler i (Suc n) s =
     init_loop base defaultHandler (Suc i) n
       (s\<lparr>IDT := (IDT s)[i := idt_entry (trampoline_addr base i)],
          IntrTrampoline := (IntrTrampoline s)[i := trampoline_init defaultHandler i]\<rparr>)"

definition Intr_Init :: "u32 \<Rightarrow> u32 \<Rightarrow> intr \<Rightarrow> intr" where
  "Intr_Init base defaultHandler s =
     (let s = s\<lparr>i_enabled := False\<rparr>;
          s = init_loop base defaultHandler 0 NUM_INTR_VECTORS s;
          s = s\<lparr>i_ports := fold (\<lambda>(port, v). port_out8 port v) pitInit (i_ports s)\<rparr>
      in s\<lparr>i_enabled := True\<rparr>)"

definition Intr_SetHandler :: "nat \<Rightarrow> u32 \<Rightarrow> intr \<Rightarrow> intr option" where
  "Intr_SetHandler vector handler s =
     (if vector < length (IntrTrampoline s)
      then Some (s\<lparr>IntrTrampoline := (IntrTrampoline s)
             [vector := (IntrTrampoline s ! vector)\<lparr>t_handler := handler\<rparr>]\<rparr>)
      else None)"

fun set_handlers :: "nat \<Rightarrow> nat \<Rightarrow> u32 \<Rightarrow> intr \<Rightarrow> intr option" where
  "set_handlers vector 0 handler s = Some s"
| "set_handlers vector (Suc n) handler s = do {
     s \<leftarrow> Intr_SetHandler vector handler s;
     set_handlers (Suc vector) n handler s
   }"

definition Intr_SetFaultHandlers :: "u32 \<Rightarrow> intr \<Rightarrow> intr option" where
  "Intr_SetFaultHandlers handler s = set_handlers 0 NUM_FAULT_VECTORS handler s"

text \<open>Setting up the keyboard; \<open>handler\<close> is the address of its interrupt handler.\<close>

definition Keyboard_Init :: "u32 \<Rightarrow> intr \<Rightarrow> intr option" where
  "Keyboard_Init handler s = do {
     (cb, p) \<leftarrow> KeyboardReadCB (i_ports s);
     p \<leftarrow> KeyboardWriteCB (cb OR 1) p;
     p \<leftarrow> Intr_SetMask 1 True p;
     Intr_SetHandler (1 + IRQ_VECTOR_BASE) handler (s\<lparr>i_ports := p\<rparr>)
   }"

section \<open>What an interrupt runs\<close>

text \<open>The parts of a gate, as the processor reads it: where it leads, in which segment, and its
  flags.\<close>

definition gate_parts :: "IDTType \<Rightarrow> u32 \<times> u16 \<times> u16" where
  "gate_parts g = ((flagsOffsetHigh g AND 0xFFFF0000) OR (offsetLowSeg g AND 0xFFFF),
     ucast (drop_bit 16 (offsetLowSeg g)), ucast (flagsOffsetHigh g))"

fun le_bytes :: "nat \<Rightarrow> u32 \<Rightarrow> byte list" where
  "le_bytes 0 w = []"
| "le_bytes (Suc n) w = ucast w # le_bytes n (drop_bit 8 w)"

text \<open>The packed structure as bytes of machine code.\<close>

definition trampoline_bytes :: "IntrTrampolineType \<Rightarrow> byte list" where
  "trampoline_bytes t = le_bytes 2 (ucast (code1 t)) @ le_bytes 4 (t_arg t) @ [code2 t] @
     le_bytes 4 (t_handler t) @ le_bytes 4 (code3 t) @ le_bytes 4 (code4 t) @ le_bytes 4 (code5 t) @
     le_bytes 4 (code6 t) @ le_bytes 4 (code7 t) @ le_bytes 4 (code8 t)"

text \<open>The code that the comment of \<^verbatim>\<open>intr.c\<close> lists: save the registers, push the number, call the
  handler, and return on the stack that the saved stack pointer names.\<close>

definition trampoline_code :: "nat \<Rightarrow> u32 \<Rightarrow> byte list" where
  "trampoline_code vector handler =
     [0x60] @ [0x68] @ le_bytes 4 (of_nat vector) @ [0xb8] @ le_bytes 4 handler @
     [0xff, 0xd0] @ [0x58] @ [0x8b, 0x7c, 0x24, 0x0c] @ [0x8d, 0x74, 0x24, 0x28] @ [0x83, 0xc7, 0x08] @
     [0xfd] @ [0xa5] @ [0xa5] @ [0xa5] @ [0x61] @ [0x8b, 0x64, 0x24, 0xec] @ [0xcf]"

lemma le_bytes_2: "le_bytes 2 w = [ucast w, ucast (drop_bit 8 w)]"
  by (simp add: numeral_2_eq_2)

lemma le_bytes_4: "le_bytes 4 w = [ucast w, ucast (drop_bit 8 w), ucast (drop_bit 16 w), ucast (drop_bit 24 w)]"
  by (simp add: eval_nat_numeral drop_bit_drop_bit)

lemma trampoline_init_code:
  "trampoline_bytes ((trampoline_init d v)\<lparr>t_handler := h\<rparr>) = trampoline_code v h"
  by (simp add: trampoline_bytes_def trampoline_init_def trampoline_code_def le_bytes_2 le_bytes_4)

lemma halves:
  "bit (0xFFFF0000 :: u32) n \<longleftrightarrow> 16 \<le> n \<and> n < 32" "bit (0xFFFF :: u32) n \<longleftrightarrow> n < 16"
  "bit (0x8E00 :: u32) n \<Longrightarrow> n < 16" "bit (8 :: u32) n \<Longrightarrow> n < 16"
proof -
  have hi: "(0xFFFF0000 :: u32) = push_bit 16 (mask 16)" and lo: "(0xFFFF :: u32) = mask 16"
    and w: "(0x8E00 :: u32) = take_bit 16 0x8E00" "(8 :: u32) = take_bit 16 8"
    by (simp_all add: mask_eq_exp_minus_1)
  show "bit (0xFFFF0000 :: u32) n \<longleftrightarrow> 16 \<le> n \<and> n < 32"
    unfolding hi by (auto simp: bit_push_bit_iff bit_mask_iff)
  show "bit (0xFFFF :: u32) n \<longleftrightarrow> n < 16" unfolding lo by (auto simp: bit_mask_iff)
  show "bit (0x8E00 :: u32) n \<Longrightarrow> n < 16" using w(1) bit_take_bit_iff[of 16 "0x8E00 :: u32" n] by metis
  show "bit (8 :: u32) n \<Longrightarrow> n < 16" using w(2) bit_take_bit_iff[of 16 "8 :: u32" n] by metis
qed

lemma idt_entry_parts: "gate_parts (idt_entry a) = (a, 8, 0x8E00)"
proof -
  have "((a AND 0xFFFF0000 OR 0x8E00) AND 0xFFFF0000) OR ((a AND 0xFFFF OR push_bit 16 8) AND 0xFFFF) = a"
  proof (rule bit_word_eqI)
    fix n assume "n < LENGTH(32)"
    then show "bit (((a AND 0xFFFF0000 OR 0x8E00) AND 0xFFFF0000) OR
        ((a AND 0xFFFF OR push_bit 16 8) AND 0xFFFF)) n = bit a n"
      using halves(1)[of n] halves(2)[of n] halves(3)[of n]
      by (simp only: bit_or_iff bit_and_iff bit_push_bit_iff) auto
  qed
  moreover have "(ucast (drop_bit 16 ((a AND 0xFFFF) OR push_bit 16 8)) :: u16) = 8"
  proof (rule bit_word_eqI)
    fix n assume "n < LENGTH(16)"
    moreover have "bit (8 :: u16) n = bit (8 :: u32) n" if "n < 16"
      using that bit_unsigned_iff[of "8 :: u16" n, where 'a = "32 word"] by simp
    ultimately show "bit (ucast (drop_bit 16 ((a AND 0xFFFF) OR push_bit 16 8)) :: u16) n = bit (8 :: u16) n"
      using halves(2)[of "16 + n"] halves(4)[of n]
      by (simp only: bit_unsigned_iff bit_drop_bit_eq comp_apply bit_or_iff bit_and_iff bit_push_bit_iff) auto
  qed
  moreover have "(ucast ((a AND 0xFFFF0000) OR 0x8E00) :: u16) = 0x8E00"
  proof (rule bit_word_eqI)
    fix n assume "n < LENGTH(16)"
    moreover have "bit (0x8E00 :: u16) n = bit (0x8E00 :: u32) n" if "n < 16"
      using that bit_unsigned_iff[of "0x8E00 :: u16" n, where 'a = "32 word"] by simp
    ultimately show "bit (ucast ((a AND 0xFFFF0000) OR 0x8E00) :: u16) n = bit (0x8E00 :: u16) n"
      using halves(1)[of n] by (simp only: bit_unsigned_iff bit_or_iff bit_and_iff) auto
  qed
  ultimately show ?thesis by (simp only: gate_parts_def idt_entry_def BOOT_CODE_SEG_def IDTType.simps)
qed

lemma init_loop_tables:
  "length (IDT (init_loop base d i n s)) = length (IDT s)"
  "length (IntrTrampoline (init_loop base d i n s)) = length (IntrTrampoline s)"
  "j < length (IDT s) \<Longrightarrow> IDT (init_loop base d i n s) ! j =
     (if i \<le> j \<and> j < i + n then idt_entry (trampoline_addr base j) else IDT s ! j)"
  "j < length (IntrTrampoline s) \<Longrightarrow> IntrTrampoline (init_loop base d i n s) ! j =
     (if i \<le> j \<and> j < i + n then trampoline_init d j else IntrTrampoline s ! j)"
  by (induction base d i n s rule: init_loop.induct)
     (auto simp: nth_list_update le_antisym not_less_eq_eq)

text \<open>A sequence of calls that install handlers, and the handler that a vector has then.\<close>

fun install :: "(nat \<times> u32) list \<Rightarrow> intr \<Rightarrow> intr option" where
  "install [] s = Some s"
| "install ((v, h) # hs) s = do { s \<leftarrow> Intr_SetHandler v h s; install hs s }"

fun handler_after :: "u32 \<Rightarrow> (nat \<times> u32) list \<Rightarrow> nat \<Rightarrow> u32" where
  "handler_after h [] v = h"
| "handler_after h ((w, h') # hs) v = handler_after (if w = v then h' else h) hs v"

lemma install_tables:
  "\<forall>(v, h) \<in> set hs. v < length (IntrTrampoline s) \<Longrightarrow>
     \<forall>v < length (IntrTrampoline s). IntrTrampoline s ! v = (trampoline_init d v)\<lparr>t_handler := f v\<rparr> \<Longrightarrow>
     \<exists>s'. install hs s = Some s' \<and> IDT s' = IDT s \<and> length (IntrTrampoline s') = length (IntrTrampoline s) \<and>
       i_enabled s' = i_enabled s \<and>
       (\<forall>v < length (IntrTrampoline s).
          IntrTrampoline s' ! v = (trampoline_init d v)\<lparr>t_handler := handler_after (f v) hs v\<rparr>)"
proof (induction hs arbitrary: s f)
  case (Cons a hs)
  obtain w h where a: "a = (w, h)" by (cases a)
  have w: "w < length (IntrTrampoline s)" using Cons.prems(1) a by simp
  let ?s = "s\<lparr>IntrTrampoline := (IntrTrampoline s)[w := (IntrTrampoline s ! w)\<lparr>t_handler := h\<rparr>]\<rparr>"
  have "\<forall>v < length (IntrTrampoline ?s). IntrTrampoline ?s ! v =
      (trampoline_init d v)\<lparr>t_handler := (if w = v then h else f v)\<rparr>"
    using Cons.prems(2) w by (auto simp: nth_list_update)
  moreover have "\<forall>(v, h) \<in> set hs. v < length (IntrTrampoline ?s)" using Cons.prems(1) by simp
  ultimately obtain s' where "install hs ?s = Some s'" "IDT s' = IDT ?s"
    "length (IntrTrampoline s') = length (IntrTrampoline ?s)" "i_enabled s' = i_enabled ?s"
    "\<forall>v < length (IntrTrampoline ?s). IntrTrampoline s' ! v =
       (trampoline_init d v)\<lparr>t_handler := handler_after (if w = v then h else f v) hs v\<rparr>"
    using Cons.IH[of ?s "\<lambda>v. if w = v then h else f v"] by blast
  with w a show ?case by (simp add: Intr_SetHandler_def)
qed simp

text \<open>C28: Every interrupt runs the handler that was installed last. After the initialisation and any
  calls that install handlers for vectors of the table: the processor finds, for each of the 256
  vectors, a present 32-bit interrupt gate into the trampoline of that vector, and the bytes there are
  the machine code that the comment in the source lists, with the number of the vector and the
  address of its latest handler (the default one when none was installed) in their places.\<close>

theorem interrupts_dispatch:
  assumes "length (IDT s) = 256" and "length (IntrTrampoline s) = 256"
    and "\<forall>(v, h) \<in> set hs. v < 256"
  shows "\<exists>s'. install hs (Intr_Init base d s) = Some s' \<and> i_enabled s' \<and>
     (\<forall>v < 256. gate_parts (IDT s' ! v) = (trampoline_addr base v, 8, 0x8E00) \<and>
        trampoline_bytes (IntrTrampoline s' ! v) = trampoline_code v (handler_after d hs v))"
proof -
  let ?i = "Intr_Init base d s"
  have len: "length (IntrTrampoline ?i) = 256" "length (IDT ?i) = 256"
    using assms(1,2) by (simp_all add: Intr_Init_def Let_def init_loop_tables)
  have tr: "\<forall>v < length (IntrTrampoline ?i).
      IntrTrampoline ?i ! v = (trampoline_init d v)\<lparr>t_handler := d\<rparr>"
    using assms(2) unfolding len(1)
    by (simp add: Intr_Init_def Let_def init_loop_tables NUM_INTR_VECTORS_def trampoline_init_def)
  have gates: "gate_parts (IDT ?i ! v) = (trampoline_addr base v, 8, 0x8E00)" if "v < 256" for v
    using assms(1) that
    by (simp add: Intr_Init_def Let_def init_loop_tables NUM_INTR_VECTORS_def idt_entry_parts)
  obtain s' where s': "install hs ?i = Some s'" "IDT s' = IDT ?i" "i_enabled s' = i_enabled ?i"
    "\<forall>v < 256. IntrTrampoline s' ! v = (trampoline_init d v)\<lparr>t_handler := handler_after d hs v\<rparr>"
    using install_tables[OF _ tr, of hs] assms(3) len(1) by auto
  then show ?thesis using gates by (auto simp: trampoline_init_code Intr_Init_def Let_def)
qed

definition intr0 :: intr where
  "intr0 = \<lparr>IDT = replicate 256 \<lparr>offsetLowSeg = 0, flagsOffsetHigh = 0\<rparr>,
     IntrTrampoline = replicate 256 \<lparr>code1 = 0, t_arg = 0, code2 = 0, t_handler = 0, code3 = 0,
       code4 = 0, code5 = 0, code6 = 0, code7 = 0, code8 = 0\<rparr>,
     i_enabled = False, i_ports = \<lparr>p_in = [], p_log = []\<rparr>\<rparr>"

theorem interrupts_dispatch_witness:
  "\<exists>s'. install [(33, 0x1000), (33, 0x2000)] (Intr_Init 0x8000 0x500 intr0) = Some s' \<and>
     gate_parts (IDT s' ! 33) = (trampoline_addr 0x8000 33, 8, 0x8E00) \<and>
     trampoline_bytes (IntrTrampoline s' ! 33) = trampoline_code 33 0x2000"
proof -
  obtain s' where "install [(33, 0x1000), (33, 0x2000)] (Intr_Init 0x8000 0x500 intr0) = Some s'"
    "\<forall>v < 256. gate_parts (IDT s' ! v) = (trampoline_addr 0x8000 v, 8, 0x8E00) \<and>
       trampoline_bytes (IntrTrampoline s' ! v) =
         trampoline_code v (handler_after 0x500 [(33, 0x1000), (33, 0x2000)] v)"
    using interrupts_dispatch[of intr0 "[(33, 0x1000), (33, 0x2000)]" "0x8000" "0x500"]
    by (auto simp: intr0_def)
  then show ?thesis by (intro exI[of _ s']) simp
qed

text \<open>The fault handler gets the first 32 vectors.\<close>

lemma set_handlers_install: "set_handlers v n h s = install (map (\<lambda>i. (i, h)) [v..<v + n]) s"
  by (induction v n h s rule: set_handlers.induct)
     (auto simp: upt_conv_Cons simp del: upt_Suc split: Option.bind_split)

section \<open>Setting up the keyboard\<close>

lemma wait_status_busy:
  "\<forall>v \<in> set busy. \<not> ready v \<Longrightarrow> ready v \<Longrightarrow> p_in s = busy @ v # rest \<Longrightarrow>
     wait_status ready s =
       Some (s\<lparr>p_in := rest, p_log := p_log s @ map (In8 0x64) (busy @ [v])\<rparr>)"
proof (induction busy arbitrary: s)
  case Nil
  then show ?case by (subst wait_status.simps) (simp add: port_in8_def)
next
  case (Cons b busy)
  then show ?case by (subst wait_status.simps) (simp add: port_in8_def)
qed

text \<open>The keyboard is set up in step with its controller. However long the controller stays busy
  before each byte - \<open>w1\<close> to \<open>w4\<close> are the status bytes read in vain - the driver waits until it may
  write or read: the command byte is asked for, read, and written back with the interrupt bit set;
  then exactly the keyboard's bit is cleared in the mask of the first interrupt controller, and the
  handler of vector 33 is installed.\<close>

lemma keyboard_init_handshake:
  assumes "\<forall>v \<in> set (w1 @ w3 @ w4). \<not> can_write v" and "\<forall>v \<in> set w2. \<not> can_read v"
    and "can_write r1" and "can_read r2" and "can_write r3" and "can_write r4"
    and "p_in (i_ports s) = w1 @ [r1] @ w2 @ [r2, cb] @ w3 @ [r3] @ w4 @ [r4, pic] @ rest"
    and "33 < length (IntrTrampoline s)"
  shows "\<exists>s'. Keyboard_Init h s = Some s' \<and> t_handler (IntrTrampoline s' ! 33) = h \<and>
     p_in (i_ports s') = rest \<and>
     p_log (i_ports s') = p_log (i_ports s) @
       map (In8 0x64) (w1 @ [r1]) @ [Out8 0x64 0x20] @ map (In8 0x64) (w2 @ [r2]) @ [In8 0x60 cb] @
       map (In8 0x64) (w3 @ [r3]) @ [Out8 0x64 0x60] @ map (In8 0x64) (w4 @ [r4]) @ [Out8 0x60 (cb OR 1)] @
       [In8 0x21 pic, Out8 0x21 (pic AND NOT 2)]"
proof -
  let ?p = "i_ports s"
  note w = wait_status_busy
  have rd: "KeyboardReadCB ?p = Some (cb, ?p\<lparr>p_in := w3 @ [r3] @ w4 @ [r4, pic] @ rest,
      p_log := p_log ?p @ map (In8 0x64) (w1 @ [r1]) @ [Out8 0x64 0x20] @ map (In8 0x64) (w2 @ [r2]) @
        [In8 0x60 cb]\<rparr>)"
    using assms by (simp add: KeyboardReadCB_def KeyboardRead_def w[of w1 _ r1] w[of w2 _ r2] port_out8_def port_in8_def)
  have wr: "KeyboardWriteCB b (?p\<lparr>p_in := w3 @ [r3] @ w4 @ [r4, pic] @ rest, p_log := l\<rparr>) =
      Some (?p\<lparr>p_in := pic # rest, p_log := l @ map (In8 0x64) (w3 @ [r3]) @ [Out8 0x64 0x60] @
        map (In8 0x64) (w4 @ [r4]) @ [Out8 0x60 b]\<rparr>)" for b l
    using assms by (simp add: KeyboardWriteCB_def KeyboardWrite_def w[of w3 _ r3] w[of w4 _ r4] port_out8_def)
  show ?thesis
    using assms(8)
    by (simp add: Keyboard_Init_def rd wr[simplified] Intr_SetMask_def port_in8_def port_out8_def Intr_SetHandler_def
          IRQ_VECTOR_BASE_def NUM_FAULT_VECTORS_def)
qed

lemma keyboard_init_handshake_witness:
  "\<exists>s'. Keyboard_Init 0x1234 (intr0\<lparr>i_ports := \<lparr>p_in = [2, 0, 0, 0, 1, 0x44, 0, 0, 0xFB], p_log = []\<rparr>\<rparr>) = Some s' \<and>
     p_log (i_ports s') = [In8 0x64 2, In8 0x64 0, Out8 0x64 0x20, In8 0x64 0, In8 0x64 0, In8 0x64 1,
       In8 0x60 0x44, In8 0x64 0, Out8 0x64 0x60, In8 0x64 0, Out8 0x60 0x45, In8 0x21 0xFB, Out8 0x21 0xF9]"
  using keyboard_init_handshake[of "[2]" "[]" "[]" "[0, 0]" 0 1 0 0
      "intr0\<lparr>i_ports := \<lparr>p_in = [2, 0, 0, 0, 1, 0x44, 0, 0, 0xFB], p_log = []\<rparr>\<rparr>" "0x44" "0xFB" "[]" "0x1234"]
  by (auto simp: can_write_def can_read_def intr0_def)

end
