(* ===== verification/Spec2Isabelle.thy ===== *)
theory Spec2Isabelle
  imports Rcpod_Serial Rcpod_Bus Rcpod_Device Rwand_Chardev Uvswitch_Run Ipipe_List Ipipe_Mirror Ipipe_Run Ipipe_Connect
    Gchub_Props Unicone_Link Unicone_Tool Motion_Shortest Motion_Search Metalkit_Terminal Metalkit_Pci Metalkit_Intr
begin

text \<open>
  Eight systems of the navi-misc repository whose C code carries a protocol, a state machine, a shared structure or an
  algorithm, and what makes them correct. Each operation of the code is a function of the same name on the state the code keeps;
  the properties are numbered C1 to C40.

  \<^bold>\<open>librcpod\<close> (\<^verbatim>\<open>rcpod/src\<close>, \<^verbatim>\<open>rcpod/include\<close>), the host library of a USB microcontroller board. Every
  operation sends control requests through libusb, which is the parameter \<open>usb\<close>.
  \<^item> \<open>Rcpod_Command\<close>: \<^verbatim>\<open>struct tag_rcpod_dev\<close> (record \<open>pod\<close>), memory, pin and analog commands of \<^verbatim>\<open>command.c\<close>.
  \<^item> \<open>Rcpod_Protocol\<close>: the board behind the requests as \<^verbatim>\<open>rcpod_protocol.h\<close> documents it. Locale \<open>pod_memory\<close>
    carries the block transfers, locale \<open>gpio_port\<close> the pins. Poke then peek gives the block back; asserting a list of
    pins asserts each in order.
  \<^item> \<open>Rcpod_Serial\<close>: baud rates and the receive ring with its 8-bit counter, in every interleaving of arrivals and calls.
  \<^item> \<open>Rcpod_I2C\<close>, \<open>Rcpod_Bus\<close>: the I2C master of \<^verbatim>\<open>i2c.c\<close>, bit by bit on two wires with a slave; the log of the
    wires is decoded as a receiver would.
  \<^item> \<open>Rcpod_Device\<close>: scanning, opening, resetting and closing (\<^verbatim>\<open>device.c\<close>).

  \<^bold>\<open>The Raster Wand driver\<close> (\<^verbatim>\<open>rasterwand/kernel/rwand.c\<close>, \<^verbatim>\<open>include/rwand_dev.h\<close>), a Linux driver of a persistence
  of vision display.
  \<^item> \<open>Rwand_Filter\<close>: the averaging filter of the period. \<open>Rwand_Timing\<close>: the fixed point timings.
  \<^item> \<open>Rwand_State\<close>: what a status packet does; \<open>Rwand_Run\<close>: runs of packets and writes, their invariant, progress
    to the running state.
  \<^item> \<open>Usb_Chardev\<close>: the lifecycle that USB character devices share, as a locale that a driver's handlers refine;
    \<open>Rwand_Chardev\<close>: the file operations, interpreted in it, and the sleeping write.

  \<^bold>\<open>The USB video switch driver\<close> (\<^verbatim>\<open>wasabi/devices/uvswitch/kernel/uvswitch.c\<close>).
  \<^item> \<open>Uvswitch_Dev\<close>: switch requests, the video detector, automatic switching. \<open>Uvswitch_File\<close>: the file operations,
    with the text protocol of write and read. \<open>Uvswitch_Run\<close>: the lifecycle (second interpretation of \<open>usb_chardev\<close>),
    the invariant of runs, the protocol's properties.

  \<^bold>\<open>The Gamecube controller hub driver\<close> (\<^verbatim>\<open>wasabi/devices/gchub/kernel/gchub.c\<close>), for Linux 2.6.
  \<^item> \<open>Gchub_Dev\<close>: the structures, packets from the hub, calibration, registration by scheduled work, outputs. Every
    section that holds a spin lock is a definition of its own.
  \<^item> \<open>Gchub_Sync\<close>: those sections interleaved, for any number of threads and the completion interrupt: one request
    at a time, no update lost, every run settles (a measure), and what a failed submission does. A thread by itself is
    the handler of \<open>Gchub_Dev\<close>.
  \<^item> \<open>Gchub_Effects\<close>: the effect slots refine a map. \<open>Gchub_Run\<close>: runs of the whole driver and the invariant of a
    port; \<open>Gchub_Usb\<close>: probe and disconnect; \<open>Gchub_Props\<close>: the properties.

  \<^bold>\<open>The Unicone controller emulator\<close> (\<^verbatim>\<open>wasabi/devices/unicone\<close>, \<^verbatim>\<open>tusb/src/usb_driver.c\<close>): a USB device whose
  firmware and FPGA are loaded by the host, and told apart by their SHA-1 digests.
  \<^item> \<open>Unicone_Sha1\<close>: \<^verbatim>\<open>sha1.c\<close> with its buffer of two blocks; \<open>Unicone_Sha1_Spec\<close>: SHA-1 as the standard has it, the
    circular schedule against the recursive one, what a context stands for; \<open>Unicone_Sha1_Props\<close>: every sequence of
    pieces and every stream gets the standard's digest, and the standard's example evaluated.
  \<^item> \<open>Unicone_Bitfile\<close>: the reader of Xilinx bit files and its round trip.
  \<^item> \<open>Tusb_Usb\<close>: the USB driver in the device: control transfers that the host reads to their end, and bulk buffers.
    \<open>Unicone_Firmware\<close>: vendor requests, the FPGA's pins as a log that a model of its serial input reads, I2C writes, and
    the main loop in steps, between which packets and requests arrive.
  \<^item> \<open>Unicone_Host\<close>: opening, reconnecting, comparing versions, uploading and configuring, over the functions of libusb;
    \<open>Unicone_Tool\<close>: the loader. \<open>Unicone_Protocol\<close>: the numbers they share.
  \<^item> \<open>Unicone_Link\<close>: host and device together, over a chip whose boot loader is an argument with its documented check of
    length and checksum; locale \<open>bulk_pipe\<close> is a transfer in blocks, interpreted on the boot loader and on the FPGA's
    endpoint. Configuring installs both files and does nothing the second time; and what goes wrong otherwise.

  \<^bold>\<open>inputpipe\<close> (\<^verbatim>\<open>inputpipe/src\<close>), input devices over the network.
  \<^item> \<open>Ipipe_Packet\<close>: \<^verbatim>\<open>struct packet_socket\<close>, writing, flushing and reading packets (\<^verbatim>\<open>packet.c\<close>); what is
    written refines the concatenation of the packets' encodings.
  \<^item> \<open>Ipipe_Convert\<close>: the structures in network byte order, with their round trips.
  \<^item> \<open>Ipipe_Server\<close>: \<^verbatim>\<open>struct client\<close> and every packet and event of \<^verbatim>\<open>server.c\<close>; \<open>Ipipe_Serve\<close>: what they do to the
    uinput device, and that no packet but one with a bad axis leaves an array.
  \<^item> \<open>Ipipe_Client\<close>: the description of a device, its events, the requests of the server and the choice of devices
    (\<^verbatim>\<open>client.c\<close>). \<open>Ipipe_Mirror\<close>: client and server together.
  \<^item> \<open>Ipipe_List\<close>: the two doubly linked lists in an explicit heap; locale \<open>poll_list\<close> is the loop that polls while
    elements delete themselves, interpreted on both.
  \<^item> \<open>Ipipe_Poll\<close>: the receive loops end; locale \<open>receive_loop\<close>, interpreted on the server's and on the client's.

  \<^item> \<open>Ipipe_Run\<close>: the server's main loop over any sequence of readiness, packets and disconnections, with the
    invariant of its state. \<open>Ipipe_Connect\<close>: the client's command line, its connection attempts, the scan of
    \<^verbatim>\<open>/dev/input\<close> for new devices and its event loop, with every descriptor accounted for.

  \<^bold>\<open>The motion graph searches\<close> (\<^verbatim>\<open>motion/py/Graph/*.c\<close>), an extension of Python.
  \<^item> \<open>Motion_Graph\<close>: the copies of the Python graphs as hash tables (association lists), the probability of a path;
    edges, walks and reachability. \<open>Motion_Dijkstra\<close>: the shortest-path search, in which GLib's sort and the order of
    a hash table are arguments with their documented behaviour. \<open>Motion_Shortest\<close>: the invariant of the agenda; the
    search returns a shortest walk, never forges one, and where it does not return.
  \<^item> \<open>Motion_Search\<close>: the depth-limited search, which equals a fold over the list of the paths that end in the goal
    and so finds a most probable path for every length.

  \<^bold>\<open>Metalkit\<close> (\<^verbatim>\<open>metalkit/lib\<close>), a library for programs without an operating system.
  \<^item> \<open>Metalkit_Console\<close>: numbers, formats, hex dumps and the fault report, over a record of the five functions that a
    console has (\<^verbatim>\<open>gConsole\<close>). \<open>Metalkit_Print\<close>: the text they write, numbers that read back; locales \<open>console\<close> and
    \<open>panic_console\<close> state what a console promises.
  \<^item> \<open>Metalkit_Vga\<close>, \<open>Metalkit_Terminal\<close>: the VGA console; the screen refines an unbounded document, and the two
    locales are interpreted on it.
  \<^item> \<open>Metalkit_Keyboard\<close>: scancodes and keys. \<open>Metalkit_Intr\<close>: interrupt table, trampolines, controllers, and the
    handshake with the keyboard controller. \<open>Metalkit_Pci\<close>: the scan for devices.

  \<open>Prelude\<close> holds the C arithmetic and the lemmas on lists and options that these share.

  \<^bold>\<open>Conventions.\<close> A C \<^verbatim>\<open>int\<close> is an \<^typ>\<open>int\<close> with overflow visible; unsigned fields are words. A \<^verbatim>\<open>long\<close> and
  \<^verbatim>\<open>jiffies\<close> have 32 bits, as on the machines the code was written for. \<^term>\<open>None\<close> of an operation is undefined
  behaviour (overflow, division by zero, an index outside an array, freed memory) or a failed assertion; errors the
  code reports are values. Answers of the environment (USB transfers, the kernel's ioctls, allocation, what is in a
  variable before it is set) are arguments or lists of results in the state. Handlers of a driver run one at a time,
  as its semaphores make them; the outputs of the Gamecube hub, which have only spin locks, are interleaved step by step.

  \<^bold>\<open>Fuel.\<close> The receive loops of inputpipe take one unit for each packet; their callers give one more than the bytes that
  have arrived, and \<open>receive_loops_end\<close> shows that more changes nothing. The loop over a linked list takes one for each
  element and one for the end, and \<open>poll_visits_every_client\<close> shows that this is enough. The agenda of
  the shortest-path search takes one unit for each node, and is started with as many as it has; the loop of a tab has
  seven, which \<open>terminal_shows_document\<close> shows to be enough. \<open>walk_back\<close>, \<open>PCI_ScanBus\<close> and
  \<open>find_device_loop\<close> are partial functions, whose \<^term>\<open>None\<close> is a run without end: the first has such runs
  (\<open>dijkstra_search_loops\<close>), the others have none. All other loops are structural or have a measure.

  \<^bold>\<open>Not modelled.\<close> The firmware in assembly, usage texts, the sockets behind a descriptor, \<^verbatim>\<open>select\<close>, the server's
  options and uinput itself (a patched Linux driver), module registration, the front ends of the Raster Wand, reference
  counts of Python objects, Metalkit's context switch, boot code and BIOS calls. Of the rest of the repository, the
  remaining wasabi drivers and the smaller projects are listed in the manifest with the reason; the vendored libraries
  are not this repository's program.
\<close>

end
